(* ===== verification/Prelude.thy ===== *)
theory Prelude
  imports Main "HOL-Library.AList"
begin

text \<open>
  Shared vocabulary of the development: JavaScript statements that may throw, the event loop
  that runs them, and the automation the component theories build on.

  A method of the program is a \<open>stmt\<close> over the state it touches: it returns the exception it
  threw, if any, and the state it left behind. A thrown exception keeps the mutations made
  before it, as in the source; nothing is rolled back.
\<close>

section \<open>Statements that may throw\<close>

datatype exn =
    InvalidCharacterError \<comment> \<open>\<open>atob\<close> on a string that is not base64\<close>
  | TypeError
  | RangeError            \<comment> \<open>\<open>toISOString\<close> on an invalid date\<close>
  | SyntaxError           \<comment> \<open>\<open>JSON.parse\<close>\<close>
  | InvalidStateError     \<comment> \<open>\<open>WebSocket.send\<close> while connecting\<close>
  | SelectorError         \<comment> \<open>jQuery: unrecognized expression\<close>
  | PluginError           \<comment> \<open>jQuery: \<open>$.error\<close>\<close>
  | Unresponsive          \<comment> \<open>no exception: a loop that does not end, until the browser stops it\<close>

type_synonym 's stmt = "'s \<Rightarrow> exn option \<times> 's"

definition skip :: "'s stmt" where
  "skip s = (None, s)"

definition upd :: "('s \<Rightarrow> 's) \<Rightarrow> 's stmt" where
  "upd f s = (None, f s)"

definition throw :: "exn \<Rightarrow> 's stmt" where
  "throw e s = (Some e, s)"

definition seq :: "'s stmt \<Rightarrow> 's stmt \<Rightarrow> 's stmt" where
  "seq m n s = (case m s of (Some e, t) \<Rightarrow> (Some e, t) | (None, t) \<Rightarrow> n t)"

fun block :: "'s stmt list \<Rightarrow> 's stmt" where
  "block [] = skip"
| "block (m # ms) = seq m (block ms)"

definition ite :: "('s \<Rightarrow> bool) \<Rightarrow> 's stmt \<Rightarrow> 's stmt \<Rightarrow> 's stmt" where
  "ite c m n s = (if c s then m s else n s)"

definition guard :: "('s \<Rightarrow> bool) \<Rightarrow> 's stmt \<Rightarrow> 's stmt" where
  "guard c m = ite c m skip"

text \<open>Evaluate an expression of the state, then continue with its value.\<close>

definition bind_val :: "('s \<Rightarrow> 'a) \<Rightarrow> ('a \<Rightarrow> 's stmt) \<Rightarrow> 's stmt" where
  "bind_val f k s = k (f s) s"

text \<open>The same for an expression that may throw.\<close>

definition bind_exp :: "('s \<Rightarrow> exn + 'a) \<Rightarrow> ('a \<Rightarrow> 's stmt) \<Rightarrow> 's stmt" where
  "bind_exp f k s = (case f s of Inl e \<Rightarrow> (Some e, s) | Inr a \<Rightarrow> k a s)"

text \<open>A loop over the elements of a list computed beforehand.\<close>

fun for_each :: "'a list \<Rightarrow> ('a \<Rightarrow> 's stmt) \<Rightarrow> 's stmt" where
  "for_each [] body = skip"
| "for_each (x # xs) body = seq (body x) (for_each xs body)"

text \<open>Run a statement on a part of a larger state.\<close>

definition on_part :: "('t \<Rightarrow> 's) \<Rightarrow> (('s \<Rightarrow> 's) \<Rightarrow> 't \<Rightarrow> 't) \<Rightarrow> 's stmt \<Rightarrow> 't stmt" where
  "on_part get update m t = (let (x, s') = m (get t) in (x, update (\<lambda>_. s') t))"

text \<open>
  The event loop runs one handler to completion after another. An exception that leaves a
  handler is reported by the browser and ends that handler only.
\<close>

fun run_events :: "('e \<Rightarrow> 's stmt) \<Rightarrow> 'e list \<Rightarrow> 's \<Rightarrow> 's" where
  "run_events h [] s = s"
| "run_events h (e # es) s = run_events h es (snd (h e s))"

section \<open>Reasoning about statements\<close>

named_theorems stmt_simps "unfold statements on a concrete state"
named_theorems pres_intro "an invariant is kept by a statement, exceptional exits included"
named_theorems frame_intro "a statement leaves a view of the state alone"

lemmas [stmt_simps] = skip_def upd_def throw_def ite_def guard_def bind_val_def bind_exp_def

lemma seq_if: "seq m n s = (if fst (m s) = None then n (snd (m s)) else m s)"
  by (cases "m s"; cases "fst (m s)") (auto simp: seq_def)

lemma seq_skip [simp]: "seq skip m = m" "seq m skip = m"
  by (auto simp: fun_eq_iff seq_def skip_def split: prod.splits option.splits)

lemma seq_throw [simp]: "seq (throw e) m = throw e"
  by (simp add: fun_eq_iff seq_def throw_def)

lemma seq_assoc: "seq (seq a b) c = seq a (seq b c)"
  by (auto simp: fun_eq_iff seq_def split: prod.splits option.splits)

lemma seq_upd [stmt_simps]: "seq (upd f) m s = m (f s)"
  by (simp add: seq_def upd_def)

lemma bind_exp_value [simp]: "bind_exp (\<lambda>_. Inr a) k = k a" "bind_exp (\<lambda>_. Inl e) k = throw e"
  by (simp_all add: fun_eq_iff bind_exp_def throw_def)

lemma seq_None: "m s = (None, t) \<Longrightarrow> seq m n s = n t"
  by (simp add: seq_def)

lemma seq_Some: "m s = (Some e, t) \<Longrightarrow> seq m n s = (Some e, t)"
  by (simp add: seq_def)

lemma block_append: "block (ms @ ns) = seq (block ms) (block ns)"
  by (induction ms) (simp_all add: seq_assoc)

lemma for_each_append: "for_each (xs @ ys) body = seq (for_each xs body) (for_each ys body)"
  by (induction xs) (simp_all add: seq_assoc)

lemma run_events_append: "run_events h (es @ fs) s = run_events h fs (run_events h es s)"
  by (induction es arbitrary: s) simp_all

subsection \<open>Invariants\<close>

definition preserves :: "('s \<Rightarrow> bool) \<Rightarrow> 's stmt \<Rightarrow> bool" where
  "preserves P m \<longleftrightarrow> (\<forall>s. P s \<longrightarrow> P (snd (m s)))"

lemma preservesI: "(\<And>s. P s \<Longrightarrow> P (snd (m s))) \<Longrightarrow> preserves P m"
  by (simp add: preserves_def)

lemma preservesD: "preserves P m \<Longrightarrow> P s \<Longrightarrow> P (snd (m s))"
  by (simp add: preserves_def)

lemma preserves_skip [pres_intro]: "preserves P skip"
  by (simp add: preserves_def skip_def)

lemma preserves_throw [pres_intro]: "preserves P (throw e)"
  by (simp add: preserves_def throw_def)

lemma preserves_upd: "(\<And>s. P s \<Longrightarrow> P (f s)) \<Longrightarrow> preserves P (upd f)"
  by (simp add: preserves_def upd_def)

lemma preserves_seq [pres_intro]: "preserves P m \<Longrightarrow> preserves P n \<Longrightarrow> preserves P (seq m n)"
  by (simp add: preserves_def seq_if)

lemma preserves_block [pres_intro]: "list_all (preserves P) ms \<Longrightarrow> preserves P (block ms)"
  by (induction ms) (simp_all add: preserves_skip preserves_seq)

lemma preserves_list_all_Nil [pres_intro]: "list_all (preserves P) []"
  by simp

lemma preserves_list_all_Cons [pres_intro]:
  "preserves P m \<Longrightarrow> list_all (preserves P) ms \<Longrightarrow> list_all (preserves P) (m # ms)"
  by simp

lemma preserves_ite [pres_intro]: "preserves P m \<Longrightarrow> preserves P n \<Longrightarrow> preserves P (ite c m n)"
  by (simp add: preserves_def ite_def)

lemma preserves_guard [pres_intro]: "preserves P m \<Longrightarrow> preserves P (guard c m)"
  by (simp add: guard_def pres_intro)

lemma preserves_bind_val [pres_intro]: "(\<And>a. preserves P (k a)) \<Longrightarrow> preserves P (bind_val f k)"
  by (simp add: preserves_def bind_val_def)

lemma preserves_bind_exp [pres_intro]: "(\<And>a. preserves P (k a)) \<Longrightarrow> preserves P (bind_exp f k)"
  by (auto simp: preserves_def bind_exp_def split: sum.splits)

lemma preserves_for_each [pres_intro]: "(\<And>x. preserves P (b x)) \<Longrightarrow> preserves P (for_each xs b)"
  by (induction xs) (simp_all add: preserves_skip preserves_seq)

text \<open>Conditionals and case distinctions on values that are known before the statement runs.\<close>

named_theorems pres_cases "invariants of statements chosen by a value"

lemma preserves_if [pres_cases]: "preserves P m \<Longrightarrow> preserves P n \<Longrightarrow> preserves P (if b then m else n)"
  by simp

lemma preserves_case_option [pres_cases]:
  "preserves P m \<Longrightarrow> (\<And>a. preserves P (k a)) \<Longrightarrow> preserves P (case x of None \<Rightarrow> m | Some a \<Rightarrow> k a)"
  by (cases x) simp_all

lemma preserves_case_prod [pres_cases]:
  "(\<And>a b. preserves P (k a b)) \<Longrightarrow> preserves P (case x of (a, b) \<Rightarrow> k a b)"
  by (cases x) simp

lemma preserves_case_list [pres_cases]:
  "preserves P m \<Longrightarrow> (\<And>a as. preserves P (k a as)) \<Longrightarrow> preserves P (case x of [] \<Rightarrow> m | a # as \<Rightarrow> k a as)"
  by (cases x) simp_all

lemma preserves_case_sum [pres_cases]:
  "(\<And>e. preserves P (m e)) \<Longrightarrow> (\<And>a. preserves P (k a)) \<Longrightarrow> preserves P (case x of Inl e \<Rightarrow> m e | Inr a \<Rightarrow> k a)"
  by (cases x) simp_all

lemma preserves_run_events: "(\<And>e. preserves P (h e)) \<Longrightarrow> P s \<Longrightarrow> P (run_events h es s)"
  by (induction es arbitrary: s) (auto simp: preserves_def)

subsection \<open>Frames\<close>

text \<open>A view of the state that a statement leaves alone, whether it throws or not.\<close>

definition keeps :: "('s \<Rightarrow> 'a) \<Rightarrow> 's stmt \<Rightarrow> bool" where
  "keeps v m \<longleftrightarrow> (\<forall>s. v (snd (m s)) = v s)"

lemma keepsD: "keeps v m \<Longrightarrow> v (snd (m s)) = v s"
  by (simp add: keeps_def)

lemma keeps_result: "keeps v m \<Longrightarrow> m s = (x, t) \<Longrightarrow> v t = v s"
  by (metis keepsD snd_conv)

lemma keeps_skip [frame_intro]: "keeps v skip"
  by (simp add: keeps_def skip_def)

lemma keeps_throw [frame_intro]: "keeps v (throw e)"
  by (simp add: keeps_def throw_def)

lemma keeps_upd: "(\<And>s. v (f s) = v s) \<Longrightarrow> keeps v (upd f)"
  by (simp add: keeps_def upd_def)

lemma keeps_seq [frame_intro]: "keeps v m \<Longrightarrow> keeps v n \<Longrightarrow> keeps v (seq m n)"
  by (simp add: keeps_def seq_if)

lemma keeps_block [frame_intro]: "list_all (keeps v) ms \<Longrightarrow> keeps v (block ms)"
  by (induction ms) (simp_all add: keeps_skip keeps_seq)

lemma keeps_list_all_Nil [frame_intro]: "list_all (keeps v) []"
  by simp

lemma keeps_list_all_Cons [frame_intro]:
  "keeps v m \<Longrightarrow> list_all (keeps v) ms \<Longrightarrow> list_all (keeps v) (m # ms)"
  by simp

lemma keeps_ite [frame_intro]: "keeps v m \<Longrightarrow> keeps v n \<Longrightarrow> keeps v (ite c m n)"
  by (simp add: keeps_def ite_def)

lemma keeps_guard [frame_intro]: "keeps v m \<Longrightarrow> keeps v (guard c m)"
  by (simp add: guard_def frame_intro)

lemma keeps_bind_val [frame_intro]: "(\<And>a. keeps v (k a)) \<Longrightarrow> keeps v (bind_val f k)"
  by (simp add: keeps_def bind_val_def)

lemma keeps_bind_exp [frame_intro]: "(\<And>a. keeps v (k a)) \<Longrightarrow> keeps v (bind_exp f k)"
  by (auto simp: keeps_def bind_exp_def split: sum.splits)

lemma keeps_for_each [frame_intro]: "(\<And>x. keeps v (b x)) \<Longrightarrow> keeps v (for_each xs b)"
  by (induction xs) (simp_all add: keeps_skip keeps_seq)

lemma keeps_imp_preserves: "keeps v m \<Longrightarrow> preserves (\<lambda>s. Q (v s)) m"
  by (simp add: keeps_def preserves_def)

subsection \<open>Statements that do not throw\<close>

definition total :: "'s stmt \<Rightarrow> bool" where
  "total m \<longleftrightarrow> (\<forall>s. fst (m s) = None)"

named_theorems total_intro "a statement never throws"

lemma totalD: "total m \<Longrightarrow> m s = (None, snd (m s))"
  by (metis prod.collapse total_def)

lemma total_skip [total_intro]: "total skip"
  by (simp add: total_def skip_def)

lemma total_upd [total_intro]: "total (upd f)"
  by (simp add: total_def upd_def)

lemma total_seq [total_intro]: "total m \<Longrightarrow> total n \<Longrightarrow> total (seq m n)"
  by (simp add: total_def seq_if)

lemma total_block [total_intro]: "list_all total ms \<Longrightarrow> total (block ms)"
  by (induction ms) (simp_all add: total_skip total_seq)

lemma total_list_all_Nil [total_intro]: "list_all total []"
  by simp

lemma total_list_all_Cons [total_intro]: "total m \<Longrightarrow> list_all total ms \<Longrightarrow> list_all total (m # ms)"
  by simp

lemma total_ite [total_intro]: "total m \<Longrightarrow> total n \<Longrightarrow> total (ite c m n)"
  by (simp add: total_def ite_def)

lemma total_guard [total_intro]: "total m \<Longrightarrow> total (guard c m)"
  by (simp add: guard_def total_intro)

lemma total_bind_val [total_intro]: "(\<And>a. total (k a)) \<Longrightarrow> total (bind_val f k)"
  by (simp add: total_def bind_val_def)

lemma total_for_each [total_intro]: "(\<And>x. total (b x)) \<Longrightarrow> total (for_each xs b)"
  by (induction xs) (simp_all add: total_skip total_seq)

lemma total_seq_eq: "total m \<Longrightarrow> seq m n s = n (snd (m s))"
  by (simp add: total_def seq_if)

subsection \<open>Weakest preconditions\<close>

text \<open>
  \<open>wp m Q E s\<close>: from \<open>s\<close> the statement ends normally in a state with \<open>Q\<close>, or throws in a state
  with \<open>E\<close>. The equations below compute it through the structure of a statement.
\<close>

definition wp :: "'s stmt \<Rightarrow> ('s \<Rightarrow> bool) \<Rightarrow> ('s \<Rightarrow> bool) \<Rightarrow> 's \<Rightarrow> bool" where
  "wp m Q E s = (case m s of (None, t) \<Rightarrow> Q t | (Some _, t) \<Rightarrow> E t)"

named_theorems wp_simps "equations for weakest preconditions"

lemma wp_skip [wp_simps]: "wp skip Q E s = Q s"
  and wp_upd [wp_simps]: "wp (upd f) Q E s = Q (f s)"
  and wp_throw [wp_simps]: "wp (throw e) Q E s = E s"
  by (simp_all add: wp_def skip_def upd_def throw_def)

lemma wp_seq [wp_simps]: "wp (seq m n) Q E s = wp m (wp n Q E) E s"
  by (auto simp: wp_def seq_def split: prod.splits option.splits)

lemma wp_block_Nil [wp_simps]: "wp (block []) Q E s = Q s"
  and wp_block_Cons [wp_simps]: "wp (block (m # ms)) Q E s = wp m (wp (block ms) Q E) E s"
  by (simp_all add: wp_skip wp_seq)

lemma wp_ite [wp_simps]: "wp (ite c m n) Q E s = (if c s then wp m Q E s else wp n Q E s)"
  and wp_guard [wp_simps]: "wp (guard c m) Q E s = (if c s then wp m Q E s else Q s)"
  and wp_bind_val [wp_simps]: "wp (bind_val f k) Q E s = wp (k (f s)) Q E s"
  and wp_bind_exp [wp_simps]: "wp (bind_exp g k) Q E s = (case g s of Inl e \<Rightarrow> E s | Inr a \<Rightarrow> wp (k a) Q E s)"
  by (auto simp: wp_def ite_def guard_def skip_def bind_val_def bind_exp_def split: sum.splits)

lemma wp_for_each_Nil [wp_simps]: "wp (for_each [] b) Q E s = Q s"
  and wp_for_each_Cons [wp_simps]: "wp (for_each (x # xs) b) Q E s = wp (b x) (wp (for_each xs b) Q E) E s"
  by (simp_all add: wp_skip wp_seq)

lemma wp_mono: "wp m Q E s \<Longrightarrow> (\<And>t. Q t \<Longrightarrow> Q' t) \<Longrightarrow> (\<And>t. E t \<Longrightarrow> E' t) \<Longrightarrow> wp m Q' E' s"
  by (auto simp: wp_def split: prod.splits option.splits)

lemma wp_conj: "wp m Q E s \<Longrightarrow> wp m Q' E' s \<Longrightarrow> wp m (\<lambda>t. Q t \<and> Q' t) (\<lambda>t. E t \<and> E' t) s"
  by (auto simp: wp_def split: prod.splits option.splits)

lemma wp_same: "wp m Q Q s = Q (snd (m s))"
  by (auto simp: wp_def split: prod.splits option.splits)

lemma wp_total: "total m \<Longrightarrow> wp m Q E s = Q (snd (m s))"
  by (simp add: wp_def total_def split: prod.splits option.splits) (metis fst_conv option.distinct(1))

lemma wp_keeps: "keeps v m \<Longrightarrow> wp m (\<lambda>t. v t = v s) (\<lambda>t. v t = v s) s"
  by (simp add: wp_same keepsD)

lemma wp_normal: "wp m Q (\<lambda>_. False) s \<Longrightarrow> \<exists>t. m s = (None, t) \<and> Q t"
  by (auto simp: wp_def split: prod.splits option.splits)

lemma wp_normal_both:
  assumes "wp m Q (\<lambda>_. False) s" "wp m Q' (\<lambda>_. False) s"
  shows "\<exists>t. m s = (None, t) \<and> Q t \<and> Q' t"
  using wp_normal [OF assms(1)] wp_normal [OF assms(2)] by auto

lemma wp_for_each:
  assumes "I (0::nat) s" and "\<And>i t. i < length xs \<Longrightarrow> I i t \<Longrightarrow> wp (b (xs ! i)) (I (Suc i)) E t"
  shows "wp (for_each xs b) (I (length xs)) E s"
  using assms
proof (induction xs arbitrary: s I)
  case Nil
  then show ?case by (simp add: wp_skip)
next
  case (Cons x xs)
  have "wp (b x) (I 1) E s" using Cons.prems(2) [of 0 s] Cons.prems(1) by simp
  then show ?case
    unfolding wp_for_each_Cons
  proof (rule wp_mono)
    fix t assume "I 1 t"
    have "wp (for_each xs b) ((\<lambda>i. I (Suc i)) (length xs)) E t"
    proof (rule Cons.IH)
      show "I (Suc 0) t" using \<open>I 1 t\<close> by simp
      fix i t assume "i < length xs" "I (Suc i) t"
      then show "wp (b (xs ! i)) (I (Suc (Suc i))) E t"
        using Cons.prems(2) [of "Suc i" t] by simp
    qed
    then show "wp (for_each xs b) (I (length (x # xs))) E t" by simp
  qed
qed

subsection \<open>Steps within an order\<close>

text \<open>
  A preorder on states that every step of a statement follows: the state only grows, or only
  loses something, whether the statement ends or throws. A component names its preorder once and
  gets the rules for all ways to put statements together.
\<close>

locale step_order =
  fixes below :: "'s \<Rightarrow> 's \<Rightarrow> bool"
  assumes below_refl: "below s s"
    and below_trans: "below u t \<Longrightarrow> below t s \<Longrightarrow> below u s"
begin

definition within :: "'s stmt \<Rightarrow> bool" where
  "within m \<longleftrightarrow> (\<forall>s. below (snd (m s)) s)"

lemma withinD: "within m \<Longrightarrow> below (snd (m s)) s"
  by (simp add: within_def)

lemma within_skip: "within skip" and within_throw: "within (throw e)"
  by (simp_all add: within_def skip_def throw_def below_refl)

lemma within_upd: "(\<And>s. below (f s) s) \<Longrightarrow> within (upd f)"
  by (simp add: within_def upd_def)

lemma within_seq: "within m \<Longrightarrow> within n \<Longrightarrow> within (seq m n)"
proof -
  assume m: "within m" and n: "within n"
  have "below (snd (n (snd (m s)))) s" for s
    by (rule below_trans [OF withinD [OF n] withinD [OF m]])
  with m show "within (seq m n)" by (simp add: within_def seq_if)
qed

lemma within_Nil: "list_all within []" and within_Cons: "within m \<Longrightarrow> list_all within ms \<Longrightarrow> list_all within (m # ms)"
  by simp_all

lemma within_block: "list_all within ms \<Longrightarrow> within (block ms)"
  by (induction ms) (simp_all add: within_skip within_seq)

lemma within_ite: "within m \<Longrightarrow> within n \<Longrightarrow> within (ite c m n)"
  and within_if: "within m \<Longrightarrow> within n \<Longrightarrow> within (if b then m else n)"
  and within_guard: "within m \<Longrightarrow> within (guard c m)"
  and within_bind_val: "(\<And>a. within (k a)) \<Longrightarrow> within (bind_val f k)"
  by (simp_all add: within_def ite_def guard_def bind_val_def skip_def below_refl)

lemma within_bind_exp: "(\<And>a. within (k a)) \<Longrightarrow> within (bind_exp g k)"
  by (auto simp: within_def bind_exp_def below_refl split: sum.splits)

lemma within_case_option: "within m \<Longrightarrow> (\<And>a. within (k a)) \<Longrightarrow> within (case x of None \<Rightarrow> m | Some a \<Rightarrow> k a)"
  by (cases x) simp_all

lemma within_case_prod: "(\<And>a b. within (k a b)) \<Longrightarrow> within (case x of (a, b) \<Rightarrow> k a b)"
  by (cases x) simp

lemma within_case_list: "within m \<Longrightarrow> (\<And>a as. within (k a as)) \<Longrightarrow> within (case x of [] \<Rightarrow> m | a # as \<Rightarrow> k a as)"
  by (cases x) simp_all

lemmas within_intro = within_skip within_throw within_seq within_block within_Nil within_Cons within_ite
  within_if within_guard within_bind_val within_bind_exp within_case_option within_case_prod within_case_list

lemma below_fold: "(\<And>x s. below (f x s) s) \<Longrightarrow> below (fold f xs s) s"
proof (induction xs arbitrary: s)
  case (Cons x xs)
  from below_trans [OF Cons.IH [OF Cons.prems] Cons.prems] show ?case by simp
qed (simp add: below_refl)

end

section \<open>Association lists as objects\<close>

text \<open>
  A JavaScript object with string keys is an association list in insertion order: reading is
  \<open>map_of\<close>, assignment is \<open>AList.update\<close> (an existing key keeps its place, a new one goes
  to the end), \<open>delete\<close> is \<open>AList.delete\<close>.
\<close>

lemma map_of_update [simp]: "map_of (AList.update k v xs) k' = (if k' = k then Some v else map_of xs k')"
  by (simp add: update_conv')

lemma map_of_delete [simp]: "map_of (AList.delete k xs) k' = (if k' = k then None else map_of xs k')"
  by (simp add: delete_conv')

end
