(* ===== verification/JS_Number.thy ===== *)
theory JS_Number
  imports Complex_Main Prelude
begin

text \<open>
  JavaScript numbers as the program uses them: IEEE doubles with round-to-nearest-even on every
  operation, \<open>NaN\<close> and the infinities, \<open>toFixed\<close>, \<open>parseInt\<close>, \<open>parseFloat\<close> and conversion to
  strings. A finite double is the rational it denotes; the two zeros are one value (no code of
  the program can tell them apart: a division by either ends in \<open>parseInt\<close>, which gives \<open>NaN\<close>).
\<close>

section \<open>Rounding to a double\<close>

text \<open>Nearest integer, ties to even.\<close>

definition rne :: "rat \<Rightarrow> int" where
  "rne q = (let f = \<lfloor>q\<rfloor>; d = q - of_int f in
     if d < 1/2 then f else if d > 1/2 then f + 1 else if even f then f else f + 1)"

text \<open>Bits of a non-negative integer.\<close>

function blen :: "int \<Rightarrow> nat" where
  "blen n = (if n \<le> 0 then 0 else Suc (blen (n div 2)))"
  by pat_completeness auto
termination
  by (relation "measure nat") auto

declare blen.simps [simp del]

text \<open>The exponent of the leading bit of a positive rational.\<close>

definition ilog2 :: "rat \<Rightarrow> int" where
  "ilog2 q = (let (a, b) = quotient_of q; k = int (blen a) - int (blen b)
     in if (2::rat) powi k \<le> q then k else k - 1)"

text \<open>53 significant bits, subnormals below \<open>2 ^ -1022\<close>.\<close>

definition fl :: "rat \<Rightarrow> rat" where
  "fl q = (if q = 0 then 0 else
     let e = max (ilog2 \<bar>q\<bar> - 52) (- 1074) in of_int (rne (q / 2 powi e)) * 2 powi e)"

lemma rne_of_int [simp]: "rne (of_int n) = n"
  by (simp add: rne_def)

lemma rne_nonneg: "0 \<le> q \<Longrightarrow> 0 \<le> rne q"
  by (simp add: rne_def Let_def)

lemma rne_nonpos: "q \<le> 0 \<Longrightarrow> rne q \<le> 0"
proof -
  assume q: "q \<le> 0"
  show ?thesis
  proof (cases "q = 0")
    case True
    then show ?thesis using rne_of_int [of 0] by simp
  next
    case False
    with q have "\<lfloor>q\<rfloor> < 0" by simp
    then show ?thesis by (simp add: rne_def Let_def)
  qed
qed

lemma blen_pos: "0 < n \<Longrightarrow> 0 < blen n"
  by (subst blen.simps) simp

lemma blen_upper: "n < 2 ^ blen n"
proof (induction n rule: blen.induct)
  case (1 n)
  show ?case
  proof (cases "n \<le> 0")
    case True
    then show ?thesis by (simp add: blen.simps [of n] less_le_trans [of n 1])
  next
    case False
    with 1 have "n div 2 + 1 \<le> 2 ^ blen (n div 2)" by simp
    then have "n < 2 * 2 ^ blen (n div 2)" by linarith
    with False show ?thesis by (simp add: blen.simps [of n])
  qed
qed

lemma blen_lower: "0 < n \<Longrightarrow> 2 ^ (blen n - 1) \<le> n"
proof (induction n rule: blen.induct)
  case (1 n)
  show ?case
  proof (cases "n = 1")
    case True
    then show ?thesis by (simp add: blen.simps [of 1] blen.simps [of 0])
  next
    case False
    with "1.prems" have half: "0 < n div 2" by linarith
    with 1 have "2 ^ (blen (n div 2) - 1) \<le> n div 2" by simp
    moreover have "2 ^ blen (n div 2) = 2 * (2::int) ^ (blen (n div 2) - 1)"
      using blen_pos [OF half] by (simp add: power_eq_if)
    ultimately have "2 ^ blen (n div 2) \<le> n" by linarith
    with "1.prems" show ?thesis by (simp add: blen.simps [of n])
  qed
qed

lemma ilog2_lower:
  assumes "0 < q"
  shows "2 powi ilog2 q \<le> q"
proof -
  obtain a b where ab: "quotient_of q = (a, b)" by fastforce
  have b: "0 < b" using quotient_of_denom_pos [OF ab] .
  have q: "q = of_int a / of_int b" using quotient_of_div [OF ab] .
  have a: "0 < a" using assms b q by (simp add: zero_less_divide_iff)
  let ?k = "int (blen a) - int (blen b)"
  have "(2::rat) powi (?k - 1) \<le> q"
  proof -
    have 1: "(2::rat) ^ (blen a - 1) \<le> of_int a"
      using blen_lower [OF a] by (metis of_int_le_iff of_int_numeral of_int_power)
    have 2: "(of_int b :: rat) \<le> 2 ^ blen b"
      using blen_upper [of b] by (metis less_imp_le of_int_le_iff of_int_numeral of_int_power)
    have "?k - 1 = int (blen a - 1) - int (blen b)"
      using blen_pos [OF a] by simp
    then have "(2::rat) powi (?k - 1) = 2 powi int (blen a - 1) / 2 powi int (blen b)"
      by (metis power_int_diff zero_neq_numeral)
    also have "\<dots> = 2 ^ (blen a - 1) / 2 ^ blen b"
      by (simp only: power_int_of_nat)
    also have "\<dots> \<le> of_int a / of_int b"
      using 1 2 a b by (intro frac_le) auto
    finally show ?thesis using q by simp
  qed
  then show ?thesis by (simp add: ilog2_def ab Let_def)
qed

text \<open>Integers up to \<open>2 ^ 53\<close> are doubles.\<close>

lemma fl_of_int:
  assumes n: "\<bar>n\<bar> < 2 ^ 53"
  shows "fl (of_int n) = of_int n"
proof (cases "n = 0")
  case True
  then show ?thesis by (simp add: fl_def)
next
  case False
  let ?q = "of_int \<bar>n\<bar> :: rat"
  define e where "e = max (ilog2 ?q - 52) (- 1074)"
  have "2 powi ilog2 ?q \<le> ?q"
    using False by (intro ilog2_lower) simp
  also have "?q < 2 ^ 53"
    using n by (metis of_int_less_iff of_int_numeral of_int_power)
  also have "(2::rat) ^ 53 = 2 powi 53" by simp
  finally have "ilog2 ?q < 53"
    by (meson linorder_not_less one_le_numeral power_int_increasing)
  then have "e \<le> 0" by (simp add: e_def)
  then have eq: "(2::rat) powi e = 1 / 2 ^ nat (- e)"
    by (simp add: power_int_def power_one_over)
  have "of_int n / (2::rat) powi e = of_int (n * 2 ^ nat (- e))"
    by (simp add: eq)
  then have "rne (of_int n / 2 powi e) = n * 2 ^ nat (- e)"
    by (simp only: rne_of_int)
  then have "of_int (rne (of_int n / 2 powi e)) * 2 powi e = (of_int n :: rat)"
    by (simp add: eq)
  with False show ?thesis by (simp add: fl_def e_def Let_def)
qed

lemma fl_zero [simp]: "fl 0 = 0"
  by (simp add: fl_def)

lemma fl_nonneg: "0 \<le> q \<Longrightarrow> 0 \<le> fl q"
  by (auto simp: fl_def Let_def intro!: mult_nonneg_nonneg rne_nonneg)

lemma fl_nonpos: "q \<le> 0 \<Longrightarrow> fl q \<le> 0"
  by (auto simp: fl_def Let_def intro!: mult_nonpos_nonneg rne_nonpos divide_nonpos_nonneg)

section \<open>Numbers and their arithmetic\<close>

datatype jsnum = Fin rat | PInf | NInf | NaN

text \<open>The double nearest to a rational, an infinity when it is out of range.\<close>

definition mk :: "rat \<Rightarrow> jsnum" where
  "mk q = (let r = fl q in if r \<ge> 2 ^ 1024 then PInf else if r \<le> - (2 ^ 1024) then NInf else Fin r)"

abbreviation num_of_int :: "int \<Rightarrow> jsnum" where
  "num_of_int n \<equiv> Fin (of_int n)"

abbreviation num_of_nat :: "nat \<Rightarrow> jsnum" where
  "num_of_nat n \<equiv> Fin (of_nat n)"

fun num_neg :: "jsnum \<Rightarrow> jsnum" where
  "num_neg (Fin q) = Fin (- q)"
| "num_neg PInf = NInf"
| "num_neg NInf = PInf"
| "num_neg NaN = NaN"

fun num_add :: "jsnum \<Rightarrow> jsnum \<Rightarrow> jsnum" where
  "num_add (Fin a) (Fin b) = mk (a + b)"
| "num_add NaN _ = NaN"
| "num_add _ NaN = NaN"
| "num_add PInf NInf = NaN"
| "num_add NInf PInf = NaN"
| "num_add PInf _ = PInf"
| "num_add NInf _ = NInf"
| "num_add _ y = y"

definition num_sub :: "jsnum \<Rightarrow> jsnum \<Rightarrow> jsnum" where
  "num_sub x y = num_add x (num_neg y)"

text \<open>Sign as a number: \<open>0\<close> for zero; \<open>NaN\<close> is not asked.\<close>

fun num_sgn :: "jsnum \<Rightarrow> rat" where
  "num_sgn (Fin q) = sgn q"
| "num_sgn PInf = 1"
| "num_sgn NInf = -1"
| "num_sgn NaN = 0"

definition inf_of_sign :: "rat \<Rightarrow> jsnum" where
  "inf_of_sign s = (if s = 0 then NaN else if s > 0 then PInf else NInf)"

fun num_mul :: "jsnum \<Rightarrow> jsnum \<Rightarrow> jsnum" where
  "num_mul (Fin a) (Fin b) = mk (a * b)"
| "num_mul x y = (if x = NaN \<or> y = NaN then NaN else inf_of_sign (num_sgn x * num_sgn y))"

fun num_div :: "jsnum \<Rightarrow> jsnum \<Rightarrow> jsnum" where
  "num_div (Fin a) (Fin b) = (if b = 0 then inf_of_sign (sgn a) else mk (a / b))"
| "num_div NaN _ = NaN"
| "num_div _ NaN = NaN"
| "num_div (Fin a) _ = Fin 0"
| "num_div x (Fin b) = inf_of_sign (num_sgn x * (if b < 0 then -1 else 1))"
| "num_div _ _ = NaN"

text \<open>Truncation toward zero.\<close>

definition trunc :: "rat \<Rightarrow> int" where
  "trunc q = (if q < 0 then \<lceil>q\<rceil> else \<lfloor>q\<rfloor>)"

text \<open>The remainder \<open>%\<close> takes the sign of the dividend and is exact.\<close>

fun num_rem :: "jsnum \<Rightarrow> jsnum \<Rightarrow> jsnum" where
  "num_rem (Fin a) (Fin b) = (if b = 0 then NaN else Fin (a - b * of_int (trunc (a / b))))"
| "num_rem (Fin a) PInf = Fin a"
| "num_rem (Fin a) NInf = Fin a"
| "num_rem _ _ = NaN"

fun num_lt :: "jsnum \<Rightarrow> jsnum \<Rightarrow> bool" where
  "num_lt (Fin a) (Fin b) = (a < b)"
| "num_lt NaN _ = False"
| "num_lt _ NaN = False"
| "num_lt _ NInf = False"
| "num_lt PInf _ = False"
| "num_lt _ _ = True"

text \<open>Equality of numbers, \<open>==\<close> and \<open>===\<close>: \<open>NaN\<close> differs from itself.\<close>

definition num_eq :: "jsnum \<Rightarrow> jsnum \<Rightarrow> bool" where
  "num_eq x y \<longleftrightarrow> x = y \<and> x \<noteq> NaN"

definition num_le :: "jsnum \<Rightarrow> jsnum \<Rightarrow> bool" where
  "num_le x y \<longleftrightarrow> num_lt x y \<or> num_eq x y"

text \<open>The type classes of the library, so that arithmetic and comparison read as in the source.\<close>

instantiation jsnum :: "{plus, minus, uminus, times, inverse, ord, zero, one}"
begin

definition "0 = Fin 0"

definition "1 = Fin 1"

definition "x + y = num_add x y"

definition "x - y = num_sub x y"

definition "- x = num_neg x"

definition "x * y = num_mul x y"

definition "x div y = num_div x y"

definition "inverse x = num_div (Fin 1) x"

definition "x < y \<longleftrightarrow> num_lt x y"

definition "x \<le> y \<longleftrightarrow> num_le x y"

instance ..

end

lemmas num_defs = zero_jsnum_def one_jsnum_def plus_jsnum_def minus_jsnum_def uminus_jsnum_def
  times_jsnum_def divide_jsnum_def less_jsnum_def less_eq_jsnum_def num_sub_def

definition math_max :: "jsnum \<Rightarrow> jsnum \<Rightarrow> jsnum" where
  "math_max x y = (if x = NaN \<or> y = NaN then NaN else if x < y then y else x)"

definition math_min :: "jsnum \<Rightarrow> jsnum \<Rightarrow> jsnum" where
  "math_min x y = (if x = NaN \<or> y = NaN then NaN else if y < x then y else x)"

fun math_abs :: "jsnum \<Rightarrow> jsnum" where
  "math_abs (Fin q) = Fin \<bar>q\<bar>"
| "math_abs NaN = NaN"
| "math_abs _ = PInf"

text \<open>\<open>Math.round\<close>: nearest integer, ties toward plus infinity.\<close>

fun math_round :: "jsnum \<Rightarrow> jsnum" where
  "math_round (Fin q) = mk (of_int \<lfloor>q + 1/2\<rfloor>)"
| "math_round x = x"

lemma mk_of_int: "\<bar>n\<bar> < 2 ^ 53 \<Longrightarrow> mk (of_int n) = Fin (of_int n)"
proof -
  assume n: "\<bar>n\<bar> < 2 ^ 53"
  have "(2::int) ^ 53 < 2 ^ 1024" by simp
  with n have "n < 2 ^ 1024" and "- (2 ^ 1024) < n" by linarith+
  then have "(of_int n :: rat) < of_int (2 ^ 1024)" and "(of_int (- (2 ^ 1024)) :: rat) < of_int n"
    by (simp_all only: of_int_less_iff)
  then show ?thesis
    using fl_of_int [OF n] by (simp add: mk_def Let_def not_le)
qed

lemma mk_of_nat: "n < 2 ^ 53 \<Longrightarrow> mk (of_nat n) = Fin (of_nat n)"
  using mk_of_int [of "int n"] by simp

lemma mk_zero [simp]: "mk 0 = Fin 0"
  using mk_of_int [of 0] by simp

lemma mk_sign:
  assumes "mk q = Fin r"
  shows "0 \<le> q \<Longrightarrow> 0 \<le> r" and "q \<le> 0 \<Longrightarrow> r \<le> 0"
  using assms fl_nonneg [of q] fl_nonpos [of q]
  by (auto simp: mk_def Let_def split: if_splits)

lemma mk_nonneg_cases: "0 \<le> q \<Longrightarrow> mk q = PInf \<or> (\<exists>r \<ge> 0. mk q = Fin r)"
proof -
  assume "0 \<le> q"
  then have "0 \<le> fl q" by (rule fl_nonneg)
  moreover have "\<not> (0::rat) \<le> - (2 ^ 1024)" by simp
  ultimately have "\<not> fl q \<le> - (2 ^ 1024)" by linarith
  with \<open>0 \<le> fl q\<close> show ?thesis by (simp add: mk_def Let_def)
qed

end
