(* ===== verification/JS_Text.thy ===== *)
theory JS_Text
  imports JS_Number "HOL-Library.Sublist"
begin

text \<open>
  Text in the program: strings as lists of code units below 256 (what \<open>atob\<close> yields and what
  the server's keys and file names are made of), the string methods the program calls, and the
  conversions between numbers and strings (\<open>toString\<close>, \<open>toFixed\<close>, \<open>parseInt\<close>, \<open>parseFloat\<close>).
\<close>

section \<open>Strings\<close>

definition code :: "char \<Rightarrow> nat" where
  "code c = of_char c"

definition chr :: "nat \<Rightarrow> char" where
  "chr n = char_of n"

lemma code_chr [simp]: "n < 256 \<Longrightarrow> code (chr n) = n"
  by (simp add: code_def chr_def)

lemma chr_code [simp]: "chr (code c) = c"
  by (simp add: code_def chr_def)

lemma code_less [simp]: "code c < 256"
  by (simp add: code_def)

lemma code_inject: "code c = code d \<longleftrightarrow> c = d"
  by (metis chr_code)

text \<open>\<open>s.substring(a, b)\<close> and \<open>s.substring(a)\<close> for \<open>a \<le> b\<close>, clipped at the ends.\<close>

definition substring :: "string \<Rightarrow> nat \<Rightarrow> nat \<Rightarrow> string" where
  "substring s a b = take (b - a) (drop a s)"

definition substring_from :: "string \<Rightarrow> nat \<Rightarrow> string" where
  "substring_from s a = drop a s"

text \<open>\<open>s.slice(-n)\<close>.\<close>

definition slice_last :: "string \<Rightarrow> nat \<Rightarrow> string" where
  "slice_last s n = drop (length s - n) s"

text \<open>\<open>s.indexOf(p) != -1\<close>.\<close>

fun contains :: "string \<Rightarrow> string \<Rightarrow> bool" where
  "contains p [] = (p = [])"
| "contains p (c # s) = (prefix p (c # s) \<or> contains p s)"

lemma contains_sublist: "contains p s \<longleftrightarrow> sublist p s"
proof (induction s)
  case Nil
  then show ?case by simp
next
  case (Cons c s)
  then show ?case by (simp add: sublist_Cons_right)
qed

lemma contains_refl [simp]: "contains p p"
  by (simp add: contains_sublist)

lemma contains_append: "contains p (xs @ p @ ys)"
  by (auto simp: contains_sublist sublist_def)

lemma contains_trans: "contains p q \<Longrightarrow> contains q r \<Longrightarrow> contains p r"
  using sublist_order.order.trans by (auto simp: contains_sublist)

lemma contains_antisym: "contains p q \<Longrightarrow> contains q p \<Longrightarrow> p = q"
  using sublist_order.order.antisym by (auto simp: contains_sublist)

text \<open>\<open>s.split(sep)\<close> for a separator of one character.\<close>

fun split_on :: "char \<Rightarrow> string \<Rightarrow> string list" where
  "split_on d [] = [[]]"
| "split_on d (c # s) = (if c = d then [] # split_on d s
     else (case split_on d s of [] \<Rightarrow> [[c]] | w # ws \<Rightarrow> (c # w) # ws))"

fun join :: "char \<Rightarrow> string list \<Rightarrow> string" where
  "join d [] = []"
| "join d [w] = w"
| "join d (w # ws) = w @ d # join d ws"

lemma split_on_nonempty [simp]: "split_on d s \<noteq> []"
  by (cases s) (auto split: list.splits)

lemma join_split_on: "join d (split_on d s) = s"
proof (induction s)
  case Nil
  then show ?case by simp
next
  case (Cons c s)
  obtain w ws where w: "split_on d s = w # ws"
    using split_on_nonempty by (metis neq_Nil_conv)
  with Cons show ?case by (cases ws) auto
qed

lemma split_on_word [simp]: "d \<notin> set w \<Longrightarrow> split_on d w = [w]"
  by (induction w) auto

lemma split_on_append: "d \<notin> set w \<Longrightarrow> split_on d (w @ d # s) = w # split_on d s"
  by (induction w) auto

lemma split_on_pieces: "w \<in> set (split_on d s) \<Longrightarrow> d \<notin> set w"
  by (induction s arbitrary: w) (fastforce split: if_splits list.splits)+

text \<open>\<open>s.replace(p, r)\<close> for a literal pattern: the first occurrence only.\<close>

fun replace_first :: "string \<Rightarrow> string \<Rightarrow> string \<Rightarrow> string" where
  "replace_first p r [] = (if p = [] then r else [])"
| "replace_first p r (c # s) =
     (if prefix p (c # s) then r @ drop (length p) (c # s) else c # replace_first p r s)"

lemma replace_first_absent: "\<not> contains p s \<Longrightarrow> replace_first p r s = s"
  by (induction s) auto

lemma replace_first_at: "p \<noteq> [] \<Longrightarrow> (\<And>u v. xs = u @ v \<Longrightarrow> v \<noteq> [] \<Longrightarrow> \<not> prefix p (v @ p @ ys)) \<Longrightarrow>
    replace_first p r (xs @ p @ ys) = xs @ r @ ys"
proof (induction xs)
  case Nil
  then show ?case by (cases p) auto
next
  case (Cons x xs)
  have "\<not> prefix p ((x # xs) @ p @ ys)"
    using Cons.prems(2) [of "[]" "x # xs"] by simp
  moreover have "replace_first p r (xs @ p @ ys) = xs @ r @ ys"
    using Cons.prems(1) Cons.prems(2) [of "x # u" v for u v] by (intro Cons.IH) auto
  ultimately show ?case by simp
qed

text \<open>\<open>toLowerCase\<close>, of one code unit\<close>

definition lower_char :: "char \<Rightarrow> char" where
  "lower_char c = (let n = code c in
     if 65 \<le> n \<and> n \<le> 90 \<or> 192 \<le> n \<and> n \<le> 222 \<and> n \<noteq> 215 then chr (n + 32) else c)"

section \<open>Decimal digits\<close>

definition digit :: "nat \<Rightarrow> char" where
  "digit d = chr (48 + d)"

definition is_digit :: "char \<Rightarrow> bool" where
  "is_digit c \<longleftrightarrow> 48 \<le> code c \<and> code c \<le> 57"

text \<open>The decimal digits of a non-negative integer.\<close>

function digits :: "int \<Rightarrow> string" where
  "digits n = (if n < 10 then [digit (nat n)] else digits (n div 10) @ [digit (nat (n mod 10))])"
  by pat_completeness auto
termination
  by (relation "measure nat") auto

declare digits.simps [simp del]

definition int_of_digits :: "string \<Rightarrow> int" where
  "int_of_digits s = foldl (\<lambda>a c. 10 * a + int (code c - 48)) 0 s"

lemma is_digit_digit [simp]: "d < 10 \<Longrightarrow> is_digit (digit d)"
  by (simp add: is_digit_def digit_def)

lemma code_digit [simp]: "d < 10 \<Longrightarrow> code (digit d) = 48 + d"
  by (simp add: digit_def)

lemma digits_are_digits: "0 \<le> n \<Longrightarrow> \<forall>c \<in> set (digits n). is_digit c"
proof (induction n rule: digits.induct)
  case (1 n)
  then show ?case by (subst digits.simps) (auto simp: nat_less_iff)
qed

lemma digits_nonempty [simp]: "digits n \<noteq> []"
  by (subst digits.simps) simp

lemma int_of_digits_digits [simp]: "0 \<le> n \<Longrightarrow> int_of_digits (digits n) = n"
proof (induction n rule: digits.induct)
  case (1 n)
  show ?case
  proof (cases "n < 10")
    case True
    with "1.prems" show ?thesis by (subst digits.simps) (simp add: int_of_digits_def nat_less_iff)
  next
    case False
    with 1 show ?thesis by (subst digits.simps) (simp add: int_of_digits_def nat_less_iff)
  qed
qed

lemma takeWhile_digits [simp]: "0 \<le> n \<Longrightarrow> takeWhile is_digit (digits n) = digits n"
  using digits_are_digits [of n] by (simp add: takeWhile_eq_all_conv)

lemma digits_hd: "0 \<le> n \<Longrightarrow> digits n = c # s \<Longrightarrow> is_digit c"
  using digits_are_digits [of n] by simp

definition string_of_int :: "int \<Rightarrow> string" where
  "string_of_int i = (if i < 0 then ''-'' else []) @ digits \<bar>i\<bar>"

section \<open>Numbers to strings\<close>

definition ilog10 :: "rat \<Rightarrow> int" where
  \<comment> \<open>the exponent of the leading decimal digit of a positive rational\<close>
  "ilog10 q = (let (a, b) = quotient_of q;
       k = int (length (digits a)) - int (length (digits b))
     in if (10::rat) powi k \<le> q then k else k - 1)"

text \<open>
  The shortest decimal that reads back as \<open>x\<close> (\<open>Number::toString\<close>): digits \<open>s\<close>, their number
  \<open>k\<close> and the position \<open>n\<close> of the decimal point, \<open>x = s * 10 ^ (n - k)\<close> up to rounding.
  Seventeen digits identify every double.
\<close>

definition shortest_at :: "rat \<Rightarrow> nat \<Rightarrow> (int \<times> int) option" where
  "shortest_at x k = (let n = ilog10 x + 1; u = 10 powi (n - int k); f = \<lfloor>x / u\<rfloor>;
       lo = fl (of_int f * u) = x; hi = fl (of_int (f + 1) * u) = x
     in if lo \<and> (\<not> hi \<or> x - of_int f * u \<le> of_int (f + 1) * u - x) then Some (f, n)
        else if hi then Some (f + 1, n) else None)"

definition shortest :: "rat \<Rightarrow> string \<times> int" where
  "shortest x = (case List.map_filter (shortest_at x) [1..<18] of
       [] \<Rightarrow> ([], 0)
     | (s, n) # _ \<Rightarrow> if length (digits s) = 1 \<or> s mod 10 \<noteq> 0 then (digits s, n)
         else (''1'', n + 1))"

fun num_to_string :: "jsnum \<Rightarrow> string" where
  "num_to_string NaN = ''NaN''"
| "num_to_string PInf = ''Infinity''"
| "num_to_string NInf = ''-Infinity''"
| "num_to_string (Fin q) =
     (if of_int \<lfloor>q\<rfloor> = q \<and> \<bar>q\<bar> < 2 ^ 53 then string_of_int \<lfloor>q\<rfloor>
      else (if q < 0 then ''-'' else []) @
        (let (ds, n) = shortest \<bar>q\<bar>; k = int (length ds) in
          if k \<le> n \<and> n \<le> 21 then ds @ replicate (nat (n - k)) (CHR ''0'')
          else if 0 < n \<and> n \<le> 21 then take (nat n) ds @ ''.'' @ drop (nat n) ds
          else if -6 < n \<and> n \<le> 0 then ''0.'' @ replicate (nat (- n)) (CHR ''0'') @ ds
          else take 1 ds @ (if k = 1 then [] else ''.'' @ drop 1 ds) @ ''e'' @
            (if n - 1 < 0 then ''-'' else ''+'') @ digits \<bar>n - 1\<bar>))"

text \<open>\<open>x.toFixed(f)\<close>: ties away from zero; beyond \<open>10 ^ 21\<close> it is \<open>toString\<close>.\<close>

fun to_fixed :: "nat \<Rightarrow> jsnum \<Rightarrow> string" where
  "to_fixed f (Fin q) =
     (if \<bar>q\<bar> \<ge> 10 ^ 21 then num_to_string (Fin q)
      else (if q < 0 then ''-'' else []) @
        (let m = digits \<lfloor>\<bar>q\<bar> * 10 ^ f + 1/2\<rfloor>;
             p = replicate (f + 1 - length m) (CHR ''0'') @ m
         in if f = 0 then m else take (length p - f) p @ ''.'' @ drop (length p - f) p))"
| "to_fixed f x = num_to_string x"

section \<open>Strings to numbers\<close>

definition is_space :: "char \<Rightarrow> bool" where
  "is_space c \<longleftrightarrow> 9 \<le> code c \<and> code c \<le> 13 \<or> code c = 32 \<or> code c = 160"

definition split_sign :: "string \<Rightarrow> bool \<times> string" where
  "split_sign s = (case s of c # t \<Rightarrow>
       if c = CHR ''-'' then (True, t) else if c = CHR ''+'' then (False, t) else (False, s)
     | [] \<Rightarrow> (False, []))"

definition signed :: "bool \<Rightarrow> jsnum \<Rightarrow> jsnum" where
  "signed neg x = (if neg then num_neg x else x)"

definition hex_val :: "char \<Rightarrow> nat option" where
  "hex_val c = (let n = code c in
     if 48 \<le> n \<and> n \<le> 57 then Some (n - 48)
     else if 65 \<le> n \<and> n \<le> 70 then Some (n - 55)
     else if 97 \<le> n \<and> n \<le> 102 then Some (n - 87) else None)"

definition int_of_hex :: "string \<Rightarrow> int" where
  "int_of_hex s = foldl (\<lambda>a c. 16 * a + int (the (hex_val c))) 0 s"

text \<open>\<open>parseInt(s)\<close> without a radix: blanks, a sign, \<open>0x\<close>, then the longest run of digits.\<close>

definition parse_int :: "string \<Rightarrow> jsnum" where
  "parse_int s = (let (neg, t) = split_sign (dropWhile is_space s) in
     if prefix ''0x'' t \<or> prefix ''0X'' t then
       (let hs = takeWhile (\<lambda>c. hex_val c \<noteq> None) (drop 2 t)
        in if hs = [] then NaN else signed neg (mk (of_int (int_of_hex hs))))
     else
       (let ds = takeWhile is_digit t
        in if ds = [] then NaN else signed neg (mk (of_int (int_of_digits ds)))))"

text \<open>\<open>parseInt(s, 10)\<close>\<close>

definition parse_int10 :: "string \<Rightarrow> jsnum" where
  "parse_int10 s = (let (neg, t) = split_sign (dropWhile is_space s); ds = takeWhile is_digit t
     in if ds = [] then NaN else signed neg (mk (of_int (int_of_digits ds))))"

text \<open>
  \<open>parseInt\<close> of a number converts it to a string first. Between \<open>10 ^ -6\<close> and \<open>10 ^ 21\<close> that
  string is decimal notation, whose integer part is the truncated number (the doubles next to
  \<open>x\<close> enclose its shortest decimal, and an integer between them would be a double). Below
  \<open>10 ^ -6\<close> it is exponent notation, of which \<open>parseInt\<close> reads the leading digit; the same above
  \<open>10 ^ 21\<close>.
\<close>

fun parse_int_num :: "jsnum \<Rightarrow> jsnum" where
  "parse_int_num (Fin q) =
     (if q = 0 then Fin 0
      else if 1 / 10 ^ 6 \<le> \<bar>q\<bar> \<and> \<bar>q\<bar> < 10 ^ 21 then num_of_int (trunc q)
      else signed (q < 0) (num_of_int (int_of_digits (take 1 (fst (shortest \<bar>q\<bar>))))))"
| "parse_int_num _ = NaN"

text \<open>The exponent part of a decimal literal, \<open>0\<close> when it is malformed or absent, and the rest.\<close>

definition read_exponent :: "string \<Rightarrow> int \<times> string" where
  "read_exponent s = (case s of c # t \<Rightarrow>
       if c = CHR ''e'' \<or> c = CHR ''E'' then
         (let (neg, u) = split_sign t; ds = takeWhile is_digit u
          in if ds = [] then (0, s)
             else (if neg then - int_of_digits ds else int_of_digits ds, dropWhile is_digit u))
       else (0, s)
     | [] \<Rightarrow> (0, []))"

text \<open>The longest decimal literal a string starts with (\<open>StrDecimalLiteral\<close>), and the rest.\<close>

definition read_decimal :: "string \<Rightarrow> (jsnum \<times> string) option" where
  "read_decimal s = (let (neg, t) = split_sign s in
     if prefix ''Infinity'' t then Some (signed neg PInf, drop 8 t)
     else
       (let ip = takeWhile is_digit t; r = dropWhile is_digit t;
            (fp, r') = (case r of
                c # u \<Rightarrow> if c = CHR ''.'' then (takeWhile is_digit u, dropWhile is_digit u) else ([], r)
              | [] \<Rightarrow> ([], []));
            (e, r'') = read_exponent r'
        in if ip = [] \<and> fp = [] then None
           else Some (signed neg (mk (of_int (int_of_digits (ip @ fp)) * 10 powi (e - int (length fp)))), r'')))"

definition parse_float :: "string \<Rightarrow> jsnum" where
  "parse_float s = (case read_decimal (dropWhile is_space s) of None \<Rightarrow> NaN | Some (x, _) \<Rightarrow> x)"

definition trim :: "string \<Rightarrow> string" where
  "trim s = rev (dropWhile is_space (rev (dropWhile is_space s)))"

text \<open>
  \<open>Number(s)\<close>, where the whole string must be a literal (decimal or hexadecimal; the prefixes
  \<open>0b\<close> and \<open>0o\<close> are not modelled).
\<close>

definition str_to_num :: "string \<Rightarrow> jsnum" where
  "str_to_num s = (let t = trim s in
     if t = [] then Fin 0
     else if prefix ''0x'' t \<or> prefix ''0X'' t then
       (if drop 2 t \<noteq> [] \<and> list_all (\<lambda>c. hex_val c \<noteq> None) (drop 2 t) then mk (of_int (int_of_hex (drop 2 t)))
        else NaN)
     else (case read_decimal t of Some (x, []) \<Rightarrow> x | _ \<Rightarrow> NaN))"

subsection \<open>Integers survive the trip through text\<close>

lemma digits_not_x: "\<not> prefix (x # y # z) (digits n)" if "\<not> is_digit y" "0 \<le> n"
  using that digits_are_digits [of n] by (auto simp: prefix_def)

lemma is_digit_not_space: "is_digit c \<Longrightarrow> \<not> is_space c"
  by (auto simp: is_digit_def is_space_def)

lemma code_minus: "code (CHR ''-'') = 45" and code_plus: "code (CHR ''+'') = 43"
  and code_x: "code (CHR ''x'') = 120" and code_X: "code (CHR ''X'') = 88"
  by (simp_all add: code_def)

lemma digits_dropWhile_space [simp]: "0 \<le> n \<Longrightarrow> dropWhile is_space (digits n) = digits n"
  using digits_hd [of n] by (cases "digits n") (auto simp: is_digit_not_space)

lemma split_sign_digits [simp]: "0 \<le> n \<Longrightarrow> split_sign (digits n) = (False, digits n)"
  using digits_hd [of n]
  by (cases "digits n") (auto simp: split_sign_def is_digit_def code_minus code_plus)

lemma parse_int_digits: "0 \<le> n \<Longrightarrow> n < 2 ^ 53 \<Longrightarrow> parse_int (digits n) = num_of_int n"
  by (simp add: parse_int_def digits_not_x is_digit_def code_x code_X signed_def mk_of_int)

lemma parse_int_string_of_int:
  assumes "\<bar>i\<bar> < 2 ^ 53"
  shows "parse_int (string_of_int i) = num_of_int i"
proof (cases "i < 0")
  case False
  then show ?thesis using assms parse_int_digits [of i] by (simp add: string_of_int_def)
next
  case True
  have "\<not> is_space (CHR ''-'')" by (simp add: is_space_def code_minus)
  then have "parse_int (string_of_int i) = num_neg (mk (of_int (- i)))"
    using True by (simp add: string_of_int_def parse_int_def split_sign_def
        digits_not_x is_digit_def code_x code_X signed_def del: of_int_minus)
  moreover have "mk (of_int (- i)) = num_of_int (- i)"
    using assms True by (intro mk_of_int) simp
  ultimately show ?thesis by simp
qed

lemma parse_int_to_fixed:
  assumes "0 \<le> q" and "q < 2 ^ 52"
  shows "parse_int (to_fixed 0 (Fin q)) = num_of_int \<lfloor>q + 1/2\<rfloor>"
proof -
  have "q < 10 ^ 21" using assms(2) by simp
  moreover have "\<lfloor>q + 1/2\<rfloor> < 2 ^ 53" and "0 \<le> \<lfloor>q + 1/2\<rfloor>"
    using assms by (simp_all add: floor_less_iff)
  then have "parse_int (digits \<lfloor>q + 1/2\<rfloor>) = num_of_int \<lfloor>q + 1/2\<rfloor>"
    by (intro parse_int_digits)
  ultimately show ?thesis
    using assms by simp
qed

lemma parse_int_num_int: "\<bar>n\<bar> < 10 ^ 21 \<Longrightarrow> parse_int_num (num_of_int n) = num_of_int n"
proof (cases "n = 0")
  case False
  assume n: "\<bar>n\<bar> < 10 ^ 21"
  have "(1::rat) \<le> of_int \<bar>n\<bar>" using False by simp
  moreover have "(1::rat) / 10 ^ 6 \<le> 1" by simp
  ultimately have "(1::rat) / 10 ^ 6 \<le> \<bar>of_int n\<bar>" by linarith
  moreover have "\<bar>of_int n :: rat\<bar> < 10 ^ 21"
    using n by (metis of_int_abs of_int_less_iff of_int_numeral of_int_power)
  ultimately show ?thesis using False by (simp add: trunc_def)
qed simp

lemma num_to_string_int: "\<bar>n\<bar> < 2 ^ 53 \<Longrightarrow> num_to_string (num_of_int n) = string_of_int n"
proof -
  assume "\<bar>n\<bar> < 2 ^ 53"
  then have "\<bar>of_int n :: rat\<bar> < 2 ^ 53"
    by (metis of_int_abs of_int_less_iff of_int_numeral of_int_power)
  then show ?thesis by simp
qed

end
