(* ===== verification/JS_Value.thy ===== *)
theory JS_Value
  imports JS_Text
begin

text \<open>
  JavaScript values as they come out of \<open>JSON.parse\<close> and are stored in objects, with the
  conversions the program relies on: truthiness, loose comparison, string and number
  conversion, property access, \<open>Object.assign\<close>, and \<open>JSON.parse\<close> itself.
\<close>

section \<open>Values\<close>

datatype jsval =
    JUndef
  | JNull
  | JBool bool
  | JNum jsnum
  | JStr string
  | JArr "jsval list"
  | JObj "(string \<times> jsval) list"

text \<open>The own properties of an object, in insertion order.\<close>

type_synonym jsobj = "(string \<times> jsval) list"

definition get_prop :: "jsobj \<Rightarrow> string \<Rightarrow> jsval" where
  "get_prop obj k = (case map_of obj k of None \<Rightarrow> JUndef | Some v \<Rightarrow> v)"

definition set_prop :: "string \<Rightarrow> jsval \<Rightarrow> jsobj \<Rightarrow> jsobj" where
  "set_prop k v obj = AList.update k v obj"

definition delete_prop :: "string \<Rightarrow> jsobj \<Rightarrow> jsobj" where
  "delete_prop k obj = AList.delete k obj"

text \<open>\<open>Object.assign(target, source)\<close>: every own property of the source, in its order.\<close>

definition object_assign :: "jsobj \<Rightarrow> jsobj \<Rightarrow> jsobj" where
  "object_assign target source = fold (\<lambda>(k, v). set_prop k v) source target"

lemma get_prop_set [simp]: "get_prop (set_prop k v obj) k' = (if k' = k then v else get_prop obj k')"
  by (simp add: get_prop_def set_prop_def)

lemma prop_delete [simp]: "get_prop (delete_prop k obj) k' = (if k' = k then JUndef else get_prop obj k')"
  by (simp add: get_prop_def delete_prop_def)

lemma prop_Nil [simp]: "get_prop [] k = JUndef"
  by (simp add: get_prop_def)

lemma prop_Cons [simp]: "get_prop ((k, v) # obj) k' = (if k' = k then v else get_prop obj k')"
  by (simp add: get_prop_def)

lemma prop_object_assign_absent: "k \<notin> fst ` set src \<Longrightarrow> get_prop (object_assign tgt src) k = get_prop tgt k"
  unfolding object_assign_def
  by (induction src arbitrary: tgt) auto

lemma prop_object_assign:
  "distinct (map fst src) \<Longrightarrow>
    get_prop (object_assign tgt src) k = (if k \<in> fst ` set src then get_prop src k else get_prop tgt k)"
proof (induction src arbitrary: tgt)
  case Nil
  then show ?case by (simp add: object_assign_def)
next
  case (Cons kv src)
  obtain k' v where [simp]: "kv = (k', v)" by fastforce
  have step: "object_assign tgt ((k', v) # src) = object_assign (set_prop k' v tgt) src"
    by (simp add: object_assign_def)
  show ?case
  proof (cases "k \<in> fst ` set src")
    case True
    with Cons.prems have "k \<noteq> k'" by auto
    with True Cons show ?thesis by (simp add: step)
  next
    case False
    then show ?thesis by (auto simp: step prop_object_assign_absent)
  qed
qed

section \<open>Conversions\<close>

fun truthy :: "jsval \<Rightarrow> bool" where
  "truthy JUndef = False"
| "truthy JNull = False"
| "truthy (JBool b) = b"
| "truthy (JNum n) = (n \<noteq> Fin 0 \<and> n \<noteq> NaN)"
| "truthy (JStr s) = (s \<noteq> [])"
| "truthy (JArr _) = True"
| "truthy (JObj _) = True"

text \<open>\<open>v == undefined\<close> holds for \<open>null\<close> too.\<close>

definition nullish :: "jsval \<Rightarrow> bool" where
  "nullish v \<longleftrightarrow> v = JUndef \<or> v = JNull"

fun to_str :: "jsval \<Rightarrow> string" where
  "to_str JUndef = ''undefined''"
| "to_str JNull = ''null''"
| "to_str (JBool b) = (if b then ''true'' else ''false'')"
| "to_str (JNum n) = num_to_string n"
| "to_str (JStr s) = s"
| "to_str (JArr vs) = join (CHR '','') (map (\<lambda>v. if v = JUndef \<or> v = JNull then [] else to_str v) vs)"
| "to_str (JObj _) = ''[object Object]''"

fun to_num :: "jsval \<Rightarrow> jsnum" where
  "to_num JUndef = NaN"
| "to_num JNull = Fin 0"
| "to_num (JBool b) = (if b then Fin 1 else Fin 0)"
| "to_num (JNum n) = n"
| "to_num v = str_to_num (to_str v)"

text \<open>\<open>v == s\<close> for a string \<open>s\<close>, and \<open>v == false\<close>.\<close>

fun eq_str :: "jsval \<Rightarrow> string \<Rightarrow> bool" where
  "eq_str JUndef s = False"
| "eq_str JNull s = False"
| "eq_str (JBool b) s = num_eq (if b then Fin 1 else Fin 0) (str_to_num s)"
| "eq_str (JNum n) s = num_eq n (str_to_num s)"
| "eq_str v s = (to_str v = s)"

fun eq_false :: "jsval \<Rightarrow> bool" where
  "eq_false JUndef = False"
| "eq_false JNull = False"
| "eq_false v = (to_num v = Fin 0)"

text \<open>
  Reading a property of an arbitrary value: \<open>undefined\<close> and \<open>null\<close> throw; of a primitive the
  program reads \<open>length\<close> only.
\<close>

fun read_prop :: "jsval \<Rightarrow> string \<Rightarrow> exn + jsval" where
  "read_prop JUndef k = Inl TypeError"
| "read_prop JNull k = Inl TypeError"
| "read_prop (JObj kvs) k = Inr (get_prop kvs k)"
| "read_prop (JStr s) k = Inr (if k = ''length'' then JNum (num_of_nat (length s)) else JUndef)"
| "read_prop (JArr vs) k = Inr (if k = ''length'' then JNum (num_of_nat (length vs)) else JUndef)"
| "read_prop _ k = Inr JUndef"

lemma eq_str_JStr [simp]: "eq_str (JStr t) s = (t = s)"
  by simp

section \<open>JSON.parse\<close>

text \<open>
  The text is cut into tokens, then a stack machine builds the value; both consume their input,
  so no bound on the depth is needed. Unicode escapes above 255 denote code units outside this
  model of strings and are refused.
\<close>

datatype json_token = LBrack | RBrack | LBrace | RBrace | Comma | Colon | Scalar jsval

definition hex4 :: "string \<Rightarrow> nat option" where
  "hex4 s = (if length s = 4 \<and> list_all (\<lambda>c. hex_val c \<noteq> None) s \<and> int_of_hex s < 256
     then Some (nat (int_of_hex s)) else None)"

text \<open>The rest of a string literal after its opening quote.\<close>

fun json_string :: "string \<Rightarrow> (string \<times> string) option" where
  "json_string [] = None"
| "json_string (c # s) =
     (if c = CHR 34 then Some ([], s)
      else if code c < 32 then None
      else if c = CHR 92 then
        (case s of [] \<Rightarrow> None
         | e # t \<Rightarrow>
           (if e = CHR ''u'' then
              (case t of a # b # c' # d # u \<Rightarrow>
                 (case hex4 [a, b, c', d] of None \<Rightarrow> None
                  | Some n \<Rightarrow> map_option (\<lambda>(w, r). (chr n # w, r)) (json_string u))
               | _ \<Rightarrow> None)
            else
              (case map_of [(CHR 34, CHR 34), (CHR 92, CHR 92), (CHR ''/'', CHR ''/''),
                  (CHR ''b'', chr 8), (CHR ''f'', chr 12), (CHR ''n'', chr 10),
                  (CHR ''r'', chr 13), (CHR ''t'', chr 9)] e of
                 None \<Rightarrow> None
               | Some x \<Rightarrow> map_option (\<lambda>(w, r). (x # w, r)) (json_string t))))
      else map_option (\<lambda>(w, r). (c # w, r)) (json_string s))"

lemma json_string_shorter: "json_string s = Some (w, r) \<Longrightarrow> length r < length s"
proof (induction s arbitrary: w r rule: json_string.induct)
  case (1)
  then show ?case by simp
next
  case (2 c s)
  then show ?case
    by (auto split: if_splits list.splits option.splits) (fastforce simp: less_Suc_eq)+
qed

definition is_json_space :: "char \<Rightarrow> bool" where
  "is_json_space c \<longleftrightarrow> code c \<in> {9, 10, 13, 32}"

text \<open>\<open>-?(0|[1-9][0-9]*)(.[0-9]+)?([eE][+-]?[0-9]+)?\<close>\<close>

definition json_number_ok :: "string \<Rightarrow> bool" where
  "json_number_ok s = (let t = (case s of c # u \<Rightarrow> if c = CHR ''-'' then u else s | [] \<Rightarrow> []);
       ip = takeWhile is_digit t; r = dropWhile is_digit t;
       r' = (case r of c # u \<Rightarrow>
           if c = CHR ''.'' then (if takeWhile is_digit u = [] then ''!'' else dropWhile is_digit u) else r
         | [] \<Rightarrow> [])
     in (ip = ''0'' \<or> (ip \<noteq> [] \<and> hd ip \<noteq> CHR ''0'')) \<and>
        (r' = [] \<or> (snd (read_exponent r') = [] \<and> (hd r' = CHR ''e'' \<or> hd r' = CHR ''E''))))"

definition json_word :: "string \<Rightarrow> jsval option" where
  "json_word w = (if w = ''true'' then Some (JBool True) else if w = ''false'' then Some (JBool False)
     else if w = ''null'' then Some JNull
     else if json_number_ok w then Some (JNum (str_to_num w)) else None)"

definition is_word_char :: "char \<Rightarrow> bool" where
  "is_word_char c \<longleftrightarrow> is_digit c \<or> 97 \<le> code c \<and> code c \<le> 122 \<or> c \<in> {CHR ''-'', CHR ''+'', CHR ''.'', CHR ''E''}"

function json_tokens :: "string \<Rightarrow> json_token list option" where
  "json_tokens [] = Some []"
| "json_tokens (c # s) =
     (if is_json_space c then json_tokens s
      else if c = CHR ''['' then map_option ((#) LBrack) (json_tokens s)
      else if c = CHR '']'' then map_option ((#) RBrack) (json_tokens s)
      else if c = CHR ''{'' then map_option ((#) LBrace) (json_tokens s)
      else if c = CHR ''}'' then map_option ((#) RBrace) (json_tokens s)
      else if c = CHR '','' then map_option ((#) Comma) (json_tokens s)
      else if c = CHR '':'' then map_option ((#) Colon) (json_tokens s)
      else if c = CHR 34 then
        (case json_string s of None \<Rightarrow> None
         | Some (w, r) \<Rightarrow> map_option ((#) (Scalar (JStr w))) (json_tokens r))
      else (case json_word (c # takeWhile is_word_char s) of None \<Rightarrow> None
         | Some v \<Rightarrow> map_option ((#) (Scalar v)) (json_tokens (dropWhile is_word_char s))))"
  by pat_completeness auto
termination
  by (relation "measure length") (auto dest: json_string_shorter simp: length_dropWhile_le less_Suc_eq_le)

text \<open>What the machine expects next, and the containers still open, innermost first.\<close>

datatype json_mode = NeedValue | NeedValueOrEnd | NeedKey | NeedKeyOrEnd | NeedColon string | Done jsval

datatype json_frame = InArr "jsval list" | InObj "(string \<times> jsval) list" string | AtObj "(string \<times> jsval) list"

text \<open>A token where a value is expected.\<close>

definition json_open :: "json_token \<Rightarrow> json_frame list \<Rightarrow> (json_mode \<times> json_frame list) option" where
  "json_open t st = (case t of
       Scalar v \<Rightarrow> Some (Done v, st)
     | LBrack \<Rightarrow> Some (NeedValueOrEnd, InArr [] # st)
     | LBrace \<Rightarrow> Some (NeedKeyOrEnd, AtObj [] # st)
     | _ \<Rightarrow> None)"

text \<open>A token after a complete value, inside the innermost container.\<close>

definition json_close :: "json_token \<Rightarrow> jsval \<Rightarrow> json_frame list \<Rightarrow> (json_mode \<times> json_frame list) option" where
  "json_close t v st = (case st of
       InArr vs # st' \<Rightarrow>
         (if t = Comma then Some (NeedValue, InArr (v # vs) # st')
          else if t = RBrack then Some (Done (JArr (rev (v # vs))), st') else None)
     | InObj kvs k # st' \<Rightarrow>
         (if t = Comma then Some (NeedKey, AtObj (set_prop k v kvs) # st')
          else if t = RBrace then Some (Done (JObj (set_prop k v kvs)), st') else None)
     | _ \<Rightarrow> None)"

definition json_key :: "json_token \<Rightarrow> json_frame list \<Rightarrow> (json_mode \<times> json_frame list) option" where
  "json_key t st = (case t of Scalar (JStr k) \<Rightarrow> Some (NeedColon k, st) | _ \<Rightarrow> None)"

definition json_step :: "json_token \<Rightarrow> json_mode \<Rightarrow> json_frame list \<Rightarrow> (json_mode \<times> json_frame list) option" where
  "json_step t m st = (case m of
       NeedValue \<Rightarrow> json_open t st
     | NeedValueOrEnd \<Rightarrow> if t = RBrack then Some (Done (JArr []), tl st) else json_open t st
     | NeedKey \<Rightarrow> json_key t st
     | NeedKeyOrEnd \<Rightarrow> if t = RBrace then Some (Done (JObj []), tl st) else json_key t st
     | NeedColon k \<Rightarrow>
         (case st of AtObj kvs # st' \<Rightarrow> if t = Colon then Some (NeedValue, InObj kvs k # st') else None
          | _ \<Rightarrow> None)
     | Done v \<Rightarrow> json_close t v st)"

fun json_run :: "json_token list \<Rightarrow> json_mode \<Rightarrow> json_frame list \<Rightarrow> jsval option" where
  "json_run [] m st = (case m of Done v \<Rightarrow> if st = [] then Some v else None | _ \<Rightarrow> None)"
| "json_run (t # ts) m st =
     (case json_step t m st of None \<Rightarrow> None | Some (m', st') \<Rightarrow> json_run ts m' st')"

definition json_parse :: "string \<Rightarrow> exn + jsval" where
  "json_parse s = (case Option.bind (json_tokens s) (\<lambda>ts. json_run ts NeedValue []) of
       None \<Rightarrow> Inl SyntaxError | Some v \<Rightarrow> Inr v)"

end
