(* ===== verification/Base64.thy ===== *)
theory Base64
  imports JS_Text
begin

text \<open>
  The browser's \<open>atob\<close> (forgiving base64 decoding), with which the reader decodes the recorded
  bytes, and the standard padded encoding in which the server's JSON carries them. Decoding
  undoes encoding; anything else that is not base64 throws.
\<close>

section \<open>The alphabet\<close>

definition b64_char :: "nat \<Rightarrow> char" where
  "b64_char i = chr (if i < 26 then 65 + i else if i < 52 then 71 + i
     else if i < 62 then i - 4 else if i = 62 then 43 else 47)"

definition b64_val :: "char \<Rightarrow> nat option" where
  "b64_val c = (let n = code c in
     if 65 \<le> n \<and> n \<le> 90 then Some (n - 65)
     else if 97 \<le> n \<and> n \<le> 122 then Some (n - 71)
     else if 48 \<le> n \<and> n \<le> 57 then Some (n + 4)
     else if n = 43 then Some 62 else if n = 47 then Some 63 else None)"

section \<open>Decoding\<close>

definition b64_space :: "char \<Rightarrow> bool" where
  "b64_space c \<longleftrightarrow> code c \<in> {9, 10, 12, 13, 32}"

text \<open>Up to two padding characters go when the length is a multiple of four.\<close>

definition strip_padding :: "string \<Rightarrow> string" where
  "strip_padding s = (if length s mod 4 = 0 then
       (if suffix ''=='' s then take (length s - 2) s
        else if suffix ''='' s then take (length s - 1) s else s)
     else s)"

fun decode_groups :: "nat list \<Rightarrow> string" where
  "decode_groups (a # b # c # d # vs) =
     chr (4 * a + b div 16) # chr (16 * (b mod 16) + c div 4) # chr (64 * (c mod 4) + d) # decode_groups vs"
| "decode_groups [a, b, c] = [chr (4 * a + b div 16), chr (16 * (b mod 16) + c div 4)]"
| "decode_groups [a, b] = [chr (4 * a + b div 16)]"
| "decode_groups _ = []"

definition atob :: "string \<Rightarrow> exn + string" where
  "atob data = (let s = strip_padding (filter (\<lambda>c. \<not> b64_space c) data); vs = map b64_val s in
     if length s mod 4 = 1 \<or> None \<in> set vs then Inl InvalidCharacterError
     else Inr (decode_groups (map the vs)))"

section \<open>The server's encoding\<close>

fun encode_groups :: "nat list \<Rightarrow> string" where
  "encode_groups (x # y # z # bs) =
     b64_char (x div 4) # b64_char (16 * (x mod 4) + y div 16) #
     b64_char (4 * (y mod 16) + z div 64) # b64_char (z mod 64) # encode_groups bs"
| "encode_groups [x, y] =
     [b64_char (x div 4), b64_char (16 * (x mod 4) + y div 16), b64_char (4 * (y mod 16)), CHR ''='']"
| "encode_groups [x] = [b64_char (x div 4), b64_char (16 * (x mod 4)), CHR ''='', CHR ''='']"
| "encode_groups [] = []"

definition b64_encode :: "string \<Rightarrow> string" where
  "b64_encode s = encode_groups (map code s)"

section \<open>Decoding undoes encoding\<close>

lemma code_b64_char: "i < 64 \<Longrightarrow> code (b64_char i) = (if i < 26 then 65 + i else if i < 52 then 71 + i
     else if i < 62 then i - 4 else if i = 62 then 43 else 47)"
  unfolding b64_char_def by (rule code_chr) auto

lemma b64_val_char: "i < 64 \<Longrightarrow> b64_val (b64_char i) = Some i"
  by (auto simp: b64_val_def code_b64_char Let_def)

lemma b64_char_not_space: "i < 64 \<Longrightarrow> \<not> b64_space (b64_char i)"
  by (auto simp: b64_space_def code_b64_char)

lemma code_equals: "code (CHR ''='') = 61"
  by (simp add: code_def)

lemma b64_char_not_pad: "i < 64 \<Longrightarrow> b64_char i \<noteq> CHR ''=''"
  by (auto simp: code_inject [symmetric] code_b64_char code_equals)

text \<open>The characters before the padding, as sextets.\<close>

fun sextets :: "nat list \<Rightarrow> nat list" where
  "sextets (x # y # z # bs) =
     x div 4 # (16 * (x mod 4) + y div 16) # (4 * (y mod 16) + z div 64) # z mod 64 # sextets bs"
| "sextets [x, y] = [x div 4, 16 * (x mod 4) + y div 16, 4 * (y mod 16)]"
| "sextets [x] = [x div 4, 16 * (x mod 4)]"
| "sextets [] = []"

definition padding :: "nat list \<Rightarrow> string" where
  "padding bs = (if length bs mod 3 = 2 then ''='' else if length bs mod 3 = 1 then ''=='' else [])"

lemma encode_sextets: "encode_groups bs = map b64_char (sextets bs) @ padding bs"
  by (induction bs rule: encode_groups.induct) (simp_all add: padding_def mod_Suc)

lemma pack_div: "r < m \<Longrightarrow> (m * a + r) div m = (a::nat)"
  and pack_mod: "r < m \<Longrightarrow> (m * a + r) mod m = (r::nat)"
  by simp_all

lemma byte_parts:
  assumes "b < (256::nat)"
  shows "b div 4 < 64" and "b div 16 < 16" and "b div 64 < 4"
  using assms by simp_all

lemma mod_parts: "(b::nat) mod 4 \<le> 3" "b mod 16 \<le> 15"
  by (simp_all add: less_Suc_eq_le [symmetric])

lemma sextets_bound: "\<forall>b \<in> set bs. b < 256 \<Longrightarrow> \<forall>v \<in> set (sextets bs). v < 64"
proof (induction bs rule: sextets.induct)
  case (1 x y z bs)
  then have "y div 16 < 16" "z div 64 < 4" "x div 4 < 64" by (auto simp: byte_parts)
  then have "16 * (x mod 4) + y div 16 < 64" "4 * (y mod 16) + z div 64 < 64"
    using mod_parts(1) [of x] mod_parts(2) [of y] by linarith+
  with 1 \<open>x div 4 < 64\<close> show ?case by simp
next
  case (2 x y)
  then have "y div 16 < 16" "x div 4 < 64" by (auto simp: byte_parts)
  then have "16 * (x mod 4) + y div 16 < 64" "4 * (y mod 16) < 64"
    using mod_parts(1) [of x] mod_parts(2) [of y] by linarith+
  with \<open>x div 4 < 64\<close> show ?case by simp
next
  case (3 x)
  then have "x div 4 < 64" "16 * (x mod 4) < 64"
    using mod_parts(1) [of x] by (simp, linarith)
  then show ?case by simp
qed simp

lemma decode_sextets: "\<forall>b \<in> set bs. b < 256 \<Longrightarrow> decode_groups (sextets bs) = map chr bs"
proof (induction bs rule: sextets.induct)
  case (1 x y z bs)
  then have y: "y div 16 < 16" and z: "z div 64 < 4" by (auto simp: byte_parts)
  have "4 * (x div 4) + (16 * (x mod 4) + y div 16) div 16 = x"
    using y by (simp only: pack_div mult_div_mod_eq)
  moreover have "16 * ((16 * (x mod 4) + y div 16) mod 16) + (4 * (y mod 16) + z div 64) div 4 = y"
    using y z by (simp only: pack_div pack_mod mult_div_mod_eq)
  moreover have "64 * ((4 * (y mod 16) + z div 64) mod 4) + z mod 64 = z"
    using z by (simp only: pack_mod mult_div_mod_eq)
  moreover have "decode_groups (sextets bs) = map chr bs" using 1 by simp
  ultimately show ?case by (simp only: sextets.simps decode_groups.simps list.map)
next
  case (2 x y)
  then have y: "y div 16 < 16" by (auto simp: byte_parts)
  have "4 * (x div 4) + (16 * (x mod 4) + y div 16) div 16 = x"
    using y by (simp only: pack_div mult_div_mod_eq)
  moreover have "16 * ((16 * (x mod 4) + y div 16) mod 16) + (4 * (y mod 16)) div 4 = y"
    using y pack_div [of 0 4 "y mod 16"] by (simp only: pack_mod mult_div_mod_eq add_0_right zero_less_numeral)
  ultimately show ?case by (simp only: sextets.simps decode_groups.simps list.map)
next
  case (3 x)
  have "4 * (x div 4) + (16 * (x mod 4)) div 16 = x"
    using pack_div [of 0 16 "x mod 4"] by (simp only: add_0_right mult_div_mod_eq zero_less_numeral)
  then show ?case by (simp only: sextets.simps decode_groups.simps list.map)
qed simp

lemma length_sextets: "length (sextets bs) = 4 * (length bs div 3) +
    (if length bs mod 3 = 0 then 0 else length bs mod 3 + 1)"
  by (induction bs rule: sextets.induct) simp_all

lemma length_padding: "(length (sextets bs) + length (padding bs)) mod 4 = 0"
proof -
  have "length bs mod 3 = 0 \<or> length bs mod 3 = 1 \<or> length bs mod 3 = 2" by linarith
  then show ?thesis by (elim disjE) (simp_all add: length_sextets padding_def)
qed

lemma strip_padding_encode:
  assumes "\<forall>b \<in> set bs. b < 256"
  shows "strip_padding (encode_groups bs) = map b64_char (sextets bs)"
proof -
  have ne: "CHR ''='' \<notin> set (map b64_char (sextets bs))"
  proof
    assume "CHR ''='' \<in> set (map b64_char (sextets bs))"
    then obtain v where "v \<in> set (sextets bs)" and "CHR ''='' = b64_char v" by auto
    with sextets_bound [OF assms] b64_char_not_pad [of v] show False by simp
  qed
  then have ends: "\<not> suffix ''='' (map b64_char (sextets bs))"
    by (metis in_set_conv_decomp suffix_def)
  then have ends2: "\<not> suffix ''=='' (map b64_char (sextets bs))"
    by (auto simp: suffix_def)
  have one: "\<not> suffix ''=='' (map b64_char (sextets bs) @ ''='')"
    using ends by (auto simp: suffix_def)
  have len: "length (encode_groups bs) mod 4 = 0"
    using length_padding by (simp add: encode_sextets)
  have two: "suffix ''=='' (map b64_char (sextets bs) @ ''=='')"
    by (simp add: suffix_def)
  show ?thesis
    using len ends ends2 one two by (auto simp: strip_padding_def encode_sextets padding_def)
qed

lemma encode_no_space: "\<forall>b \<in> set bs. b < 256 \<Longrightarrow> filter (\<lambda>c. \<not> b64_space c) (encode_groups bs) = encode_groups bs"
proof -
  assume b: "\<forall>b \<in> set bs. b < 256"
  have "\<not> b64_space (CHR ''='')" by (simp add: b64_space_def code_equals)
  then have "\<forall>c \<in> set (encode_groups bs). \<not> b64_space c"
    using sextets_bound [OF b] b64_char_not_space by (auto simp: encode_sextets padding_def)
  then show ?thesis by (simp add: filter_id_conv)
qed

text \<open>What the server encodes, the reader decodes.\<close>

lemma atob_b64_encode_eq: "atob (b64_encode s) = Inr s"
proof -
  define bs where "bs = map code s"
  have b: "\<forall>b \<in> set bs. b < 256" by (simp add: bs_def)
  have vals: "map b64_val (map b64_char (sextets bs)) = map Some (sextets bs)"
    using sextets_bound [OF b] by (auto simp: b64_val_char)
  have enc: "strip_padding (filter (\<lambda>c. \<not> b64_space c) (b64_encode s)) = map b64_char (sextets bs)"
    by (simp add: b64_encode_def bs_def [symmetric] encode_no_space [OF b] strip_padding_encode [OF b])
  have "length (sextets bs) mod 4 \<noteq> 1"
    by (auto simp: length_sextets)
  moreover have "map chr bs = s" by (simp add: bs_def comp_def)
  ultimately show ?thesis
    using decode_sextets [OF b] unfolding atob_def enc Let_def vals by (auto simp: comp_def)
qed

end
