(* ===== verification/Keystrokes.thy ===== *)
theory Keystrokes
  imports JS_Text
begin

text \<open>
  The text shown for what the user of a session typed and what the session printed
  (\<open>process_keystrokes\<close> and the newline handling of \<open>action_event\<close> in
  \<open>html/js/terminal_reader.js\<close>). The input is a byte string, as \<open>atob\<close> delivers it.
\<close>

section \<open>The table of special keys\<close>

text \<open>A pattern is a fixed sequence; the regular expression dot matches all but line ends.\<close>

datatype pat_char = Lit char | Dot

fun pat_match :: "pat_char list \<Rightarrow> string \<Rightarrow> bool" where
  "pat_match [] s = True"
| "pat_match (p # ps) [] = False"
| "pat_match (p # ps) (c # s) =
     ((case p of Lit d \<Rightarrow> c = d | Dot \<Rightarrow> c \<noteq> CHR 0x0A \<and> c \<noteq> CHR 0x0D) \<and> pat_match ps s)"

text \<open>\<open>data.replace(/pattern/, text)\<close>: no \<open>g\<close> flag, so the first match only.\<close>

fun replace_pat :: "pat_char list \<Rightarrow> string \<Rightarrow> string \<Rightarrow> string" where
  "replace_pat p r [] = (if p = [] then r else [])"
| "replace_pat p r (c # s) =
     (if pat_match p (c # s) then r @ drop (length p) (c # s) else c # replace_pat p r s)"

definition replace_list :: "(pat_char list \<times> string) list" where
  "replace_list =
    [([Lit (CHR 0x1B), Dot, Lit (CHR 0x44)], ''[LEFT ARROW]''),
     ([Lit (CHR 0x1B), Dot, Lit (CHR 0x43)], ''[RIGHT ARROW]''),
     ([Lit (CHR 0x1B), Dot, Lit (CHR 0x41)], ''[UP ARROW]''),
     ([Lit (CHR 0x1B), Dot, Lit (CHR 0x42)], ''[DOWN ARROW]''),
     ([Lit (CHR 0x1B), Dot, Lit (CHR 0x46)], ''[END]''),
     ([Lit (CHR 0x1B), Dot, Lit (CHR 0x48)], ''[HOME]''),
     ([Lit (CHR 0x1B), Lit (CHR 0x5B), Lit (CHR 0x33), Lit (CHR 0x7E)], ''[DELETE]''),
     ([Lit (CHR 0x1B), Lit (CHR 0x5B), Lit (CHR 0x36), Lit (CHR 0x7E)], ''[PAGE DOWN]''),
     ([Lit (CHR 0x1B), Lit (CHR 0x5B), Lit (CHR 0x35), Lit (CHR 0x7E)], ''[PAGE UP]''),
     ([Lit (CHR 0x1B), Lit (CHR 0x5B), Lit (CHR 0x32), Lit (CHR 0x7E)], ''[INSERT]''),
     ([Lit (CHR 0x1B), Lit (CHR 0x4F), Lit (CHR 0x50)], ''[F1]''),
     ([Lit (CHR 0x1B), Lit (CHR 0x4F), Lit (CHR 0x51)], ''[F2]''),
     ([Lit (CHR 0x1B), Lit (CHR 0x4F), Lit (CHR 0x52)], ''[F3]''),
     ([Lit (CHR 0x1B), Lit (CHR 0x4F), Lit (CHR 0x53)], ''[F4]''),
     ([Lit (CHR 0x1B), Lit (CHR 0x5B), Lit (CHR 0x31), Lit (CHR 0x35), Lit (CHR 0x7E)], ''[F5]''),
     ([Lit (CHR 0x1B), Lit (CHR 0x5B), Lit (CHR 0x31), Lit (CHR 0x37), Lit (CHR 0x7E)], ''[F6]''),
     ([Lit (CHR 0x1B), Lit (CHR 0x5B), Lit (CHR 0x31), Lit (CHR 0x38), Lit (CHR 0x7E)], ''[F7]''),
     ([Lit (CHR 0x1B), Lit (CHR 0x5B), Lit (CHR 0x31), Lit (CHR 0x39), Lit (CHR 0x7E)], ''[F8]''),
     ([Lit (CHR 0x1B), Lit (CHR 0x5B), Lit (CHR 0x32), Lit (CHR 0x30), Lit (CHR 0x7E)], ''[F9]''),
     ([Lit (CHR 0x1B), Lit (CHR 0x5B), Lit (CHR 0x32), Lit (CHR 0x31), Lit (CHR 0x7E)], ''[F10]''),
     ([Lit (CHR 0x1B), Lit (CHR 0x5B), Lit (CHR 0x32), Lit (CHR 0x33), Lit (CHR 0x7E)], ''[F11]''),
     ([Lit (CHR 0x1B), Lit (CHR 0x5B), Lit (CHR 0x32), Lit (CHR 0x34), Lit (CHR 0x7E)], ''[F12]''),
     ([Lit (CHR 0x09)], ''[TAB]''),
     ([Lit (CHR 0x1B)], ''[ESC]''),
     ([Lit (CHR 0x0D)], ''[CARRIAGE RETURN]''),
     ([Lit (CHR 0x0A)], ''[LINE FEED]''),
     ([Lit (CHR 0x7F)], ''[BACKSPACE]'')]"

section \<open>The three passes of process_keystrokes\<close>

definition replace_keys :: "string \<Rightarrow> string" where
  "replace_keys data = fold (\<lambda>(p, r) d. replace_pat p r d) replace_list data"

definition signal_chars :: string where
  "signal_chars = ''ABCDEFGHIJKLMNOPQRSTUVWXYZ''"

definition ctrl_label :: "nat \<Rightarrow> string" where
  "ctrl_label index = ''[CTRL+'' @ [signal_chars ! (index - 1)] @ '']''"

text \<open>The second loop counts from 1 below the length of \<open>signal_chars\<close>, that is to 25.\<close>

definition replace_signals :: "string \<Rightarrow> string" where
  "replace_signals data = fold (\<lambda>index d. replace_first [chr index] (ctrl_label index) d)
     [1..<length signal_chars] data"

definition is_control :: "char \<Rightarrow> bool" where
  "is_control c \<longleftrightarrow> code c < 0x20 \<and> code c \<noteq> 9 \<and> code c \<noteq> 10"

definition escape_code :: "char \<Rightarrow> string" where
  "escape_code c = [CHR ''['', CHR 92] @ digits (int (code c)) @ '']''"

text \<open>
  The third loop walks over \<open>data\<close> while replacing control characters in it, so \<open>data\<close> grows
  under the walk; the weight of what is still ahead shrinks.
\<close>

definition weight :: "string \<Rightarrow> nat" where
  "weight s = sum_list (map (\<lambda>c. if is_control c then 6 else 1) s)"

lemma weight_append [simp]: "weight (xs @ ys) = weight xs + weight ys"
  by (simp add: weight_def)

lemma weight_Cons [simp]: "weight (c # s) = (if is_control c then 6 else 1) + weight s"
  by (simp add: weight_def)

lemma weight_Nil [simp]: "weight [] = 0"
  by (simp add: weight_def)

lemma digit_not_control: "is_digit c \<Longrightarrow> \<not> is_control c"
  by (simp add: is_digit_def is_control_def)

lemma small_digits: "n < 32 \<Longrightarrow> length (digits n) \<le> 2"
  by (subst digits.simps, subst digits.simps) auto

lemma weight_plain: "\<forall>c \<in> set s. \<not> is_control c \<Longrightarrow> weight s = length s"
  by (induction s) simp_all

lemma escape_tail_weight:
  assumes "is_control c"
  shows "weight (CHR 92 # digits (int (code c)) @ '']'') < 6"
proof -
  have "weight (digits (int (code c))) = length (digits (int (code c)))"
    using digits_are_digits [of "int (code c)"] by (intro weight_plain) (auto dest: digit_not_control)
  also have "\<dots> \<le> 2" using assms by (intro small_digits) (simp add: is_control_def)
  finally show ?thesis by (simp add: is_control_def code_def)
qed

function escape_loop :: "nat \<Rightarrow> string \<Rightarrow> string" where
  "escape_loop index data =
     (if index < length data then
        escape_loop (Suc index)
          (if is_control (data ! index)
           then substring data 0 index @ escape_code (data ! index) @ substring data (index + 1) (length data)
           else data)
      else data)"
  by pat_completeness auto
termination
proof (relation "measure (\<lambda>(index, data). weight (drop index data))")
  fix index :: nat and data :: string
  assume lt: "index < length data"
  let ?c = "data ! index"
  have step: "drop index data = ?c # drop (Suc index) data"
    using lt by (rule Cons_nth_drop_Suc [symmetric])
  show "((Suc index, if is_control ?c then substring data 0 index @ escape_code ?c @ substring data (index + 1) (length data) else data),
      index, data) \<in> measure (\<lambda>(index, data). weight (drop index data))"
  proof (cases "is_control ?c")
    case True
    have "drop (Suc index) (substring data 0 index @ escape_code ?c @ substring data (index + 1) (length data))
        = (CHR 92 # digits (int (code ?c)) @ '']'') @ drop (Suc index) data"
      using lt by (simp add: substring_def escape_code_def)
    with True escape_tail_weight [OF True] show ?thesis by (simp add: step del: append_Cons)
  next
    case False
    then show ?thesis by (simp add: step)
  qed
qed simp

declare escape_loop.simps [simp del]

definition process_keystrokes :: "string \<Rightarrow> string" where
  "process_keystrokes in_data = escape_loop 0 (replace_signals (replace_keys in_data))"

section \<open>What the display guarantees\<close>

text \<open>The third loop, read as a map over the characters.\<close>

definition escape_char :: "char \<Rightarrow> string" where
  "escape_char c = (if is_control c then escape_code c else [c])"

definition escape_all :: "string \<Rightarrow> string" where
  "escape_all s = concat (map escape_char s)"

lemma escape_all_Nil [simp]: "escape_all [] = []"
  and escape_all_Cons [simp]: "escape_all (c # s) = escape_char c @ escape_all s"
  and escape_all_append [simp]: "escape_all (s @ t) = escape_all s @ escape_all t"
  by (simp_all add: escape_all_def)

lemma escape_all_plain: "\<forall>c \<in> set s. \<not> is_control c \<Longrightarrow> escape_all s = s"
  by (induction s) (simp_all add: escape_char_def)

lemma escape_code_plain: "\<forall>c \<in> set (escape_code d). \<not> is_control c"
  using digits_are_digits [of "int (code d)"]
  by (auto simp: escape_code_def digit_not_control) (simp_all add: is_control_def code_def)

lemma escape_all_no_control: "\<forall>c \<in> set (escape_all s). \<not> is_control c"
  using escape_code_plain by (induction s) (auto simp: escape_char_def)

lemma escape_loop_from: "escape_loop index data = take index data @ escape_all (drop index data)"
proof (induction index data rule: escape_loop.induct)
  case (1 index data)
  show ?case
  proof (cases "index < length data")
    case False
    then show ?thesis by (simp add: escape_loop.simps [of index data])
  next
    case True
    let ?c = "data ! index"
    let ?data = "if is_control ?c then substring data 0 index @ escape_code ?c @ substring data (index + 1) (length data) else data"
    have split: "drop index data = ?c # drop (Suc index) data"
      using True by (rule Cons_nth_drop_Suc [symmetric])
    have IH: "escape_loop index data = take (Suc index) ?data @ escape_all (drop (Suc index) ?data)"
      using "1.IH" [OF True] True by (simp add: escape_loop.simps [of index data])
    show ?thesis
    proof (cases "is_control ?c")
      case False
      with True show ?thesis
        by (simp add: IH split take_Suc_conv_app_nth escape_char_def)
    next
      case ctl: True
      have tail: "escape_all (tl (escape_code ?c)) = tl (escape_code ?c)"
        using escape_code_plain [of ?c] by (intro escape_all_plain) (auto simp: escape_code_def)
      have code: "escape_code ?c = CHR ''['' # tl (escape_code ?c)"
        by (simp add: escape_code_def)
      have "take (Suc index) ?data = take index data @ ''[''"
        using ctl True by (simp add: substring_def escape_code_def)
      moreover have "drop (Suc index) ?data = tl (escape_code ?c) @ drop (Suc index) data"
        using ctl True by (simp add: substring_def escape_code_def)
      ultimately have "escape_loop index data
          = take index data @ (''['' @ tl (escape_code ?c)) @ escape_all (drop (Suc index) data)"
        by (simp only: IH escape_all_append tail append_assoc)
      also have "''['' @ tl (escape_code ?c) = escape_char ?c"
        using ctl code by (simp add: escape_char_def)
      finally show ?thesis by (simp only: split escape_all_Cons)
    qed
  qed
qed

text \<open>The in-place loop is the map.\<close>

lemma escape_loop_eq: "escape_loop 0 data = escape_all data"
  by (simp add: escape_loop_from)

lemma process_keystrokes_eq:
  "process_keystrokes s = escape_all (replace_signals (replace_keys s))"
  by (simp add: process_keystrokes_def escape_loop_eq)

subsection \<open>Printable text\<close>

definition printable :: "char \<Rightarrow> bool" where
  "printable c \<longleftrightarrow> 0x20 \<le> code c \<and> code c \<noteq> 0x7f"

lemma printable_not_control: "printable c \<Longrightarrow> \<not> is_control c"
  by (simp add: printable_def is_control_def)

lemma replace_pat_skip:
  assumes "d \<notin> set xs"
  shows "replace_pat (Lit d # ps) r (xs @ s) = xs @ replace_pat (Lit d # ps) r s"
  using assms by (induction xs) auto

lemma replace_pat_absent: "d \<notin> set s \<Longrightarrow> replace_pat (Lit d # ps) r s = s"
  using replace_pat_skip [of d s ps r "[]"] by simp

lemma replace_first_char:
  "c \<notin> set xs \<Longrightarrow> replace_first [c] r (xs @ c # ys) = xs @ r @ ys"
  by (induction xs) auto

lemma replace_first_char_absent: "c \<notin> set s \<Longrightarrow> replace_first [c] r s = s"
  by (induction s) auto

lemma fold_unchanged: "(\<And>x. x \<in> set xs \<Longrightarrow> f x s = s) \<Longrightarrow> fold f xs s = s"
  by (induction xs) auto

lemma length_signal_chars: "length signal_chars = 26"
  by (simp add: signal_chars_def)

lemma upt_split: "a \<le> i \<Longrightarrow> i < b \<Longrightarrow> [a..<b] = [a..<i] @ i # [Suc i..<b]"
  using upt_add_eq_append [of a i "b - i"] upt_conv_Cons [of i b] by simp

lemma signal_index: "i \<in> set [1..<length signal_chars] \<longleftrightarrow> 1 \<le> i \<and> i < 26"
  by (simp only: set_upt atLeastLessThan_iff length_signal_chars)

lemma replace_signals_absent:
  assumes "\<And>i. 1 \<le> i \<Longrightarrow> i < 26 \<Longrightarrow> chr i \<notin> set s"
  shows "replace_signals s = s"
  unfolding replace_signals_def
  by (rule fold_unchanged, rule replace_first_char_absent) (use assms signal_index in blast)

lemma chr_eq: "i < 256 \<Longrightarrow> chr i = c \<longleftrightarrow> code c = i"
  by auto

lemma replace_signals_printable:
  assumes "\<forall>c \<in> set s. 0x20 \<le> code c"
  shows "replace_signals s = s"
proof (rule replace_signals_absent)
  fix i :: nat assume "1 \<le> i" "i < 26"
  then show "chr i \<notin> set s" using assms by fastforce
qed

lemma ctrl_label_printable: "1 \<le> i \<Longrightarrow> i < 26 \<Longrightarrow> \<forall>c \<in> set (ctrl_label i). 0x20 \<le> code c"
proof -
  assume i: "1 \<le> i" "i < 26"
  have "\<forall>c \<in> set signal_chars. 0x20 \<le> code c" by code_simp
  moreover have "signal_chars ! (i - 1) \<in> set signal_chars"
    using i by (intro nth_mem) (simp add: signal_chars_def)
  ultimately have "0x20 \<le> code (signal_chars ! (i - 1))" by blast
  then show ?thesis by (simp add: ctrl_label_def code_def)
qed

text \<open>The loop over the signals replaces the first occurrence of a control character.\<close>

lemma replace_signals_at:
  assumes i: "1 \<le> i" "i < 26" and xs: "\<forall>c \<in> set xs. 0x20 \<le> code c"
    and ys: "\<forall>c \<in> set ys. 0x20 \<le> code c \<or> code c = i"
  shows "replace_signals (xs @ chr i # ys) = xs @ ctrl_label i @ ys"
proof -
  let ?f = "\<lambda>index d. replace_first [chr index] (ctrl_label index) d"
  have parts: "[1..<26] = [1..<i] @ i # [Suc i..<26]"
    using i by (rule upt_split)
  have other: "chr j \<notin> set (xs @ chr i # ys)" if "j < 26" "j \<noteq> i" for j
    using xs ys i that by (fastforce simp: chr_eq)
  have before: "fold ?f [1..<i] (xs @ chr i # ys) = xs @ chr i # ys"
    using i other by (intro fold_unchanged replace_first_char_absent) auto
  have "chr i \<notin> set xs" using xs i by fastforce
  then have at: "?f i (xs @ chr i # ys) = xs @ ctrl_label i @ ys"
    by (rule replace_first_char)
  have "chr j \<notin> set (xs @ ctrl_label i @ ys)" if "j < 26" "j \<noteq> i" for j
    using xs ys i ctrl_label_printable [OF i] that by (fastforce simp: chr_eq)
  then have after: "fold ?f [Suc i..<26] (xs @ ctrl_label i @ ys) = xs @ ctrl_label i @ ys"
    by (intro fold_unchanged replace_first_char_absent) auto
  show ?thesis
    unfolding replace_signals_def length_signal_chars parts fold_append fold.simps comp_def before at after ..
qed

text \<open>Every pattern of the table starts with one of five characters.\<close>

definition key_heads :: "char set" where
  "key_heads = {CHR 0x1B, CHR 0x09, CHR 0x0D, CHR 0x0A, CHR 0x7F}"

lemma replace_list_heads: "(p, r) \<in> set replace_list \<Longrightarrow> \<exists>d ps. p = Lit d # ps \<and> d \<in> key_heads"
  by (auto simp: replace_list_def key_heads_def)

lemma key_heads_code: "d \<in> key_heads \<longleftrightarrow> code d \<in> {0x1b, 0x09, 0x0d, 0x0a, 0x7f}"
  by (auto simp: key_heads_def code_def code_inject [symmetric])

lemma replace_keys_unchanged:
  assumes "\<forall>c \<in> set s. c \<notin> key_heads"
  shows "replace_keys s = s"
  unfolding replace_keys_def
proof (rule fold_unchanged)
  fix x assume "x \<in> set replace_list"
  then obtain d ps r where x: "x = (Lit d # ps, r)" and "d \<in> key_heads"
    using replace_list_heads by (metis surj_pair)
  then have "d \<notin> set s" using assms by blast
  then show "(case x of (p, r) \<Rightarrow> replace_pat p r) s = s"
    by (simp add: x replace_pat_absent)
qed

text \<open>Control characters with no entry of their own in the table.\<close>

definition plain_ctrl :: "nat \<Rightarrow> bool" where
  "plain_ctrl i \<longleftrightarrow> 1 \<le> i \<and> i < 0x20 \<and> i \<notin> {0x1b, 0x09, 0x0d, 0x0a}"

lemma replace_keys_ctrl:
  assumes "plain_ctrl i" and "\<forall>c \<in> set s. printable c \<or> code c = i"
  shows "replace_keys s = s"
  using assms by (intro replace_keys_unchanged) (force simp: key_heads_code plain_ctrl_def printable_def)

text \<open>Tabs, line feeds and deletes: the table has a label for the first of each.\<close>

definition labelled_keys :: string where
  "labelled_keys = [CHR 0x09, CHR 0x0A, CHR 0x7F]"

lemma labelled_key_code: "c \<in> set labelled_keys \<Longrightarrow> code c \<in> {9, 10, 127}"
  by (auto simp: labelled_keys_def code_def)

lemma count_replace_pat: "c \<notin> set r \<Longrightarrow> count_list (replace_pat p r s) c \<le> count_list s c"
proof (induction s)
  case (Cons d s)
  have "count_list (drop n t) c \<le> count_list t c" for n t
    using count_list_append [of "take n t" "drop n t" c] by simp
  from this [of "length p" "d # s"] show ?case
    using Cons by (simp del: count_list.simps) simp
qed (simp add: count_notin)

lemma count_replace_key: "c \<notin> set r \<Longrightarrow> count_list (replace_pat [Lit c] r s) c \<le> count_list s c - 1"
proof (induction s)
  case (Cons d s)
  then show ?case using count_notin [of c s] by (cases "d = c") (auto simp: count_notin)
qed simp

lemma count_fold_le: "(\<And>x d. x \<in> set xs \<Longrightarrow> count_list (f x d) c \<le> count_list d c) \<Longrightarrow> count_list (fold f xs s) c \<le> count_list s c"
proof (induction xs arbitrary: s)
  case (Cons x xs)
  then have "count_list (fold f xs (f x s)) c \<le> count_list (f x s) c" "count_list (f x s) c \<le> count_list s c" by simp_all
  then show ?case by simp
qed simp

lemma labels_plain: "(p, r) \<in> set replace_list \<Longrightarrow> c \<in> set labelled_keys \<Longrightarrow> c \<notin> set r"
proof -
  assume "(p, r) \<in> set replace_list" and c: "c \<in> set labelled_keys"
  then have "list_all printable r" by (auto simp: replace_list_def printable_def code_def)
  then show "c \<notin> set r" using labelled_key_code [OF c] by (auto simp: list_all_iff printable_def)
qed

lemma labelled_in_table: "c \<in> set labelled_keys \<Longrightarrow> \<exists>r. ([Lit c], r) \<in> set replace_list"
proof -
  have "([Lit (CHR 0x09)], ''[TAB]'') \<in> set replace_list" "([Lit (CHR 0x0A)], ''[LINE FEED]'') \<in> set replace_list"
    "([Lit (CHR 0x7F)], ''[BACKSPACE]'') \<in> set replace_list" by (simp_all add: replace_list_def)
  then show "c \<in> set labelled_keys \<Longrightarrow> \<exists>r. ([Lit c], r) \<in> set replace_list"
    by (auto simp: labelled_keys_def simp del: char.inject)
qed

lemma count_replace_keys:
  assumes "c \<in> set labelled_keys"
  shows "count_list (replace_keys s) c \<le> count_list s c - 1"
proof -
  let ?f = "\<lambda>(p, r) d. replace_pat p r d"
  obtain r where r: "([Lit c], r) \<in> set replace_list" using labelled_in_table [OF assms] by blast
  then obtain xs ys where split: "replace_list = xs @ ([Lit c], r) # ys" by (meson split_list)
  have fewer: "count_list (fold ?f zs t) c \<le> count_list t c" if "set zs \<subseteq> set replace_list" for zs t
    using that labels_plain [OF _ assms] by (intro count_fold_le) (auto intro!: count_replace_pat)
  have parts: "set xs \<subseteq> set replace_list" "set ys \<subseteq> set replace_list" by (auto simp: split)
  have "replace_keys s = fold ?f ys (replace_pat [Lit c] r (fold ?f xs s))"
    by (simp add: replace_keys_def split)
  then have "count_list (replace_keys s) c \<le> count_list (replace_pat [Lit c] r (fold ?f xs s)) c"
    using fewer [OF parts(2)] by simp
  also have "\<dots> \<le> count_list (fold ?f xs s) c - 1"
    by (rule count_replace_key) (rule labels_plain [OF r assms])
  also have "\<dots> \<le> count_list s c - 1"
    using fewer [OF parts(1)] by (intro diff_le_mono)
  finally show ?thesis .
qed

lemma count_replace_first: "c \<notin> set r \<Longrightarrow> p \<noteq> [] \<Longrightarrow> count_list (replace_first p r s) c \<le> count_list s c"
proof (induction s)
  case (Cons d s)
  have "count_list (drop n t) c \<le> count_list t c" for n t
    using count_list_append [of "take n t" "drop n t" c] by simp
  from this [of "length p" "d # s"] show ?case
    using Cons by (simp del: count_list.simps) simp
qed simp

lemma ctrl_label_plain: "1 \<le> i \<Longrightarrow> i < 26 \<Longrightarrow> c \<in> set labelled_keys \<Longrightarrow> c \<notin> set (ctrl_label i)"
proof -
  assume i: "1 \<le> i" "i < 26" and c: "c \<in> set labelled_keys"
  have "list_all printable signal_chars" by (simp add: signal_chars_def printable_def code_def)
  then have "printable (signal_chars ! (i - 1))"
    using i by (simp add: list_all_length length_signal_chars)
  then have "list_all printable (ctrl_label i)" by (simp add: ctrl_label_def printable_def code_def)
  then show "c \<notin> set (ctrl_label i)" using labelled_key_code [OF c] by (auto simp: list_all_iff printable_def)
qed

lemma count_signals_le:
  assumes "c \<in> set labelled_keys" "set is \<subseteq> set [1..<26]"
  shows "count_list (fold (\<lambda>i d. replace_first [chr i] (ctrl_label i) d) is s) c \<le> count_list s c"
  using assms ctrl_label_plain [OF _ _ assms(1)] by (intro count_fold_le count_replace_first) auto

lemma count_replace_char: "c \<notin> set r \<Longrightarrow> count_list (replace_first [c] r s) c \<le> count_list s c - 1"
proof (induction s)
  case (Cons d s)
  then show ?case using count_notin [of c s] by (cases "d = c") (auto simp: count_notin)
qed simp

text \<open>The second loop labels one more tab and one more line feed, as Ctrl+I and Ctrl+J.\<close>

lemma count_replace_signals:
  assumes "c \<in> set labelled_keys"
  shows "count_list (replace_signals s) c \<le> count_list s c - (if c = CHR 0x7F then 0 else 1)"
proof (cases "c = CHR 0x7F")
  case True
  then show ?thesis using count_signals_le [OF assms subset_refl] by (simp add: replace_signals_def length_signal_chars)
next
  case False
  let ?f = "\<lambda>i d. replace_first [chr i] (ctrl_label i) d"
  define i where "i = code c"
  have "code (CHR 0x09) = 9" "code (CHR 0x0A) = 10" by (simp_all add: code_def)
  then have i: "1 \<le> i" "i < 26" "chr i = c" using False assms by (auto simp: i_def labelled_keys_def)
  have parts: "[1..<26] = [1..<i] @ i # [Suc i..<26]" using i by (intro upt_split)
  have "replace_signals s = fold ?f [Suc i..<26] (?f i (fold ?f [1..<i] s))"
    by (simp only: replace_signals_def length_signal_chars parts fold_append fold.simps comp_apply)
  then have "count_list (replace_signals s) c \<le> count_list (?f i (fold ?f [1..<i] s)) c"
    using count_signals_le [OF assms, of "[Suc i..<26]" "?f i (fold ?f [1..<i] s)"] i by simp
  also have "\<dots> \<le> count_list (fold ?f [1..<i] s) c - 1"
    unfolding i(3) by (intro count_replace_char ctrl_label_plain i assms)
  also have "\<dots> \<le> count_list s c - 1"
    using count_signals_le [OF assms, of "[1..<i]" s] i by (intro diff_le_mono) simp
  finally show ?thesis using False by simp
qed

lemma count_escape_all:
  assumes "c \<in> set labelled_keys"
  shows "count_list (escape_all s) c = count_list s c"
proof -
  have "c \<notin> set (escape_code d)" for d
  proof -
    have "\<not> is_digit c" using labelled_key_code [OF assms] by (auto simp: is_digit_def)
    then have "c \<notin> set (digits (int (code d)))" using digits_are_digits [of "int (code d)"] by auto
    then show ?thesis using labelled_key_code [OF assms] by (auto simp: escape_code_def code_def)
  qed
  moreover have "\<not> is_control c" using labelled_key_code [OF assms] by (auto simp: is_control_def)
  ultimately show ?thesis by (induction s) (auto simp: escape_char_def count_notin)
qed

subsection \<open>Properties\<close>

text \<open>
  C37. Of the characters below the space only tabs and line feeds reach the page. Of the deletes
  (code 127) at least one fewer reaches it than came in, of the tabs and of the line feeds at least two
  fewer: the first is shown by its label and a second tab or line feed as Ctrl+I or Ctrl+J, so a single
  delete, and up to two tabs and line feeds, never get there as they are; more of them in one piece of
  input do.
\<close>

theorem display_no_control:
  "list_all (\<lambda>c. 0x20 \<le> code c \<or> code c = 9 \<or> code c = 10) (process_keystrokes s) \<and>
   list_all (\<lambda>c. count_list (process_keystrokes s) c \<le> count_list s c - 2) [CHR 0x09, CHR 0x0A] \<and>
   count_list (process_keystrokes s) (CHR 0x7F) \<le> count_list s (CHR 0x7F) - 1"
proof -
  have "count_list (process_keystrokes s) c \<le> count_list s c - (if c = CHR 0x7F then 1 else 2)" if "c \<in> set labelled_keys" for c
    using count_replace_signals [OF that, of "replace_keys s"] count_replace_keys [OF that, of s]
    by (simp add: process_keystrokes_eq count_escape_all [OF that] split: if_splits)
  from this [of "CHR 0x09"] this [of "CHR 0x0A"] this [of "CHR 0x7F"] show ?thesis
    using escape_all_no_control [of "replace_signals (replace_keys s)"]
    by (auto simp: process_keystrokes_eq is_control_def not_less list_all_iff labelled_keys_def)
qed

text \<open>The second delete of a piece of input does.\<close>

lemma second_backspace_raw: "process_keystrokes [CHR 0x7F, CHR 0x7F] = ''[BACKSPACE]'' @ [CHR 0x7F]"
  by code_simp

text \<open>C38. The first Ctrl+A to Ctrl+Y (but for tab, line feed and return, which have labels of
  their own) in otherwise printable text is shown by its label, in place; a second one of the
  same kind is not: it appears as its bare number in brackets.\<close>

theorem display_ctrl:
  assumes i: "plain_ctrl i" "i < 26" and xs: "\<forall>c \<in> set xs. printable c"
    and ys: "\<forall>c \<in> set ys. printable c \<or> code c = i"
  shows "process_keystrokes (xs @ chr i # ys) = xs @ ctrl_label i @ escape_all ys"
proof -
  have i1: "1 \<le> i" using i(1) by (simp add: plain_ctrl_def)
  have "i < 256" using i(2) by simp
  then have "replace_keys (xs @ chr i # ys) = xs @ chr i # ys"
    using i(1) xs ys by (intro replace_keys_ctrl) auto
  moreover have "replace_signals (xs @ chr i # ys) = xs @ ctrl_label i @ ys"
    using xs ys by (intro replace_signals_at [OF i1 i(2)]) (auto simp: printable_def)
  moreover have "escape_all xs = xs"
    using xs by (intro escape_all_plain) (auto simp: printable_not_control)
  moreover have "escape_all (ctrl_label i) = ctrl_label i"
    using ctrl_label_printable [OF i1 i(2)] by (intro escape_all_plain) (auto simp: is_control_def)
  ultimately show ?thesis by (simp add: process_keystrokes_eq)
qed

theorem display_ctrl_witness:
  "process_keystrokes (''a'' @ chr 3 # ''b'' @ [chr 3]) = ''a'' @ ''[CTRL+C]'' @ ''b['' @ [CHR 92] @ ''3]''"
proof -
  have "process_keystrokes (''a'' @ chr 3 # ''b'' @ [chr 3])
      = ''a'' @ ctrl_label 3 @ escape_all (''b'' @ [chr 3])"
    by (rule display_ctrl) code_simp+
  also have "\<dots> = ''a'' @ ''[CTRL+C]'' @ ''b['' @ [CHR 92] @ ''3]''"
    by code_simp
  finally show ?thesis .
qed

text \<open>Ctrl+Z, though the letter Z is in \<open>signal_chars\<close>, and the control characters above
  it are never shown by a label: the second loop stops one short.\<close>

theorem display_ctrl_z:
  assumes i: "plain_ctrl i" "26 \<le> i" and xs: "\<forall>c \<in> set xs. printable c"
    and ys: "\<forall>c \<in> set ys. printable c"
  shows "process_keystrokes (xs @ chr i # ys) = xs @ escape_code (chr i) @ ys"
proof -
  have i256: "i < 256" using i(1) by (simp add: plain_ctrl_def)
  have "replace_keys (xs @ chr i # ys) = xs @ chr i # ys"
    using i xs ys i256 by (intro replace_keys_ctrl [of i]) auto
  moreover have "replace_signals (xs @ chr i # ys) = xs @ chr i # ys"
    using xs ys i(2) i256
    by (intro replace_signals_absent) (fastforce simp: printable_def chr_eq)
  moreover have "escape_all xs = xs" "escape_all ys = ys"
    using xs ys by (auto intro!: escape_all_plain simp: printable_not_control)
  moreover have "is_control (chr i)"
    using i i256 by (simp add: is_control_def plain_ctrl_def)
  ultimately show ?thesis by (simp add: process_keystrokes_eq escape_char_def)
qed

theorem display_ctrl_z_witness:
  "process_keystrokes ([] @ chr 26 # []) = [] @ escape_code (chr 26) @ []"
  by (rule display_ctrl_z) code_simp+

text \<open>What a key of the table sends; a wildcard stands for an opening bracket.\<close>

definition key_bytes :: "pat_char list \<Rightarrow> string" where
  "key_bytes p = map (\<lambda>x. case x of Lit d \<Rightarrow> d | Dot \<Rightarrow> CHR ''['') p"

lemma replace_keys_alone:
  "list_all (\<lambda>(p, r). replace_keys (key_bytes p) = r \<and> list_all printable r) replace_list"
  by code_simp

text \<open>Every key of the table, typed alone, is shown by its label.\<close>

theorem display_keys:
  "list_all (\<lambda>(p, r). process_keystrokes (key_bytes p) = r) replace_list"
proof -
  have "process_keystrokes (key_bytes p) = r"
    if "replace_keys (key_bytes p) = r" "list_all printable r" for p r
  proof -
    have "replace_signals r = r"
      using that(2) by (intro replace_signals_printable) (auto simp: list_all_iff printable_def)
    moreover have "escape_all r = r"
      using that(2) by (intro escape_all_plain) (auto simp: list_all_iff printable_not_control)
    ultimately show ?thesis by (simp add: process_keystrokes_eq that(1))
  qed
  with replace_keys_alone show ?thesis by (auto simp: list_all_iff)
qed

end
