(* ===== verification/Newlines.thy ===== *)
theory Newlines
  imports JS_Text
begin

text \<open>
  The line ends of session output: \<open>action_event\<close> in \<open>html/js/terminal_reader.js\<close> runs the
  decoded bytes through \<open>.replace(/[\r\n]+/g, "\n").replace(/\n/g, "\r\n")\<close> before they reach
  the terminal.
\<close>

section \<open>Code\<close>

definition is_nl :: "char \<Rightarrow> bool" where
  "is_nl c \<longleftrightarrow> code c = 10 \<or> code c = 13"

definition LF :: char where
  "LF = chr 10"

definition CR :: char where
  "CR = chr 13"

function collapse_newlines :: "string \<Rightarrow> string" where
  "collapse_newlines [] = []"
| "collapse_newlines (c # s) =
     (if is_nl c then LF # collapse_newlines (dropWhile is_nl s) else c # collapse_newlines s)"
  by pat_completeness auto
termination
  by (relation "measure length") (simp_all add: length_dropWhile_le less_Suc_eq_le)

fun expand_newlines :: "string \<Rightarrow> string" where
  "expand_newlines [] = []"
| "expand_newlines (c # s) = (if c = LF then CR # LF # expand_newlines s else c # expand_newlines s)"

definition normalize_output :: "string \<Rightarrow> string" where
  "normalize_output s = expand_newlines (collapse_newlines s)"

section \<open>Facts\<close>

lemma is_nl_LF [simp]: "is_nl LF" and is_nl_CR [simp]: "is_nl CR" and CR_LF [simp]: "CR \<noteq> LF" "LF \<noteq> CR"
  by (simp_all add: is_nl_def LF_def CR_def code_inject [symmetric])

lemma is_nl_iff: "is_nl c \<longleftrightarrow> c = LF \<or> c = CR"
  by (auto simp: is_nl_def LF_def CR_def code_inject [symmetric])

text \<open>Well-formed output: a return is followed by a feed, a feed comes after a return, and no
  two line ends are adjacent.\<close>

fun crlf_text :: "string \<Rightarrow> bool" where
  "crlf_text [] = True"
| "crlf_text (c # s) =
     (if c = CR then (case s of d # t \<Rightarrow> d = LF \<and> (t = [] \<or> \<not> is_nl (hd t)) \<and> crlf_text t | [] \<Rightarrow> False)
      else c \<noteq> LF \<and> crlf_text s)"

fun collapsed :: "string \<Rightarrow> bool" where
  "collapsed [] = True"
| "collapsed (c # s) = (c \<noteq> CR \<and> (c = LF \<longrightarrow> s = [] \<or> \<not> is_nl (hd s)) \<and> collapsed s)"

lemma dropWhile_nl_hd: "dropWhile is_nl s = [] \<or> \<not> is_nl (hd (dropWhile is_nl s))"
  by (metis hd_dropWhile)

lemma collapse_hd: "s \<noteq> [] \<Longrightarrow> \<not> is_nl (hd s) \<Longrightarrow> hd (collapse_newlines s) = hd s"
  by (cases s) auto

lemma collapse_Nil_iff [simp]: "collapse_newlines s = [] \<longleftrightarrow> s = []"
  by (cases s) auto

lemma collapse_collapsed: "collapsed (collapse_newlines s)"
proof (induction s rule: collapse_newlines.induct)
  case (2 c s)
  show ?case
  proof (cases "is_nl c")
    case True
    have "collapse_newlines (dropWhile is_nl s) = [] \<or> \<not> is_nl (hd (collapse_newlines (dropWhile is_nl s)))"
      using dropWhile_nl_hd [of s] collapse_hd [of "dropWhile is_nl s"]
      by (metis collapse_Nil_iff)
    with True 2 show ?thesis by simp
  next
    case False
    with 2 show ?thesis by (auto simp: is_nl_iff)
  qed
qed simp

lemma collapsed_id: "collapsed s \<Longrightarrow> collapse_newlines s = s"
proof (induction s)
  case (Cons c s)
  then show ?case by (cases s) (auto simp: is_nl_iff)
qed simp

lemma expand_hd: "s \<noteq> [] \<Longrightarrow> is_nl (hd (expand_newlines s)) \<longleftrightarrow> hd s = LF \<or> hd s = CR"
  by (cases s) (auto simp: is_nl_iff)

lemma expand_Nil_iff [simp]: "expand_newlines s = [] \<longleftrightarrow> s = []"
  by (cases s) auto

lemma expand_crlf: "collapsed s \<Longrightarrow> crlf_text (expand_newlines s)"
proof (induction s)
  case (Cons c s)
  then show ?case using expand_hd [of s] by (auto simp: is_nl_iff)
qed simp

lemma collapse_crlf_cons: "\<not> is_nl (hd s) \<or> s = [] \<Longrightarrow> collapse_newlines (CR # LF # s) = LF # collapse_newlines s"
  by (cases s) auto

lemma collapse_expand: "collapsed s \<Longrightarrow> collapse_newlines (expand_newlines s) = s"
proof (induction s)
  case (Cons c s)
  show ?case
  proof (cases "c = LF")
    case True
    with Cons.prems have "\<not> is_nl (hd (expand_newlines s)) \<or> expand_newlines s = []"
      using expand_hd [of s] by (auto simp: is_nl_iff)
    with True Cons show ?thesis by (simp add: collapse_crlf_cons del: collapse_newlines.simps)
  next
    case False
    with Cons show ?thesis by (auto simp: is_nl_iff)
  qed
qed simp

lemma collapse_append_nl:
  "is_nl c \<Longrightarrow> collapse_newlines (xs @ c # s) = collapse_newlines (xs @ LF # dropWhile is_nl s)"
proof (induction xs rule: collapse_newlines.induct)
  case 1
  have "dropWhile is_nl (dropWhile is_nl s) = dropWhile is_nl s"
    by (simp add: dropWhile_idem)
  with 1 show ?case by simp
next
  case (2 x xs)
  show ?case
  proof (cases "is_nl x")
    case False
    with 2 show ?thesis by simp
  next
    case True
    show ?thesis
    proof (cases "\<forall>y \<in> set xs. is_nl y")
      case all: True
      then have "dropWhile is_nl (xs @ t) = dropWhile is_nl t" for t
        by (simp add: dropWhile_append2)
      with True 2 show ?thesis by (simp add: dropWhile_idem)
    next
      case False
      then have "dropWhile is_nl (xs @ t) = dropWhile is_nl xs @ t" for t
        by (metis dropWhile_append1)
      with True 2 show ?thesis by simp
    qed
  qed
qed

text \<open>What reaches the terminal has its line ends in the form the terminal needs, single
  and complete, whatever the session printed.\<close>

theorem normalize_crlf: "crlf_text (normalize_output s)"
  by (simp add: normalize_output_def expand_crlf collapse_collapsed)

text \<open>A run of line ends of any kind and length counts as one: blank lines disappear, and
  a lone carriage return becomes a new line.\<close>

theorem normalize_blank_lines:
  assumes "is_nl c" and "\<forall>d \<in> set ds. is_nl d"
  shows "normalize_output (xs @ c # ds @ s) = normalize_output (xs @ LF # s)"
proof -
  have "dropWhile is_nl (ds @ s) = dropWhile is_nl s"
    using assms(2) by (simp add: dropWhile_append2)
  then show ?thesis
    using collapse_append_nl [OF assms(1), of xs "ds @ s"] collapse_append_nl [OF is_nl_LF, of xs s]
    by (simp add: normalize_output_def)
qed

theorem normalize_blank_lines_witness:
  "normalize_output (''a'' @ CR # [LF, CR, LF] @ ''b'') = normalize_output (''a'' @ LF # ''b'')"
  by (rule normalize_blank_lines) simp_all

end
