(* ===== verification/Terminal_Reader.thy ===== *)
theory Terminal_Reader
  imports JS_Value Base64 Keystrokes Newlines
begin

text \<open>
  The player of recorded and live sessions: classes \<open>TerminalEvent\<close> and \<open>TerminalReader\<close> of
  \<open>html/js/terminal_reader.js\<close>, method by method. The object's private fields are the fields of
  the record \<open>tr\<close>; the page around it (the terminal emulator, the panes, pending timeouts, the
  clock) is in the same record, because the methods act on it.
\<close>

section \<open>TerminalEvent\<close>

text \<open>\<open>Object.entries\<close>: \<open>null\<close> and \<open>undefined\<close> throw, strings and arrays have index keys.\<close>

fun object_entries :: "jsval \<Rightarrow> exn + jsobj" where
  "object_entries JUndef = Inl TypeError"
| "object_entries JNull = Inl TypeError"
| "object_entries (JObj kvs) = Inr kvs"
| "object_entries (JArr vs) = Inr (zip (map (digits \<circ> int) [0..<length vs]) vs)"
| "object_entries (JStr s) = Inr (zip (map (digits \<circ> int) [0..<length s]) (map (\<lambda>c. JStr [c]) s))"
| "object_entries _ = Inr []"

text \<open>
  The constructor keeps the blob and copies its entries over the object. \<open>time_offset\<close> is a
  getter without a setter, so copying a property of that name throws.
\<close>

definition new_event :: "jsval \<Rightarrow> exn + jsobj" where
  "new_event blob = (case object_entries blob of
       Inl e \<Rightarrow> Inl e
     | Inr kvs \<Rightarrow> if ''time_offset'' \<in> fst ` set kvs then Inl TypeError
         else Inr (object_assign [(''blob'', blob)] kvs))"

definition time_offset :: "jsobj \<Rightarrow> jsnum" where
  "time_offset ev = to_num (get_prop ev ''offset'')"

section \<open>The state of a reader\<close>

datatype term_op = TWrite string | TReset | TScrollBottom  \<comment> \<open>calls on the xterm object\<close>

datatype pane_item = PText string | PBreak  \<comment> \<open>nodes of the keystrokes pane\<close>

datatype job = ProcessNext | ScrollBottom  \<comment> \<open>what a pending timeout runs\<close>

record pending =
  timer_id :: nat
  due :: int
  job_of :: job

record tr =
  element_id :: string
  speed :: jsnum
  paused :: bool
  initial_width :: jsnum
  initial_height :: jsnum
  terminal_col_width :: jsnum
  terminal_row_height :: jsnum
  events :: "jsobj list"
  event_index :: nat
  cur_event :: "jsobj option"
  timeout :: int
  timeout_delay_speed :: jsnum
  timeout_delay :: jsnum
  timeout_timestamp :: int
  timeout_delay_saved :: jsnum
  terminal_buffer :: string
  keystroke_buffer :: string
  ignore_resize :: bool
  session :: jsobj
  \<comment> \<open>the elements the object builds\<close>
  reader_classes :: "string list"
  statusbar_link :: "(string \<times> string) option"
  statusbar_text :: string
  button_play :: bool
  slider_max :: nat
  slider_value :: nat
  index_box :: string
  delay_box :: string
  speed_box :: string
  keystrokes :: "pane_item list"
  terminal_width :: jsnum
  terminal_height :: jsnum
  reader_width :: jsnum
  cols :: jsnum
  rows :: jsnum
  terminal :: "term_op list"
  \<comment> \<open>the page around it\<close>
  fit_dims :: "jsnum \<Rightarrow> jsnum \<Rightarrow> jsnum \<times> jsnum"
  win_width :: jsnum
  win_height :: jsnum
  clock :: int
  next_timer :: nat
  timeouts :: "pending list"
  acks :: "nat list"

text \<open>
  The closures passed as callbacks, named: none (\<open>function() {}\<close>), the acknowledgement of a
  session socket, the internal callback of \<open>process_next_event\<close>, the scrolling of
  \<open>move_to_event\<close>.
\<close>

datatype callback = NoCallback | AckCallback nat | InternalCallback callback | ScrollCallback

section \<open>Getters\<close>

definition is_live :: "tr \<Rightarrow> jsval" where
  "is_live r = get_prop (session r) ''live''"

definition ended :: "tr \<Rightarrow> bool" where
  "ended r \<longleftrightarrow> length (events r) \<le> event_index r \<and> eq_false (is_live r)"

definition client :: "tr \<Rightarrow> jsval" where
  "client r = get_prop (session r) ''client_host''"

definition host :: "tr \<Rightarrow> jsval" where
  "host r = get_prop (session r) ''server_host''"

definition terminal_id :: "tr \<Rightarrow> string" where
  "terminal_id r = element_id r @ ''_terminal''"

definition time_to_next_event :: "tr \<Rightarrow> jsnum" where
  "time_to_next_event r = (let difference = num_of_int (clock r - timeout_timestamp r)
     in math_max (timeout_delay r - difference) (Fin 0))"

section \<open>Size\<close>

definition max_terminal_width :: "tr \<Rightarrow> jsnum" where
  "max_terminal_width r = win_width r - Fin 10"

definition max_terminal_height :: "tr \<Rightarrow> jsnum" where
  "max_terminal_height r = win_height r - Fin 160"

text \<open>Setting a length in pixels; the browser ignores an invalid one.\<close>

definition css_px :: "jsnum \<Rightarrow> jsnum \<Rightarrow> jsnum" where
  "css_px new old = (case new of Fin q \<Rightarrow> if 0 \<le> q then new else old | _ \<Rightarrow> old)"

definition update_col_width :: "tr \<Rightarrow> tr" where
  "update_col_width r = r\<lparr>terminal_col_width := parse_int_num (terminal_width r) div cols r\<rparr>"

definition update_col_height :: "tr \<Rightarrow> tr" where
  "update_col_height r = r\<lparr>terminal_row_height := parse_int_num (terminal_height r) div rows r\<rparr>"

text \<open>The fit addon chooses columns and rows from the size of the element.\<close>

definition fit_terminal :: "tr stmt" where
  "fit_terminal = block
    [upd (\<lambda>r. let (c, w) = fit_dims r (terminal_width r) (terminal_height r) in r\<lparr>cols := c, rows := w\<rparr>),
     upd update_col_width,
     upd update_col_height]"

definition resize_by_pixels :: "jsnum \<Rightarrow> jsnum \<Rightarrow> tr stmt" where
  "resize_by_pixels width height =
     bind_val (\<lambda>r. math_min height (max_terminal_height r)) (\<lambda>h.
     bind_val (\<lambda>r. math_min width (max_terminal_width r)) (\<lambda>w.
     block
      [upd (\<lambda>r. r\<lparr>reader_width := css_px w (reader_width r)\<rparr>),
       upd (\<lambda>r. r\<lparr>terminal_width := css_px w (terminal_width r)\<rparr>),
       upd (\<lambda>r. r\<lparr>terminal_height := css_px h (terminal_height r)\<rparr>),
       fit_terminal]))"

definition resize :: "jsval \<Rightarrow> jsval \<Rightarrow> tr stmt" where
  "resize rws cls = ite ignore_resize skip
     (bind_val (\<lambda>r. parse_int_num (to_num rws * terminal_row_height r + Fin 1)) (\<lambda>new_height.
      bind_val (\<lambda>r. parse_int_num (to_num cls * terminal_col_width r + Fin 1)) (\<lambda>new_width.
      resize_by_pixels new_width new_height)))"

definition allow_resize :: "tr stmt" where
  "allow_resize = upd (\<lambda>r. r\<lparr>ignore_resize := False\<rparr>)"

definition disable_resize :: "tr stmt" where
  "disable_resize = upd (\<lambda>r. r\<lparr>ignore_resize := True\<rparr>)"

section \<open>Session and status bar\<close>

definition update_session :: "jsobj \<Rightarrow> tr stmt" where
  "update_session obj = upd (\<lambda>r. r\<lparr>session := object_assign (object_assign [] (session r)) obj\<rparr>)"

definition reset_session :: "tr stmt" where
  "reset_session = upd (\<lambda>r. r\<lparr>session := [(''live'', JBool False), (''feed_type'', JStr ''old'')]\<rparr>)"

definition remove_classes :: "string list \<Rightarrow> string list \<Rightarrow> string list" where
  "remove_classes old cs = filter (\<lambda>c. c \<notin> set old) cs"

definition add_class :: "string \<Rightarrow> string list \<Rightarrow> string list" where
  "add_class c cs = (if c \<in> set cs then cs else cs @ [c])"

text \<open>\<open>addClass\<close> with a value: a string is a list of names; anything else adds nothing.\<close>

definition add_class_value :: "jsval \<Rightarrow> string list \<Rightarrow> string list" where
  "add_class_value v cs = (case v of
       JStr s \<Rightarrow> fold add_class (filter (\<lambda>w. w \<noteq> []) (split_on (CHR '' '') s)) cs
     | _ \<Rightarrow> cs)"

definition statusbar_message :: "tr \<Rightarrow> string" where
  "statusbar_message r =
     (if ended r then '' (ended'' else if paused r then '' (paused'' else '' (playing'') @
     (let t = get_prop (session r) ''terminal_type'' in if nullish t then [] else '': '' @ to_str t) @
     '')''"

definition refresh_statusbar :: "tr stmt" where
  "refresh_statusbar = upd (\<lambda>r. r\<lparr>
     reader_classes := (let cs = remove_classes [''live'', ''old'', ''inactive''] (reader_classes r)
       in if ended r then add_class ''inactive'' cs
          else add_class_value (get_prop (session r) ''feed_type'') cs),
     statusbar_link := Some (''sessions/'' @ to_str (get_prop (session r) ''key'') @ ''.log.json'',
       to_str (client r) @ '' -> '' @ to_str (host r)),
     statusbar_text := statusbar_message r\<rparr>)"

definition set_session_mode_live :: "tr stmt" where
  "set_session_mode_live = upd (\<lambda>r. r\<lparr>session :=
     set_prop ''feed_type'' (JStr ''live'') (set_prop ''live'' (JBool True) (session r))\<rparr>)"

definition set_session_mode_disconnected :: "tr stmt" where
  "set_session_mode_disconnected = block
    [upd (\<lambda>r. r\<lparr>session :=
       set_prop ''feed_type'' (JStr ''old'') (set_prop ''live'' (JBool False) (session r))\<rparr>),
     refresh_statusbar]"

section \<open>Timers\<close>

text \<open>
  \<open>setTimeout(f, delay)\<close>: the delay is converted to a 32-bit integer, \<open>NaN\<close> and negative
  delays run at once.
\<close>

definition to_int32 :: "jsnum \<Rightarrow> int" where
  "to_int32 x = (case x of
       Fin q \<Rightarrow> (let n = trunc q mod 2 ^ 32 in if n \<ge> 2 ^ 31 then n - 2 ^ 32 else n)
     | _ \<Rightarrow> 0)"

definition timeout_ms :: "jsnum \<Rightarrow> int" where
  "timeout_ms delay = max 0 (to_int32 delay)"

definition set_timeout :: "job \<Rightarrow> jsnum \<Rightarrow> tr \<Rightarrow> tr" where
  "set_timeout j delay r = r\<lparr>
     timeouts := timeouts r @ [\<lparr>timer_id = next_timer r, due = clock r + timeout_ms delay, job_of = j\<rparr>],
     next_timer := Suc (next_timer r)\<rparr>"

text \<open>
  The older timeout is forgotten, not cancelled: the call of \<open>clearTimeout\<close> is commented out
  in the source.
\<close>

definition reset_timeout :: "bool \<Rightarrow> tr stmt" where
  "reset_timeout clear_delay_speed = block
    [guard (\<lambda>r. timeout r \<noteq> -1) (upd (\<lambda>r. r\<lparr>timeout := -1\<rparr>)),
     upd (\<lambda>r. r\<lparr>timeout_delay_saved := time_to_next_event r\<rparr>),
     upd (\<lambda>r. r\<lparr>timeout_delay := Fin 0\<rparr>),
     upd (\<lambda>r. r\<lparr>timeout_timestamp := 0\<rparr>),
     guard (\<lambda>_. clear_delay_speed) (upd (\<lambda>r. r\<lparr>timeout_delay_speed := Fin 1\<rparr>))]"

text \<open>The wait between two events at a speed, in whole milliseconds.\<close>

definition event_delay :: "jsobj \<Rightarrow> jsobj \<Rightarrow> jsnum \<Rightarrow> jsnum" where
  "event_delay cur next_event spd =
     parse_int (to_fixed 0 ((time_offset next_event - time_offset cur) div spd))"

definition start_process_timer :: "jsnum \<Rightarrow> tr stmt" where
  "start_process_timer delay = block
    [upd (\<lambda>r. (set_timeout ProcessNext delay r)\<lparr>timeout := int (next_timer r)\<rparr>),
     upd (\<lambda>r. r\<lparr>timeout_delay := delay\<rparr>),
     upd (\<lambda>r. r\<lparr>timeout_timestamp := clock r\<rparr>)]"

definition start_timer_for_next_event :: "jsnum \<Rightarrow> tr stmt" where
  "start_timer_for_next_event in_delay =
     (if in_delay < Fin 0 then
        ite (\<lambda>r. event_index r + 1 < length (events r))
          (bind_exp (\<lambda>r. case cur_event r of None \<Rightarrow> Inl TypeError
               | Some cur \<Rightarrow> Inr (event_delay cur (events r ! (event_index r + 1)) (speed r)))
             (\<lambda>delay. block
               [upd (\<lambda>r. r\<lparr>timeout_delay_speed := speed r\<rparr>),
                start_process_timer delay]))
          (start_process_timer (Fin 0))
      else start_process_timer in_delay)"

section \<open>Buffers\<close>

definition clear_buffers :: "tr stmt" where
  "clear_buffers = upd (\<lambda>r. r\<lparr>terminal_buffer := [], keystroke_buffer := []\<rparr>)"

definition clear_events :: "tr stmt" where
  "clear_events = upd (\<lambda>r. r\<lparr>events := [], event_index := 0, cur_event := None\<rparr>)"

text \<open>Calling a callback. The internal one is the closure of \<open>process_next_event\<close>.\<close>

fun run_callback :: "callback \<Rightarrow> tr stmt" where
  "run_callback NoCallback = skip"
| "run_callback (AckCallback sock) = upd (\<lambda>r. r\<lparr>acks := acks r @ [sock]\<rparr>)"
| "run_callback (InternalCallback cb) = block
    [start_timer_for_next_event (Fin (-1)),
     upd (\<lambda>r. r\<lparr>event_index := event_index r + 1\<rparr>),
     run_callback cb]"
| "run_callback ScrollCallback = block
    [upd (\<lambda>r. r\<lparr>terminal := terminal r @ [TScrollBottom]\<rparr>),
     upd (set_timeout ScrollBottom (Fin 25))]"

definition write_keystroke_buffer :: "callback option \<Rightarrow> tr stmt" where
  "write_keystroke_buffer cb = block
    [upd (\<lambda>r. r\<lparr>keystrokes := keystrokes r @ [PText (process_keystrokes (keystroke_buffer r))]\<rparr>),
     guard (\<lambda>r. eq_str (get_prop (session r) ''terminal_type'') ''exec'')
       (upd (\<lambda>r. r\<lparr>keystrokes := keystrokes r @ [PBreak]\<rparr>)),
     (case cb of None \<Rightarrow> skip | Some c \<Rightarrow> run_callback c),
     upd (\<lambda>r. r\<lparr>keystroke_buffer := []\<rparr>)]"

text \<open>The callback is called while the arguments of \<open>write\<close> are evaluated, before the write.\<close>

definition write_terminal_buffer :: "callback option \<Rightarrow> tr stmt" where
  "write_terminal_buffer cb =
     bind_val terminal_buffer (\<lambda>text. block
      [run_callback (case cb of None \<Rightarrow> NoCallback | Some c \<Rightarrow> c),
       upd (\<lambda>r. r\<lparr>terminal := terminal r @ [TWrite text]\<rparr>),
       upd (\<lambda>r. r\<lparr>terminal_buffer := []\<rparr>)])"

definition write_buffers :: "callback option \<Rightarrow> bool \<Rightarrow> tr stmt" where
  "write_buffers cb always_callback =
     (let callback = (case cb of None \<Rightarrow> NoCallback | Some c \<Rightarrow> c) in
      ite (\<lambda>r. terminal_buffer r \<noteq> [])
        (block
          [guard (\<lambda>r. keystroke_buffer r \<noteq> []) (write_keystroke_buffer None),
           write_terminal_buffer (Some callback)])
        (ite (\<lambda>r. keystroke_buffer r \<noteq> [])
          (if always_callback then write_keystroke_buffer (Some callback)
           else write_keystroke_buffer None)
          (run_callback callback)))"

section \<open>Performing an event\<close>

text \<open>\<open>delete event.type\<close> changes the event in the list: the list holds references.\<close>

definition delete_type :: "nat \<Rightarrow> tr \<Rightarrow> tr" where
  "delete_type i r = r\<lparr>events := (events r)[i := delete_prop ''type'' (events r ! i)]\<rparr>"

text \<open>\<open>atob(v)\<close> converts its argument to a string first.\<close>

definition atob_prop :: "string \<Rightarrow> nat \<Rightarrow> tr \<Rightarrow> exn + string" where
  "atob_prop k i r = atob (to_str (get_prop (events r ! i) k))"

definition event_is :: "nat \<Rightarrow> string \<Rightarrow> string \<Rightarrow> tr \<Rightarrow> bool" where
  "event_is i k s r = eq_str (get_prop (events r ! i) k) s"

definition action_event :: "nat \<Rightarrow> tr stmt" where
  "action_event i =
     ite (event_is i ''type'' ''session-start'')
       (block
         [upd (delete_type i),
          bind_val (\<lambda>r. events r ! i) update_session])
    (ite (event_is i ''type'' ''window-resize'')
       (block
         [upd (delete_type i),
          bind_val (\<lambda>r. events r ! i) update_session,
          bind_val (\<lambda>r. events r ! i) (\<lambda>ev. resize (get_prop ev ''term_rows'') (get_prop ev ''term_cols''))])
    (ite (event_is i ''type'' ''new-message'')
       (ite (event_is i ''direction'' ''incoming'')
          (bind_exp (atob_prop ''data'' i) (\<lambda>decoded.
             upd (\<lambda>r. r\<lparr>terminal_buffer := terminal_buffer r @ normalize_output decoded\<rparr>)))
          (guard (event_is i ''direction'' ''outgoing'')
             (bind_exp (atob_prop ''data'' i) (\<lambda>decoded.
                guard (\<lambda>_. decoded \<noteq> [chr 0])
                  (upd (\<lambda>r. r\<lparr>keystroke_buffer := keystroke_buffer r @ decoded\<rparr>))))))
       (guard (event_is i ''type'' ''new-request'')
         (ite (event_is i ''request_type'' ''exec'')
            (block
              [upd (\<lambda>r. r\<lparr>session := set_prop ''terminal_type'' (JStr ''exec'') (session r)\<rparr>),
               bind_exp (atob_prop ''request_payload'' i) (\<lambda>decoded.
                 upd (\<lambda>r. r\<lparr>keystroke_buffer := keystroke_buffer r @ substring_from decoded 4\<rparr>))])
            (guard (event_is i ''request_type'' ''pty-req'')
              (upd (\<lambda>r. r\<lparr>session := set_prop ''terminal_type'' (JStr ''pty'') (session r)\<rparr>)))))))"

section \<open>Speed, pause and play\<close>

definition show_pause :: "tr stmt" where
  "show_pause = upd (\<lambda>r. r\<lparr>button_play := False\<rparr>)"

definition show_play :: "tr stmt" where
  "show_play = upd (\<lambda>r. r\<lparr>button_play := True\<rparr>)"

text \<open>\<open>parseFloat\<close> of a number gives the number back (\<open>toString\<close> round-trips).\<close>

definition parse_float_value :: "jsval \<Rightarrow> jsnum" where
  "parse_float_value v = (case v of JNum x \<Rightarrow> x | _ \<Rightarrow> parse_float (to_str v))"

definition update_speed :: "jsval \<Rightarrow> tr stmt" where
  "update_speed in_val = (let val = parse_float_value in_val in
     if val = NaN then skip
     else upd (\<lambda>r. r\<lparr>speed := val, speed_box := num_to_string val\<rparr>))"

definition resume_with_new_delay :: "tr stmt" where
  "resume_with_new_delay =
     bind_val (\<lambda>r. parse_int_num (timeout_delay_speed r * timeout_delay_saved r div speed r)) (\<lambda>new_delay.
     block
      [start_timer_for_next_event new_delay,
       upd (\<lambda>r. r\<lparr>timeout_delay_saved := new_delay\<rparr>),
       upd (\<lambda>r. r\<lparr>timeout_delay_speed := speed r\<rparr>)])"

definition redo_next_event :: "tr stmt" where
  "redo_next_event = block [reset_timeout False, resume_with_new_delay]"

definition pause :: "tr stmt" where
  "pause = block
    [upd (\<lambda>r. r\<lparr>paused := True\<rparr>),
     show_play,
     reset_timeout False,
     refresh_statusbar]"

definition play :: "tr stmt" where
  "play = block
    [show_pause,
     upd (\<lambda>r. r\<lparr>paused := False\<rparr>),
     resume_with_new_delay,
     refresh_statusbar]"

definition change_speed_to_new_val :: "jsnum \<Rightarrow> tr stmt" where
  "change_speed_to_new_val new_val =
     ite paused (update_speed (JNum new_val))
       (block [pause, update_speed (JNum new_val), play])"

text \<open>The default step of the two speed buttons, the double \<open>0.3\<close>, and the lowest speed \<open>0.1\<close>.\<close>

definition speed_step :: jsnum where
  "speed_step = mk (3/10)"

definition lowest_speed :: jsnum where
  "lowest_speed = mk (1/10)"

definition increase_speed :: "jsnum \<Rightarrow> tr stmt" where
  "increase_speed amount = bind_val (\<lambda>r. amount + speed r) change_speed_to_new_val"

definition decrease_speed :: "jsnum \<Rightarrow> tr stmt" where
  "decrease_speed amount =
     bind_val (\<lambda>r. math_max (speed r - amount) lowest_speed) (\<lambda>new_val. block
      [upd (\<lambda>r. r\<lparr>speed := new_val\<rparr>),
       change_speed_to_new_val new_val])"

definition toggle_play_pause :: "tr stmt" where
  "toggle_play_pause = ite button_play play pause"

section \<open>Stepping through the events\<close>

definition process_next_event :: "callback option \<Rightarrow> tr stmt" where
  "process_next_event cb =
     (let callback = (case cb of None \<Rightarrow> NoCallback | Some c \<Rightarrow> c) in
      ite (\<lambda>r. paused r \<and> \<not> truthy (is_live r)) skip
       (block
         [ite (\<lambda>r. event_index r < length (events r))
            (block
              [upd (\<lambda>r. r\<lparr>cur_event := Some (events r ! event_index r)\<rparr>),
               bind_val event_index action_event,
               ite (\<lambda>r. \<not> paused r)
                 (write_buffers (Some (InternalCallback callback)) True)
                 (block [run_callback callback, clear_buffers])])
            (ite (\<lambda>r. eq_false (is_live r)) pause (run_callback callback)),
          refresh_statusbar]))"

definition next_event :: "tr stmt" where
  "next_event = block
    [guard (\<lambda>r. event_index r < length (events r))
       (block
         [reset_timeout True,
          ite paused
            (block
              [bind_val event_index action_event,
               write_buffers None True,
               upd (\<lambda>r. r\<lparr>event_index := event_index r + 1\<rparr>)])
            (process_next_event None)]),
     refresh_statusbar]"

text \<open>
  The callers pass the slider's position or the result of \<open>parseInt\<close>: an integer or \<open>NaN\<close>. A
  fraction, which none passes, would be used as it is; the model would cut it off.
\<close>

definition move_refused :: "jsnum \<Rightarrow> tr \<Rightarrow> bool" where
  "move_refused event_id r \<longleftrightarrow> event_id = NaN \<or> event_id < Fin 0 \<or>
     num_of_int (int (length (events r)) - 1) < event_id \<or>
     num_eq (parse_int_num event_id) (num_of_nat (event_index r))"

definition event_number :: "jsnum \<Rightarrow> nat" where
  "event_number x = (case x of Fin q \<Rightarrow> nat \<lfloor>q\<rfloor> | _ \<Rightarrow> 0)"

definition move_to_event :: "jsnum \<Rightarrow> bool \<Rightarrow> tr stmt" where
  "move_to_event event_id dont_play =
     ite (move_refused event_id) skip
       (bind_val paused (\<lambda>was_paused.
        block
         [pause,
          bind_val event_index (\<lambda>old_index.
            (let new_index = event_number event_id; forward = num_of_nat old_index < event_id in
             block
              [if forward then skip else upd (\<lambda>r. r\<lparr>terminal := terminal r @ [TReset]\<rparr>),
               upd (\<lambda>r. r\<lparr>keystrokes := []\<rparr>),
               for_each [(if forward then old_index else 0)..<new_index + 1] action_event,
               write_buffers (Some ScrollCallback) True,
               upd (\<lambda>r. r\<lparr>event_index := new_index + 1\<rparr>)])),
          refresh_statusbar,
          guard (\<lambda>_. \<not> was_paused \<and> \<not> dont_play) play]))"

definition prev :: "tr stmt" where
  "prev = bind_val (\<lambda>r. math_max (Fin 0) (num_of_int (int (event_index r) - 2)))
     (\<lambda>new_id. move_to_event new_id True)"

section \<open>Loading and resetting\<close>

definition load_events :: "jsobj list \<Rightarrow> tr stmt" where
  "load_events evs = block
    [upd (\<lambda>r. r\<lparr>events := events r @ evs\<rparr>),
     upd (\<lambda>r. r\<lparr>slider_max := length (events r)\<rparr>)]"

definition reset :: "bool \<Rightarrow> tr stmt" where
  "reset with_speed = block
    [upd (\<lambda>r. r\<lparr>paused := False\<rparr>),
     guard (\<lambda>_. with_speed) (update_speed (JNum (Fin 1))),
     reset_timeout True,
     reset_session,
     refresh_statusbar,
     upd (\<lambda>r. r\<lparr>terminal := terminal r @ [TReset]\<rparr>),
     upd (\<lambda>r. r\<lparr>keystrokes := []\<rparr>),
     clear_events,
     ite (\<lambda>r. \<not> ignore_resize r)
       (bind_val (\<lambda>r. (initial_width r, initial_height r)) (\<lambda>(w, h). resize_by_pixels w h)) skip,
     clear_buffers]"

section \<open>Building the reader and its controls\<close>

text \<open>A text box shows \<open>event_index\<close>, another the wait in seconds, the slider the position.\<close>

definition update_controlbar_status :: "tr stmt" where
  "update_controlbar_status = upd (\<lambda>r. r\<lparr>
     index_box := digits (int (event_index r)),
     delay_box := to_fixed 2 (time_to_next_event r div Fin 1000) @ ''s'',
     slider_value := event_index r\<rparr>)"

definition build_reader :: "tr stmt" where
  "build_reader = upd (\<lambda>r. r\<lparr>
     reader_classes := add_class ''inactive'' (add_class ''terminal_reader'' (reader_classes r)),
     statusbar_link := None,
     statusbar_text := ''Currently Displaying: Nothing'',
     slider_max := length (events r),
     slider_value := 0,
     index_box := ''0'',
     button_play := False,
     delay_box := ''0s'',
     speed_box := num_to_string (speed r),
     keystrokes := []\<rparr>)"

definition initialize_terminal :: "tr stmt" where
  "initialize_terminal = block [upd (\<lambda>r. r\<lparr>terminal := []\<rparr>), fit_terminal]"

definition initialize :: "tr stmt" where
  "initialize = block [reset_session, build_reader, initialize_terminal]"

text \<open>The events the controls raise, and the handlers \<open>build_reader\<close> attaches to them.\<close>

datatype control =
    ResizeDrag jsnum jsnum   \<comment> \<open>the resizable widget\<close>
  | Slide jsnum              \<comment> \<open>the slider\<close>
  | ClickToStart | ClickPrev | ClickNext | ClickToEnd
  | IndexBoxFocusIn | IndexBoxFocusOut string
  | ClickPlayPause | ClickSlower | SpeedBoxChange string | ClickFaster
  | ControlbarTick           \<comment> \<open>the 250 ms interval\<close>

fun control_handler :: "control \<Rightarrow> tr stmt" where
  "control_handler (ResizeDrag w h) = resize_by_pixels w h"
| "control_handler (Slide v) =
     guard (\<lambda>r. \<not> num_eq (num_of_nat (event_index r)) v) (move_to_event v True)"
| "control_handler ClickToStart = move_to_event (Fin 0) True"
| "control_handler ClickPrev = prev"
| "control_handler ClickNext = next_event"
| "control_handler ClickToEnd =
     bind_val (\<lambda>r. num_of_int (int (length (events r)) - 1)) (\<lambda>i. move_to_event i True)"
| "control_handler IndexBoxFocusIn = pause"
| "control_handler (IndexBoxFocusOut text) = move_to_event (parse_int text) True"
| "control_handler ClickPlayPause = toggle_play_pause"
| "control_handler ClickSlower = decrease_speed speed_step"
| "control_handler (SpeedBoxChange text) = update_speed (JStr text)"
| "control_handler ClickFaster = increase_speed speed_step"
| "control_handler ControlbarTick = update_controlbar_status"

section \<open>Time\<close>

text \<open>What a pending timeout does when it fires.\<close>

fun run_job :: "job \<Rightarrow> tr stmt" where
  "run_job ProcessNext = process_next_event None"
| "run_job ScrollBottom = upd (\<lambda>r. r\<lparr>terminal := terminal r @ [TScrollBottom]\<rparr>)"

definition remove_timer :: "nat \<Rightarrow> tr \<Rightarrow> tr" where
  "remove_timer n r = r\<lparr>timeouts := filter (\<lambda>t. timer_id t \<noteq> n) (timeouts r)\<rparr>"

text \<open>The pending timeout that fires first: the earliest, the oldest among equals.\<close>

definition earlier :: "pending \<Rightarrow> pending \<Rightarrow> pending" where
  "earlier s t = (if due t < due s then t else s)"

definition first_timer :: "tr \<Rightarrow> pending option" where
  "first_timer r = (case timeouts r of [] \<Rightarrow> None | t # ts \<Rightarrow> Some (fold (\<lambda>s best. earlier best s) ts t))"

definition fire_first :: "tr stmt" where
  "fire_first = bind_val first_timer (\<lambda>ft. case ft of
       None \<Rightarrow> skip
     | Some t \<Rightarrow> block
         [upd (remove_timer (timer_id t)),
          upd (\<lambda>r. r\<lparr>clock := max (clock r) (due t)\<rparr>),
          run_job (job_of t)])"

text \<open>A reader fresh from the constructor, on a given page.\<close>

definition new_reader :: "string \<Rightarrow> (jsnum \<Rightarrow> jsnum \<Rightarrow> jsnum \<times> jsnum) \<Rightarrow> jsnum \<Rightarrow> jsnum \<Rightarrow> int \<Rightarrow> tr" where
  "new_reader el fit ww wh now = \<lparr>element_id = el, speed = Fin 1, paused = True,
     initial_width = Fin 800, initial_height = Fin 300, terminal_col_width = Fin 0,
     terminal_row_height = Fin 0, events = [], event_index = 0, cur_event = None, timeout = -1,
     timeout_delay_speed = Fin 1, timeout_delay = Fin 0, timeout_timestamp = 0,
     timeout_delay_saved = Fin 0, terminal_buffer = [], keystroke_buffer = [],
     ignore_resize = False, session = [], reader_classes = [], statusbar_link = None,
     statusbar_text = [], button_play = False, slider_max = 0, slider_value = 0, index_box = [],
     delay_box = [], speed_box = [], keystrokes = [], terminal_width = Fin 0,
     terminal_height = Fin 0, reader_width = Fin 0, cols = Fin 80, rows = Fin 24, terminal = [],
     fit_dims = fit, win_width = ww, win_height = wh, clock = now, next_timer = 1,
     timeouts = [], acks = []\<rparr>"

end
