(* ===== verification/Reader_Frames.thy ===== *)
theory Reader_Frames
  imports Terminal_Reader
begin

text \<open>
  What each method of the reader leaves alone, and what the event methods compute: the facts
  that the properties of the reader rest on.
\<close>

section \<open>Views of a reader\<close>

text \<open>The state of playback: what resizing, the status bar and the delays do not touch.\<close>

definition core :: "tr \<Rightarrow> _" where
  "core r = (events r, event_index r, cur_event r, terminal_buffer r, keystroke_buffer r, session r,
     terminal r, keystrokes r, timeouts r, next_timer r, acks r, clock r)"

text \<open>The same without the pending timeouts.\<close>

definition show_core :: "tr \<Rightarrow> _" where
  "show_core r = (events r, event_index r, cur_event r, terminal_buffer r, keystroke_buffer r, session r,
     terminal r, keystrokes r, acks r, clock r)"

named_theorems core_frames "statements that keep the playback state"

lemma keeps_core_show: "keeps core m \<Longrightarrow> keeps show_core m"
  by (auto simp: keeps_def core_def show_core_def)

lemma keeps_show_events: "keeps show_core m \<Longrightarrow> keeps events m"
  by (auto simp: keeps_def show_core_def)

lemma fit_terminal_core [core_frames]: "keeps core fit_terminal"
  unfolding fit_terminal_def
  by (intro frame_intro keeps_upd)
     (simp_all add: core_def update_col_width_def update_col_height_def split: prod.splits)

lemma resize_by_pixels_core [core_frames]: "keeps core (resize_by_pixels w h)"
  unfolding resize_by_pixels_def
  by (intro frame_intro keeps_upd core_frames) (simp_all add: core_def)

lemma resize_core [core_frames]: "keeps core (resize rws cls)"
  unfolding resize_def by (intro frame_intro core_frames)

lemma refresh_statusbar_core [core_frames]: "keeps core refresh_statusbar"
  unfolding refresh_statusbar_def by (rule keeps_upd) (simp add: core_def)

lemma reset_timeout_core [core_frames]: "keeps core (reset_timeout c)"
  unfolding reset_timeout_def by (intro frame_intro keeps_upd) (simp_all add: core_def)

lemma show_pause_core [core_frames]: "keeps core show_pause"
  unfolding show_pause_def by (rule keeps_upd) (simp add: core_def)

lemma show_play_core [core_frames]: "keeps core show_play"
  unfolding show_play_def by (rule keeps_upd) (simp add: core_def)

lemma update_speed_core [core_frames]: "keeps core (update_speed v)"
  unfolding update_speed_def Let_def by (auto intro!: frame_intro keeps_upd simp: core_def)

lemma pause_core [core_frames]: "keeps core pause"
  unfolding pause_def by (intro frame_intro core_frames keeps_upd) (simp add: core_def)

lemma update_controlbar_core [core_frames]: "keeps core update_controlbar_status"
  unfolding update_controlbar_status_def by (rule keeps_upd) (simp add: core_def)

lemma set_timer_show: "show_core (set_timeout j d r) = show_core r"
  by (simp add: show_core_def set_timeout_def)

lemma start_process_timer_show [core_frames]: "keeps show_core (start_process_timer d)"
  unfolding start_process_timer_def
  by (intro frame_intro keeps_upd) (simp_all add: show_core_def set_timeout_def)

lemma start_timer_show [core_frames]: "keeps show_core (start_timer_for_next_event d)"
  unfolding start_timer_for_next_event_def
  by (auto intro!: frame_intro core_frames keeps_upd simp: show_core_def)

lemma resume_show [core_frames]: "keeps show_core resume_with_new_delay"
  unfolding resume_with_new_delay_def
  by (intro frame_intro core_frames keeps_upd) (simp_all add: show_core_def)

lemma play_show [core_frames]: "keeps show_core play"
  unfolding play_def
  by (intro frame_intro core_frames keeps_core_show keeps_upd) (simp add: show_core_def)

lemma change_speed_show [core_frames]: "keeps show_core (change_speed_to_new_val v)"
  unfolding change_speed_to_new_val_def by (intro frame_intro core_frames keeps_core_show)

lemma increase_speed_show [core_frames]: "keeps show_core (increase_speed a)"
  unfolding increase_speed_def by (intro frame_intro core_frames)

lemma decrease_speed_show [core_frames]: "keeps show_core (decrease_speed a)"
  unfolding decrease_speed_def
  by (intro frame_intro core_frames keeps_upd) (simp add: show_core_def)

lemma toggle_show [core_frames]: "keeps show_core toggle_play_pause"
  unfolding toggle_play_pause_def by (intro frame_intro core_frames keeps_core_show)

section \<open>Statements that cannot throw\<close>

named_theorems never_throws "methods of the reader that cannot throw"

lemma fit_terminal_total [never_throws]: "total fit_terminal"
  unfolding fit_terminal_def by (intro total_intro)

lemma resize_by_pixels_total [never_throws]: "total (resize_by_pixels w h)"
  unfolding resize_by_pixels_def by (intro total_intro never_throws)

lemma resize_total [never_throws]: "total (resize rws cls)"
  unfolding resize_def by (intro total_intro never_throws)

lemma refresh_statusbar_total [never_throws]: "total refresh_statusbar"
  unfolding refresh_statusbar_def by (intro total_intro)

lemma reset_timeout_total [never_throws]: "total (reset_timeout c)"
  unfolding reset_timeout_def by (intro total_intro)

lemma update_speed_total [never_throws]: "total (update_speed v)"
  unfolding update_speed_def Let_def by (auto intro!: total_intro)

lemma pause_total [never_throws]: "total pause"
  unfolding pause_def show_play_def by (intro total_intro never_throws)

lemma reset_session_total [never_throws]: "total reset_session"
  unfolding reset_session_def by (intro total_intro)

lemma clear_events_total [never_throws]: "total clear_events"
  unfolding clear_events_def by (intro total_intro)

lemma clear_buffers_total [never_throws]: "total clear_buffers"
  unfolding clear_buffers_def by (intro total_intro)

lemma reset_total [never_throws]: "total (reset b)"
  unfolding reset_def by (intro total_intro never_throws) (auto split: prod.splits intro: never_throws)

lemma start_process_timer_total [never_throws]: "total (start_process_timer d)"
  unfolding start_process_timer_def by (intro total_intro)

text \<open>The same facts field by field, for the simplifier.\<close>

lemma core_fields:
  assumes "keeps core m"
  shows "events (snd (m r)) = events r" "event_index (snd (m r)) = event_index r"
    "cur_event (snd (m r)) = cur_event r" "terminal_buffer (snd (m r)) = terminal_buffer r"
    "keystroke_buffer (snd (m r)) = keystroke_buffer r" "session (snd (m r)) = session r"
    "terminal (snd (m r)) = terminal r" "keystrokes (snd (m r)) = keystrokes r"
    "timeouts (snd (m r)) = timeouts r" "next_timer (snd (m r)) = next_timer r"
    "acks (snd (m r)) = acks r" "clock (snd (m r)) = clock r"
  using keepsD [OF assms, of r] by (simp_all add: core_def)

lemmas reader_simps [simp] =
  core_fields [OF fit_terminal_core] core_fields [OF resize_by_pixels_core] core_fields [OF resize_core]
  core_fields [OF refresh_statusbar_core] core_fields [OF reset_timeout_core] core_fields [OF pause_core]
  core_fields [OF update_speed_core]

lemmas reader_wps [wp_simps] =
  fit_terminal_total [THEN wp_total] resize_by_pixels_total [THEN wp_total] resize_total [THEN wp_total]
  refresh_statusbar_total [THEN wp_total] reset_timeout_total [THEN wp_total]
  update_speed_total [THEN wp_total] pause_total [THEN wp_total]

lemma paused_keeps: "keeps paused (resize_by_pixels w h)" "keeps paused (resize rws cls)"
    "keeps paused refresh_statusbar" "keeps paused (reset_timeout c)" "keeps paused (update_speed v)"
    "keeps paused fit_terminal"
proof -
  show fit: "keeps paused fit_terminal"
    unfolding fit_terminal_def by (intro frame_intro keeps_upd)
      (simp_all add: update_col_width_def update_col_height_def split: prod.splits)
  show px: "keeps paused (resize_by_pixels w h)" for w h
    unfolding resize_by_pixels_def by (intro frame_intro keeps_upd fit) simp_all
  show "keeps paused (resize rws cls)"
    unfolding resize_def by (intro frame_intro px)
  show "keeps paused refresh_statusbar"
    unfolding refresh_statusbar_def by (rule keeps_upd) simp
  show "keeps paused (reset_timeout c)"
    unfolding reset_timeout_def by (intro frame_intro keeps_upd) simp_all
  show "keeps paused (update_speed v)"
    unfolding update_speed_def Let_def by (auto intro!: frame_intro keeps_upd)
qed

lemmas paused_simps [simp] = paused_keeps [THEN keepsD]

lemma paused_pause [simp]: "paused (snd (pause r))"
  using wp_total [OF pause_total, of paused "\<lambda>_. False" r]
  by (simp add: pause_def show_play_def wp_simps)

section \<open>What an event shows\<close>

text \<open>The text an event adds to the terminal and to the typed keys, read off the event alone.\<close>

definition type_is :: "string \<Rightarrow> jsobj \<Rightarrow> bool" where
  "type_is s ev = eq_str (get_prop ev ''type'') s"

definition ev_data :: "string \<Rightarrow> jsobj \<Rightarrow> exn + string" where
  "ev_data k ev = atob (to_str (get_prop ev k))"

definition is_output :: "jsobj \<Rightarrow> bool" where
  "is_output ev \<longleftrightarrow> type_is ''new-message'' ev \<and> eq_str (get_prop ev ''direction'') ''incoming''"

definition is_input :: "jsobj \<Rightarrow> bool" where
  "is_input ev \<longleftrightarrow> type_is ''new-message'' ev \<and> \<not> is_output ev \<and>
     eq_str (get_prop ev ''direction'') ''outgoing''"

definition is_exec :: "jsobj \<Rightarrow> bool" where
  "is_exec ev \<longleftrightarrow> type_is ''new-request'' ev \<and> eq_str (get_prop ev ''request_type'') ''exec''"

definition ev_text :: "jsobj \<Rightarrow> string" where
  "ev_text ev = (if is_output ev then
       (case ev_data ''data'' ev of Inr d \<Rightarrow> normalize_output d | Inl _ \<Rightarrow> []) else [])"

definition ev_keys :: "jsobj \<Rightarrow> string" where
  "ev_keys ev =
     (if is_input ev then (case ev_data ''data'' ev of Inr d \<Rightarrow> if d = [chr 0] then [] else d | Inl _ \<Rightarrow> [])
      else if is_exec ev then
        (case ev_data ''request_payload'' ev of Inr d \<Rightarrow> substring_from d 4 | Inl _ \<Rightarrow> [])
      else [])"

text \<open>The base64 an event needs decodes.\<close>

definition decodable :: "jsobj \<Rightarrow> bool" where
  "decodable ev \<longleftrightarrow>
     (is_output ev \<or> is_input ev \<longrightarrow> \<not> isl (ev_data ''data'' ev)) \<and>
     (is_exec ev \<longrightarrow> \<not> isl (ev_data ''request_payload'' ev))"

definition ev_view :: "jsobj \<Rightarrow> string \<times> string \<times> bool \<times> jsnum" where
  "ev_view ev = (ev_text ev, ev_keys ev, decodable ev, time_offset ev)"

lemma type_strings_not_numbers:
  "str_to_num ''session-start'' = NaN" "str_to_num ''window-resize'' = NaN"
  "str_to_num ''new-message'' = NaN" "str_to_num ''new-request'' = NaN"
  by code_simp+

lemma eq_str_unique: "eq_str v s \<Longrightarrow> str_to_num s = NaN \<Longrightarrow> to_str v = s"
  by (cases v) (auto simp: num_eq_def split: if_splits)

lemma type_is_unique: "type_is s ev \<Longrightarrow> str_to_num s = NaN \<Longrightarrow> to_str (get_prop ev ''type'') = s"
  unfolding type_is_def by (rule eq_str_unique)

lemma type_is_strings:
  "type_is ''session-start'' ev \<Longrightarrow> to_str (get_prop ev ''type'') = ''session-start''"
  "type_is ''window-resize'' ev \<Longrightarrow> to_str (get_prop ev ''type'') = ''window-resize''"
  "type_is ''new-message'' ev \<Longrightarrow> to_str (get_prop ev ''type'') = ''new-message''"
  "type_is ''new-request'' ev \<Longrightarrow> to_str (get_prop ev ''type'') = ''new-request''"
  by (erule type_is_unique, rule type_strings_not_numbers)+

lemma other_type:
  assumes "type_is ''session-start'' ev \<or> type_is ''window-resize'' ev"
  shows "\<not> type_is ''new-message'' ev" "\<not> type_is ''new-request'' ev"
  using assms type_is_strings [of ev] by auto

lemma message_not_request: "type_is ''new-message'' ev \<Longrightarrow> \<not> type_is ''new-request'' ev"
  using type_is_strings [of ev] by auto

lemma quiet_view:
  assumes "\<not> type_is ''new-message'' ev" "\<not> type_is ''new-request'' ev"
  shows "ev_text ev = []" "ev_keys ev = []" "decodable ev"
  using assms by (simp_all add: ev_text_def ev_keys_def decodable_def is_output_def is_input_def is_exec_def)

lemma delete_type_view:
  assumes "type_is ''session-start'' ev \<or> type_is ''window-resize'' ev"
  shows "ev_view (delete_prop ''type'' ev) = ev_view ev"
proof -
  have "\<not> type_is ''new-message'' (delete_prop ''type'' ev)" "\<not> type_is ''new-request'' (delete_prop ''type'' ev)"
    by (simp_all add: type_is_def)
  then show ?thesis
    using quiet_view [OF other_type [OF assms]] quiet_view [of "delete_prop ''type'' ev"]
    by (simp add: ev_view_def time_offset_def)
qed

text \<open>What an event leaves alone, and the events as far as playback sees them.\<close>

definition play_view :: "tr \<Rightarrow> _" where
  "play_view r = (map ev_view (events r), event_index r, cur_event r, terminal r, keystrokes r,
     timeouts r, next_timer r, acks r, paused r, clock r)"

lemma delete_type_play:
  assumes "type_is ''session-start'' (events r ! i) \<or> type_is ''window-resize'' (events r ! i)"
  shows "play_view (delete_type i r) = play_view r"
proof (cases "i < length (events r)")
  case True
  have "map ev_view ((events r)[i := delete_prop ''type'' (events r ! i)]) = map ev_view (events r)"
    using True by (simp add: map_update delete_type_view [OF assms] list_update_same_conv)
  then show ?thesis by (simp add: play_view_def delete_type_def)
next
  case False
  then show ?thesis by (simp add: play_view_def delete_type_def list_update_beyond)
qed

lemma play_view_upd [simp]:
  "play_view (r\<lparr>terminal_buffer := b\<rparr>) = play_view r"
  "play_view (r\<lparr>keystroke_buffer := b\<rparr>) = play_view r"
  "play_view (r\<lparr>session := ss\<rparr>) = play_view r"
  "play_view (snd (resize rws cls r)) = play_view r"
  by (simp_all add: play_view_def)

lemmas unfold_event = action_event_def wp_simps update_session_def event_is_def type_is_def [symmetric]
  atob_prop_def ev_data_def [symmetric]

lemma action_event_view: "play_view (snd (action_event i r)) = play_view r"
proof -
  have "wp (action_event i) (\<lambda>t. play_view t = play_view r) (\<lambda>t. play_view t = play_view r) r"
    unfolding unfold_event
    by (simp add: delete_type_play wp_simps split: sum.splits)
  then show ?thesis by (simp only: wp_same)
qed

lemma action_event_wp:
  assumes dec: "decodable (events r ! i)"
    and Q: "\<And>t. play_view t = play_view r \<Longrightarrow>
      terminal_buffer t = terminal_buffer r @ ev_text (events r ! i) \<Longrightarrow>
      keystroke_buffer t = keystroke_buffer r @ ev_keys (events r ! i) \<Longrightarrow> Q t"
  shows "wp (action_event i) Q E r"
proof -
  let ?ev = "events r ! i"
  let ?Q = "\<lambda>t. terminal_buffer t = terminal_buffer r @ ev_text ?ev \<and>
      keystroke_buffer t = keystroke_buffer r @ ev_keys ?ev"
  have dt: "terminal_buffer (delete_type i r) = terminal_buffer r"
    "keystroke_buffer (delete_type i r) = keystroke_buffer r" by (simp_all add: delete_type_def)
  note shown = ev_text_def ev_keys_def is_output_def is_input_def is_exec_def
  have "wp (action_event i) ?Q (\<lambda>_. False) r"
  proof (cases "type_is ''session-start'' ?ev \<or> type_is ''window-resize'' ?ev")
    case True
    note quiet = quiet_view [OF other_type [OF True]]
    show ?thesis unfolding unfold_event using True by (auto simp: wp_simps quiet dt)
  next
    case quiet: False
    then have q: "\<not> type_is ''session-start'' ?ev" "\<not> type_is ''window-resize'' ?ev" by simp_all
    show ?thesis
    proof (cases "type_is ''new-message'' ?ev")
      case True
      have n: "\<not> type_is ''new-request'' ?ev" using message_not_request [OF True] .
      show ?thesis
        using dec [unfolded decodable_def is_output_def is_input_def] unfolding unfold_event shown
        by (cases "ev_data ''data'' ?ev") (simp_all add: q True n wp_simps, blast)
    next
      case False
      show ?thesis
        using dec [unfolded decodable_def is_exec_def] unfolding unfold_event shown
        by (cases "ev_data ''request_payload'' ?ev") (simp_all add: q False wp_simps)
    qed
  qed
  from wp_normal [OF this] obtain t where "action_event i r = (None, t)" "?Q t"
    by blast
  moreover from this have "play_view t = play_view r"
    using action_event_view [of i r] by simp
  ultimately show ?thesis using Q by (simp add: wp_def)
qed
end
