(* ===== verification/Event_Loop.thy ===== *)
theory Event_Loop
  imports Prelude
begin

text \<open>
  The interface between the browser's event loop and a component it drives: handlers that run to
  completion one after another, whatever the order of the events. A component that shows that
  each of its handlers keeps an invariant gets the invariant for every run, and for every state
  of the step relation of the loop.
\<close>

locale event_loop =
  fixes handler :: "'e \<Rightarrow> 's stmt"
    and admissible :: "'e \<Rightarrow> bool"
    and inv :: "'s \<Rightarrow> bool"
  assumes handler_inv: "admissible e \<Longrightarrow> inv s \<Longrightarrow> inv (snd (handler e s))"
begin

text \<open>The states the loop can be in between two events, starting in \<open>s\<close>.\<close>

inductive reachable :: "'s \<Rightarrow> 's \<Rightarrow> bool" for s where
  start: "reachable s s"
| step: "reachable s t \<Longrightarrow> admissible e \<Longrightarrow> handler e t = (x, u) \<Longrightarrow> reachable s u"

lemma reachable_inv: "reachable s t \<Longrightarrow> inv s \<Longrightarrow> inv t"
proof (induction rule: reachable.induct)
  case (step t e x u)
  then show ?case using handler_inv [of e t] by simp
qed

lemma reachable_trans: "reachable t u \<Longrightarrow> reachable s t \<Longrightarrow> reachable s u"
  by (induction rule: reachable.induct) (auto intro: step)

lemma run_reachable: "list_all admissible es \<Longrightarrow> reachable s (run_events handler es s)"
proof (induction es arbitrary: s)
  case Nil
  then show ?case by (simp add: start)
next
  case (Cons e es)
  have "reachable s (snd (handler e s))"
    using Cons.prems by (auto intro: step [OF start] simp: prod_eq_iff)
  then show ?case using Cons.IH [of "snd (handler e s)"] Cons.prems
    by (simp add: reachable_trans)
qed

lemma run_inv: "list_all admissible es \<Longrightarrow> inv s \<Longrightarrow> inv (run_events handler es s)"
  using run_reachable reachable_inv by blast

lemma reachable_run: "reachable s t \<Longrightarrow> \<exists>es. list_all admissible es \<and> t = run_events handler es s"
proof (induction rule: reachable.induct)
  case start
  have "list_all admissible [] \<and> s = run_events handler [] s" by simp
  then show ?case by blast
next
  case (step t e x u)
  from step.IH obtain es where es: "list_all admissible es" "t = run_events handler es s" by blast
  have "list_all admissible (es @ [e])" "u = run_events handler (es @ [e]) s"
    using es step.hyps by (simp_all add: run_events_append)
  then show ?case by blast
qed

end

end
