(* ===== verification/Reader_Run.thy ===== *)
theory Reader_Run
  imports Reader_Frames Event_Loop
begin

text \<open>
  The reader under the event loop: everything that can happen to it (controls, timers, the calls
  of \<open>lib.js\<close>, \<open>live.js\<close> and \<open>standalone.js\<close>), and what the terminal shows at any time.
\<close>

section \<open>The calls a reader receives\<close>

datatype reader_call =
    OnControl control         \<comment> \<open>the user\<close>
  | OnTimer                   \<comment> \<open>the next timeout\<close>
  | OnLoad "jsobj list"       \<comment> \<open>events from a file or a socket\<close>
  | OnProcess nat             \<comment> \<open>a message of a live session, to acknowledge on a socket\<close>
  | OnReset bool
  | OnPlay
  | OnPause
  | OnLive
  | OnDisconnected
  | OnSession jsobj
  | OnResizeAllowed bool
  | OnResize jsnum jsnum

fun reader_handler :: "reader_call \<Rightarrow> tr stmt" where
  "reader_handler (OnControl c) = control_handler c"
| "reader_handler OnTimer = fire_first"
| "reader_handler (OnLoad evs) = load_events evs"
| "reader_handler (OnProcess sock) = process_next_event (Some (AckCallback sock))"
| "reader_handler (OnReset b) = reset b"
| "reader_handler OnPlay = play"
| "reader_handler OnPause = pause"
| "reader_handler OnLive = set_session_mode_live"
| "reader_handler OnDisconnected = set_session_mode_disconnected"
| "reader_handler (OnSession obj) = update_session obj"
| "reader_handler (OnResizeAllowed b) = (if b then allow_resize else disable_resize)"
| "reader_handler (OnResize w h) = resize_by_pixels w h"

text \<open>The base64 of the events that are loaded decodes (the server encodes it).\<close>

fun call_decodable :: "reader_call \<Rightarrow> bool" where
  "call_decodable (OnLoad evs) = list_all decodable evs"
| "call_decodable _ = True"

section \<open>What the terminal shows\<close>

text \<open>The text written since the last reset of the terminal.\<close>

fun shown_from :: "string \<Rightarrow> term_op list \<Rightarrow> string" where
  "shown_from s [] = s"
| "shown_from s (TWrite t # ops) = shown_from (s @ t) ops"
| "shown_from s (TReset # ops) = shown_from [] ops"
| "shown_from s (TScrollBottom # ops) = shown_from s ops"

definition screen :: "tr \<Rightarrow> string" where
  "screen r = shown_from [] (terminal r)"

lemma shown_append [simp]: "shown_from s (xs @ ys) = shown_from (shown_from s xs) ys"
  by (induction s xs rule: shown_from.induct) simp_all

text \<open>What playback depends on, and the abstract position: the texts and how many are shown.\<close>

definition pos_view :: "tr \<Rightarrow> _" where
  "pos_view r = (map ev_view (events r), event_index r, screen r, terminal_buffer r,
     keystroke_buffer r, cur_event r, paused r)"

definition texts :: "tr \<Rightarrow> string list" where
  "texts r = map ev_text (events r)"

definition synced :: "tr \<Rightarrow> bool" where
  "synced r \<longleftrightarrow> event_index r \<le> length (events r) \<and> list_all decodable (events r) \<and>
     terminal_buffer r = [] \<and> keystroke_buffer r = [] \<and>
     screen r = concat (take (event_index r) (texts r))"

lemma texts_of_view: "map ev_text es = map fst (map ev_view es)"
  and decodable_of_view: "list_all decodable es = list_all (\<lambda>v. fst (snd (snd v))) (map ev_view es)"
  by (simp_all add: ev_view_def list_all_iff)

lemma ev_view_texts: "map ev_view es = map ev_view fs \<Longrightarrow> map ev_text es = map ev_text fs"
  and ev_view_decodable: "map ev_view es = map ev_view fs \<Longrightarrow> list_all decodable es = list_all decodable fs"
  by (simp_all only: texts_of_view decodable_of_view)

lemma synced_cong:
  "map ev_view (events s) = map ev_view (events r) \<Longrightarrow>
   event_index s = event_index r \<Longrightarrow> screen s = screen r \<Longrightarrow>
   terminal_buffer s = terminal_buffer r \<Longrightarrow> keystroke_buffer s = keystroke_buffer r \<Longrightarrow>
   synced s = synced r"
  using ev_view_texts [of "events s" "events r"] ev_view_decodable [of "events s" "events r"]
    map_eq_imp_length_eq [of ev_view "events s" ev_view "events r"]
  by (simp add: synced_def texts_def)

lemma synced_show_core:
  "show_core s = show_core r \<Longrightarrow> synced s = synced r"
  by (rule synced_cong) (simp_all add: show_core_def screen_def)

lemma synced_keeps: "keeps show_core m \<Longrightarrow> synced r \<Longrightarrow> synced (snd (m r))"
  using keepsD [of show_core m r] synced_show_core [of "snd (m r)" r] by simp

section \<open>Writing the buffers\<close>

text \<open>Callbacks that do not advance the reader.\<close>

fun plain :: "callback \<Rightarrow> bool" where
  "plain (InternalCallback cb) = False"
| "plain _ = True"

lemma pos_view_timeout [simp]: "pos_view (set_timeout j d r) = pos_view r"
  by (simp add: pos_view_def set_timeout_def screen_def)

lemma run_plain: "plain cb \<Longrightarrow> wp (run_callback cb) (\<lambda>t. pos_view t = pos_view r) (\<lambda>_. False) r"
  by (cases cb) (simp_all add: wp_simps del: block.simps, simp_all add: pos_view_def screen_def)

lemma start_process_timer_pos: "pos_view (snd (start_process_timer d r)) = pos_view r"
proof -
  have "wp (start_process_timer d) (\<lambda>t. pos_view t = pos_view r) (\<lambda>_. False) r"
    by (simp add: start_process_timer_def wp_simps del: block.simps)
       (simp add: pos_view_def set_timeout_def screen_def)
  from wp_normal [OF this] show ?thesis by auto
qed

lemmas process_timer_wp [wp_simps] = start_process_timer_total [THEN wp_total]

lemma start_timer_pos:
  assumes "cur_event r \<noteq> None"
  shows "wp (start_timer_for_next_event d) (\<lambda>t. pos_view t = pos_view r) (\<lambda>_. False) r"
  using assms
  by (auto simp: start_timer_for_next_event_def wp_simps start_process_timer_pos simp del: block.simps
        split: option.splits) (simp add: pos_view_def screen_def)

lemma run_internal:
  assumes "plain cb" "cur_event r \<noteq> None"
  shows "wp (run_callback (InternalCallback cb))
    (\<lambda>t. pos_view t = pos_view (r\<lparr>event_index := event_index r + 1\<rparr>)) (\<lambda>_. False) r"
  unfolding run_callback.simps wp_simps
proof (rule wp_mono [OF start_timer_pos [OF assms(2)]])
  fix t assume t: "pos_view t = pos_view r"
  then have "pos_view (t\<lparr>event_index := event_index t + 1\<rparr>) = pos_view (r\<lparr>event_index := event_index r + 1\<rparr>)"
    by (simp add: pos_view_def screen_def)
  with run_plain [OF assms(1), of "t\<lparr>event_index := event_index t + 1\<rparr>"]
  show "wp (run_callback cb) (\<lambda>t. pos_view t = pos_view (r\<lparr>event_index := event_index r + 1\<rparr>))
      (\<lambda>_. False) (t\<lparr>event_index := event_index t + 1\<rparr>)" by simp
qed simp

text \<open>
  Writing the buffers adds the buffered text to the screen and does to the position what its
  callback does.
\<close>

definition written :: "tr \<Rightarrow> nat \<Rightarrow> tr" where
  "written r n = r\<lparr>event_index := n, terminal := terminal r @ [TWrite (terminal_buffer r)],
     terminal_buffer := [], keystroke_buffer := []\<rparr>"

lemma write_keystroke_None:
  "wp (write_keystroke_buffer None)
     (\<lambda>t. keystroke_buffer t = [] \<and> event_index t = event_index r \<and> cur_event t = cur_event r \<and>
          pos_view t = pos_view (r\<lparr>keystroke_buffer := []\<rparr>) \<and> terminal_buffer t = terminal_buffer r) (\<lambda>_. False) r"
  by (simp add: write_keystroke_buffer_def wp_simps del: block.simps) (simp add: pos_view_def screen_def)

lemma write_terminal_pos:
  assumes "wp (run_callback cb) (\<lambda>t. pos_view t = pos_view (r\<lparr>event_index := n\<rparr>)) (\<lambda>_. False) r"
  shows "wp (write_terminal_buffer (Some cb)) (\<lambda>t. pos_view t = pos_view (r\<lparr>event_index := n,
     terminal := terminal r @ [TWrite (terminal_buffer r)], terminal_buffer := []\<rparr>)) (\<lambda>_. False) r"
  unfolding write_terminal_buffer_def wp_simps option.case
  by (rule wp_mono [OF assms]) (simp_all add: pos_view_def screen_def)

lemma write_keystroke_pos:
  assumes run: "\<And>s. event_index s = event_index r \<Longrightarrow> cur_event s = cur_event r \<Longrightarrow>
    wp (run_callback cb) (\<lambda>t. pos_view t = pos_view (s\<lparr>event_index := n\<rparr>)) (\<lambda>_. False) s"
  shows "wp (write_keystroke_buffer (Some cb))
    (\<lambda>t. pos_view t = pos_view (r\<lparr>event_index := n, keystroke_buffer := []\<rparr>)) (\<lambda>_. False) r"
proof -
  have "wp (run_callback cb) (wp (upd (keystroke_buffer_update (\<lambda>_. [])))
      (\<lambda>t. pos_view t = pos_view (r\<lparr>event_index := n, keystroke_buffer := []\<rparr>)) (\<lambda>_. False)) (\<lambda>_. False)
      (r\<lparr>keystrokes := ks\<rparr>)" for ks
    by (rule wp_mono [OF run]) (simp_all add: wp_simps pos_view_def screen_def)
  then show ?thesis by (simp add: write_keystroke_buffer_def wp_simps)
qed

lemma write_buffers_pos:
  assumes run: "\<And>s. event_index s = event_index r \<Longrightarrow> cur_event s = cur_event r \<Longrightarrow>
    wp (run_callback cb) (\<lambda>t. pos_view t = pos_view (s\<lparr>event_index := n\<rparr>)) (\<lambda>_. False) s"
  shows "wp (write_buffers (Some cb) True) (\<lambda>t. pos_view t = pos_view (written r n)) (\<lambda>_. False) r"
proof -
  consider (out) "terminal_buffer r \<noteq> []" | (keys) "terminal_buffer r = []" "keystroke_buffer r \<noteq> []"
    | (empty) "terminal_buffer r = []" "keystroke_buffer r = []" by blast
  then show ?thesis
  proof cases
    case out
    have "wp (write_terminal_buffer (Some cb)) (\<lambda>t. pos_view t = pos_view (written r n)) (\<lambda>_. False) s"
      if "keystroke_buffer s = []" "event_index s = event_index r" "cur_event s = cur_event r"
        "pos_view s = pos_view (r\<lparr>keystroke_buffer := []\<rparr>)" for s
      by (rule wp_mono [OF write_terminal_pos [OF run [OF that(2,3)]]])
         (use that in \<open>simp_all add: pos_view_def screen_def written_def\<close>)
    with out wp_mono [OF write_keystroke_None [of r]] show ?thesis
      unfolding write_buffers_def Let_def option.case wp_simps by (simp add: pos_view_def screen_def)
  next
    case keys
    then show ?thesis
      unfolding write_buffers_def Let_def option.case wp_simps if_True
      by (simp, intro wp_mono [OF write_keystroke_pos [OF run]]) (simp_all add: pos_view_def screen_def written_def)
  next
    case empty
    then show ?thesis unfolding write_buffers_def Let_def option.case wp_simps
      by (simp, intro wp_mono [OF run]) (simp_all add: pos_view_def screen_def written_def)
  qed
qed

lemma synced_written:
  assumes "pos_view u = pos_view (written t n)" "n \<le> length (events t)" "list_all decodable (events t)"
    and "screen t @ terminal_buffer t = concat (take n (texts t))"
  shows "synced u" "event_index u = n" "texts u = texts t" "paused u = paused t"
proof -
  have ev: "map ev_view (events u) = map ev_view (events t)"
    using assms(1) by (simp add: pos_view_def written_def)
  show "texts u = texts t" using ev_view_texts [OF ev] by (simp add: texts_def)
  then show "synced u"
    using assms ev_view_decodable [OF ev] map_eq_imp_length_eq [OF ev]
    by (simp add: synced_def pos_view_def written_def screen_def)
  show "event_index u = n" "paused u = paused t"
    using assms(1) by (simp_all add: pos_view_def written_def)
qed

lemma synced_refresh: "synced (snd (refresh_statusbar r)) = synced r"
  by (rule synced_cong) (simp_all add: screen_def)

lemma texts_refresh [simp]: "texts (snd (refresh_statusbar r)) = texts r"
  by (simp add: texts_def)

section \<open>Performing one event\<close>

text \<open>After the action of an event the screen and the position are as before, the text is buffered.\<close>

lemma action_synced:
  assumes "synced r" "i < length (events r)" and "play_view s = play_view r"
    "terminal_buffer s = []" "keystroke_buffer s = []"
    and Q: "\<And>t. texts t = texts r \<Longrightarrow> list_all decodable (events t) \<Longrightarrow> length (events t) = length (events r) \<Longrightarrow>
      screen t = screen r \<Longrightarrow> event_index t = event_index r \<Longrightarrow> paused t = paused r \<Longrightarrow>
      cur_event t = cur_event r \<Longrightarrow> terminal_buffer t = texts r ! i \<Longrightarrow> Q t"
  shows "wp (action_event i) Q E s"
proof -
  have ev: "map ev_view (events s) = map ev_view (events r)"
    using assms(3) by (simp add: play_view_def)
  have dec: "list_all decodable (events r)" using assms(1) by (simp add: synced_def)
  have len: "length (events s) = length (events r)" by (rule map_eq_imp_length_eq [OF ev])
  have same: "map ev_text (events s) = map ev_text (events r)" by (rule ev_view_texts [OF ev])
  then have txt_i: "ev_text (events s ! i) = texts r ! i"
    using assms(2) len by (metis nth_map texts_def)
  show ?thesis
  proof (rule action_event_wp)
    show "decodable (events s ! i)"
      using dec ev_view_decodable [OF ev] assms(2) len by (simp add: list_all_length)
    fix t assume t: "play_view t = play_view s"
      "terminal_buffer t = terminal_buffer s @ ev_text (events s ! i)"
    have ev': "map ev_view (events t) = map ev_view (events r)"
      using t(1) ev by (simp add: play_view_def)
    show "Q t"
      using t assms(3,4) ev_view_texts [OF ev'] ev_view_decodable [OF ev'] dec map_eq_imp_length_eq [OF ev'] txt_i
      by (intro Q) (simp_all add: texts_def play_view_def screen_def)
  qed
qed

lemma concat_take_Suc: "i < length xs \<Longrightarrow> concat (take i xs) @ xs ! i = concat (take (Suc i) xs)"
  by (simp add: take_Suc_conv_app_nth)

text \<open>An event that is written next, from a state in step with the screen.\<close>

lemma write_next:
  assumes "synced r" "event_index r < length (events r)"
    and t: "texts t = texts r" "list_all decodable (events t)" "length (events t) = length (events r)"
      "screen t = screen r" "event_index t = event_index r" "paused t = paused r"
      "terminal_buffer t = texts r ! event_index r"
    and run: "\<And>s. event_index s = event_index t \<Longrightarrow> cur_event s = cur_event t \<Longrightarrow>
      wp (run_callback cb) (\<lambda>u. pos_view u = pos_view (s\<lparr>event_index := n\<rparr>)) (\<lambda>_. False) s"
    and Q: "\<And>u. (n = Suc (event_index r) \<longrightarrow> synced u) \<Longrightarrow> pos_view u = pos_view (written t n) \<Longrightarrow>
      event_index u = n \<Longrightarrow> texts u = texts r \<Longrightarrow> paused u = paused r \<Longrightarrow> Q u"
  shows "wp (write_buffers (Some cb) True) Q (\<lambda>_. False) t"
proof (rule wp_mono [OF write_buffers_pos [OF run]])
  fix u assume u: "pos_view u = pos_view (written t n)"
  have ev: "map ev_view (events u) = map ev_view (events t)" "event_index u = n" "paused u = paused t"
    using u by (simp_all add: pos_view_def written_def)
  have "screen t @ terminal_buffer t = concat (take (Suc (event_index r)) (texts t))"
    using assms(1,2) t concat_take_Suc [of "event_index r" "texts r"]
    by (simp add: synced_def texts_def)
  then have "n = Suc (event_index r) \<longrightarrow> synced u"
    using synced_written(1) [OF u] assms(2) t by simp
  then show "Q u" using Q [OF _ u] ev t(1,6) ev_view_texts [OF ev(1)] by (simp add: texts_def)
qed simp_all

section \<open>The methods that step through the events\<close>

lemma synced_pos: "pos_view s = pos_view r \<Longrightarrow> synced s = synced r"
  by (rule synced_cong) (simp_all add: pos_view_def)

lemma texts_pos: "pos_view s = pos_view r \<Longrightarrow> texts s = texts r"
  using ev_view_texts [of "events s" "events r"] by (simp add: pos_view_def texts_def)

definition given :: "callback option \<Rightarrow> callback" where
  "given cb = (case cb of None \<Rightarrow> NoCallback | Some c \<Rightarrow> c)"

text \<open>Playing: the next event is written and counted.\<close>

lemma process_playing:
  assumes "synced r" "\<not> paused r" "event_index r < length (events r)" "plain (given cb)"
  shows "wp (process_next_event cb)
    (\<lambda>t. synced t \<and> event_index t = Suc (event_index r) \<and> texts t = texts r \<and> \<not> paused t) (\<lambda>_. False) r"
proof -
  let ?s = "r\<lparr>cur_event := Some (events r ! event_index r)\<rparr>"
  let ?Q = "\<lambda>t. synced t \<and> event_index t = Suc (event_index r) \<and> texts t = texts r \<and> \<not> paused t"
  have s: "synced ?s" using assms(1) synced_cong [of ?s r] by (simp add: screen_def)
  have "wp (action_event (event_index r)) (wp (ite (\<lambda>r. \<not> paused r)
      (write_buffers (Some (InternalCallback (given cb))) True) (block [run_callback (given cb), clear_buffers]))
      (\<lambda>t. ?Q (snd (refresh_statusbar t))) (\<lambda>_. False)) (\<lambda>_. False) ?s"
  proof (rule action_synced [OF s])
    fix t
    assume t: "texts t = texts ?s" "list_all decodable (events t)" "length (events t) = length (events ?s)"
      "screen t = screen ?s" "event_index t = event_index ?s" "paused t = paused ?s"
      "cur_event t = cur_event ?s" "terminal_buffer t = texts ?s ! event_index r"
    have "wp (write_buffers (Some (InternalCallback (given cb))) True)
        (\<lambda>t. ?Q (snd (refresh_statusbar t))) (\<lambda>_. False) t"
    proof (rule write_next [OF s _ t(1-6)])
      fix u :: tr assume "event_index u = event_index t" "cur_event u = cur_event t"
      then show "wp (run_callback (InternalCallback (given cb)))
          (\<lambda>v. pos_view v = pos_view (u\<lparr>event_index := Suc (event_index r)\<rparr>)) (\<lambda>_. False) u"
        using run_internal [OF assms(4), of u] t(5,7) by simp
    qed (use assms t(8) in \<open>simp_all add: synced_refresh texts_def\<close>)
    then show "wp (ite (\<lambda>r. \<not> paused r) (write_buffers (Some (InternalCallback (given cb))) True)
        (block [run_callback (given cb), clear_buffers])) (\<lambda>t. ?Q (snd (refresh_statusbar t))) (\<lambda>_. False) t"
      using t(6) assms(2) by (simp add: wp_simps)
  qed (use assms in \<open>simp_all add: play_view_def synced_def\<close>)
  then show ?thesis
    using assms(2,3) unfolding process_next_event_def Let_def wp_simps given_def by (simp add: wp_simps)
qed

text \<open>Otherwise the screen and the position stay: a live event that arrives while paused is dropped.\<close>

lemma process_idle:
  assumes "synced r" "paused r \<or> length (events r) \<le> event_index r" "plain (given cb)"
  shows "wp (process_next_event cb)
    (\<lambda>t. synced t \<and> event_index t = event_index r \<and> texts t = texts r \<and> screen t = screen r) (\<lambda>_. False) r"
proof (cases "event_index r < length (events r) \<and> (paused r \<longrightarrow> truthy (is_live r))")
  case False
  let ?Q = "\<lambda>t. synced t \<and> event_index t = event_index r \<and> texts t = texts r \<and> screen t = screen r"
  have run: "wp (run_callback (given cb)) (\<lambda>t. ?Q (snd (refresh_statusbar t))) (\<lambda>_. False) r"
  proof (rule wp_mono [OF run_plain [OF assms(3)]])
    fix t assume t: "pos_view t = pos_view r"
    from synced_pos [OF this] texts_pos [OF this] assms(1) t show "?Q (snd (refresh_statusbar t))"
      by (simp add: synced_refresh) (simp add: pos_view_def screen_def)
  qed simp
  have "synced (snd (pause r))" by (rule synced_keeps [OF keeps_core_show [OF pause_core] assms(1)])
  then show ?thesis
    using False assms(1,2) run unfolding process_next_event_def Let_def wp_simps given_def [symmetric]
    by (auto simp: wp_simps synced_refresh texts_def screen_def)
next
  case True
  let ?s = "r\<lparr>cur_event := Some (events r ! event_index r)\<rparr>"
  let ?Q = "\<lambda>t. synced t \<and> event_index t = event_index r \<and> texts t = texts r \<and> screen t = screen r"
  have s: "synced ?s" using assms(1) synced_cong [of ?s r] by (simp add: screen_def)
  have drop: "wp (run_callback (given cb)) (wp clear_buffers (\<lambda>t. ?Q (snd (refresh_statusbar t))) (\<lambda>_. False)) (\<lambda>_. False) t"
    if t: "texts t = texts ?s" "list_all decodable (events t)" "length (events t) = length (events ?s)"
      "screen t = screen ?s" "event_index t = event_index ?s" for t
  proof (rule wp_mono [OF run_plain [OF assms(3)]])
    fix u assume u: "pos_view u = pos_view t"
    then have "map ev_view (events u) = map ev_view (events t)" by (simp add: pos_view_def)
    from ev_view_decodable [OF this] map_eq_imp_length_eq [OF this] texts_pos [OF u] u t s
    show "wp clear_buffers (\<lambda>t. ?Q (snd (refresh_statusbar t))) (\<lambda>_. False) u"
      by (simp add: wp_total [OF clear_buffers_total] synced_refresh) (simp add: clear_buffers_def upd_def synced_def pos_view_def screen_def texts_def)
  qed simp
  have "wp (action_event (event_index r)) (wp (ite (\<lambda>r. \<not> paused r)
      (write_buffers (Some (InternalCallback (given cb))) True) (block [run_callback (given cb), clear_buffers]))
      (\<lambda>t. ?Q (snd (refresh_statusbar t))) (\<lambda>_. False)) (\<lambda>_. False) ?s"
  proof (rule action_synced [OF s])
    fix t :: tr
    assume "texts t = texts ?s" "list_all decodable (events t)" "length (events t) = length (events ?s)"
      "screen t = screen ?s" "event_index t = event_index ?s" "paused t = paused ?s"
    then show "wp (ite (\<lambda>r. \<not> paused r) (write_buffers (Some (InternalCallback (given cb))) True)
        (block [run_callback (given cb), clear_buffers])) (\<lambda>t. ?Q (snd (refresh_statusbar t))) (\<lambda>_. False) t"
      using drop [of t] True assms(2) unfolding wp_simps by simp
  qed (use True assms(1) in \<open>simp_all add: play_view_def synced_def\<close>)
  then show ?thesis
    using True assms(2) unfolding process_next_event_def Let_def wp_simps given_def [symmetric]
    by (simp add: wp_simps)
qed

lemma process_synced:
  assumes "synced r" "plain (given cb)"
  shows "wp (process_next_event cb) synced (\<lambda>_. False) r"
proof (cases "paused r \<or> length (events r) \<le> event_index r")
  case True
  show ?thesis by (rule wp_mono [OF process_idle [OF assms(1) True assms(2)]]) simp_all
next
  case False
  then have "\<not> paused r" "event_index r < length (events r)" by simp_all
  then show ?thesis by (intro wp_mono [OF process_playing [OF assms(1) _ _ assms(2)]]) simp_all
qed

lemma write_buffers_None: "write_buffers None b = write_buffers (Some NoCallback) b"
  by (simp add: write_buffers_def)

lemma run_plain_at:
  assumes "plain cb" "event_index s = n"
  shows "wp (run_callback cb) (\<lambda>t. pos_view t = pos_view (s\<lparr>event_index := n\<rparr>)) (\<lambda>_. False) s"
  by (rule wp_mono [OF run_plain [OF assms(1)]]) (simp_all add: assms(2) [symmetric])

lemma plain_NoCallback [simp]: "plain (given None)"
  by (simp add: given_def)

lemma step_paused:
  assumes "synced r" "paused r" "event_index r < length (events r)"
  shows "wp (block [bind_val event_index action_event, write_buffers None True,
      upd (\<lambda>r. r\<lparr>event_index := event_index r + 1\<rparr>)])
    (\<lambda>t. synced t \<and> event_index t = Suc (event_index r) \<and> texts t = texts r \<and> paused t) (\<lambda>_. False) r"
  unfolding wp_simps write_buffers_None
proof (rule action_synced [OF assms(1,3)])
  fix t
  assume t: "texts t = texts r" "list_all decodable (events t)" "length (events t) = length (events r)"
    "screen t = screen r" "event_index t = event_index r" "paused t = paused r"
    "cur_event t = cur_event r" "terminal_buffer t = texts r ! event_index r"
  let ?Q = "\<lambda>t. synced t \<and> event_index t = Suc (event_index r) \<and> texts t = texts r \<and> paused t"
  have w: "screen t @ terminal_buffer t = concat (take (Suc (event_index r)) (texts t))"
    using assms(1,3) t concat_take_Suc [of "event_index r" "texts r"] by (simp add: synced_def texts_def)
  show "wp (write_buffers (Some NoCallback) True) (\<lambda>u. ?Q (u\<lparr>event_index := event_index u + 1\<rparr>)) (\<lambda>_. False) t"
  proof (rule wp_mono [OF write_buffers_pos [of t NoCallback "event_index t"]])
    fix u assume u: "pos_view u = pos_view (written t (event_index t))"
    then have "pos_view (u\<lparr>event_index := event_index u + 1\<rparr>) = pos_view (written t (Suc (event_index r)))"
      using t(5) by (simp add: pos_view_def written_def screen_def)
    from synced_written [OF this] t(1-3,6) w assms(2,3)
    show "?Q (u\<lparr>event_index := event_index u + 1\<rparr>)" by simp
  qed (auto intro!: run_plain_at simp del: run_callback.simps)
qed (use assms in \<open>simp_all add: synced_def\<close>)

lemma next_advances:
  assumes "synced r" "event_index r < length (events r)"
  shows "wp next_event (\<lambda>t. synced t \<and> event_index t = Suc (event_index r) \<and> texts t = texts r) (\<lambda>_. False) r"
proof -
  let ?s = "snd (reset_timeout True r)"
  let ?Q = "\<lambda>t. synced t \<and> event_index t = Suc (event_index r) \<and> texts t = texts r"
  have s: "synced ?s" by (rule synced_keeps [OF keeps_core_show [OF reset_timeout_core] assms(1)])
  have q: "?Q (snd (refresh_statusbar t))" if "?Q t" for t
    using that by (simp add: synced_refresh)
  have "wp (block [bind_val event_index action_event, write_buffers None True,
      upd (\<lambda>r. r\<lparr>event_index := event_index r + 1\<rparr>)]) (\<lambda>t. ?Q (snd (refresh_statusbar t))) (\<lambda>_. False) ?s"
    if "paused r"
    by (rule wp_mono [OF step_paused [OF s]]) (use that assms(2) q in \<open>simp_all add: texts_def\<close>)
  moreover have "wp (process_next_event None) (\<lambda>t. ?Q (snd (refresh_statusbar t))) (\<lambda>_. False) ?s"
    if "\<not> paused r"
    by (rule wp_mono [OF process_playing [OF s]]) (use that assms(2) q in \<open>simp_all add: texts_def\<close>)
  ultimately show ?thesis
    using assms(2) unfolding next_event_def wp_simps by simp
qed

lemma next_synced: "synced r \<Longrightarrow> wp next_event synced (\<lambda>_. False) r"
proof (cases "event_index r < length (events r)")
  case True
  then show "wp next_event synced (\<lambda>_. False) r" if "synced r"
    by (intro wp_mono [OF next_advances [OF that]]) simp_all
next
  case False
  then show "wp next_event synced (\<lambda>_. False) r" if "synced r"
    using that unfolding next_event_def wp_simps by (simp add: synced_refresh)
qed

section \<open>Moving to an event\<close>

lemma move_accepted:
  assumes "\<not> move_refused e r"
  obtains q where "e = Fin q" "0 \<le> q" "event_number e < length (events r)"
    "num_of_nat k < e \<Longrightarrow> k \<le> event_number e"
proof (cases e)
  case (Fin q)
  have q: "0 \<le> q" "q \<le> of_int (int (length (events r)) - 1)"
    using assms by (auto simp: Fin move_refused_def less_jsnum_def)
  have "nat \<lfloor>q\<rfloor> < length (events r)"
    using q by (simp add: nat_less_iff floor_less_iff)
  moreover have "k \<le> nat \<lfloor>q\<rfloor>" if "num_of_nat k < e"
    using that q by (simp add: Fin less_jsnum_def le_nat_iff le_floor_iff)
  ultimately show ?thesis using that [of q] q by (simp add: Fin event_number_def)
qed (use assms in \<open>auto simp: move_refused_def less_jsnum_def\<close>)

text \<open>The loop over the events buffers their texts one after another.\<close>

lemma replay_events:
  assumes "synced r" "a \<le> n" "n \<le> length (events r)" "map ev_view (events s) = map ev_view (events r)"
    "terminal_buffer s = []"
    and Q: "\<And>t. play_view t = play_view s \<Longrightarrow>
      terminal_buffer t = concat (map ((!) (texts r)) [a..<n]) \<Longrightarrow> Q t"
  shows "wp (for_each [a..<n] action_event) Q (\<lambda>_. False) s"
proof -
  let ?I = "\<lambda>j t. play_view t = play_view s \<and> terminal_buffer t = concat (map ((!) (texts r)) [a..<a + j])"
  have "wp (for_each [a..<n] action_event) (?I (length [a..<n])) (\<lambda>_. False) s"
  proof (rule wp_for_each)
    show "?I 0 s" using assms(5) by simp
    fix j t assume j: "j < length [a..<n]" and t: "?I j t"
    have ev: "map ev_view (events t) = map ev_view (events r)"
      using t assms(4) by (simp add: play_view_def)
    have len: "length (events t) = length (events r)" by (rule map_eq_imp_length_eq [OF ev])
    have "[a..<n] ! j = a + j" "a + j < length (events r)" using j assms(2,3) by simp_all
    moreover have "decodable (events t ! (a + j))"
      using ev_view_decodable [OF ev] assms(1) \<open>a + j < _\<close> len by (simp add: synced_def list_all_length)
    moreover have "ev_text (events t ! (a + j)) = texts r ! (a + j)"
      using ev_view_texts [OF ev] \<open>a + j < _\<close> len by (metis nth_map texts_def)
    ultimately show "wp (action_event ([a..<n] ! j)) (?I (Suc j)) (\<lambda>_. False) t"
      using t by (simp only:) (rule action_event_wp, simp_all)
  qed
  then show ?thesis by (rule wp_mono) (use Q assms(2) in simp_all)
qed

lemma map_nth_slice:
  assumes "a \<le> n" "n \<le> length xs"
  shows "map ((!) xs) [a..<n] = drop a (take n xs)"
  using assms by (intro nth_equalityI) auto

lemma texts_slice:
  assumes "a \<le> n" "n \<le> length xs"
  shows "concat (take a xs) @ concat (map ((!) xs) [a..<n]) = concat (take n xs)"
proof -
  have "take n xs = take a xs @ drop a (take n xs)"
    using assms by (metis append_take_drop_id min.absorb1 take_take)
  then show ?thesis unfolding map_nth_slice [OF assms] by (metis concat_append)
qed

lemma move_shows:
  assumes "synced r" "\<not> move_refused e r"
  shows "wp (move_to_event e True)
    (\<lambda>t. synced t \<and> event_index t = Suc (event_number e) \<and> texts t = texts r \<and> paused t) (\<lambda>_. False) r"
proof -
  obtain q where n: "event_number e < length (events r)"
    "num_of_nat (event_index r) < e \<Longrightarrow> event_index r \<le> event_number e"
    using move_accepted [OF assms(2), of "event_index r"] by metis
  define n where "n = event_number e + 1"
  define fwd where "fwd = (num_of_nat (event_index r) < e)"
  define a where "a = (if fwd then event_index r else 0)"
  define s where "s = (if fwd then snd (pause r)
     else (snd (pause r))\<lparr>terminal := terminal (snd (pause r)) @ [TReset]\<rparr>)\<lparr>keystrokes := []\<rparr>"
  let ?Q = "\<lambda>t. synced t \<and> event_index t = n \<and> texts t = texts r \<and> paused t"
  have an: "a \<le> n" "n \<le> length (events r)" using n by (auto simp: n_def a_def fwd_def)
  have s: "map ev_view (events s) = map ev_view (events r)" "terminal_buffer s = []" "paused s"
    "screen s = concat (take a (texts r))"
    using assms(1) by (auto simp: s_def a_def synced_def screen_def)
  have "wp (for_each [a..<n] action_event) (wp (write_buffers (Some ScrollCallback) True)
      (\<lambda>t. ?Q (snd (refresh_statusbar (t\<lparr>event_index := n\<rparr>)))) (\<lambda>_. False)) (\<lambda>_. False) s"
  proof (rule replay_events [OF assms(1) an s(1,2)])
    fix t assume t: "play_view t = play_view s" "terminal_buffer t = concat (map ((!) (texts r)) [a..<n])"
    have ev: "map ev_view (events t) = map ev_view (events r)"
      using t(1) s(1) by (simp add: play_view_def)
    note same = ev_view_texts [OF ev, folded texts_def] ev_view_decodable [OF ev] map_eq_imp_length_eq [OF ev]
    have "screen t = screen s" "paused t" using t(1) s(3) by (simp_all add: play_view_def screen_def)
    moreover from this have "screen t @ terminal_buffer t = concat (take n (texts t))"
      using t(2) s(4) same texts_slice [OF an(1), of "texts r"] an(2) by (simp add: texts_def)
    moreover have "list_all decodable (events t)" using same assms(1) by (simp add: synced_def)
    ultimately show "wp (write_buffers (Some ScrollCallback) True)
        (\<lambda>t. ?Q (snd (refresh_statusbar (t\<lparr>event_index := n\<rparr>)))) (\<lambda>_. False) t"
    proof (intro wp_mono [OF write_buffers_pos [of t ScrollCallback "event_index t"]])
      fix u assume u: "pos_view u = pos_view (written t (event_index t))"
      then have "pos_view (u\<lparr>event_index := n\<rparr>) = pos_view (written t n)"
        by (simp add: pos_view_def written_def screen_def)
      from synced_written [OF this] same an(2) \<open>paused t\<close> \<open>list_all decodable (events t)\<close>
        \<open>screen t @ terminal_buffer t = _\<close>
      show "?Q (snd (refresh_statusbar (u\<lparr>event_index := n\<rparr>)))" by (simp add: synced_refresh)
    qed (auto intro!: run_plain_at simp del: run_callback.simps)
  qed
  then show ?thesis
    using assms(2) unfolding move_to_event_def Let_def wp_simps
    by (simp add: wp_simps n_def a_def fwd_def s_def split: if_splits)
qed

lemma move_refused_skip: "move_refused e r \<Longrightarrow> move_to_event e b r = (None, r)"
  by (simp add: move_to_event_def ite_def skip_def)

lemma move_synced: "synced r \<Longrightarrow> wp (move_to_event e True) synced (\<lambda>_. False) r"
proof (cases "move_refused e r")
  case True
  then show "wp (move_to_event e True) synced (\<lambda>_. False) r" if "synced r"
    using that by (simp add: wp_def move_refused_skip)
next
  case False
  then show "wp (move_to_event e True) synced (\<lambda>_. False) r" if "synced r"
    by (intro wp_mono [OF move_shows [OF that]]) simp_all
qed

section \<open>Every call keeps the screen in step\<close>

lemma wp_preserves: "(\<And>r. P r \<Longrightarrow> wp m P P r) \<Longrightarrow> preserves P m"
  by (simp add: preserves_def wp_same)

lemma wp_any_exn: "wp m P (\<lambda>_. False) r \<Longrightarrow> wp m P E r"
  by (erule wp_mono) simp_all

lemma preserves_synced_show: "keeps show_core m \<Longrightarrow> preserves synced m"
  by (simp add: preserves_def synced_keeps)

lemma preserves_synced_core: "keeps core m \<Longrightarrow> preserves synced m"
  by (rule preserves_synced_show [OF keeps_core_show])

lemma preserves_synced_upd: "(\<And>r. pos_view (f r) = pos_view r) \<Longrightarrow> preserves synced (upd f)"
  by (rule preserves_upd) (metis synced_pos)

lemma set_paused_synced: "preserves synced (upd (\<lambda>r. r\<lparr>paused := b\<rparr>))"
  by (rule preserves_synced_show, rule keeps_upd) (simp add: show_core_def)

named_theorems synced_intro "methods that keep the screen in step"

lemmas [synced_intro] =
  preserves_synced_core [OF resize_by_pixels_core] preserves_synced_core [OF pause_core]
  preserves_synced_core [OF refresh_statusbar_core] preserves_synced_core [OF reset_timeout_core]
  preserves_synced_core [OF update_speed_core] preserves_synced_core [OF update_controlbar_core]
  preserves_synced_show [OF play_show] preserves_synced_show [OF toggle_show]
  preserves_synced_show [OF increase_speed_show] preserves_synced_show [OF decrease_speed_show]
  set_paused_synced

lemma move_preserves [synced_intro]: "preserves synced (move_to_event e True)"
  by (rule wp_preserves) (simp add: wp_any_exn move_synced)

lemma next_preserves [synced_intro]: "preserves synced next_event"
  by (rule wp_preserves) (simp add: wp_any_exn next_synced)

lemma process_preserves [synced_intro]: "plain (given cb) \<Longrightarrow> preserves synced (process_next_event cb)"
  by (rule wp_preserves) (simp add: wp_any_exn process_synced)

lemma prev_preserves [synced_intro]: "preserves synced prev"
  unfolding prev_def by (intro pres_intro synced_intro)

lemma session_preserves [synced_intro]:
  "preserves synced (update_session obj)" "preserves synced set_session_mode_live"
  "preserves synced reset_session" "preserves synced set_session_mode_disconnected"
  unfolding update_session_def set_session_mode_live_def set_session_mode_disconnected_def reset_session_def
  by (intro pres_intro synced_intro preserves_synced_upd; simp add: pos_view_def screen_def)+

lemma resize_mode_preserves [synced_intro]:
  "preserves synced allow_resize" "preserves synced disable_resize"
  unfolding allow_resize_def disable_resize_def
  by (intro preserves_synced_upd; simp add: pos_view_def screen_def)+

lemma load_preserves:
  assumes "list_all decodable evs"
  shows "preserves synced (load_events evs)"
  unfolding load_events_def
  by (intro pres_intro; rule preserves_upd) (use assms in \<open>auto simp: synced_def texts_def screen_def\<close>)

lemma reset_preserves [synced_intro]: "preserves synced (reset b)"
proof (rule preservesI)
  fix r :: tr
  assume "synced r"
  have "wp (reset b) (\<lambda>t. events t = [] \<and> event_index t = 0 \<and> screen t = [] \<and> terminal_buffer t = [] \<and>
      keystroke_buffer t = []) (\<lambda>_. False) r"
    unfolding reset_def
    by (simp add: wp_simps clear_buffers_def clear_events_def reset_session_def screen_def split: prod.splits)
  from wp_normal [OF this] show "synced (snd (reset b r))" by (auto simp: synced_def)
qed

lemma control_preserves [synced_intro]: "preserves synced (control_handler c)"
  by (cases c) (auto intro!: pres_intro synced_intro)

lemma fire_preserves [synced_intro]: "preserves synced fire_first"
  unfolding fire_first_def
proof (intro pres_intro)
  fix ft :: "pending option"
  have "preserves synced (run_job j)" for j
    by (cases j) (auto intro!: synced_intro preserves_synced_upd simp: pos_view_def screen_def)
  then show "preserves synced (case ft of None \<Rightarrow> skip | Some t \<Rightarrow> block
      [upd (remove_timer (timer_id t)), upd (\<lambda>r. r\<lparr>clock := max (clock r) (due t)\<rparr>), run_job (job_of t)])"
    by (cases ft) (auto intro!: pres_intro preserves_synced_upd simp: remove_timer_def pos_view_def screen_def)
qed

lemma reader_preserves: "call_decodable c \<Longrightarrow> preserves synced (reader_handler c)"
  by (cases c) (auto intro!: synced_intro load_preserves simp: given_def)

end
