(* ===== verification/Reader_Props.thy ===== *)
theory Reader_Props
  imports Reader_Run
begin

text \<open>
  The properties of the reader: what is on the screen after any sequence of calls, what the
  navigation controls do to an abstract player, what seeking does to the keystrokes and to the
  events, what the timers do.
\<close>

interpretation playing: event_loop reader_handler call_decodable synced
  by unfold_locales (rule preservesD [OF reader_preserves])

text \<open>A reader as the pages build it.\<close>

definition start_reader :: "string \<Rightarrow> (jsnum \<Rightarrow> jsnum \<Rightarrow> jsnum \<times> jsnum) \<Rightarrow> jsnum \<Rightarrow> jsnum \<Rightarrow> int \<Rightarrow> tr" where
  "start_reader el fit ww wh now = snd (initialize (new_reader el fit ww wh now))"

lemma start_state:
  "events (start_reader el fit ww wh now) = []" "event_index (start_reader el fit ww wh now) = 0"
  "screen (start_reader el fit ww wh now) = []" "terminal_buffer (start_reader el fit ww wh now) = []"
  "keystroke_buffer (start_reader el fit ww wh now) = []" "timeouts (start_reader el fit ww wh now) = []"
  "paused (start_reader el fit ww wh now)"
  "session (start_reader el fit ww wh now) = [(''live'', JBool False), (''feed_type'', JStr ''old'')]"
proof -
  have "wp initialize (\<lambda>t. events t = [] \<and> event_index t = 0 \<and> screen t = [] \<and> terminal_buffer t = [] \<and>
      keystroke_buffer t = [] \<and> timeouts t = [] \<and> paused t \<and>
      session t = [(''live'', JBool False), (''feed_type'', JStr ''old'')]) (\<lambda>_. False) (new_reader el fit ww wh now)"
    unfolding initialize_def initialize_terminal_def reset_session_def build_reader_def
    by (simp add: wp_simps screen_def new_reader_def)
  from wp_normal [OF this] show "events (start_reader el fit ww wh now) = []"
    "event_index (start_reader el fit ww wh now) = 0" "screen (start_reader el fit ww wh now) = []"
    "terminal_buffer (start_reader el fit ww wh now) = []"
    "keystroke_buffer (start_reader el fit ww wh now) = []" "timeouts (start_reader el fit ww wh now) = []"
    "paused (start_reader el fit ww wh now)"
    "session (start_reader el fit ww wh now) = [(''live'', JBool False), (''feed_type'', JStr ''old'')]"
    by (auto simp: start_reader_def)
qed

lemma start_synced: "synced (start_reader el fit ww wh now)"
  by (simp add: synced_def start_state)

section \<open>The screen\<close>

text \<open>
  C3. Whatever the sequence of user actions, timers, loads and calls of the page, as long as the
  base64 of the loaded events decodes, the terminal shows exactly the output of the events
  before the current position, in order, nothing is left in the buffers, and the position is
  within the events.
\<close>

theorem screen_in_step:
  assumes "list_all call_decodable calls"
    and "r = run_events reader_handler calls (start_reader el fit ww wh now)"
  shows "screen r = concat (map ev_text (take (event_index r) (events r))) \<and>
    event_index r \<le> length (events r) \<and> terminal_buffer r = [] \<and> keystroke_buffer r = []"
proof -
  have "synced r" using playing.run_inv [OF assms(1) start_synced] assms(2) by blast
  then show ?thesis by (simp add: synced_def texts_def take_map)
qed

text \<open>Two output events and the input between them, as the server logs them.\<close>

definition demo_events :: "jsobj list" where
  "demo_events =
    [[(''type'', JStr ''new-message''), (''direction'', JStr ''incoming''), (''data'', JStr ''JCA=''),
      (''offset'', JNum (Fin 100))],
     [(''type'', JStr ''new-message''), (''direction'', JStr ''outgoing''), (''data'', JStr ''bHM=''),
      (''offset'', JNum (Fin 150))],
     [(''type'', JStr ''new-message''), (''direction'', JStr ''incoming''), (''data'', JStr ''YQpiCg==''),
      (''offset'', JNum (Fin 400))]]"

definition demo_fit :: "jsnum \<Rightarrow> jsnum \<Rightarrow> jsnum \<times> jsnum" where
  "demo_fit w h = (Fin 80, Fin 24)"

definition demo_reader :: tr where
  "demo_reader = start_reader ''terminal_reader'' demo_fit (Fin 1000) (Fin 800) 5000"

text \<open>The demonstration session loaded into a reader.\<close>

definition loaded :: tr where
  "loaded = run_events reader_handler [OnLoad demo_events] demo_reader"

lemma demo_decodable: "list_all decodable demo_events" and demo_texts:
  "map ev_text demo_events = [''$ '', [], [CHR ''a'', CHR 0x0D, CHR 0x0A, CHR ''b'', CHR 0x0D, CHR 0x0A]]"
  by code_simp+

lemma demo_length [simp]: "length demo_events = 3"
  by (simp add: demo_events_def)

lemma loaded_synced: "synced loaded"
  unfolding loaded_def demo_reader_def
  by (rule playing.run_inv [OF _ start_synced]) (simp add: demo_decodable)

lemma loaded_state [simp]: "events loaded = demo_events" "event_index loaded = 0" "paused loaded"
    "timeouts loaded = []" "texts loaded = map ev_text demo_events" "screen loaded = []"
    "session loaded = [(''live'', JBool False), (''feed_type'', JStr ''old'')]"
  by (simp_all add: loaded_def demo_reader_def load_events_def stmt_simps seq_def start_state
      start_state [unfolded screen_def] texts_def screen_def)

lemma loaded_not_refused: "\<not> move_refused (Fin 2) loaded"
  using parse_int_num_int [of 2] by (simp add: move_refused_def less_jsnum_def num_eq_def)

lemma screen_in_step_witness:
  "let r = run_events reader_handler [OnLoad demo_events, OnControl ClickToEnd] demo_reader in
   screen r = [CHR ''$'', CHR '' '', CHR ''a'', CHR 0x0D, CHR 0x0A, CHR ''b'', CHR 0x0D, CHR 0x0A]"
proof -
  let ?calls = "[OnLoad demo_events, OnControl ClickToEnd]"
  let ?r = "run_events reader_handler ?calls demo_reader"
  have "list_all call_decodable ?calls" using demo_decodable by simp
  from screen_in_step [OF this, of ?r "''terminal_reader''" demo_fit "Fin 1000" "Fin 800" 5000]
  have shown: "screen ?r = concat (map ev_text (take (event_index ?r) (events ?r)))"
    by (simp add: demo_reader_def)
  have "snd (load_events demo_events demo_reader) = loaded" by (simp add: loaded_def)
  then have "?r = snd (move_to_event (Fin 2) True loaded)" by (simp add: bind_val_def)
  with wp_normal [OF move_shows [OF loaded_synced loaded_not_refused]]
  have "event_index ?r = 3" "texts ?r = map ev_text demo_events"
    by (auto simp: event_number_def)
  then show ?thesis using shown by (simp add: texts_def demo_texts take_map [symmetric])
qed

text \<open>
  C4. Moving to an event that is accepted, forwards or backwards, never throws; it leaves the
  reader paused just after that event, and the terminal shows the output of the events up to and
  including it.
\<close>

theorem seek_shows_prefix:
  assumes "synced r" "\<not> move_refused e r"
  shows "\<exists>t. move_to_event e True r = (None, t) \<and> event_index t = Suc (event_number e) \<and> paused t \<and>
    screen t = concat (take (Suc (event_number e)) (map ev_text (events r)))"
  using wp_normal [OF move_shows [OF assms]] by (auto simp: synced_def texts_def)

lemma seek_shows_prefix_witness:
  "\<exists>t. move_to_event (Fin 2) True loaded = (None, t) \<and> event_index t = 3 \<and>
     screen t = [CHR ''$'', CHR '' '', CHR ''a'', CHR 0x0D, CHR 0x0A, CHR ''b'', CHR 0x0D, CHR 0x0A]"
  using seek_shows_prefix [OF loaded_synced loaded_not_refused]
  by (auto simp: event_number_def demo_texts)

section \<open>The abstract player\<close>

text \<open>
  What the navigation controls promise, without terminals, buffers and timers: a list of texts
  and how many of them are shown.
\<close>

type_synonym player = "string list \<times> nat"

definition player :: "tr \<Rightarrow> player" where
  "player r = (texts r, event_index r)"

datatype nav = ToStart | ToPrev | ToNext | ToEnd | ToSlider int | ToBox int

definition jump :: "int \<Rightarrow> player \<Rightarrow> player" where
  "jump k p = (let (ts, i) = p in
     if 0 \<le> k \<and> k < int (length ts) \<and> k \<noteq> int i then (ts, Suc (nat k)) else p)"

fun navigate :: "nav \<Rightarrow> player \<Rightarrow> player" where
  "navigate ToStart p = jump 0 p"
| "navigate ToPrev p = jump (max 0 (int (snd p) - 2)) p"
| "navigate ToNext p = (fst p, if snd p < length (fst p) then Suc (snd p) else snd p)"
| "navigate ToEnd p = jump (int (length (fst p)) - 1) p"
| "navigate (ToSlider k) p = jump k p"
| "navigate (ToBox k) p = jump k p"

fun control_of :: "nav \<Rightarrow> control" where
  "control_of ToStart = ClickToStart"
| "control_of ToPrev = ClickPrev"
| "control_of ToNext = ClickNext"
| "control_of ToEnd = ClickToEnd"
| "control_of (ToSlider k) = Slide (num_of_int k)"
| "control_of (ToBox k) = IndexBoxFocusOut (string_of_int k)"

fun small_box :: "nav \<Rightarrow> bool" where
  "small_box (ToBox k) = (\<bar>k\<bar> < 2 ^ 53)"
| "small_box _ = True"

lemma move_refused_int:
  assumes "length (events r) < 10 ^ 21"
  shows "move_refused (num_of_int k) r \<longleftrightarrow>
    \<not> (0 \<le> k \<and> k < int (length (events r)) \<and> k \<noteq> int (event_index r))"
proof (cases "0 \<le> k \<and> k < int (length (events r))")
  case True
  moreover have "int (length (events r)) < 10 ^ 21" using assms by simp
  ultimately have "\<bar>k\<bar> < 10 ^ 21" by linarith
  have "rat_of_int (int (length (events r)) - 1) < rat_of_int k \<longleftrightarrow> int (length (events r)) - 1 < k"
    by (rule of_int_less_iff)
  moreover have "rat_of_int k = rat_of_int (int (event_index r)) \<longleftrightarrow> k = int (event_index r)"
    by (rule of_int_eq_iff)
  ultimately show ?thesis
    using True parse_int_num_int [OF \<open>\<bar>k\<bar> < _\<close>] by (auto simp: move_refused_def less_jsnum_def num_eq_def)
next
  case False
  have "rat_of_int (int (length (events r)) - 1) < rat_of_int k \<longleftrightarrow> int (length (events r)) - 1 < k"
    by (rule of_int_less_iff)
  with False show ?thesis by (auto simp: move_refused_def less_jsnum_def)
qed

lemma player_move:
  assumes "synced r" "length (events r) < 10 ^ 21"
  shows "player (snd (move_to_event (num_of_int k) True r)) = jump k (player r)"
proof (cases "move_refused (num_of_int k) r")
  case True
  then show ?thesis
    using move_refused_int [OF assms(2), of k] by (auto simp: move_refused_skip player_def jump_def texts_def)
next
  case False
  from wp_normal [OF move_shows [OF assms(1) False]] show ?thesis
    using False move_refused_int [OF assms(2), of k]
    by (auto simp: player_def jump_def texts_def event_number_def)
qed

lemma player_next:
  assumes "synced r"
  shows "player (snd (next_event r)) = navigate ToNext (player r)"
proof (cases "event_index r < length (events r)")
  case True
  from wp_normal [OF next_advances [OF assms True]] True show ?thesis
    by (auto simp: player_def texts_def)
next
  case False
  then have "wp next_event (\<lambda>t. player t = player r) (\<lambda>_. False) r"
    by (simp add: next_event_def wp_simps player_def texts_def)
  from wp_normal [OF this] False show ?thesis by (auto simp: player_def texts_def)
qed

text \<open>
  C5. The navigation controls (to start, previous, next, to end, slider, position box) implement
  the abstract player, as long as the reader is in step with its screen: each of them does to
  the texts and to the position what \<open>navigate\<close> says.
\<close>

theorem navigation_refines:
  assumes "synced r" "length (events r) < 10 ^ 21" "small_box n"
  shows "player (snd (control_handler (control_of n) r)) = navigate n (player r)"
proof (cases n)
  case ToStart
  then show ?thesis using player_move [OF assms(1,2), of 0] by simp
next
  case ToPrev
  have "math_max (Fin 0) (num_of_int (int (event_index r) - 2)) = num_of_int (max 0 (int (event_index r) - 2))"
    by (auto simp: math_max_def less_jsnum_def max_def)
  then show ?thesis
    using ToPrev player_move [OF assms(1,2)] by (simp add: prev_def bind_val_def player_def texts_def)
next
  case ToNext
  then show ?thesis using player_next [OF assms(1)] by simp
next
  case ToEnd
  then show ?thesis using player_move [OF assms(1,2), of "int (length (events r)) - 1"] by (simp add: bind_val_def player_def texts_def)
next
  case (ToSlider k)
  have "rat_of_nat (event_index r) = rat_of_int k \<longleftrightarrow> int (event_index r) = k"
    by (metis of_int_eq_iff of_int_of_nat_eq)
  then show ?thesis
    using ToSlider player_move [OF assms(1,2), of k]
    by (auto simp: guard_def ite_def skip_def num_eq_def jump_def player_def)
next
  case (ToBox k)
  then show ?thesis
    using assms(3) player_move [OF assms(1,2), of k] parse_int_string_of_int [of k] by simp
qed

lemma navigation_refines_witness:
  "player (snd (control_handler (Slide (Fin 1)) loaded)) = (map ev_text demo_events, 2)"
  using navigation_refines [of loaded "ToSlider 1"] loaded_synced
  by (simp add: player_def jump_def)

section \<open>Seeking and the keystrokes pane\<close>

text \<open>The typed text in the pane, without the line breaks between commands.\<close>

fun pane_text :: "pane_item list \<Rightarrow> string" where
  "pane_text [] = []"
| "pane_text (PText s # items) = s @ pane_text items"
| "pane_text (PBreak # items) = pane_text items"

lemma pane_text_append [simp]: "pane_text (xs @ ys) = pane_text xs @ pane_text ys"
  by (induction xs rule: pane_text.induct) simp_all

lemma process_keystrokes_Nil [simp]: "process_keystrokes [] = []"
  by code_simp

lemma ev_view_keys: "map ev_view es = map ev_view fs \<Longrightarrow> map ev_keys es = map ev_keys fs"
proof -
  have "map ev_keys gs = map (\<lambda>v. fst (snd v)) (map ev_view gs)" for gs
    by (simp add: ev_view_def)
  then show "map ev_view es = map ev_view fs \<Longrightarrow> map ev_keys es = map ev_keys fs" by (simp only:)
qed

lemma replay_keys:
  assumes "list_all decodable (events r)" "a \<le> n" "n \<le> length (events r)"
    "map ev_view (events s) = map ev_view (events r)" "keystroke_buffer s = []"
    and Q: "\<And>t. play_view t = play_view s \<Longrightarrow>
      keystroke_buffer t = concat (map ((!) (map ev_keys (events r))) [a..<n]) \<Longrightarrow> Q t"
  shows "wp (for_each [a..<n] action_event) Q (\<lambda>_. False) s"
proof -
  let ?I = "\<lambda>j t. play_view t = play_view s \<and>
    keystroke_buffer t = concat (map ((!) (map ev_keys (events r))) [a..<a + j])"
  have "wp (for_each [a..<n] action_event) (?I (length [a..<n])) (\<lambda>_. False) s"
  proof (rule wp_for_each)
    show "?I 0 s" using assms(5) by simp
    fix j t assume j: "j < length [a..<n]" and t: "?I j t"
    have ev: "map ev_view (events t) = map ev_view (events r)"
      using t assms(4) by (simp add: play_view_def)
    have len: "length (events t) = length (events r)" by (rule map_eq_imp_length_eq [OF ev])
    have "[a..<n] ! j = a + j" "a + j < length (events r)" using j assms(2,3) by simp_all
    moreover have "decodable (events t ! (a + j))"
      using ev_view_decodable [OF ev] assms(1) \<open>a + j < _\<close> len by (simp add: list_all_length)
    moreover have "ev_keys (events t ! (a + j)) = map ev_keys (events r) ! (a + j)"
      using ev_view_keys [OF ev] \<open>a + j < _\<close> len by (metis nth_map)
    ultimately show "wp (action_event ([a..<n] ! j)) (?I (Suc j)) (\<lambda>_. False) t"
      using t by (simp only:) (rule action_event_wp, simp_all)
  qed
  then show ?thesis by (rule wp_mono) (use Q assms(2) in simp_all)
qed

lemma write_scroll_keys:
  "wp (write_buffers (Some ScrollCallback) True)
     (\<lambda>t. pane_text (keystrokes t) = pane_text (keystrokes r) @ process_keystrokes (keystroke_buffer r)) (\<lambda>_. False) r"
  by (simp add: write_buffers_def write_keystroke_buffer_def write_terminal_buffer_def Let_def wp_simps set_timeout_def)

text \<open>
  Seeking empties the pane of typed keys in both directions, but replays the typed keys from
  the start only when it goes backwards: after a forward seek the pane shows what was typed
  between the old and the new position, while the terminal shows the output from the start.
\<close>

theorem seek_keystrokes:
  assumes "synced r" "\<not> move_refused e r"
    and "a = (if num_of_nat (event_index r) < e then event_index r else 0)"
  shows "\<exists>t. move_to_event e True r = (None, t) \<and>
    pane_text (keystrokes t) =
      process_keystrokes (concat (map ev_keys (drop a (take (Suc (event_number e)) (events r)))))"
proof -
  have n: "event_number e < length (events r)"
    "num_of_nat (event_index r) < e \<Longrightarrow> event_index r \<le> event_number e"
    using move_accepted [OF assms(2), of "event_index r"] by metis+
  define fwd where "fwd = (num_of_nat (event_index r) < e)"
  define s where "s = (if fwd then snd (pause r)
     else (snd (pause r))\<lparr>terminal := terminal (snd (pause r)) @ [TReset]\<rparr>)\<lparr>keystrokes := []\<rparr>"
  let ?n = "Suc (event_number e)"
  let ?Q = "\<lambda>t. pane_text (keystrokes t) = process_keystrokes (concat (map ((!) (map ev_keys (events r))) [a..<?n]))"
  have an: "a \<le> ?n" "?n \<le> length (events r)" using n assms(3) by auto
  have dec: "list_all decodable (events r)" using assms(1) by (simp add: synced_def)
  have s: "map ev_view (events s) = map ev_view (events r)" "keystroke_buffer s = []" "keystrokes s = []"
    using assms(1) by (auto simp: s_def synced_def)
  have "wp (for_each [a..<?n] action_event) (wp (write_buffers (Some ScrollCallback) True)
      (\<lambda>t. ?Q (snd (refresh_statusbar (t\<lparr>event_index := ?n\<rparr>)))) (\<lambda>_. False)) (\<lambda>_. False) s"
    by (rule replay_keys [OF dec an s(1,2)], rule wp_mono [OF write_scroll_keys])
       (use s(3) in \<open>simp_all add: play_view_def\<close>)
  then have "wp (move_to_event e True) ?Q (\<lambda>_. False) r"
    using assms(2,3) unfolding move_to_event_def Let_def wp_simps
    by (simp add: wp_simps fwd_def s_def split: if_splits)
  moreover have "map ((!) (map ev_keys (events r))) [a..<?n] = map ev_keys (drop a (take ?n (events r)))"
    using map_nth_slice [OF an(1), of "map ev_keys (events r)"] an(2) by (simp only: length_map drop_map take_map)
  ultimately show ?thesis by (auto dest!: wp_normal)
qed

lemma demo_keys: "map ev_keys demo_events = [[], ''ls'', []]"
  by code_simp

text \<open>From the second event on, a forward seek no longer shows what was typed before it.\<close>

lemma seek_keystrokes_witness:
  "\<exists>t. move_to_event (Fin 2) True loaded = (None, t) \<and> pane_text (keystrokes t) = ''ls''"
proof -
  have "process_keystrokes ''ls'' = ''ls''" by code_simp
  then show ?thesis
    using seek_keystrokes [OF loaded_synced loaded_not_refused, of 0] demo_keys
    by (simp add: event_number_def less_jsnum_def)
qed

section \<open>Corners of seeking\<close>

text \<open>
  When one event is left, the button that goes to the end does nothing: the last event is
  compared with the position, which already is its number, and the move is refused.
\<close>

theorem to_end_refused:
  assumes "Suc (event_index r) = length (events r)" "length (events r) < 10 ^ 21"
  shows "control_handler ClickToEnd r = (None, r)"
proof -
  have "move_refused (num_of_int (int (length (events r)) - 1)) r"
    using move_refused_int [OF assms(2), of "int (length (events r)) - 1"] assms(1) by simp
  then show ?thesis by (simp add: bind_val_def move_refused_skip)
qed

lemma to_end_refused_witness:
  "control_handler ClickToEnd (loaded\<lparr>event_index := 2\<rparr>) = (None, loaded\<lparr>event_index := 2\<rparr>)"
  by (rule to_end_refused) simp_all

text \<open>
  An event that starts a session or resizes the window acts once: performing it removes its
  type from the list of events, and performing it again (after seeking back) changes nothing,
  neither the size of the terminal nor the session.
\<close>

theorem resize_acts_once:
  assumes "i < length (events r)" "type_is ''window-resize'' (events r ! i) \<or> type_is ''session-start'' (events r ! i)"
    and "action_event i r = (x, t)"
  shows "get_prop (events t ! i) ''type'' = JUndef \<and> action_event i t = (None, t)"
proof -
  let ?P = "\<lambda>t. events t ! i = delete_prop ''type'' (events r ! i)"
  have "wp (action_event i) ?P ?P r"
    using assms(1,2) type_is_strings [of "events r ! i"] unfolding unfold_event
    by (auto simp: wp_simps delete_type_def)
  then have "?P t" using assms(3) by (simp add: wp_same)
  then show ?thesis by (simp add: action_event_def stmt_simps event_is_def)
qed

lemma resize_acts_once_witness:
  "let r = demo_reader\<lparr>events := [[(''type'', JStr ''window-resize''), (''term_rows'', JNum (Fin 50))]]\<rparr>
   in get_prop (events (snd (action_event 0 r)) ! 0) ''type'' = JUndef"
  using resize_acts_once [of 0 "demo_reader\<lparr>events := [[(''type'', JStr ''window-resize''), (''term_rows'', JNum (Fin 50))]]\<rparr>"]
  by (simp add: type_is_def prod_eq_iff)

section \<open>Output\<close>

text \<open>
  C23. What the server encodes reaches the terminal's buffer: performing an output event whose
  data is the base64 of a text appends that text, its line ends normalised, and changes nothing
  else.
\<close>

theorem output_round_trip:
  assumes "get_prop (events r ! i) ''type'' = JStr ''new-message''"
    and "get_prop (events r ! i) ''direction'' = JStr ''incoming''"
    and "get_prop (events r ! i) ''data'' = JStr (b64_encode s)"
  shows "action_event i r = (None, r\<lparr>terminal_buffer := terminal_buffer r @ normalize_output s\<rparr>)"
  using assms
  by (simp add: action_event_def ite_def event_is_def bind_exp_def atob_prop_def atob_b64_encode_eq upd_def)

lemma output_round_trip_witness:
  "terminal_buffer (snd (action_event 2 loaded)) = [CHR ''a'', CHR 0x0D, CHR 0x0A, CHR ''b'', CHR 0x0D, CHR 0x0A]"
proof -
  have e: "get_prop (demo_events ! 2) ''type'' = JStr ''new-message''"
    "get_prop (demo_events ! 2) ''direction'' = JStr ''incoming''"
    "get_prop (demo_events ! 2) ''data'' = JStr (b64_encode [CHR ''a'', CHR 0x0A, CHR ''b'', CHR 0x0A])"
    by code_simp+
  have "normalize_output [CHR ''a'', CHR 0x0A, CHR ''b'', CHR 0x0A]
      = [CHR ''a'', CHR 0x0D, CHR 0x0A, CHR ''b'', CHR 0x0D, CHR 0x0A]"
    by code_simp
  moreover have "terminal_buffer loaded = []" using loaded_synced by (simp add: synced_def)
  ultimately show ?thesis
    using output_round_trip [of loaded 2 "[CHR ''a'', CHR 0x0A, CHR ''b'', CHR 0x0A]"] e by simp
qed

end
