(* ===== verification/Reader_Timing.thy ===== *)
theory Reader_Timing
  imports Reader_Props
begin

text \<open>
  The timers of the reader: which timeouts are pending, how long they wait, that a replay comes
  to its end, and which messages are acknowledged.
\<close>

section \<open>Timeouts\<close>

text \<open>Writing the buffers does to everything but the display what the callback does.\<close>

lemma write_buffers_wp:
  assumes run: "\<And>ks kb. wp (run_callback cb) Q E (r\<lparr>keystrokes := ks, keystroke_buffer := kb\<rparr>)"
    and indep: "\<And>t x. Q t \<Longrightarrow> Q (t\<lparr>terminal := x\<rparr>)" "\<And>t x. Q t \<Longrightarrow> Q (t\<lparr>terminal_buffer := x\<rparr>)"
      "\<And>t x. Q t \<Longrightarrow> Q (t\<lparr>keystroke_buffer := x\<rparr>)"
  shows "wp (write_buffers (Some cb) True) Q E r"
proof -
  have run': "wp (run_callback cb) Q' E (r\<lparr>keystrokes := ks, keystroke_buffer := kb\<rparr>)"
    if "\<And>t. Q t \<Longrightarrow> Q' t" for Q' ks kb
    by (rule wp_mono [OF run]) (use that in auto)
  have same: "r = r\<lparr>keystrokes := keystrokes r, keystroke_buffer := keystroke_buffer r\<rparr>"
    "r\<lparr>keystrokes := ks\<rparr> = r\<lparr>keystrokes := ks, keystroke_buffer := keystroke_buffer r\<rparr>" for ks
    by simp_all
  have plain_run: "wp (run_callback cb) Q' E r" if "\<And>t. Q t \<Longrightarrow> Q' t" for Q'
    by (subst same(1)) (rule run' [OF that])
  have keys_run: "wp (run_callback cb) Q' E (r\<lparr>keystrokes := ks\<rparr>)" if "\<And>t. Q t \<Longrightarrow> Q' t" for Q' ks
    by (subst same(2)) (rule run' [OF that])
  show ?thesis
    unfolding write_buffers_def write_keystroke_buffer_def write_terminal_buffer_def Let_def option.case wp_simps
    by (auto simp: wp_simps intro!: run' plain_run keys_run indep)
qed

text \<open>What playing an event does to the timeouts and to the session.\<close>

definition quiet :: "jsobj \<Rightarrow> bool" where
  "quiet ev \<longleftrightarrow> ''live'' \<notin> fst ` set ev"

definition recorded :: "tr \<Rightarrow> bool" where
  "recorded r \<longleftrightarrow> eq_false (is_live r) \<and> distinct (map fst (session r)) \<and> list_all quiet (events r)"

lemma delete_prop_keys: "fst ` set (delete_prop k ev) \<subseteq> fst ` set ev"
  by (auto simp: delete_prop_def AList.delete_eq)

lemma set_prop_distinct: "distinct (map fst obj) \<Longrightarrow> distinct (map fst (set_prop k v obj))"
  by (simp add: set_prop_def distinct_update)

lemma object_assign_distinct: "distinct (map fst tgt) \<Longrightarrow> distinct (map fst (object_assign tgt src))"
  unfolding object_assign_def
  by (induction src arbitrary: tgt) (auto simp: set_prop_distinct)

text \<open>Copying a session and an event that does not mention \<open>live\<close>.\<close>

lemma merged_live:
  assumes "distinct (map fst obj)" "quiet ev"
  shows "get_prop (object_assign (object_assign [] obj) ev) ''live'' = get_prop obj ''live''"
proof -
  have "get_prop obj ''live'' = JUndef" if "''live'' \<notin> fst ` set obj"
    using that by (simp add: get_prop_def map_of_eq_None_iff [THEN iffD2])
  with assms show ?thesis
    by (simp add: prop_object_assign_absent prop_object_assign quiet_def)
qed

lemma recorded_delete_type:
  assumes "recorded r" "i < length (events r)"
  shows "recorded (delete_type i r)" "quiet (events (delete_type i r) ! i)"
proof -
  have "quiet (delete_prop ''type'' (events r ! i))"
    using assms delete_prop_keys [of "''type''" "events r ! i"] by (auto simp: recorded_def quiet_def list_all_length)
  then show "recorded (delete_type i r)" "quiet (events (delete_type i r) ! i)"
    using assms by (auto simp: recorded_def delete_type_def is_live_def list_all_length nth_list_update)
qed

lemma recorded_session:
  "recorded r \<Longrightarrow> quiet ev \<Longrightarrow>
    recorded (r\<lparr>session := object_assign (object_assign [] (session r)) ev\<rparr>)"
  "recorded r \<Longrightarrow> recorded (r\<lparr>session := set_prop ''terminal_type'' v (session r)\<rparr>)"
  by (simp_all add: recorded_def is_live_def merged_live object_assign_distinct set_prop_distinct)

lemma recorded_cong: "session s = session r \<Longrightarrow> events s = events r \<Longrightarrow> recorded s = recorded r"
  by (simp add: recorded_def is_live_def)

lemma recorded_buffers [simp]:
  "recorded (r\<lparr>terminal_buffer := b\<rparr>) = recorded r" "recorded (r\<lparr>keystroke_buffer := b\<rparr>) = recorded r"
  "recorded (r\<lparr>terminal := ops\<rparr>) = recorded r" "recorded (r\<lparr>cur_event := ce\<rparr>) = recorded r"
  "recorded (r\<lparr>keystrokes := ks\<rparr>) = recorded r" "recorded (r\<lparr>event_index := n\<rparr>) = recorded r"
  "recorded (snd (resize rws cls r)) = recorded r" "recorded (snd (refresh_statusbar r)) = recorded r"
  "recorded (snd (pause r)) = recorded r"
  by (rule recorded_cong; simp)+

lemma action_recorded:
  assumes "recorded r" "i < length (events r)"
  shows "recorded (snd (action_event i r))"
proof -
  note del = recorded_delete_type [OF assms]
  have "recorded ((delete_type i r)\<lparr>session := object_assign (object_assign [] (session (delete_type i r)))
      (events (delete_type i r) ! i)\<rparr>)"
    by (rule recorded_session(1) [OF del])
  then have "wp (action_event i) recorded recorded r"
    unfolding unfold_event using assms recorded_session(2) [OF assms(1)]
    by (simp add: wp_simps split: sum.splits)
  then show ?thesis by (simp add: wp_same)
qed

section \<open>Playing an event starts one timeout\<close>

definition one_more :: "pending list \<Rightarrow> tr \<Rightarrow> bool" where
  "one_more ts t \<longleftrightarrow> (\<exists>p. timeouts t = ts @ [p] \<and> job_of p = ProcessNext)"

lemma one_more_fields [simp]:
  "one_more ts (t\<lparr>terminal := x\<rparr>) = one_more ts t" "one_more ts (t\<lparr>terminal_buffer := b\<rparr>) = one_more ts t"
  "one_more ts (t\<lparr>keystroke_buffer := b\<rparr>) = one_more ts t" "one_more ts (t\<lparr>event_index := n\<rparr>) = one_more ts t"
  "one_more ts (snd (refresh_statusbar t)) = one_more ts t"
  by (simp_all add: one_more_def)

lemma process_timer_adds:
  "one_more (timeouts r) (snd (start_process_timer d r))"
  "recorded (snd (start_process_timer d r)) = recorded r"
proof -
  have "wp (start_process_timer d) (\<lambda>t. one_more (timeouts r) t \<and> session t = session r \<and> events t = events r)
      (\<lambda>_. False) r"
    by (simp add: start_process_timer_def set_timeout_def one_more_def wp_def block.simps seq_def upd_def skip_def)
  from wp_normal [OF this] show "one_more (timeouts r) (snd (start_process_timer d r))"
    "recorded (snd (start_process_timer d r)) = recorded r"
    by (auto simp: recorded_def is_live_def)
qed

lemma start_timer_adds:
  assumes "cur_event r \<noteq> None"
  shows "wp (start_timer_for_next_event d) (\<lambda>t. one_more (timeouts r) t \<and> recorded t = recorded r) (\<lambda>_. False) r"
  using assms process_timer_adds(1) [where r = "r\<lparr>timeout_delay_speed := speed r\<rparr>"]
    recorded_cong [of "r\<lparr>timeout_delay_speed := speed r\<rparr>" r] process_timer_adds(1) [where r = r]
    process_timer_adds(2)
  by (auto simp: start_timer_for_next_event_def wp_simps simp del: block.simps split: option.splits)

lemma internal_adds:
  assumes "cur_event r \<noteq> None"
  shows "wp (run_callback (InternalCallback NoCallback)) (\<lambda>t. one_more (timeouts r) t \<and> recorded t = recorded r)
    (\<lambda>_. False) r"
  unfolding run_callback.simps wp_simps
  by (rule wp_mono [OF start_timer_adds [OF assms]]) (simp_all add: wp_simps)

lemma process_adds_timer:
  assumes "list_all decodable (events r)" "\<not> paused r" "event_index r < length (events r)" "recorded r"
  shows "wp (process_next_event None) (\<lambda>t. one_more (timeouts r) t \<and> recorded t) (\<lambda>_. False) r"
proof -
  let ?s = "r\<lparr>cur_event := Some (events r ! event_index r)\<rparr>"
  let ?Q = "\<lambda>t. one_more (timeouts r) t \<and> recorded t"
  have written: "wp (write_buffers (Some (InternalCallback NoCallback)) True) ?Q (\<lambda>_. False) t"
    if t: "timeouts t = timeouts r" "recorded t" "cur_event t \<noteq> None" for t
  proof (rule write_buffers_wp)
    fix ks kb
    let ?t = "t\<lparr>keystrokes := ks, keystroke_buffer := kb\<rparr>"
    have "wp (run_callback (InternalCallback NoCallback)) (\<lambda>u. one_more (timeouts ?t) u \<and> recorded u = recorded ?t)
        (\<lambda>_. False) ?t" by (rule internal_adds) (use t in simp)
    then show "wp (run_callback (InternalCallback NoCallback)) ?Q (\<lambda>_. False) ?t"
      by (rule wp_mono) (use t in simp_all)
  qed simp_all
  have "wp (action_event (event_index r)) (\<lambda>t. play_view t = play_view ?s) (\<lambda>_. False) ?s"
    by (rule action_event_wp) (use assms in \<open>simp_all add: list_all_length\<close>)
  from wp_normal [OF this] obtain t
    where t: "action_event (event_index r) ?s = (None, t)" "play_view t = play_view ?s" by blast
  have "recorded t" using action_recorded [of ?s "event_index r"] t assms(3,4) by simp
  then have "wp (action_event (event_index r)) (wp (ite (\<lambda>r. \<not> paused r)
      (write_buffers (Some (InternalCallback NoCallback)) True) (block [run_callback NoCallback, clear_buffers]))
      (\<lambda>t. ?Q (snd (refresh_statusbar t))) (\<lambda>_. False)) (\<lambda>_. False) ?s"
    using t written [of t] assms(2) by (simp add: wp_def [of "action_event (event_index r)"] wp_ite play_view_def)
  then show ?thesis
    using assms(2,3) unfolding process_next_event_def Let_def wp_simps option.case by simp
qed

section \<open>A replay comes to its end\<close>

text \<open>Playing a recorded session with one pending timeout, the next event's.\<close>

definition ready :: "tr \<Rightarrow> bool" where
  "ready r \<longleftrightarrow> synced r \<and> \<not> paused r \<and> recorded r \<and> one_more [] r"

definition fired :: "pending \<Rightarrow> tr \<Rightarrow> tr" where
  "fired p r = (remove_timer (timer_id p) r)\<lparr>clock := max (clock r) (due p)\<rparr>"

lemma fired_fields [simp]:
  "events (fired p r) = events r" "event_index (fired p r) = event_index r" "paused (fired p r) = paused r"
  "texts (fired p r) = texts r" "synced (fired p r) = synced r" "recorded (fired p r) = recorded r"
  "is_live (fired p r) = is_live r" "acks (fired p r) = acks r"
proof -
  show "synced (fired p r) = synced r"
    by (rule synced_pos) (simp add: pos_view_def fired_def remove_timer_def screen_def)
  show "recorded (fired p r) = recorded r"
    by (rule recorded_cong) (simp_all add: fired_def remove_timer_def)
qed (simp_all add: fired_def remove_timer_def texts_def is_live_def)

lemma fire_single:
  assumes "timeouts r = [p]" "job_of p = ProcessNext"
  shows "fire_first r = process_next_event None (fired p r)" "timeouts (fired p r) = []"
  using assms
  by (simp_all add: fire_first_def bind_val_def first_timer_def seq_upd fired_def remove_timer_def)

lemma fire_ready:
  assumes "ready r" "event_index r < length (events r)"
  shows "\<exists>t. fire_first r = (None, t) \<and> ready t \<and> event_index t = Suc (event_index r) \<and> texts t = texts r"
proof -
  from assms(1) obtain p where p: "timeouts r = [p]" "job_of p = ProcessNext"
    by (auto simp: ready_def one_more_def)
  have a: "synced (fired p r)" "\<not> paused (fired p r)" "event_index (fired p r) < length (events (fired p r))"
    "list_all decodable (events (fired p r))" "recorded (fired p r)"
    using assms by (simp_all add: ready_def) (simp add: synced_def)
  from wp_normal_both [OF process_playing [OF a(1-3) plain_NoCallback] process_adds_timer [OF a(4,2,3,5)]]
  obtain t where "process_next_event None (fired p r) = (None, t)" "synced t" "\<not> paused t"
    "event_index t = Suc (event_index r)" "texts t = texts r" "one_more [] t" "recorded t"
    by (auto simp: fire_single(2) [OF p])
  then show ?thesis by (auto simp: fire_single(1) [OF p] ready_def)
qed

lemma fire_end:
  assumes "ready r" "event_index r = length (events r)"
  shows "\<exists>t. fire_first r = (None, t) \<and> synced t \<and> paused t \<and> event_index t = event_index r \<and>
    texts t = texts r \<and> timeouts t = []"
proof -
  from assms(1) obtain p where p: "timeouts r = [p]" "job_of p = ProcessNext"
    by (auto simp: ready_def one_more_def)
  have r: "synced (fired p r)" "eq_false (is_live r)" "\<not> paused r"
    using assms(1) by (simp_all add: ready_def recorded_def)
  have "wp (process_next_event None) (\<lambda>t. synced t \<and> paused t \<and> event_index t = event_index r \<and>
      texts t = texts r \<and> timeouts t = []) (\<lambda>_. False) (fired p r)"
    using r assms(2) fire_single(2) [OF p] synced_keeps [OF keeps_core_show [OF pause_core] r(1)]
    unfolding process_next_event_def Let_def wp_simps option.case
    by (simp add: synced_refresh) (simp add: texts_def fired_def remove_timer_def)
  from wp_normal [OF this] show ?thesis by (simp add: fire_single(1) [OF p])
qed

lemma fire_all:
  "ready r \<Longrightarrow> event_index r + n = length (events r) \<Longrightarrow>
    ready (run_events reader_handler (replicate n OnTimer) r) \<and>
    texts (run_events reader_handler (replicate n OnTimer) r) = texts r \<and>
    event_index (run_events reader_handler (replicate n OnTimer) r) = length (events r)"
proof (induction n arbitrary: r)
  case (Suc n)
  from fire_ready [OF Suc.prems(1)] Suc.prems(2) obtain t
    where t: "fire_first r = (None, t)" "ready t" "event_index t = Suc (event_index r)" "texts t = texts r"
    by auto
  have "length (events t) = length (events r)"
    using t(4) by (simp add: texts_def) (metis length_map)
  with Suc.IH [OF t(2)] t Suc.prems show ?case by simp
qed simp

text \<open>
  C17. A recorded session that is playing with one pending timeout comes to its end: one timer
  after another plays the remaining events, one each, and one more timer pauses the reader, with
  the whole output on the terminal and no timeout left.
\<close>

theorem replay_completes:
  assumes "synced r" "\<not> paused r" "recorded r" "timeouts r = [p]" "job_of p = ProcessNext"
    and "n = Suc (length (events r) - event_index r)"
    and "t = run_events reader_handler (replicate n OnTimer) r"
  shows "paused t \<and> timeouts t = [] \<and> event_index t = length (events r) \<and>
    screen t = concat (map ev_text (events r))"
proof -
  let ?m = "length (events r) - event_index r"
  let ?u = "run_events reader_handler (replicate ?m OnTimer) r"
  have "ready r" using assms(1-5) by (simp add: ready_def one_more_def)
  from fire_all [OF this, of ?m] assms(1) have u: "ready ?u" "texts ?u = texts r" "event_index ?u = length (events r)"
    by (simp_all add: synced_def)
  have len: "length (events ?u) = length (events r)"
    using u(2) by (metis length_map texts_def)
  from fire_end [OF u(1)] u(3) len obtain v where v: "fire_first ?u = (None, v)" "synced v" "paused v"
    "event_index v = length (events r)" "texts v = texts r" "timeouts v = []"
    using u(2) by auto
  have "replicate n OnTimer = replicate ?m OnTimer @ [OnTimer]"
    using assms(6) by (simp add: replicate_append_same)
  then have "t = v" using assms(7) v(1) by (simp add: run_events_append)
  then show ?thesis using v by (simp add: synced_def texts_def)
qed

text \<open>The demonstration session, playing.\<close>

definition demo_timer :: pending where
  "demo_timer = \<lparr>timer_id = 1, due = 5000, job_of = ProcessNext\<rparr>"

definition demo_playing :: tr where
  "demo_playing = loaded\<lparr>paused := False, timeouts := [demo_timer], next_timer := 2\<rparr>"

lemma demo_playing_state: "synced demo_playing" "recorded demo_playing" "\<not> paused demo_playing"
    "events demo_playing = demo_events" "event_index demo_playing = 0" "timeouts demo_playing = [demo_timer]"
    "screen demo_playing = []"
proof -
  show "synced demo_playing"
    using loaded_synced synced_cong [of demo_playing loaded] by (simp add: demo_playing_def screen_def)
  have "list_all quiet demo_events" by code_simp
  then show "recorded demo_playing" by (simp add: recorded_def demo_playing_def is_live_def)
qed (use loaded_state(6) in \<open>simp_all add: demo_playing_def screen_def\<close>)

lemma replay_completes_witness:
  "screen (run_events reader_handler (replicate 4 OnTimer) demo_playing) =
     [CHR ''$'', CHR '' '', CHR ''a'', CHR 0x0D, CHR 0x0A, CHR ''b'', CHR 0x0D, CHR 0x0A]"
  using replay_completes [OF demo_playing_state(1,3,2,6) _ refl refl] demo_texts
  by (simp add: demo_playing_state demo_timer_def)

section \<open>Timeouts that are never cancelled\<close>

lemma wp_outcome: "wp m Q E s \<Longrightarrow> m s = (None, t) \<Longrightarrow> Q t"
  by (simp add: wp_def)

text \<open>Without a current event, a negative delay is an access to a property of \<open>undefined\<close>.\<close>

lemma start_timer_one_more:
  "wp (start_timer_for_next_event d) (one_more (timeouts r)) (\<lambda>_. cur_event r = None) r"
proof (cases "cur_event r")
  case None
  then show ?thesis
    using process_timer_adds(1) [where r = r]
    by (auto simp: start_timer_for_next_event_def wp_simps simp del: block.simps)
next
  case (Some ev)
  then show ?thesis using wp_mono [OF start_timer_adds [of r d]] by auto
qed

lemma play_one_more: "wp play (one_more (timeouts r)) (\<lambda>_. cur_event r = None) r"
proof -
  have add: "wp (start_timer_for_next_event d) Q (\<lambda>_. cur_event r = None) s"
    if "timeouts s = timeouts r" "cur_event s = cur_event r" "\<And>t. one_more (timeouts r) t \<Longrightarrow> Q t"
    for d s and Q :: "tr \<Rightarrow> bool"
    using wp_mono [OF start_timer_one_more [of d s]] that by auto
  show ?thesis
    unfolding play_def show_pause_def resume_with_new_delay_def wp_simps
    by (rule add) (simp_all add: wp_simps, simp_all add: one_more_def)
qed

lemma change_speed_one_more:
  "\<not> paused r \<Longrightarrow> wp (change_speed_to_new_val v) (one_more (timeouts r)) (\<lambda>_. cur_event r = None) r"
  using play_one_more [of "snd (update_speed (JNum v) (snd (pause r)))"]
  by (simp add: change_speed_to_new_val_def wp_simps)

lemma speed_click_one_more:
  assumes "\<not> paused r" "c = ClickSlower \<or> c = ClickFaster"
  shows "wp (control_handler c) (one_more (timeouts r)) (\<lambda>_. cur_event r = None) r"
  using assms change_speed_one_more [of r] change_speed_one_more [of "r\<lparr>speed := v\<rparr>" for v]
  by (auto simp: increase_speed_def decrease_speed_def wp_simps)

text \<open>
  C24. Changing the speed while a session plays adds a timeout and cancels none: every click on
  the buttons for the speed leaves all the timeouts that were pending and one more, each of which
  will play an event. (The call that would cancel the older one is commented out in
  \<open>reset_timeout\<close>.)
\<close>

theorem speed_clicks_pile_up:
  assumes "\<not> paused r" "c = ClickSlower \<or> c = ClickFaster" "control_handler c r = (None, t)"
  shows "\<exists>p. timeouts t = timeouts r @ [p] \<and> job_of p = ProcessNext"
  using wp_outcome [OF speed_click_one_more [OF assms(1,2)] assms(3)] by (simp add: one_more_def)

lemma speed_clicks_pile_up_witness:
  "\<exists>t p. control_handler ClickFaster (demo_playing\<lparr>cur_event := Some []\<rparr>) = (None, t) \<and>
     timeouts t = [demo_timer, p] \<and> job_of p = ProcessNext"
proof -
  let ?r = "demo_playing\<lparr>cur_event := Some []\<rparr>"
  have "wp (control_handler ClickFaster) (\<lambda>_. True) (\<lambda>_. False) ?r"
    by (rule wp_mono [OF speed_click_one_more]) (simp_all add: demo_playing_state)
  from wp_normal [OF this] obtain t where "control_handler ClickFaster ?r = (None, t)" by auto
  with speed_clicks_pile_up [OF _ _ this] show ?thesis by (simp add: demo_playing_state)
qed

text \<open>The timeout that fires first is one of the pending ones.\<close>

lemma first_timer_pending: "first_timer r = Some p \<Longrightarrow> p \<in> set (timeouts r)"
proof -
  have "fold (\<lambda>s best. earlier best s) ts t \<in> set (t # ts)" for t ts
    by (induction ts arbitrary: t) (auto simp: earlier_def split: if_splits)
  then show "first_timer r = Some p \<Longrightarrow> p \<in> set (timeouts r)"
    by (auto simp: first_timer_def split: list.splits)
qed

definition next_timers :: "tr \<Rightarrow> nat" where
  "next_timers r = length (filter (\<lambda>p. job_of p = ProcessNext) (timeouts r))"

lemma remove_one:
  "distinct (map timer_id ts) \<Longrightarrow> p \<in> set ts \<Longrightarrow> job_of p = ProcessNext \<Longrightarrow>
    Suc (length (filter (\<lambda>q. job_of q = ProcessNext) (filter (\<lambda>q. timer_id q \<noteq> timer_id p) ts))) =
    length (filter (\<lambda>q. job_of q = ProcessNext) ts)"
proof (induction ts)
  case (Cons q ts)
  show ?case
  proof (cases "q = p")
    case True
    have "filter (\<lambda>q. timer_id q \<noteq> timer_id p) ts = ts"
      using Cons.prems(1) True by (auto simp: filter_id_conv image_iff)
    then show ?thesis using True Cons.prems(3) by simp
  next
    case False
    then have "timer_id q \<noteq> timer_id p" using Cons.prems(1,2) by (auto simp: image_iff)
    then show ?thesis using Cons False by auto
  qed
qed simp

text \<open>
  The timeouts that pile up stay: while a session plays and events are left, firing one
  shows the next event and starts a new one, so that the number of pending timeouts does not
  change. A session played with two of them runs at twice the speed until its end.
\<close>

theorem piled_up_timeouts_stay:
  assumes "synced r" "\<not> paused r" "recorded r" "event_index r < length (events r)"
    and "distinct (map timer_id (timeouts r))" "first_timer r = Some p" "job_of p = ProcessNext"
  shows "\<exists>t. fire_first r = (None, t) \<and> next_timers t = next_timers r \<and> event_index t = Suc (event_index r)"
proof -
  have a: "synced (fired p r)" "\<not> paused (fired p r)" "event_index (fired p r) < length (events (fired p r))"
    "list_all decodable (events (fired p r))" "recorded (fired p r)"
    using assms by simp_all (simp add: synced_def)
  from wp_normal_both [OF process_playing [OF a(1-3) plain_NoCallback] process_adds_timer [OF a(4,2,3,5)]]
  obtain t where t: "process_next_event None (fired p r) = (None, t)" "event_index t = Suc (event_index r)"
    "one_more (timeouts (fired p r)) t" by auto
  have "fire_first r = (None, t)"
    using assms(6,7) t(1) by (simp add: fire_first_def bind_val_def seq_upd fired_def remove_timer_def)
  moreover have "next_timers t = next_timers r"
    using t(3) remove_one [OF assms(5) first_timer_pending [OF assms(6)] assms(7)]
    by (auto simp: one_more_def next_timers_def fired_def remove_timer_def)
  ultimately show ?thesis using t(2) by simp
qed

lemma piled_up_timeouts_stay_witness:
  "\<exists>t. fire_first (demo_playing\<lparr>timeouts := [demo_timer, demo_timer\<lparr>timer_id := 2\<rparr>]\<rparr>) = (None, t) \<and>
     next_timers t = 2 \<and> event_index t = 1"
proof -
  let ?r = "demo_playing\<lparr>timeouts := [demo_timer, demo_timer\<lparr>timer_id := 2\<rparr>]\<rparr>"
  have "synced ?r" using demo_playing_state(1) synced_cong [of ?r demo_playing] by (simp add: screen_def)
  moreover have "recorded ?r" using demo_playing_state(2) recorded_cong [of ?r demo_playing] by simp
  moreover have "first_timer ?r = Some demo_timer" by (simp add: first_timer_def earlier_def)
  ultimately show ?thesis
    using piled_up_timeouts_stay [of ?r demo_timer]
    by (simp add: demo_playing_state demo_timer_def next_timers_def numeral_2_eq_2)
qed

section \<open>How long the reader waits\<close>

lemma start_timer_due:
  assumes "cur_event r = Some c" "Suc (event_index r) < length (events r)"
  shows "\<exists>t. start_timer_for_next_event (Fin (-1)) r = (None, t) \<and>
    timeouts t = timeouts r @ [\<lparr>timer_id = next_timer r,
      due = clock r + timeout_ms (event_delay c (events r ! Suc (event_index r)) (speed r)), job_of = ProcessNext\<rparr>]"
  using assms
  by (simp add: start_timer_for_next_event_def stmt_simps seq_upd less_jsnum_def start_process_timer_def
      set_timeout_def seq_def)

text \<open>
  C20. At normal speed the wait for the next event is the difference of the recorded offsets, to
  the millisecond.
\<close>

theorem wait_is_offset_difference:
  assumes "cur_event r = Some c" "Suc (event_index r) < length (events r)" "speed r = Fin 1"
    and "time_offset c = num_of_int a" "time_offset (events r ! Suc (event_index r)) = num_of_int b"
    and "a \<le> b" "b - a < 2 ^ 31"
  shows "\<exists>t. start_timer_for_next_event (Fin (-1)) r = (None, t) \<and>
    timeouts t = timeouts r @ [\<lparr>timer_id = next_timer r, due = clock r + (b - a), job_of = ProcessNext\<rparr>]"
proof -
  have exact: "mk (of_int (b - a)) = num_of_int (b - a)"
    using assms(6,7) by (intro mk_of_int) simp
  have sub: "num_of_int b - num_of_int a = num_of_int (b - a)"
    using exact by (simp add: num_defs)
  have div: "num_of_int (b - a) div Fin 1 = num_of_int (b - a)"
    using exact by (simp add: num_defs)
  have "(of_int (b - a) :: rat) < of_int (2 ^ 31)" using assms(7) by (simp only: of_int_less_iff)
  then have "parse_int (to_fixed 0 (num_of_int (b - a))) = num_of_int \<lfloor>of_int (b - a) + 1/2 :: rat\<rfloor>"
    using assms(6) by (intro parse_int_to_fixed) simp_all
  moreover have "\<lfloor>of_int (b - a) + 1/2 :: rat\<rfloor> = b - a" by linarith
  ultimately have "event_delay c (events r ! Suc (event_index r)) (speed r) = num_of_int (b - a)"
    by (simp only: event_delay_def assms(3-5) sub div)
  moreover have "timeout_ms (num_of_int (b - a)) = b - a"
    using assms(6,7) by (simp add: timeout_ms_def to_int32_def trunc_def del: of_int_diff)
  ultimately show ?thesis using start_timer_due [OF assms(1,2)] by simp
qed

lemma wait_is_offset_difference_witness:
  "\<exists>t. start_timer_for_next_event (Fin (-1)) (demo_playing\<lparr>speed := Fin 1, cur_event := Some (hd demo_events)\<rparr>) = (None, t) \<and>
     map due (timeouts t) = [5000, clock demo_playing + 50]"
  using wait_is_offset_difference [of "demo_playing\<lparr>speed := Fin 1, cur_event := Some (hd demo_events)\<rparr>"
      "hd demo_events" 100 150]
  by (auto simp: demo_playing_state demo_timer_def time_offset_def demo_events_def)

text \<open>
  When one of the two offsets is missing (the server leaves out an offset of zero) or the
  speed is zero (the speed box accepts it), there is no wait at all: the next event is due
  immediately, it is not held back for ever.
\<close>

theorem no_wait_without_offset:
  assumes "cur_event r = Some c" "Suc (event_index r) < length (events r)"
    and "speed r = Fin 0 \<or> time_offset c = NaN \<or> time_offset (events r ! Suc (event_index r)) = NaN"
  shows "\<exists>t. start_timer_for_next_event (Fin (-1)) r = (None, t) \<and>
    timeouts t = timeouts r @ [\<lparr>timer_id = next_timer r, due = clock r, job_of = ProcessNext\<rparr>]"
proof -
  let ?w = "(time_offset (events r ! Suc (event_index r)) - time_offset c) div speed r"
  have none: "parse_int (to_fixed 0 PInf) = NaN" "parse_int (to_fixed 0 NInf) = NaN" "parse_int (to_fixed 0 NaN) = NaN"
    by code_simp+
  have zero: "x div Fin 0 = NaN \<or> x div Fin 0 = PInf \<or> x div Fin 0 = NInf" for x
    by (cases x) (auto simp: num_defs inf_of_sign_def)
  have nan: "NaN - x = NaN" "x - NaN = NaN" "NaN div x = NaN" for x
    by (cases x; simp add: num_defs)+
  have "?w = NaN \<or> ?w = PInf \<or> ?w = NInf"
    using assms(3) zero [of "time_offset (events r ! Suc (event_index r)) - time_offset c"] by (auto simp: nan)
  then have "event_delay c (events r ! Suc (event_index r)) (speed r) = NaN"
    by (auto simp only: event_delay_def none)
  moreover have "timeout_ms NaN = 0" by (simp add: timeout_ms_def to_int32_def)
  ultimately show ?thesis using start_timer_due [OF assms(1,2)] by simp
qed

lemma no_wait_without_offset_witness:
  "\<exists>t. start_timer_for_next_event (Fin (-1)) (demo_playing\<lparr>speed := Fin 0, cur_event := Some (hd demo_events)\<rparr>) = (None, t) \<and>
     map due (timeouts t) = [5000, clock demo_playing]"
  using no_wait_without_offset [of "demo_playing\<lparr>speed := Fin 0, cur_event := Some (hd demo_events)\<rparr>" "hd demo_events"]
  by (auto simp: demo_playing_state demo_timer_def)

section \<open>Acknowledging live messages\<close>

lemma acks_process_timer [simp]: "acks (snd (start_process_timer d r)) = acks r"
proof -
  have "keeps show_core (start_process_timer d)" by (rule core_frames)
  from keepsD [OF this, of r] show ?thesis by (simp add: show_core_def)
qed

lemma start_timer_acks:
  assumes "cur_event r \<noteq> None"
  shows "wp (start_timer_for_next_event d) (\<lambda>t. acks t = acks r) (\<lambda>_. False) r"
  using assms by (auto simp: start_timer_for_next_event_def wp_simps simp del: block.simps split: option.splits)

lemma internal_acks:
  assumes "cur_event r \<noteq> None"
  shows "wp (run_callback (InternalCallback (AckCallback sock))) (\<lambda>t. acks t = acks r @ [sock]) (\<lambda>_. False) r"
  unfolding run_callback.simps wp_simps
  by (rule wp_mono [OF start_timer_acks [OF assms]]) (simp_all add: wp_simps)

lemma acks_buffers [simp]: "acks (snd (clear_buffers r)) = acks r"
  by (simp add: clear_buffers_def upd_def)

text \<open>
  C18. A message of a live session is acknowledged exactly once, whether the reader plays, is
  paused or has nothing to show; the server waits for the acknowledgement before it sends the
  next message.
\<close>

theorem live_message_acknowledged:
  assumes "list_all decodable (events r)" "is_live r = JBool True"
  shows "\<exists>t. process_next_event (Some (AckCallback sock)) r = (None, t) \<and> acks t = acks r @ [sock]"
proof -
  let ?Q = "\<lambda>t. acks t = acks r @ [sock]"
  have "wp (process_next_event (Some (AckCallback sock))) ?Q (\<lambda>_. False) r"
  proof (cases "event_index r < length (events r)")
    case False
    then show ?thesis
      using assms(2) unfolding process_next_event_def Let_def wp_simps option.case by (simp add: wp_simps)
  next
    case True
    let ?s = "r\<lparr>cur_event := Some (events r ! event_index r)\<rparr>"
    have "wp (action_event (event_index r)) (\<lambda>t. play_view t = play_view ?s) (\<lambda>_. False) ?s"
      by (rule action_event_wp) (use assms(1) True in \<open>simp_all add: list_all_length\<close>)
    from wp_normal [OF this] obtain t
      where t: "action_event (event_index r) ?s = (None, t)" "play_view t = play_view ?s" by blast
    have "wp (write_buffers (Some (InternalCallback (AckCallback sock))) True) ?Q (\<lambda>_. False) t"
    proof (rule write_buffers_wp)
      fix ks kb
      let ?t = "t\<lparr>keystrokes := ks, keystroke_buffer := kb\<rparr>"
      have "wp (run_callback (InternalCallback (AckCallback sock))) (\<lambda>u. acks u = acks ?t @ [sock]) (\<lambda>_. False) ?t"
        by (rule internal_acks) (use t(2) in \<open>simp add: play_view_def\<close>)
      then show "wp (run_callback (InternalCallback (AckCallback sock))) ?Q (\<lambda>_. False) ?t"
        by (rule wp_mono) (use t(2) in \<open>simp_all add: play_view_def\<close>)
    qed simp_all
    moreover have "wp (block [run_callback (AckCallback sock), clear_buffers]) ?Q (\<lambda>_. False) t"
      using t(2) by (simp add: wp_simps wp_total [OF clear_buffers_total, abs_def] play_view_def)
    ultimately have "wp (action_event (event_index r)) (wp (ite (\<lambda>r. \<not> paused r)
        (write_buffers (Some (InternalCallback (AckCallback sock))) True)
        (block [run_callback (AckCallback sock), clear_buffers]))
        (\<lambda>t. ?Q (snd (refresh_statusbar t))) (\<lambda>_. False)) (\<lambda>_. False) ?s"
      using t(1) by (simp add: wp_def [of "action_event (event_index r)"] wp_ite)
    then show ?thesis
      using True assms(2) unfolding process_next_event_def Let_def wp_simps option.case by simp
  qed
  from wp_normal [OF this] show ?thesis .
qed

lemma live_message_acknowledged_witness:
  "\<exists>t. process_next_event (Some (AckCallback 7)) (demo_playing\<lparr>session := [(''live'', JBool True)]\<rparr>) = (None, t) \<and>
     acks t = acks demo_playing @ [7]"
  using live_message_acknowledged [of "demo_playing\<lparr>session := [(''live'', JBool True)]\<rparr>"] demo_decodable
  by (simp add: demo_playing_state is_live_def)

section \<open>An event that does not decode\<close>

lemma undecodable_throws:
  assumes "\<not> decodable (events r ! i)"
  shows "wp (action_event i) (\<lambda>_. False) (\<lambda>t. play_view t = play_view r) r"
proof -
  let ?ev = "events r ! i"
  have quiet: "\<not> type_is ''session-start'' ?ev" "\<not> type_is ''window-resize'' ?ev"
    using assms quiet_view(3) [OF other_type] by blast+
  have "wp (action_event i) (\<lambda>_. False) (\<lambda>_. True) r"
  proof (cases "type_is ''new-message'' ?ev")
    case True
    have n: "\<not> type_is ''new-request'' ?ev" using message_not_request [OF True] .
    show ?thesis
      using assms [unfolded decodable_def is_output_def is_input_def is_exec_def] n True
      unfolding unfold_event by (cases "ev_data ''data'' ?ev") (auto simp: quiet wp_simps)
  next
    case False
    show ?thesis
      using assms [unfolded decodable_def is_output_def is_input_def is_exec_def] False
      unfolding unfold_event by (cases "ev_data ''request_payload'' ?ev") (auto simp: quiet wp_simps)
  qed
  moreover have "wp (action_event i) (\<lambda>t. play_view t = play_view r) (\<lambda>t. play_view t = play_view r) r"
    by (simp only: wp_same action_event_view)
  ultimately show ?thesis using wp_conj wp_mono by (fastforce simp: wp_def split: prod.splits option.splits)
qed

text \<open>
  C25. An event whose base64 does not decode stops the reader for good: the exception leaves the
  position where it is and nothing is acknowledged, and as no timeout is started, only the user
  can move on.
\<close>

theorem undecodable_event_blocks:
  assumes "event_index r < length (events r)" "\<not> decodable (events r ! event_index r)"
    and "\<not> paused r \<or> truthy (is_live r)"
  shows "\<exists>e t. process_next_event cb r = (Some e, t) \<and> event_index t = event_index r \<and>
    acks t = acks r \<and> timeouts t = timeouts r \<and> screen t = screen r"
proof -
  let ?s = "r\<lparr>cur_event := Some (events r ! event_index r)\<rparr>"
  let ?E = "\<lambda>t. event_index t = event_index r \<and> acks t = acks r \<and> timeouts t = timeouts r \<and> screen t = screen r"
  have "wp (action_event (event_index r)) Q ?E ?s" for Q
    by (rule wp_mono [OF undecodable_throws]) (use assms(2) in \<open>simp_all add: play_view_def screen_def\<close>)
  then have "wp (process_next_event cb) (\<lambda>_. False) ?E r"
    using assms(1,3) unfolding process_next_event_def Let_def wp_simps by auto
  then show ?thesis by (auto simp: wp_def split: prod.splits option.splits)
qed

lemma undecodable_event_blocks_witness:
  "\<exists>e t. process_next_event None (demo_playing\<lparr>events := [[(''type'', JStr ''new-message''),
     (''direction'', JStr ''incoming''), (''data'', JStr ''?'')]]\<rparr>) = (Some e, t) \<and> event_index t = 0"
proof -
  have "\<not> decodable [(''type'', JStr ''new-message''), (''direction'', JStr ''incoming''), (''data'', JStr ''?'')]"
    by code_simp
  then show ?thesis
    using undecodable_event_blocks [of "demo_playing\<lparr>events := [[(''type'', JStr ''new-message''),
      (''direction'', JStr ''incoming''), (''data'', JStr ''?'')]]\<rparr>" None]
    by (auto simp: demo_playing_state)
qed

section \<open>Bounds\<close>

lemma speed_keeps: "keeps speed pause" "keeps speed play"
proof -
  have start: "keeps speed (start_process_timer d)" for d
    unfolding start_process_timer_def by (intro frame_intro keeps_upd) (simp_all add: set_timeout_def)
  have refresh: "keeps speed refresh_statusbar"
    unfolding refresh_statusbar_def by (rule keeps_upd) simp
  show "keeps speed pause"
    unfolding pause_def show_play_def reset_timeout_def by (intro frame_intro keeps_upd refresh) simp_all
  show "keeps speed play"
    unfolding play_def show_pause_def resume_with_new_delay_def start_timer_for_next_event_def
    by (auto intro!: frame_intro keeps_upd refresh start)
qed

lemma update_speed_number [simp]: "speed (snd (update_speed (JNum v) r)) = (if v = NaN then speed r else v)"
  by (simp add: update_speed_def parse_float_value_def skip_def upd_def)

lemma change_speed_sets: "speed (snd (change_speed_to_new_val v r)) = (if v = NaN then speed r else v)"
  using speed_keeps [THEN keepsD]
  by (simp add: change_speed_to_new_val_def ite_def total_seq_eq pause_total update_speed_total)

lemma num_less_irrefl [simp]: "\<not> (x::jsnum) < x"
  by (cases x) (simp_all add: less_jsnum_def)

text \<open>
  The button for less speed never takes the speed below a tenth, and never makes it
  \<open>NaN\<close>, whether the session plays or not.
\<close>

theorem slower_keeps_minimum:
  assumes "speed r = Fin q"
  shows "speed (snd (control_handler ClickSlower r)) \<noteq> NaN \<and>
    \<not> speed (snd (control_handler ClickSlower r)) < lowest_speed"
proof -
  let ?v = "math_max (speed r - speed_step) lowest_speed"
  have not_nan: "mk x \<noteq> NaN" for x by (simp add: mk_def Let_def)
  have "speed_step = PInf \<or> (\<exists>d. speed_step = Fin d)"
    using mk_nonneg_cases [of "3/10"] by (auto simp: speed_step_def)
  then have "num_neg speed_step = NInf \<or> (\<exists>d. num_neg speed_step = Fin d)"
    by (metis num_neg.simps(1,2))
  then have "speed r - speed_step \<noteq> NaN"
    using assms by (elim disjE exE) (simp_all add: num_defs not_nan)
  then have v: "?v \<noteq> NaN" "\<not> ?v < lowest_speed"
    using not_nan by (auto simp: math_max_def lowest_speed_def)
  have "speed (snd (control_handler ClickSlower r)) = ?v"
    using v(1) by (simp add: decrease_speed_def bind_val_def seq_upd change_speed_sets)
  then show ?thesis using v by simp
qed

lemma slower_keeps_minimum_witness:
  "\<not> speed (snd (control_handler ClickSlower (demo_playing\<lparr>speed := Fin 0\<rparr>))) < lowest_speed"
  using slower_keeps_minimum [of "demo_playing\<lparr>speed := Fin 0\<rparr>" 0] by simp

text \<open>
  Whatever size is asked for, the terminal element fits into the window: ten pixels are left
  beside it and 160 below.
\<close>

theorem terminal_fits_window:
  assumes "win_width r = num_of_int ww" "win_height r = num_of_int wh" "10 \<le> ww" "160 \<le> wh"
    and "ww < 2 ^ 31" "wh < 2 ^ 31" "0 \<le> w" "0 \<le> h"
  shows "\<exists>t. resize_by_pixels (Fin w) (Fin h) r = (None, t) \<and>
    terminal_width t = Fin (min w (of_int (ww - 10))) \<and> terminal_height t = Fin (min h (of_int (wh - 160)))"
proof -
  have max: "max_terminal_width r = num_of_int (ww - 10)" "max_terminal_height r = num_of_int (wh - 160)"
    using assms(1-6) mk_of_int [of "ww - 10"] mk_of_int [of "wh - 160"]
    by (simp_all add: max_terminal_width_def max_terminal_height_def num_defs)
  have min: "math_min (Fin a) (num_of_int b) = Fin (min a (of_int b))" for a b
    by (auto simp: math_min_def less_jsnum_def min_def)
  have pos: "(0::rat) \<le> of_int (ww - 10)" "(0::rat) \<le> of_int (wh - 160)"
    using assms(3,4) by (simp_all del: of_int_diff)
  have fit: "terminal_width (snd (fit_terminal s)) = terminal_width s"
    "terminal_height (snd (fit_terminal s)) = terminal_height s" for s
    using wp_total [OF fit_terminal_total, of "\<lambda>t. terminal_width t = terminal_width s \<and> terminal_height t = terminal_height s" "\<lambda>_. False" s]
    by (simp_all add: fit_terminal_def wp_simps update_col_width_def update_col_height_def split: prod.splits)
  have "wp (resize_by_pixels (Fin w) (Fin h)) (\<lambda>t. terminal_width t = Fin (min w (of_int (ww - 10))) \<and>
      terminal_height t = Fin (min h (of_int (wh - 160)))) (\<lambda>_. False) r"
    using assms(7,8) pos unfolding resize_by_pixels_def wp_simps max min fit css_px_def by simp
  from wp_normal [OF this] show ?thesis .
qed

lemma terminal_fits_window_witness:
  "\<exists>t. resize_by_pixels (Fin 5000) (Fin 300) (demo_playing\<lparr>win_width := Fin 1000, win_height := Fin 800\<rparr>) = (None, t) \<and>
     terminal_width t = Fin 990 \<and> terminal_height t = Fin 300"
  using terminal_fits_window [of "demo_playing\<lparr>win_width := Fin 1000, win_height := Fin 800\<rparr>" 1000 800 5000 300]
  by simp

end
