(* ===== verification/JS_Date.thy ===== *)
theory JS_Date
  imports JS_Text Prelude
begin

text \<open>
  \<open>new Date(t).toISOString()\<close> and the duration that \<open>seconds_to_str\<close> of \<open>html/js/lib.js\<close> cuts out
  of it. A date is a number of milliseconds since 1970; the calendar is the proleptic Gregorian
  one of the language.
\<close>

section \<open>Dates of the language\<close>

definition pad :: "nat \<Rightarrow> int \<Rightarrow> string" where
  "pad w n = (let s = digits n in replicate (w - length s) (CHR ''0'') @ s)"

text \<open>
  Year, month and day of a day number, counted in eras of 400 years that begin in March, so that
  a leap day is the last day of a year.
\<close>

definition civil :: "int \<Rightarrow> int \<times> int \<times> int" where
  "civil day =
     (let z = day + 719468;
          era = z div 146097;
          doe = z mod 146097;
          yoe = (doe - doe div 1460 + doe div 36524 - doe div 146096) div 365;
          doy = doe - (365 * yoe + yoe div 4 - yoe div 100);
          mp = (5 * doy + 2) div 153;
          month = (if mp < 10 then mp + 3 else mp - 9)
      in (yoe + era * 400 + (if month \<le> 2 then 1 else 0), month, doy - (153 * mp + 2) div 5 + 1))"

definition year_text :: "int \<Rightarrow> string" where
  "year_text y = (if 0 \<le> y \<and> y \<le> 9999 then pad 4 y
     else (if y < 0 then ''-'' else ''+'') @ pad 6 \<bar>y\<bar>)"

definition clock_text :: "int \<Rightarrow> string" where
  "clock_text secs = pad 2 (secs div 3600) @ '':'' @ pad 2 (secs div 60 mod 60) @ '':'' @ pad 2 (secs mod 60)"

definition iso_text :: "int \<Rightarrow> string" where
  "iso_text ms =
     (let day = ms div 86400000; in_day = ms mod 86400000; (y, mo, d) = civil day
      in year_text y @ ''-'' @ pad 2 mo @ ''-'' @ pad 2 d @ ''T'' @ clock_text (in_day div 1000) @
         ''.'' @ pad 3 (in_day mod 1000) @ ''Z'')"

text \<open>The time value is cut to whole milliseconds; beyond \<open>8.64e15\<close> the date is invalid.\<close>

definition to_iso_string :: "jsnum \<Rightarrow> exn + string" where
  "to_iso_string t = (case t of
       Fin q \<Rightarrow> if \<bar>q\<bar> \<le> 8640000000000000 then Inr (iso_text (trunc q)) else Inl RangeError
     | _ \<Rightarrow> Inl RangeError)"

section \<open>The program's function\<close>

definition seconds_to_str :: "jsnum \<Rightarrow> exn + string" where
  "seconds_to_str sec = (case to_iso_string (sec * Fin 1000) of
       Inl e \<Rightarrow> Inl e
     | Inr s \<Rightarrow> Inr (substring s 11 19))"

section \<open>Facts\<close>

lemma digits_small: "0 \<le> n \<Longrightarrow> n < 10 \<Longrightarrow> digits n = [digit (nat n)]"
  by (subst digits.simps) simp

lemma digits_two: "10 \<le> n \<Longrightarrow> n < 100 \<Longrightarrow> length (digits n) = 2"
  by (subst digits.simps) (simp add: digits_small)

lemma digits_three: "100 \<le> n \<Longrightarrow> n < 1000 \<Longrightarrow> length (digits n) = 3"
  by (subst digits.simps) (simp add: digits_two)

lemma digits_four: "1000 \<le> n \<Longrightarrow> n < 10000 \<Longrightarrow> length (digits n) = 4"
  by (subst digits.simps) (simp add: digits_three)

lemma pad_two: "0 \<le> n \<Longrightarrow> n < 100 \<Longrightarrow> length (pad 2 n) = 2"
  by (cases "n < 10") (simp_all add: pad_def Let_def digits_small digits_two)

lemma clock_text_length: "0 \<le> s \<Longrightarrow> s < 86400 \<Longrightarrow> length (clock_text s) = 8"
  by (simp add: clock_text_def pad_two)

text \<open>In the first year a date has ten characters before the T, one day after another.\<close>

definition date_text :: "int \<Rightarrow> string" where
  "date_text day = (let (y, mo, d) = civil day in year_text y @ ''-'' @ pad 2 mo @ ''-'' @ pad 2 d @ ''T'')"

lemma civil_first_year:
  assumes "0 \<le> day" "day < 366" "civil day = (y, m, d)"
  shows "1969 \<le> y" "y \<le> 1971" "0 \<le> m" "m \<le> 14" "0 \<le> d" "d < 100"
proof -
  define doe where "doe = day + 135080"
  define doy where "doy = (if day < 59 then 306 + day else day - 59)"
  define mp where "mp = (5 * doy + 2) div 153"
  define yoe where "yoe = (if day < 59 then 369 else 370 :: int)"
  have z: "(day + 719468) div 146097 = 4" "(day + 719468) mod 146097 = doe"
    using assms(1,2) int_div_pos_eq [of "day + 719468" 146097 4 doe]
      int_mod_pos_eq [of "day + 719468" 146097 4 doe] by (simp_all add: doe_def)
  have parts: "doe div 1460 = 92" "doe div 36524 = 3" "doe div 146096 = 0"
    using assms(1,2) int_div_pos_eq [of doe 1460 92 "day + 760"] int_div_pos_eq [of doe 36524 3 "day + 25508"]
    by (simp_all add: doe_def)
  have "(doe - 92 + 3 - 0) div 365 = yoe"
    using assms(1,2) int_div_pos_eq [of "doe - 89" 365 369 "day + 306"] int_div_pos_eq [of "doe - 89" 365 370 "day - 59"]
    by (auto simp: doe_def yoe_def)
  moreover have "doe - (365 * yoe + yoe div 4 - yoe div 100) = doy"
    by (simp add: doe_def yoe_def doy_def)
  ultimately have c: "civil day = (yoe + 4 * 400 + (if (if mp < 10 then mp + 3 else mp - 9) \<le> 2 then 1 else 0),
      (if mp < 10 then mp + 3 else mp - 9), doy - (153 * mp + 2) div 5 + 1)"
    by (simp only: civil_def Let_def z parts mp_def)
  have doy: "0 \<le> doy" "doy \<le> 364" using assms(1,2) by (auto simp: doy_def)
  have "5 * doy + 2 = 153 * mp + (5 * doy + 2) mod 153" by (simp add: mp_def)
  moreover have "0 \<le> (5 * doy + 2) mod 153" "(5 * doy + 2) mod 153 < 153" by simp_all
  ultimately have r: "153 * mp \<le> 5 * doy + 2" "5 * doy + 2 < 153 * mp + 153" by linarith+
  then have mp: "0 \<le> mp" "mp \<le> 11" using doy by linarith+
  have "153 * mp + 2 = 5 * ((153 * mp + 2) div 5) + (153 * mp + 2) mod 5" by simp
  moreover have "0 \<le> (153 * mp + 2) mod 5" "(153 * mp + 2) mod 5 < 5" by simp_all
  ultimately have "5 * ((153 * mp + 2) div 5) \<le> 153 * mp + 2" "153 * mp + 2 < 5 * ((153 * mp + 2) div 5) + 5"
    by linarith+
  with r have "0 \<le> doy - (153 * mp + 2) div 5 + 1" "doy - (153 * mp + 2) div 5 + 1 < 100" by linarith+
  then show "1969 \<le> y" "y \<le> 1971" "0 \<le> m" "m \<le> 14" "0 \<le> d" "d < 100"
    using assms(3) c mp by (auto simp: yoe_def split: if_splits)
qed

lemma date_text_length:
  assumes "0 \<le> day" "day < 366"
  shows "length (date_text day) = 11"
proof -
  obtain y m d where c: "civil day = (y, m, d)" by (cases "civil day")
  note f = civil_first_year [OF assms c]
  have "length (year_text y) = 4"
    using f(1,2) by (simp add: year_text_def pad_def digits_four)
  moreover have "length (pad 2 m) = 2" "length (pad 2 d) = 2"
    using f by (simp_all add: pad_two)
  ultimately show ?thesis by (simp add: date_text_def c)
qed

lemma iso_text_split: "iso_text ms = date_text (ms div 86400000) @ clock_text (ms mod 86400000 div 1000) @
    ''.'' @ pad 3 (ms mod 86400000 mod 1000) @ ''Z''"
  by (simp add: iso_text_def date_text_def Let_def split: prod.splits)

lemma seconds_to_str_int:
  assumes "0 \<le> s" "s < 366 * 86400"
  shows "seconds_to_str (num_of_int s) = Inr (clock_text (s mod 86400))"
proof -
  have "mk (of_int (s * 1000)) = num_of_int (s * 1000)" using assms by (intro mk_of_int) simp
  then have ms: "num_of_int s * Fin 1000 = num_of_int (s * 1000)" by (simp add: num_defs)
  have "(of_int (s * 1000) :: rat) \<le> of_int 8640000000000000"
    using assms by (simp only: of_int_le_iff)
  then have iso: "to_iso_string (num_of_int (s * 1000)) = Inr (iso_text (s * 1000))"
    using assms(1) by (simp add: to_iso_string_def trunc_def del: of_int_mult)
  have day: "s * 1000 div 86400000 = s div 86400" "s * 1000 mod 86400000 div 1000 = s mod 86400"
    using div_mult_mult2 [of "1000 :: int" s 86400] mod_mult_mult2 [of s "1000 :: int" 86400] by simp_all
  have "length (date_text (s div 86400)) = 11" by (rule date_text_length) (use assms in simp_all)
  moreover have "length (clock_text (s mod 86400)) = 8" by (intro clock_text_length) simp_all
  ultimately show ?thesis
    by (simp add: seconds_to_str_def ms iso iso_text_split day substring_def del: of_int_mult)
qed

section \<open>Properties\<close>

text \<open>
  The duration shown for a session of \<open>s\<close> seconds is hours, minutes and seconds of \<open>s\<close>
  modulo one day: right below 24 hours, and wrapping there.
\<close>

theorem duration_wraps_daily:
  assumes "0 \<le> s" "s < 365 * 86400"
  shows "seconds_to_str (num_of_int s) = Inr (clock_text (s mod 86400)) \<and>
    seconds_to_str (num_of_int (s + 86400)) = seconds_to_str (num_of_int s)"
  using seconds_to_str_int [of s] seconds_to_str_int [of "s + 86400"] assms by (simp del: of_int_add)

lemma duration_wraps_daily_witness:
  "seconds_to_str (num_of_int 3725) = Inr ''01:02:05'' \<and> seconds_to_str (num_of_int 90125) = Inr ''01:02:05''"
proof -
  have "clock_text (3725 mod 86400) = ''01:02:05''" by code_simp
  then show ?thesis using duration_wraps_daily [of 3725] by simp
qed

end
