(* ===== verification/Session_List.thy ===== *)
theory Session_List
  imports JS_Value JS_Date
begin

text \<open>
  The two lists of sessions on the page (\<open>#session_list\<close> and \<open>#old_session_list\<close>) and the
  functions of \<open>html/js/lib.js\<close> that fill them. Every entry is a link whose address names the
  session; a session is added unless a link that matches its address is there already.
\<close>

section \<open>The links on the page\<close>

record link =
  link_href :: string
  link_text :: string
  link_selected :: bool

text \<open>
  What the list functions read and write: the fragment of the address bar and the lists, in
  document order. The selectors are CSS strings; what jQuery makes of one that holds a quote, a
  backslash or a line break is left to the environment.
\<close>

record dom =
  location_hash :: string
  active_links :: "link list"
  old_links :: "link list"
  odd_selector :: "string \<Rightarrow> exn + (string \<Rightarrow> bool)"

datatype list_id = SessionList | OldSessionList

definition all_links :: "dom \<Rightarrow> link list" where
  "all_links d = active_links d @ old_links d"

definition plain_needle :: "string \<Rightarrow> bool" where
  "plain_needle s \<longleftrightarrow> (\<forall>c \<in> set s. code c \<notin> {10, 12, 13, 39, 92})"

text \<open>
  \<open>jQuery("a[href*='...']")\<close>: the links whose address contains the text; an empty text matches
  nothing.
\<close>

definition selector :: "string \<Rightarrow> dom \<Rightarrow> exn + (string \<Rightarrow> bool)" where
  "selector needle d = (if plain_needle needle then Inr (\<lambda>s. needle \<noteq> [] \<and> contains needle s)
     else odd_selector d needle)"

definition on_links :: "(link \<Rightarrow> link) \<Rightarrow> dom \<Rightarrow> dom" where
  "on_links f d = d\<lparr>active_links := map f (active_links d), old_links := map f (old_links d)\<rparr>"

definition select_link :: "link \<Rightarrow> link" where
  "select_link l = l\<lparr>link_selected := True\<rparr>"

definition prepend_link :: "list_id \<Rightarrow> link \<Rightarrow> dom \<Rightarrow> dom" where
  "prepend_link i l d = (case i of
       SessionList \<Rightarrow> d\<lparr>active_links := l # active_links d\<rparr>
     | OldSessionList \<Rightarrow> d\<lparr>old_links := l # old_links d\<rparr>)"

text \<open>\<open>anchor.text(v)\<close>; an undefined value reads the text instead of setting it.\<close>

definition text_of :: "jsval \<Rightarrow> string" where
  "text_of v = (if nullish v then [] else to_str v)"

text \<open>Setting a property of a value that is not an object has no effect.\<close>

definition set_member :: "jsval \<Rightarrow> string \<Rightarrow> jsval \<Rightarrow> jsval" where
  "set_member obj k v = (case obj of JObj kvs \<Rightarrow> JObj (set_prop k v kvs) | _ \<Rightarrow> obj)"

section \<open>Adding a link\<close>

definition add_link_to_list :: "jsval \<Rightarrow> string \<Rightarrow> list_id \<Rightarrow> dom stmt" where
  "add_link_to_list session href list_id =
     bind_exp (selector href) (\<lambda>matches.
       ite (\<lambda>d. \<exists>l \<in> set (all_links d). matches (link_href l))
         (guard (\<lambda>d. href = location_hash d)
           (upd (on_links (\<lambda>l. if matches (link_href l) then select_link l else l))))
         (bind_exp (\<lambda>_. read_prop session ''display_text'') (\<lambda>txt.
           upd (\<lambda>d. prepend_link list_id
             \<lparr>link_href = href, link_text = text_of txt, link_selected = (href = location_hash d)\<rparr> d))))"

text \<open>\<open>key + " (" + seconds_to_str(length) + ")"\<close>.\<close>

definition session_label :: "jsval \<Rightarrow> exn + string" where
  "session_label session = (case read_prop session ''key'' of
       Inl e \<Rightarrow> Inl e
     | Inr key \<Rightarrow> (case read_prop session ''length'' of
           Inl e \<Rightarrow> Inl e
         | Inr len \<Rightarrow> (case seconds_to_str (to_num len) of
               Inl e \<Rightarrow> Inl e
             | Inr s \<Rightarrow> Inr (to_str key @ '' ('' @ s @ '')''))))"

definition get_str :: "jsval \<Rightarrow> string \<Rightarrow> exn + string" where
  "get_str obj k = (case read_prop obj k of Inl e \<Rightarrow> Inl e | Inr v \<Rightarrow> Inr (to_str v))"

text \<open>One round of the loop of \<open>add_viewer_session_to_list\<close>.\<close>

definition add_viewer_session :: "jsval \<Rightarrow> dom stmt" where
  "add_viewer_session session =
     bind_exp (\<lambda>_. read_prop session ''active'') (\<lambda>active.
     bind_exp (\<lambda>_. session_label session) (\<lambda>label.
     bind_exp (\<lambda>_. get_str session ''secret'') (\<lambda>secret.
     bind_exp (\<lambda>_. get_str session ''key'') (\<lambda>key.
       add_link_to_list (set_member session ''display_text'' (JStr label))
         (''#signed-viewer&'' @ secret @ ''/'' @ key)
         (if truthy active then SessionList else OldSessionList)))))"

definition add_viewer_session_to_list :: "jsval list \<Rightarrow> dom stmt" where
  "add_viewer_session_to_list sessions = for_each sessions add_viewer_session"

text \<open>The end of a round of the loop of \<open>add_session_to_list\<close>: label and link.\<close>

definition place_session :: "jsval \<Rightarrow> string \<Rightarrow> list_id \<Rightarrow> dom stmt" where
  "place_session session hash_path list_id =
     bind_exp (\<lambda>_. read_prop session ''display_text'') (\<lambda>txt.
       if nullish txt then
         bind_exp (\<lambda>_. session_label session) (\<lambda>label.
           add_link_to_list (set_member session ''display_text'' (JStr label)) hash_path list_id)
       else add_link_to_list session hash_path list_id)"

text \<open>
  A session that is neither active nor has a file ends the whole function, not just its round:
  the source says \<open>return\<close> in the loop.
\<close>

fun add_session_to_list :: "jsval list \<Rightarrow> dom stmt" where
  "add_session_to_list [] = skip"
| "add_session_to_list (session # rest) =
     bind_exp (\<lambda>_. read_prop session ''active'') (\<lambda>active.
       if truthy active then
         bind_exp (\<lambda>_. get_str session ''key'') (\<lambda>key.
           seq (place_session session (''#live&'' @ key) SessionList) (add_session_to_list rest))
       else
         bind_exp (\<lambda>_. read_prop session ''filename'') (\<lambda>filename.
           if nullish filename then skip
           else seq (place_session session (''#replay&'' @ to_str filename) OldSessionList)
             (add_session_to_list rest)))"

section \<open>The list of recorded sessions\<close>

text \<open>\<open>obj.requests.includes(s)\<close> on an array or a string.\<close>

definition list_includes :: "jsval \<Rightarrow> string \<Rightarrow> exn + bool" where
  "list_includes v s = (case v of
       JArr vs \<Rightarrow> Inr (JStr s \<in> set vs)
     | JStr t \<Rightarrow> Inr (contains s t)
     | _ \<Rightarrow> Inl TypeError)"

definition request_label :: "jsval \<Rightarrow> exn + string" where
  "request_label requests =
     (if truthy requests then
        (case list_includes requests ''pty-req'' of
             Inl e \<Rightarrow> Inl e
           | Inr True \<Rightarrow> Inr '' (pty)''
           | Inr False \<Rightarrow> (case list_includes requests ''exec'' of
                 Inl e \<Rightarrow> Inl e
               | Inr b \<Rightarrow> Inr (if b then '' (exec)'' else [])))
      else Inr [])"

text \<open>The comparison with the address bar is with a path here, which has no \<open>#\<close>.\<close>

definition add_old_session_to_list :: "jsval \<Rightarrow> dom stmt" where
  "add_old_session_to_list obj =
     bind_exp (\<lambda>_. get_str obj ''filename'') (\<lambda>filename.
     bind_exp (selector (''#replay&'' @ filename)) (\<lambda>matches.
       ite (\<lambda>d. \<exists>l \<in> set (all_links d). matches (link_href l))
         (guard (\<lambda>d. ''sessions/'' @ filename = location_hash d)
           (upd (on_links (\<lambda>l. if matches (link_href l) then select_link l else l))))
         (bind_exp (\<lambda>_. get_str obj ''client_host'') (\<lambda>client.
          bind_exp (\<lambda>_. get_str obj ''length'') (\<lambda>len.
          bind_exp (\<lambda>_. case read_prop obj ''requests'' of Inl e \<Rightarrow> Inl e | Inr rs \<Rightarrow> request_label rs) (\<lambda>suffix.
            add_session_to_list
              [set_member obj ''display_text'' (JStr (client @ '' - '' @ len @ ''s'' @ suffix))]))))))"

text \<open>\<open>session.filename.slice(-5) == ".scan"\<close>: strings and arrays have \<open>slice\<close>.\<close>

definition is_scan :: "jsval \<Rightarrow> exn + bool" where
  "is_scan session = (case read_prop session ''filename'' of
       Inl e \<Rightarrow> Inl e
     | Inr (JStr s) \<Rightarrow> Inr (slice_last s 5 = ''.scan'')
     | Inr (JArr vs) \<Rightarrow> Inr (to_str (JArr (drop (length vs - 5) vs)) = ''.scan'')
     | Inr _ \<Rightarrow> Inl TypeError)"

definition old_session_line :: "string \<Rightarrow> dom stmt" where
  "old_session_line line =
     (if line = [] then skip
      else bind_exp (\<lambda>_. json_parse line) (\<lambda>session.
        bind_exp (\<lambda>_. is_scan session) (\<lambda>scan.
          if scan then skip
          else add_old_session_to_list (set_member session ''active'' (JBool False)))))"

definition update_old_session_list :: "string \<Rightarrow> dom stmt" where
  "update_old_session_list data = for_each (split_on (CHR 0x0A) data) old_session_line"

section \<open>Selecting and emptying\<close>

text \<open>\<open>mark_selected(obj)\<close>: one link is selected, or none when there is no such link.\<close>

definition mark_selected :: "(nat \<Rightarrow> bool) \<Rightarrow> dom \<Rightarrow> dom" where
  "mark_selected chosen d =
     (let n = length (active_links d);
          mark = (\<lambda>(i, l). l\<lparr>link_selected := chosen i\<rparr>)
      in d\<lparr>active_links := map mark (zip [0..<n] (active_links d)),
           old_links := map mark (zip [n..<n + length (old_links d)] (old_links d))\<rparr>)"

text \<open>\<open>jQuery("a[href*='...']")[0]\<close>: the place of the first link that matches.\<close>

fun first_match :: "(string \<Rightarrow> bool) \<Rightarrow> link list \<Rightarrow> nat option" where
  "first_match p [] = None"
| "first_match p (l # ls) = (if p (link_href l) then Some 0 else map_option Suc (first_match p ls))"

definition first_anchor :: "string \<Rightarrow> dom \<Rightarrow> exn + nat option" where
  "first_anchor needle d = (case selector needle d of
       Inl e \<Rightarrow> Inl e
     | Inr matches \<Rightarrow> Inr (first_match matches (all_links d)))"

definition empty_session_list :: "dom \<Rightarrow> dom" where
  "empty_session_list d = d\<lparr>active_links := []\<rparr>"

end
