(* ===== verification/Page.thy ===== *)
theory Page
  imports Session_List Reader_Run
begin

text \<open>
  The page around the reader: its sockets, timers and requests, the address bar, and the
  functions of \<open>html/js/lib.js\<close> that connect them, with the start-up code of \<open>live.js\<close> and
  \<open>standalone.js\<close>. Closures that the source hands to a socket, a timer or a request are named by
  what they captured (\<open>sock_kind\<close>, \<open>interval_job\<close>, \<open>request\<close>).
\<close>

section \<open>The state of the page\<close>

datatype ready_state = Connecting | Open | Closing | Closed

text \<open>Which function opened a socket, with the arguments its handlers use.\<close>

datatype sock_kind =
    QuerySock
  | SessionSock jsval bool               \<comment> \<open>session, viewer mode\<close>
  | ListSock string bool string bool     \<comment> \<open>viewer key, auto play, session key, use viewer\<close>

record sock =
  kind :: sock_kind
  sock_url :: string
  ready :: ready_state
  outbox :: "string list"
  this_timer :: "nat option"

datatype interval_job = QueryPoll nat | ListPoll nat string

datatype request = OldSessions string | SessionFile string

record page =
  reader :: tr
  page_dom :: dom
  origin :: string
  base_url :: string
  encode_hash :: "string \<Rightarrow> string"
  container_live :: bool
  sockets :: "sock list"
  active_session_sockets :: "(string \<times> nat) list"
  active_query_sockets :: "nat list"
  timers :: "nat list"
  intervals :: "(nat \<times> interval_job) list"
  next_interval :: nat
  requests :: "request list"
  standalone_page :: bool
  fit_scheduled :: bool                  \<comment> \<open>the timeout of \<open>standalone.js\<close> is pending\<close>

section \<open>Addresses\<close>

definition build_sock_addr :: "page \<Rightarrow> string" where
  "build_sock_addr p = replace_first ''http://'' ''ws://'' (replace_first ''https://'' ''wss://'' (origin p))"

definition href :: "page \<Rightarrow> string" where
  "href p = base_url p @ location_hash (page_dom p)"

text \<open>
  The matches of \<open>/[?&]+([^=&#]+)=([^&#]*)/gi\<close>: a run of separators, a key, an equals sign, a
  value. When the run is directly followed by the equals sign, its last question mark serves as
  the key.
\<close>

definition is_sep :: "char \<Rightarrow> bool" where
  "is_sep c \<longleftrightarrow> c = CHR ''?'' \<or> c = CHR ''&''"

definition is_key_char :: "char \<Rightarrow> bool" where
  "is_key_char c \<longleftrightarrow> c \<noteq> CHR ''='' \<and> c \<noteq> CHR ''&'' \<and> c \<noteq> CHR ''#''"

definition is_value_char :: "char \<Rightarrow> bool" where
  "is_value_char c \<longleftrightarrow> c \<noteq> CHR ''&'' \<and> c \<noteq> CHR ''#''"

definition match_pair :: "string \<Rightarrow> (string \<times> string \<times> string) option" where
  "match_pair s =
     (let run = takeWhile is_sep s; after = dropWhile is_sep s;
          key = takeWhile is_key_char after; tail = dropWhile is_key_char after
      in if run = [] then None
         else case tail of
             CHR ''='' # v \<Rightarrow>
               (let value = takeWhile is_value_char v; left = dropWhile is_value_char v in
                if key \<noteq> [] then Some (key, value, left)
                else if 2 \<le> length run \<and> last run = CHR ''?'' then Some (''?'', value, left)
                else None)
           | _ \<Rightarrow> None)"

lemma match_pair_shorter: "match_pair s = Some (k, v, left) \<Longrightarrow> length left < length s"
proof -
  assume m: "match_pair s = Some (k, v, left)"
  then obtain t where t: "dropWhile is_key_char (dropWhile is_sep s) = CHR ''='' # t"
    "left = dropWhile is_value_char t"
    by (auto simp: match_pair_def Let_def split: if_splits list.splits char.splits bool.splits)
  have "length left \<le> length t" using t(2) by (simp add: length_dropWhile_le)
  also have "length t < length (dropWhile is_key_char (dropWhile is_sep s))" using t(1) by simp
  also have "\<dots> \<le> length s"
    by (meson le_trans length_dropWhile_le)
  finally show ?thesis .
qed

function url_pairs :: "string \<Rightarrow> (string \<times> string) list" where
  "url_pairs s = (case s of [] \<Rightarrow> []
     | c # rest \<Rightarrow> (case match_pair s of
           None \<Rightarrow> url_pairs rest
         | Some (k, v, left) \<Rightarrow> (k, v) # url_pairs left))"
  by pat_completeness auto
termination
  by (relation "measure length") (auto dest: match_pair_shorter)

declare url_pairs.simps [simp del]

definition getURLVars :: "page \<Rightarrow> jsobj" where
  "getURLVars p = fold (\<lambda>(k, v). set_prop k (JStr v)) (url_pairs (href p)) []"

definition build_proxy_socket_url :: "page \<Rightarrow> string" where
  "build_proxy_socket_url p =
     (let v = get_prop (getURLVars p) ''id''
      in build_sock_addr p @ ''/proxysocket/?id='' @ (if nullish v then ''0'' else to_str v))"

section \<open>Sockets, timers, requests\<close>

definition new_sock :: "sock_kind \<Rightarrow> page \<Rightarrow> page" where
  "new_sock k p = p\<lparr>sockets := sockets p @
     [\<lparr>kind = k, sock_url = build_proxy_socket_url p, ready = Connecting, outbox = [], this_timer = None\<rparr>]\<rparr>"

definition update_sock :: "nat \<Rightarrow> (sock \<Rightarrow> sock) \<Rightarrow> page \<Rightarrow> page" where
  "update_sock s f p = p\<lparr>sockets := (sockets p)[s := f (sockets p ! s)]\<rparr>"

text \<open>\<open>send\<close> throws while connecting and drops the data once the socket closes.\<close>

definition socket_send :: "nat \<Rightarrow> string \<Rightarrow> page stmt" where
  "socket_send s msg = bind_val (\<lambda>p. ready (sockets p ! s)) (\<lambda>st. case st of
       Connecting \<Rightarrow> throw InvalidStateError
     | Open \<Rightarrow> upd (update_sock s (\<lambda>k. k\<lparr>outbox := outbox k @ [msg]\<rparr>))
     | _ \<Rightarrow> skip)"

definition socket_close :: "nat \<Rightarrow> page \<Rightarrow> page" where
  "socket_close s = update_sock s (\<lambda>k. k\<lparr>ready := (if ready k = Closed then Closed else Closing)\<rparr>)"

definition clear_interval :: "nat \<Rightarrow> page \<Rightarrow> page" where
  "clear_interval i p = p\<lparr>intervals := filter (\<lambda>(j, _). j \<noteq> i) (intervals p)\<rparr>"

definition set_interval :: "interval_job \<Rightarrow> page \<Rightarrow> page" where
  "set_interval job p = p\<lparr>intervals := intervals p @ [(next_interval p, job)], next_interval := Suc (next_interval p)\<rparr>"

definition on_dom :: "dom stmt \<Rightarrow> page stmt" where
  "on_dom = on_part page_dom page_dom_update"

text \<open>
  Running a method of the reader. The acknowledgement callbacks it called are sends on their
  sockets, which are open: they are called from the handler of a message.
\<close>

definition deliver :: "nat list \<Rightarrow> page \<Rightarrow> page" where
  "deliver socks p = fold (\<lambda>s p. snd (socket_send s ''ack'' p)) socks p"

definition on_reader :: "tr stmt \<Rightarrow> page stmt" where
  "on_reader m p = (let (x, r) = m (reader p) in (x, deliver (acks r) (p\<lparr>reader := r\<lparr>acks := []\<rparr>\<rparr>)))"

definition close_and_remove_timer_from_list :: "nat option \<Rightarrow> page \<Rightarrow> page" where
  "close_and_remove_timer_from_list timer p = (case timer of
       None \<Rightarrow> p
     | Some t \<Rightarrow> (clear_interval t p)\<lparr>timers := filter (\<lambda>e. e \<noteq> t) (timers p)\<rparr>)"

definition fetch_old_session_list :: "page \<Rightarrow> page" where
  "fetch_old_session_list p = p\<lparr>requests := requests p @
     [OldSessions (''/sessions/.session_list?t='' @ string_of_int (clock (reader p)))]\<rparr>"

text \<open>The function the query socket runs every ten seconds, and once at its start.\<close>

definition query_poll :: "nat \<Rightarrow> page stmt" where
  "query_poll s = block
    [upd (page_dom_update empty_session_list),
     socket_send s ''list-active'',
     upd fetch_old_session_list]"

text \<open>The function of the interval of \<open>list_session\<close>.\<close>

definition list_poll :: "nat \<Rightarrow> string \<Rightarrow> page stmt" where
  "list_poll s viewer_key = block
    [upd (page_dom_update empty_session_list),
     socket_send s ''viewer-list'',
     socket_send s viewer_key]"

fun interval_body :: "interval_job \<Rightarrow> page stmt" where
  "interval_body (QueryPoll s) = query_poll s"
| "interval_body (ListPoll s viewer_key) = list_poll s viewer_key"

text \<open>\<open>run_timer(fn)\<close>: run the function, then repeat it; the socket remembers the timer.\<close>

definition run_timer :: "nat \<Rightarrow> interval_job \<Rightarrow> page stmt" where
  "run_timer s job = block
    [interval_body job,
     bind_val next_interval (\<lambda>t. block
       [upd (set_interval job),
        upd (\<lambda>p. p\<lparr>timers := timers p @ [t]\<rparr>),
        upd (update_sock s (\<lambda>k. k\<lparr>this_timer := Some t\<rparr>))])]"

definition remove_timers :: "page \<Rightarrow> page" where
  "remove_timers p = (fold clear_interval (rev (timers p)) p)\<lparr>timers := []\<rparr>"

definition close_query_sockets :: "page \<Rightarrow> page" where
  "close_query_sockets p = (fold socket_close (rev (active_query_sockets p)) p)\<lparr>active_query_sockets := []\<rparr>"

definition reset_timers_and_query_sockets :: "page stmt" where
  "reset_timers_and_query_sockets = block [upd close_query_sockets, upd remove_timers]"

definition close_session_sockets :: "page \<Rightarrow> page" where
  "close_session_sockets p =
     (fold socket_close (map snd (active_session_sockets p)) p)\<lparr>active_session_sockets := []\<rparr>"

section \<open>Opening sockets and requests\<close>

definition init_query_socket :: "page stmt" where
  "init_query_socket = bind_val (\<lambda>p. length (sockets p)) (\<lambda>s. block
    [upd (new_sock QuerySock),
     upd (\<lambda>p. p\<lparr>active_query_sockets := active_query_sockets p @ [s]\<rparr>)])"

definition run_session_from_socket :: "jsval \<Rightarrow> bool \<Rightarrow> page stmt" where
  "run_session_from_socket sess viewer_mode = bind_val (\<lambda>p. length (sockets p)) (\<lambda>s. block
    [upd (new_sock (SessionSock sess viewer_mode)),
     bind_exp (\<lambda>_. get_str sess ''key'') (\<lambda>key.
       upd (\<lambda>p. p\<lparr>active_session_sockets := AList.update key s (active_session_sockets p)\<rparr>))])"

text \<open>The link to mark is computed by the callers, before the call.\<close>

definition mark :: "nat option \<Rightarrow> page \<Rightarrow> page" where
  "mark target = page_dom_update (mark_selected (\<lambda>i. target = Some i))"

definition get_session_from_socket :: "jsval \<Rightarrow> nat option \<Rightarrow> page stmt" where
  "get_session_from_socket sess target = block
    [upd (mark target),
     upd close_session_sockets,
     on_reader (reset False),
     bind_exp (\<lambda>_. read_prop sess ''secret'') (\<lambda>secret.
       run_session_from_socket sess (\<not> nullish secret))]"

definition list_session :: "string \<Rightarrow> bool \<Rightarrow> string \<Rightarrow> bool \<Rightarrow> page stmt" where
  "list_session viewer_key auto_play session_key use_viewer =
     upd (new_sock (ListSock viewer_key auto_play session_key use_viewer))"

definition list_viewer_session :: "string \<Rightarrow> bool \<Rightarrow> string \<Rightarrow> page stmt" where
  "list_viewer_session viewer_key auto_play session_key = list_session viewer_key auto_play session_key True"

definition list_viewer_session_and_add_to_list :: "string \<Rightarrow> page stmt" where
  "list_viewer_session_and_add_to_list viewer_key = list_viewer_session viewer_key False []"

definition list_viewer_session_and_play_first_item :: "string \<Rightarrow> page stmt" where
  "list_viewer_session_and_play_first_item viewer_key = list_viewer_session viewer_key True []"

definition list_viewer_session_and_play_key :: "string \<Rightarrow> string \<Rightarrow> page stmt" where
  "list_viewer_session_and_play_key viewer_key session_key = list_viewer_session viewer_key True session_key"

definition list_and_play_session :: "string \<Rightarrow> page stmt" where
  "list_and_play_session session_key = list_session [] True session_key False"

definition fetch_session_json_and_update_link :: "string \<Rightarrow> nat option \<Rightarrow> page stmt" where
  "fetch_session_json_and_update_link filepath target = block
    [upd (mark target),
     upd (\<lambda>p. p\<lparr>requests := requests p @ [SessionFile filepath]\<rparr>)]"

section \<open>The address bar\<close>

definition hash_anchor :: "page \<Rightarrow> exn + nat option" where
  "hash_anchor p = first_anchor (location_hash (page_dom p)) (page_dom p)"

text \<open>\<open>hash.slice(1).split("&")\<close>, for a fragment with an ampersand in it.\<close>

definition hash_action :: "string \<Rightarrow> (string \<times> string) option" where
  "hash_action h = (if h \<noteq> [] \<and> CHR ''&'' \<in> set h
     then (case split_on (CHR ''&'') (drop 1 h) of a # k # _ \<Rightarrow> Some (a, k) | [a] \<Rightarrow> Some (a, ''undefined'') | [] \<Rightarrow> None)
     else None)"

definition read_hashes :: "bool \<Rightarrow> page stmt" where
  "read_hashes standalone = block
    [if standalone then skip else reset_timers_and_query_sockets,
     bind_val (\<lambda>p. hash_action (location_hash (page_dom p))) (\<lambda>action.
       let query = (if standalone then skip else init_query_socket) in
       case action of
         None \<Rightarrow> query
       | Some (action_type, action_key) \<Rightarrow>
           if action_type = ''live'' then block [list_and_play_session action_key, query]
           else if action_type = ''replay'' then block
             [bind_exp hash_anchor (\<lambda>a. fetch_session_json_and_update_link (''sessions/'' @ action_key) a), query]
           else if action_type = ''signed-viewer'' then
             (case split_on (CHR ''/'') action_key of
                viewer_key # viewer_session # _ \<Rightarrow> block
                  [list_viewer_session_and_play_key viewer_key viewer_session,
                   if standalone then skip else list_viewer_session_and_add_to_list viewer_key]
              | _ \<Rightarrow> if standalone then skip else list_viewer_session_and_add_to_list action_key)
           else if action_type = ''signed-session'' then list_viewer_session_and_play_first_item action_key
           else query)]"

section \<open>Replaying a session from a file\<close>

text \<open>
  The elements a loop \<open>for (i = 0; i < v.length; i++) ... v[i]\<close> sees; an object has none, as the
  server sends none with a length.
\<close>

definition elems_of :: "jsval \<Rightarrow> exn + jsval list" where
  "elems_of v = (case v of
       JArr vs \<Rightarrow> Inr vs
     | JStr s \<Rightarrow> Inr (map (\<lambda>c. JStr [c]) s)
     | JUndef \<Rightarrow> Inl TypeError
     | JNull \<Rightarrow> Inl TypeError
     | _ \<Rightarrow> Inr [])"

text \<open>The loop: start events are merged into the session, all others are queued.\<close>

fun collect_events :: "jsval list \<Rightarrow> jsobj \<Rightarrow> jsobj list \<Rightarrow> exn + (jsobj \<times> jsobj list)" where
  "collect_events [] sess queue = Inr (sess, queue)"
| "collect_events (blob # blobs) sess queue = (case read_prop blob ''type'' of
       Inl e \<Rightarrow> Inl e
     | Inr t \<Rightarrow>
         if t = JStr ''session-start'' then
           (case object_entries blob of
              Inl e \<Rightarrow> Inl e
            | Inr kvs \<Rightarrow> collect_events blobs (object_assign (object_assign [] sess) kvs) queue)
         else (case new_event blob of
              Inl e \<Rightarrow> Inl e
            | Inr ev \<Rightarrow> collect_events blobs sess (queue @ [ev])))"

definition fresh_session :: jsobj where
  "fresh_session = [(''requests'', JArr []), (''feed_type'', JStr ''old'')]"

definition replay_session_event_list :: "jsval \<Rightarrow> page stmt" where
  "replay_session_event_list data = block
    [on_reader (reset False),
     bind_exp (\<lambda>_. elems_of data) (\<lambda>blobs.
     bind_exp (\<lambda>_. collect_events blobs fresh_session []) (\<lambda>(sess, queue). block
       [on_reader (load_events queue),
        on_reader (update_session sess),
        on_reader play]))]"

section \<open>The handlers of the sockets\<close>

definition send_value :: "nat \<Rightarrow> jsval \<Rightarrow> string \<Rightarrow> page stmt" where
  "send_value s obj k = bind_exp (\<lambda>_. get_str obj k) (socket_send s)"

fun on_open :: "nat \<Rightarrow> sock_kind \<Rightarrow> page stmt" where
  "on_open s QuerySock = block
    [upd (page_dom_update empty_session_list),
     upd (\<lambda>p. p\<lparr>container_live := True\<rparr>),
     run_timer s (QueryPoll s)]"
| "on_open s (SessionSock sess viewer_mode) =
     bind_exp (\<lambda>_. read_prop sess ''active'') (\<lambda>active. block
      [if truthy active then on_reader set_session_mode_live
       else block [on_reader set_session_mode_disconnected, on_reader pause],
       if viewer_mode then block [socket_send s ''viewer-get'', send_value s sess ''secret'']
       else socket_send s ''get'',
       send_value s sess ''key''])"
| "on_open s (ListSock viewer_key auto_play session_key use_viewer) = block
    [if use_viewer then block [socket_send s ''viewer-list'', socket_send s viewer_key]
     else socket_send s ''list-active'',
     upd (page_dom_update empty_session_list),
     if auto_play then skip
     else bind_val next_interval (\<lambda>t. block
       [upd (set_interval (ListPoll s viewer_key)),
        upd (update_sock s (\<lambda>k. k\<lparr>this_timer := Some t\<rparr>)),
        upd (\<lambda>p. p\<lparr>active_query_sockets := active_query_sockets p @ [s]\<rparr>)])]"

text \<open>The session object for a key: the one with that key, else the first.\<close>

fun find_key :: "string \<Rightarrow> jsval list \<Rightarrow> exn + jsval option" where
  "find_key key [] = Inr None"
| "find_key key (v # vs) = (case read_prop v ''key'' of
       Inl e \<Rightarrow> Inl e
     | Inr k \<Rightarrow> if eq_str k key then Inr (Some v) else find_key key vs)"

definition pick_session :: "string \<Rightarrow> jsval list \<Rightarrow> exn + jsval" where
  "pick_session key vs = (if key = [] then Inr (hd vs)
     else case find_key key vs of
         Inl e \<Rightarrow> Inl e
       | Inr None \<Rightarrow> Inr (hd vs)
       | Inr (Some v) \<Rightarrow> Inr v)"

definition with_secret :: "string \<Rightarrow> jsval \<Rightarrow> exn + jsval" where
  "with_secret viewer_key v = (case read_prop v ''secret'' of
       Inl e \<Rightarrow> Inl e
     | Inr old \<Rightarrow> Inr (if nullish old then set_member v ''secret'' (JStr viewer_key) else v))"

fun map_exn :: "('a \<Rightarrow> exn + 'b) \<Rightarrow> 'a list \<Rightarrow> exn + 'b list" where
  "map_exn f [] = Inr []"
| "map_exn f (x # xs) = (case f x of
       Inl e \<Rightarrow> Inl e
     | Inr y \<Rightarrow> (case map_exn f xs of Inl e \<Rightarrow> Inl e | Inr ys \<Rightarrow> Inr (y # ys)))"

text \<open>
  A message that is not JSON is logged and dropped. The answer to \<open>list_session\<close> may set the
  address bar and read it at once, always as the live page does.
\<close>

definition on_list_answer :: "nat \<Rightarrow> string \<Rightarrow> bool \<Rightarrow> string \<Rightarrow> bool \<Rightarrow> jsval list \<Rightarrow> page stmt" where
  "on_list_answer s viewer_key auto_play session_key use_viewer vs =
     (if auto_play then
        if vs \<noteq> [] then
          bind_exp (\<lambda>_. pick_session session_key vs) (\<lambda>sess.
          bind_exp hash_anchor (\<lambda>a. block
            [get_session_from_socket sess a,
             upd (socket_close s)]))
        else if session_key \<noteq> [] \<and> \<not> use_viewer then block
            [upd (\<lambda>p. p\<lparr>page_dom := (page_dom p)
               \<lparr>location_hash := encode_hash p (''#replay&'' @ session_key @ ''.log.json'')\<rparr>\<rparr>),
             read_hashes False,
             upd (socket_close s)]
        else skip
      else bind_exp (\<lambda>_. map_exn (with_secret viewer_key) vs) (\<lambda>vs'.
        on_dom (add_viewer_session_to_list vs')))"

definition on_session_chunk :: "nat \<Rightarrow> jsval \<Rightarrow> jsval \<Rightarrow> page stmt" where
  "on_session_chunk s sess chunk =
     bind_exp (\<lambda>_. new_event chunk) (\<lambda>ev.
     bind_exp (\<lambda>_. read_prop sess ''active'') (\<lambda>active.
     bind_exp (\<lambda>_. read_prop chunk ''type'') (\<lambda>chunk_type. block
      [on_reader (load_events [ev]),
       if truthy active then on_reader (process_next_event (Some (AckCallback s)))
       else socket_send s ''ack'',
       if eq_str chunk_type ''session-stop'' then block
         [upd (socket_close s),
          if truthy active then block [upd (socket_close s), on_reader set_session_mode_disconnected]
          else on_reader play]
       else skip])))"

fun on_message :: "nat \<Rightarrow> sock_kind \<Rightarrow> string \<Rightarrow> page stmt" where
  "on_message s k msg = (case json_parse msg of
       Inl e \<Rightarrow> skip
     | Inr data \<Rightarrow> (case k of
           QuerySock \<Rightarrow> bind_exp (\<lambda>_. elems_of data) (\<lambda>vs. on_dom (add_session_to_list vs))
         | SessionSock sess viewer_mode \<Rightarrow> on_session_chunk s sess data
         | ListSock viewer_key auto_play session_key use_viewer \<Rightarrow>
             bind_exp (\<lambda>_. elems_of data) (on_list_answer s viewer_key auto_play session_key use_viewer)))"

definition on_close :: "nat \<Rightarrow> page stmt" where
  "on_close s = bind_val (\<lambda>p. sockets p ! s) (\<lambda>k. case kind k of
       QuerySock \<Rightarrow> block
         [upd (\<lambda>p. p\<lparr>container_live := False\<rparr>), upd (close_and_remove_timer_from_list (this_timer k))]
     | ListSock _ _ _ _ \<Rightarrow> upd (close_and_remove_timer_from_list (this_timer k))
     | SessionSock _ _ \<Rightarrow> skip)"

section \<open>Starting the pages\<close>

definition resize_terminal_to_window :: "page stmt" where
  "resize_terminal_to_window =
     bind_val (\<lambda>p. (max_terminal_width (reader p), max_terminal_height (reader p)))
       (\<lambda>(w, h). on_reader (resize_by_pixels w h))"

definition live_ready :: "page stmt" where
  "live_ready = block [on_reader initialize, read_hashes False]"

definition standalone_ready :: "page stmt" where
  "standalone_ready = block
    [on_reader disable_resize,
     on_reader initialize,
     read_hashes True,
     upd (fit_scheduled_update (\<lambda>_. True))]"

text \<open>A page before its start-up code runs.\<close>

definition new_page :: "bool \<Rightarrow> string \<Rightarrow> string \<Rightarrow> string \<Rightarrow> (string \<Rightarrow> string) \<Rightarrow> (string \<Rightarrow> exn + (string \<Rightarrow> bool)) \<Rightarrow>
    (jsnum \<Rightarrow> jsnum \<Rightarrow> jsnum \<times> jsnum) \<Rightarrow> jsnum \<Rightarrow> jsnum \<Rightarrow> int \<Rightarrow> page" where
  "new_page alone org base h enc sel fit ww wh now = \<lparr>reader = new_reader ''terminal_reader'' fit ww wh now,
     page_dom = \<lparr>location_hash = h, active_links = [], old_links = [], odd_selector = sel\<rparr>,
     origin = org, base_url = base, encode_hash = enc, container_live = False, sockets = [],
     active_session_sockets = [], active_query_sockets = [], timers = [], intervals = [],
     next_interval = 1, requests = [], standalone_page = alone, fit_scheduled = False\<rparr>"

section \<open>What happens to a page\<close>

datatype page_event =
    Navigate string          \<comment> \<open>the address bar changes, by a link or by hand\<close>
  | HashChanged              \<comment> \<open>the browser reports a change made by the program\<close>
  | SocketOpens nat
  | SocketReceives nat string
  | SocketCloses nat
  | IntervalFires nat
  | RequestDone nat string   \<comment> \<open>the text of the answer\<close>
  | ReaderControl control
  | ReaderTimer
  | WindowResized jsnum jsnum
  | FitTimeout               \<comment> \<open>\<open>setTimeout(resize_terminal_to_window, 100)\<close>\<close>

definition take_request :: "nat \<Rightarrow> page \<Rightarrow> page" where
  "take_request i p = p\<lparr>requests := take i (requests p) @ drop (Suc i) (requests p)\<rparr>"

definition on_answer :: "request \<Rightarrow> string \<Rightarrow> page stmt" where
  "on_answer r answer = (case r of
       OldSessions url \<Rightarrow> on_dom (update_old_session_list answer)
     | SessionFile path \<Rightarrow> (case json_parse answer of
           Inl e \<Rightarrow> skip
         | Inr data \<Rightarrow> replay_session_event_list data))"

definition set_ready :: "nat \<Rightarrow> ready_state \<Rightarrow> page \<Rightarrow> page" where
  "set_ready s st = update_sock s (\<lambda>k. k\<lparr>ready := st\<rparr>)"

fun page_handler :: "page_event \<Rightarrow> page stmt" where
  "page_handler (Navigate h) = block
    [upd (page_dom_update (location_hash_update (\<lambda>_. h))), bind_val standalone_page read_hashes]"
| "page_handler HashChanged = bind_val standalone_page read_hashes"
| "page_handler (SocketOpens s) =
     guard (\<lambda>p. s < length (sockets p) \<and> ready (sockets p ! s) = Connecting)
       (block [upd (set_ready s Open), bind_val (\<lambda>p. kind (sockets p ! s)) (on_open s)])"
| "page_handler (SocketReceives s msg) =
     guard (\<lambda>p. s < length (sockets p) \<and> ready (sockets p ! s) = Open)
       (bind_val (\<lambda>p. kind (sockets p ! s)) (\<lambda>k. on_message s k msg))"
| "page_handler (SocketCloses s) =
     guard (\<lambda>p. s < length (sockets p) \<and> ready (sockets p ! s) \<noteq> Closed)
       (block [upd (set_ready s Closed), on_close s])"
| "page_handler (IntervalFires i) =
     bind_val (\<lambda>p. map_of (intervals p) i) (\<lambda>job. case job of None \<Rightarrow> skip | Some j \<Rightarrow> interval_body j)"
| "page_handler (RequestDone i answer) =
     guard (\<lambda>p. i < length (requests p))
       (bind_val (\<lambda>p. requests p ! i) (\<lambda>r. block [upd (take_request i), on_answer r answer]))"
| "page_handler (ReaderControl c) = on_reader (control_handler c)"
| "page_handler ReaderTimer = on_reader fire_first"
| "page_handler (WindowResized w h) = block
    [upd (reader_update (\<lambda>r. r\<lparr>win_width := w, win_height := h\<rparr>)),
     bind_val standalone_page (\<lambda>alone. if alone then resize_terminal_to_window else skip)]"
| "page_handler FitTimeout =
     guard fit_scheduled (block [upd (fit_scheduled_update (\<lambda>_. False)), resize_terminal_to_window])"

end
