(* ===== verification/Session_Props.thy ===== *)
theory Session_Props
  imports Session_List
begin

text \<open>
  What the session lists show after the server's answers: no link twice, nothing changed by the
  same answer again, and two cases in which a session does not appear.
\<close>

section \<open>A store of links\<close>

text \<open>
  The interface the list functions rely on: entries with an address are added unless one is
  shown already, where an address that is in the store is shown, and more links show more.
\<close>

locale link_store =
  fixes ok :: "'e \<Rightarrow> bool" and addr :: "'e \<Rightarrow> string" and add :: "'e \<Rightarrow> 's \<Rightarrow> 's"
    and hrefs :: "'s \<Rightarrow> string list" and shown :: "string \<Rightarrow> 's \<Rightarrow> bool"
  assumes add_shown: "ok e \<Longrightarrow> shown (addr e) s \<Longrightarrow> hrefs (add e s) = hrefs s"
    and add_new: "ok e \<Longrightarrow> \<not> shown (addr e) s \<Longrightarrow> set (hrefs (add e s)) = insert (addr e) (set (hrefs s))"
    and add_distinct: "ok e \<Longrightarrow> \<not> shown (addr e) s \<Longrightarrow> distinct (hrefs s) \<Longrightarrow> distinct (hrefs (add e s))"
    and href_shown: "ok e \<Longrightarrow> addr e \<in> set (hrefs s) \<Longrightarrow> shown (addr e) s"
    and shown_mono: "shown h s \<Longrightarrow> set (hrefs s) \<subseteq> set (hrefs t) \<Longrightarrow> shown h t"
begin

definition add_all :: "'e list \<Rightarrow> 's \<Rightarrow> 's" where
  "add_all es s = fold add es s"

lemma add_all_Cons [simp]: "add_all (e # es) s = add_all es (add e s)"
  and add_all_Nil [simp]: "add_all [] s = s"
  by (simp_all add: add_all_def)

lemma add_keeps: "ok e \<Longrightarrow> set (hrefs s) \<subseteq> set (hrefs (add e s))"
  using add_shown [of e s] add_new [of e s] by (cases "shown (addr e) s") auto

lemma add_shows: "ok e \<Longrightarrow> shown (addr e) (add e s)"
proof (cases "shown (addr e) s")
  case True
  assume "ok e"
  from shown_mono [OF True add_keeps [OF this]] show ?thesis .
next
  case False
  assume "ok e"
  with add_new [OF this False] show ?thesis by (intro href_shown) auto
qed

lemma add_all_keeps: "list_all ok es \<Longrightarrow> set (hrefs s) \<subseteq> set (hrefs (add_all es s))"
  by (induction es arbitrary: s) (auto dest: add_keeps)

lemma add_only: "ok e \<Longrightarrow> set (hrefs (add e s)) \<subseteq> insert (addr e) (set (hrefs s))"
  using add_shown [of e s] add_new [of e s] by (cases "shown (addr e) s") auto

lemma add_all_only: "list_all ok es \<Longrightarrow> set (hrefs (add_all es s)) \<subseteq> set (hrefs s) \<union> addr ` set es"
proof (induction es arbitrary: s)
  case (Cons e es)
  then have "set (hrefs (add_all es (add e s))) \<subseteq> set (hrefs (add e s)) \<union> addr ` set es" by simp
  with add_only [of e s] Cons.prems show ?case by auto
qed simp

lemma add_all_distinct: "list_all ok es \<Longrightarrow> distinct (hrefs s) \<Longrightarrow> distinct (hrefs (add_all es s))"
proof (induction es arbitrary: s)
  case (Cons e es)
  then have "distinct (hrefs (add e s))"
    using add_shown [of e s] add_distinct [of e s] by (cases "shown (addr e) s") auto
  with Cons show ?case by simp
qed simp

lemma add_all_shows: "list_all ok es \<Longrightarrow> e \<in> set es \<Longrightarrow> shown (addr e) (add_all es s)"
proof (induction es arbitrary: s)
  case (Cons f es)
  show ?case
  proof (cases "e \<in> set es")
    case True
    with Cons show ?thesis by simp
  next
    case False
    with Cons.prems have "e = f" "ok f" by auto
    have "list_all ok es" using Cons.prems by simp
    from shown_mono [OF add_shows [OF \<open>ok f\<close>] add_all_keeps [OF this]]
    show ?thesis by (simp add: \<open>e = f\<close>)
  qed
qed simp

lemma add_all_again: "list_all ok es \<Longrightarrow> (\<And>e. e \<in> set es \<Longrightarrow> shown (addr e) s) \<Longrightarrow> hrefs (add_all es s) = hrefs s"
proof (induction es arbitrary: s)
  case (Cons e es)
  have same: "hrefs (add e s) = hrefs s" using Cons.prems by (intro add_shown) auto
  have "shown (addr f) (add e s)" if "f \<in> set es" for f
    using shown_mono [of "addr f" s "add e s"] Cons.prems that same by auto
  with Cons same show ?case by simp
qed simp

text \<open>Adding the same entries once more changes nothing.\<close>

lemma add_all_idem: "list_all ok es \<Longrightarrow> hrefs (add_all es (add_all es s)) = hrefs (add_all es s)"
  by (rule add_all_again) (auto intro: add_all_shows)

end

section \<open>The session lists are such a store\<close>

definition hrefs :: "dom \<Rightarrow> string list" where
  "hrefs d = map link_href (all_links d)"

definition shown :: "string \<Rightarrow> dom \<Rightarrow> bool" where
  "shown h d \<longleftrightarrow> (\<exists>s \<in> set (hrefs d). contains h s)"

lemma hrefs_on_links [simp]:
  "(\<And>l. link_href (f l) = link_href l) \<Longrightarrow> hrefs (on_links f d) = hrefs d"
  by (simp add: hrefs_def all_links_def on_links_def comp_def)

lemma select_href [simp]: "link_href (if b then select_link l else l) = link_href l"
  by (simp add: select_link_def)

lemma hrefs_prepend: "set (hrefs (prepend_link i l d)) = insert (link_href l) (set (hrefs d))"
  "distinct (hrefs (prepend_link i l d)) \<longleftrightarrow> link_href l \<notin> set (hrefs d) \<and> distinct (hrefs d)"
  by (auto simp: prepend_link_def hrefs_def all_links_def split: list_id.splits)

text \<open>An entry: a session object, the address of its link, the list it goes to.\<close>

type_synonym entry = "jsobj \<times> string \<times> list_id"

fun entry_ok :: "entry \<Rightarrow> bool" where
  "entry_ok (obj, h, i) = (h \<noteq> [] \<and> plain_needle h)"

fun entry_addr :: "entry \<Rightarrow> string" where
  "entry_addr (obj, h, i) = h"

fun add_entry :: "entry \<Rightarrow> dom \<Rightarrow> dom" where
  "add_entry (obj, h, i) d = snd (add_link_to_list (JObj obj) h i d)"

lemma add_link_plain:
  assumes "h \<noteq> []" "plain_needle h"
  shows "add_link_to_list (JObj obj) h i d =
    (None, if shown h d then (if h = location_hash d
        then on_links (\<lambda>l. if h \<noteq> [] \<and> contains h (link_href l) then select_link l else l) d else d)
      else prepend_link i \<lparr>link_href = h, link_text = text_of (get_prop obj ''display_text''),
        link_selected = (h = location_hash d)\<rparr> d)"
  using assms by (auto simp: add_link_to_list_def selector_def stmt_simps shown_def hrefs_def)

interpretation links: link_store entry_ok entry_addr add_entry hrefs shown
proof
  fix e :: entry and s t :: dom and h
  obtain obj g i where e: "e = (obj, g, i)" by (cases e)
  show "hrefs (add_entry e s) = hrefs s" if "entry_ok e" "shown (entry_addr e) s"
    using that by (simp add: e add_link_plain)
  show "set (hrefs (add_entry e s)) = insert (entry_addr e) (set (hrefs s))"
    if "entry_ok e" "\<not> shown (entry_addr e) s"
    using that by (simp add: e add_link_plain hrefs_prepend)
  show "distinct (hrefs (add_entry e s))" if "entry_ok e" "\<not> shown (entry_addr e) s" "distinct (hrefs s)"
    using that by (auto simp: e add_link_plain hrefs_prepend shown_def)
  show "shown (entry_addr e) s" if "entry_ok e" "entry_addr e \<in> set (hrefs s)"
    using that contains_refl by (force simp: e shown_def)
  show "shown h t" if "shown h s" "set (hrefs s) \<subseteq> set (hrefs t)"
    using that by (auto simp: shown_def)
qed

section \<open>The active sessions\<close>

text \<open>An active session as the server describes it, with a key that is fit for a selector.\<close>

definition live_addr :: "jsobj \<Rightarrow> string" where
  "live_addr obj = ''#live&'' @ to_str (get_prop obj ''key'')"

definition live_session :: "jsobj \<Rightarrow> bool" where
  "live_session obj \<longleftrightarrow> truthy (get_prop obj ''active'') \<and> plain_needle (live_addr obj) \<and>
     \<not> isl (session_label (JObj obj))"

definition live_entry :: "jsobj \<Rightarrow> entry" where
  "live_entry obj = (if nullish (get_prop obj ''display_text'')
     then set_prop ''display_text'' (JStr (projr (session_label (JObj obj)))) obj else obj, live_addr obj, SessionList)"

lemma live_entry_ok: "live_session obj \<Longrightarrow> entry_ok (live_entry obj)"
  by (simp add: live_entry_def live_session_def live_addr_def)

lemma live_entry_addr [simp]: "entry_addr (live_entry obj) = live_addr obj"
  by (simp add: live_entry_def)

lemma add_link_total:
  assumes "h \<noteq> []" "plain_needle h"
  shows "add_link_to_list (JObj obj) h i d = (None, add_entry (obj, h, i) d)"
  using add_link_plain [OF assms] by simp

lemma place_live:
  assumes "live_session obj"
  shows "place_session (JObj obj) (live_addr obj) SessionList d = (None, add_entry (live_entry obj) d)"
proof -
  have "live_addr obj \<noteq> []" "plain_needle (live_addr obj)"
    using assms by (simp_all add: live_session_def live_addr_def)
  note add = add_link_total [OF this]
  show ?thesis
    using assms by (cases "session_label (JObj obj)")
      (simp_all add: place_session_def live_entry_def bind_exp_def set_member_def add live_session_def
        del: add_entry.simps)
qed

lemma add_live_sessions:
  "list_all live_session objs \<Longrightarrow>
    add_session_to_list (map JObj objs @ rest) d =
    add_session_to_list rest (links.add_all (map live_entry objs) d)"
proof (induction objs arbitrary: d)
  case (Cons obj objs)
  then have "live_session obj" by simp
  have "add_session_to_list (map JObj (obj # objs) @ rest) d =
      seq (place_session (JObj obj) (live_addr obj) SessionList) (add_session_to_list (map JObj objs @ rest)) d"
    using \<open>live_session obj\<close> by (simp add: bind_exp_def get_str_def live_session_def live_addr_def)
  also have "\<dots> = add_session_to_list (map JObj objs @ rest) (add_entry (live_entry obj) d)"
    by (rule seq_None [OF place_live [OF \<open>live_session obj\<close>]])
  finally show ?case using Cons by simp
qed simp

lemma add_live_all:
  "list_all live_session objs \<Longrightarrow>
    add_session_to_list (map JObj objs) d = (None, links.add_all (map live_entry objs) d)"
  using add_live_sessions [of objs "[]" d] by (simp add: skip_def)

lemma live_entries_ok: "list_all live_session objs \<Longrightarrow> list_all entry_ok (map live_entry objs)"
  by (auto simp: list_all_iff live_entry_ok)

text \<open>A session whose address is part of no other one, neither of a link nor of another session.\<close>

definition apart :: "jsobj list \<Rightarrow> dom \<Rightarrow> jsobj \<Rightarrow> bool" where
  "apart objs d obj \<longleftrightarrow> list_all (\<lambda>a. a = live_addr obj \<or> \<not> contains (live_addr obj) a) (hrefs d @ map live_addr objs)"

text \<open>
  C19. The server's list of active sessions is shown without exception: afterwards every session
  whose address is not part of another one has a link with exactly its address, and every other
  session's address is part of a link's at least; no link is gone, no link is new but those of the
  sessions, none is there twice; and the same answer once more adds nothing.
\<close>

theorem active_sessions_listed:
  assumes "list_all live_session objs" "distinct (hrefs d)"
  shows "\<exists>d'. add_session_to_list (map JObj objs) d = (None, d') \<and> distinct (hrefs d') \<and>
    list_all (\<lambda>obj. live_addr obj \<in> set (hrefs d')) (filter (apart objs d) objs) \<and>
    list_all (\<lambda>obj. shown (live_addr obj) d') objs \<and>
    set (hrefs d) \<subseteq> set (hrefs d') \<and> set (hrefs d') \<subseteq> set (hrefs d) \<union> live_addr ` set objs \<and>
    (\<exists>d''. add_session_to_list (map JObj objs) d' = (None, d'') \<and> hrefs d'' = hrefs d')"
proof -
  note ok = live_entries_ok [OF assms(1)]
  define d' where "d' = links.add_all (map live_entry objs) d"
  have shows_all: "shown (live_addr obj) d'" if "obj \<in> set objs" for obj
    using links.add_all_shows [OF ok, of "live_entry obj" d] that by (simp add: d'_def)
  have only: "set (hrefs d') \<subseteq> set (hrefs d) \<union> live_addr ` set objs"
    using links.add_all_only [OF ok, of d] by (simp add: d'_def image_image)
  have own: "live_addr obj \<in> set (hrefs d')" if obj: "obj \<in> set objs" "apart objs d obj" for obj
  proof -
    obtain a where a: "a \<in> set (hrefs d')" "contains (live_addr obj) a" using shows_all [OF obj(1)] by (auto simp: shown_def)
    then have "a = live_addr obj" using only obj(2) by (fastforce simp: apart_def list_all_iff)
    with a(1) show ?thesis by simp
  qed
  have "hrefs (links.add_all (map live_entry objs) d') = hrefs d'" unfolding d'_def by (rule links.add_all_idem [OF ok])
  then show ?thesis
    using links.add_all_distinct [OF ok assms(2)] links.add_all_keeps [OF ok, of d] shows_all own only
    by (intro exI [of _ d']) (simp add: add_live_all [OF assms(1)] list_all_iff flip: d'_def)
qed

definition no_links :: dom where
  "no_links = \<lparr>location_hash = [], active_links = [], old_links = [], odd_selector = (\<lambda>_. Inl SelectorError)\<rparr>"

definition demo_session :: "string \<Rightarrow> jsobj" where
  "demo_session key = [(''active'', JBool True), (''key'', JStr key), (''length'', JNum (Fin 5))]"

lemma demo_label: "session_label (JObj (demo_session key)) = Inr (key @ '' (00:00:05)'')"
proof -
  have "seconds_to_str (num_of_int 5) = Inr (clock_text (5 mod 86400))"
    by (rule seconds_to_str_int) simp_all
  moreover have "clock_text (5 mod 86400) = ''00:00:05''" by code_simp
  ultimately show ?thesis by (simp add: session_label_def demo_session_def)
qed

lemma demo_addr [simp]: "live_addr (demo_session key) = ''#live&'' @ key"
  by (simp add: live_addr_def demo_session_def)

lemma demo_live: "plain_needle key \<Longrightarrow> live_session (demo_session key)"
proof -
  have "plain_needle ''#live&''" by code_simp
  then show "plain_needle key \<Longrightarrow> live_session (demo_session key)"
    by (auto simp: live_session_def demo_label plain_needle_def) (simp add: demo_session_def)
qed

lemma demo_session_keys: "plain_needle ''a1''" "plain_needle ''b2''" "plain_needle ''a''"
  by code_simp+

lemma no_links_hrefs [simp]: "hrefs no_links = []"
  by (simp add: no_links_def hrefs_def all_links_def)

lemma active_sessions_listed_witness:
  "\<exists>d'. add_session_to_list [JObj (demo_session ''a1''), JObj (demo_session ''b2'')] no_links = (None, d') \<and>
     distinct (hrefs d') \<and> set (hrefs d') = {''#live&a1'', ''#live&b2''}"
proof -
  have live: "list_all live_session [demo_session ''a1'', demo_session ''b2'']"
    by (simp add: demo_live demo_session_keys)
  have "apart [demo_session ''a1'', demo_session ''b2''] no_links (demo_session ''a1'')"
    "apart [demo_session ''a1'', demo_session ''b2''] no_links (demo_session ''b2'')"
    by (simp_all add: apart_def)
  with active_sessions_listed [OF live, of no_links] show ?thesis by fastforce
qed

section \<open>Sessions that do not appear\<close>

text \<open>
  C39. A session is not added when its address is merely part of another one's: if a link for a
  longer key that contains the session's key (with the kind before it) is there, the lists keep
  their addresses, and no link with the session's own address exists.
\<close>

theorem key_prefix_hides_session:
  assumes "live_session obj" "l \<in> set (all_links d)" "link_href l = live_addr obj @ more_key"
    and "live_addr obj \<notin> set (hrefs d)"
  shows "\<exists>d'. add_session_to_list [JObj obj] d = (None, d') \<and> hrefs d' = hrefs d \<and> live_addr obj \<notin> set (hrefs d')"
proof -
  have "contains (live_addr obj) (link_href l)"
    using assms(3) contains_append [of "live_addr obj" "[]" more_key] by simp
  then have "shown (live_addr obj) d" using assms(2) by (auto simp: shown_def hrefs_def)
  then have "hrefs (add_entry (live_entry obj) d) = hrefs d"
    using links.add_shown [OF live_entry_ok [OF assms(1)]] by simp
  moreover have "add_session_to_list [JObj obj] d = (None, add_entry (live_entry obj) d)"
    using add_live_all [of "[obj]" d] assms(1) by simp
  ultimately show ?thesis using assms(4) by simp
qed

lemma key_prefix_hides_session_witness:
  "\<exists>d'. add_session_to_list [JObj (demo_session ''a'')]
     (no_links\<lparr>active_links := [\<lparr>link_href = ''#live&a1'', link_text = ''a1'', link_selected = False\<rparr>]\<rparr>) = (None, d') \<and>
     hrefs d' = [''#live&a1'']"
  using key_prefix_hides_session [OF demo_live [OF demo_session_keys(3)],
      of "\<lparr>link_href = ''#live&a1'', link_text = ''a1'', link_selected = False\<rparr>"
        "no_links\<lparr>active_links := [\<lparr>link_href = ''#live&a1'', link_text = ''a1'', link_selected = False\<rparr>]\<rparr>" "''1''"]
  by (auto simp: no_links_def hrefs_def all_links_def simp del: add_session_to_list.simps)

text \<open>
  The first session in the server's list that is neither active nor stored in a file ends
  the update: the sessions after it are not looked at, active or not.
\<close>

theorem inactive_session_ends_update:
  assumes "list_all live_session objs"
    and "\<not> truthy (get_prop obj ''active'')" "nullish (get_prop obj ''filename'')"
  shows "add_session_to_list (map JObj objs @ JObj obj # rest) d = add_session_to_list (map JObj objs) d"
  using assms by (simp add: add_live_sessions add_live_all bind_exp_def skip_def)

lemma inactive_session_ends_update_witness:
  "add_session_to_list [JObj [(''key'', JStr ''old'')], JObj (demo_session ''a1'')] no_links = (None, no_links)"
  using inactive_session_ends_update [of "[]" "[(''key'', JStr ''old'')]" "[JObj (demo_session ''a1'')]" no_links]
  by (simp add: nullish_def skip_def)

section \<open>The list of recorded sessions\<close>

lemma split_lines:
  "list_all (\<lambda>l. CHR 0x0A \<notin> set l) ls \<Longrightarrow> ls \<noteq> [] \<Longrightarrow> split_on (CHR 0x0A) (join (CHR 0x0A) ls) = ls"
proof (induction ls)
  case (Cons l ls)
  then show ?case by (cases ls) (simp_all add: split_on_append)
qed simp

text \<open>
  C40. A line of the list of recorded sessions that is not JSON ends the update with an
  exception: the lines before it are done, those after it are lost.
\<close>

theorem bad_line_ends_update:
  assumes "list_all (\<lambda>l. CHR 0x0A \<notin> set l) (before @ bad # after)" "bad \<noteq> []" "json_parse bad = Inl e"
    and "for_each before old_session_line d = (None, d')"
  shows "update_old_session_list (join (CHR 0x0A) (before @ bad # after)) d = (Some e, d')"
proof -
  have "old_session_line bad d' = (Some e, d')"
    using assms(2,3) by (simp add: old_session_line_def throw_def)
  then show ?thesis
    using assms(1,4) unfolding update_old_session_list_def
    by (simp add: split_lines for_each_append seq_None seq_Some)
qed

lemma bad_line_ends_update_witness:
  "update_old_session_list (join (CHR 0x0A) ([[]] @ ''{'' # [''{}''])) no_links = (Some SyntaxError, no_links)"
proof -
  have "json_parse ''{'' = Inl SyntaxError" by code_simp
  then show ?thesis
    by (intro bad_line_ends_update) (simp_all add: old_session_line_def skip_def)
qed

text \<open>
  A recorded session whose link is on the page already is never marked as selected by the
  update of the list, not even when the address bar names it: the function compares the address
  bar with a path instead of the link's address.
\<close>

theorem old_session_never_selected:
  assumes "get_str obj ''filename'' = Inr filename" "plain_needle (''#replay&'' @ filename)"
    and "shown (''#replay&'' @ filename) d" "location_hash d = [] \<or> hd (location_hash d) = CHR ''#''"
  shows "add_old_session_to_list obj d = (None, d)"
proof -
  have "location_hash d \<noteq> ''sessions/'' @ filename" using assms(4) by auto
  moreover have "\<exists>l \<in> set (all_links d). contains (''#replay&'' @ filename) (link_href l)"
    using assms(3) by (auto simp: shown_def hrefs_def)
  ultimately show ?thesis
    using assms(1,2) by (simp add: add_old_session_to_list_def selector_def stmt_simps del: append_Cons append.simps)
qed

lemma old_session_never_selected_witness:
  "let d = no_links\<lparr>location_hash := ''#replay&f'',
     old_links := [\<lparr>link_href = ''#replay&f'', link_text = ''f'', link_selected = False\<rparr>]\<rparr>
   in add_old_session_to_list (JObj [(''filename'', JStr ''f'')]) d = (None, d)"
proof -
  have p: "plain_needle (''#replay&'' @ ''f'')" by code_simp
  show ?thesis
    unfolding Let_def
    by (rule old_session_never_selected [OF _ p])
       (simp_all add: get_str_def shown_def hrefs_def all_links_def no_links_def)
qed

end
