(* ===== verification/Page_Props.thy ===== *)
theory Page_Props
  imports Page Reader_Props Session_Props
begin

text \<open>
  The page as a whole: at most one session feeds the reader, the reader stays in step with its
  terminal, polling stops when the address changes, and what a change of address leaves open.
\<close>

section \<open>The session sockets\<close>

fun is_session :: "sock_kind \<Rightarrow> bool" where
  "is_session (SessionSock _ _) = True"
| "is_session _ = False"

definition feeding :: "sock \<Rightarrow> bool" where
  "feeding k \<longleftrightarrow> is_session (kind k) \<and> ready k \<in> {Connecting, Open}"

text \<open>Every session socket that is open, or will be, is in the table, which has one entry at most.\<close>

definition one_session :: "page \<Rightarrow> bool" where
  "one_session p \<longleftrightarrow> length (active_session_sockets p) \<le> 1 \<and>
     (\<forall>s \<in> snd ` set (active_session_sockets p). s < length (sockets p)) \<and>
     (\<forall>s < length (sockets p). feeding (sockets p ! s) \<longrightarrow> s \<in> snd ` set (active_session_sockets p))"

definition no_session :: "page \<Rightarrow> bool" where
  "no_session p \<longleftrightarrow> active_session_sockets p = [] \<and> (\<forall>s < length (sockets p). \<not> feeding (sockets p ! s))"

lemma no_session_one: "no_session p \<Longrightarrow> one_session p"
  by (auto simp: no_session_def one_session_def)

text \<open>A page on which the same sockets feed the reader, or fewer.\<close>

definition fewer :: "page \<Rightarrow> page \<Rightarrow> bool" where
  "fewer q p \<longleftrightarrow> active_session_sockets q = active_session_sockets p \<and> length (sockets q) = length (sockets p) \<and>
     (\<forall>s < length (sockets p). feeding (sockets q ! s) \<longrightarrow> feeding (sockets p ! s))"

lemma fewer_one: "fewer q p \<Longrightarrow> one_session p \<Longrightarrow> one_session q"
  and fewer_no: "fewer q p \<Longrightarrow> no_session p \<Longrightarrow> no_session q"
  by (auto simp: fewer_def one_session_def no_session_def)

interpretation tame: step_order fewer
  by unfold_locales (auto simp: fewer_def)

lemma fewer_update: "(feeding (f (sockets p ! s)) \<Longrightarrow> feeding (sockets p ! s)) \<Longrightarrow> fewer (update_sock s f p) p"
proof -
  assume f: "feeding (f (sockets p ! s)) \<Longrightarrow> feeding (sockets p ! s)"
  have "feeding (sockets p ! t)" if "t < length (sockets p)" "feeding ((sockets p)[s := f (sockets p ! s)] ! t)" for t
    using that f by (cases "s = t") auto
  then show ?thesis by (simp add: fewer_def update_sock_def)
qed

lemma fewer_close [simp]: "fewer (socket_close s p) p"
  unfolding socket_close_def by (rule fewer_update) (simp add: feeding_def split: if_splits)

lemma send_fewer: "fewer (snd (socket_send s m p)) p"
proof (cases "ready (sockets p ! s)")
  case Open
  have "fewer (update_sock s (\<lambda>k. k\<lparr>outbox := outbox k @ [m]\<rparr>) p) p"
    by (rule fewer_update) (simp add: feeding_def)
  with Open show ?thesis by (simp add: socket_send_def stmt_simps)
qed (simp_all add: socket_send_def stmt_simps tame.below_refl)

lemma deliver_fewer: "fewer (deliver ss p) p"
  unfolding deliver_def by (rule tame.below_fold) (rule send_fewer)

text \<open>Statements that touch the sockets at most by closing them or sending on them.\<close>

abbreviation tame :: "page stmt \<Rightarrow> bool" where
  "tame \<equiv> tame.within"

named_theorems tame_intro "statements that open no socket"

lemmas [tame_intro] = tame.within_intro
lemmas tameD = tame.withinD and tame_upd = tame.within_upd and tame_def = tame.within_def

lemma tame_one: "tame m \<Longrightarrow> preserves one_session m"
  by (rule preservesI, rule fewer_one [OF tameD])

lemma tame_send [tame_intro]: "tame (socket_send s m)"
  by (simp add: tame_def send_fewer)

lemma tame_on_reader [tame_intro]: "tame (on_reader m)"
  unfolding tame_def
proof
  fix p :: page
  show "fewer (snd (on_reader m p)) p"
    using deliver_fewer [of "acks (snd (m (reader p)))" "p\<lparr>reader := (snd (m (reader p)))\<lparr>acks := []\<rparr>\<rparr>"]
    by (auto simp: on_reader_def fewer_def split: prod.splits)
qed

lemma tame_on_dom [tame_intro]: "tame (on_dom m)"
  by (auto simp: tame_def on_dom_def on_part_def fewer_def split: prod.splits)

lemma fewer_same:
  "sockets q = sockets p \<Longrightarrow> active_session_sockets q = active_session_sockets p \<Longrightarrow> fewer q p"
  by (simp add: fewer_def)

lemma fewer_clear [simp]: "fewer (clear_interval i p) p"
  by (rule fewer_same) (simp_all add: clear_interval_def)

lemma tame_close_timer [tame_intro]: "tame (upd (close_and_remove_timer_from_list t))"
  by (rule tame_upd, rule fewer_same)
     (simp_all add: close_and_remove_timer_from_list_def clear_interval_def split: option.splits)

lemma tame_close [tame_intro]: "tame (upd (socket_close s))"
  by (rule tame_upd) simp

lemma tame_mark [tame_intro]: "tame (upd (mark a))"
  by (rule tame_upd, rule fewer_same) (simp_all add: mark_def)

lemma tame_interval_body [tame_intro]: "tame (interval_body job)"
  by (cases job)
     (auto simp: query_poll_def list_poll_def intro!: tame_intro tame_upd fewer_same
        simp: fetch_old_session_list_def simp del: block.simps)

lemma tame_remember [tame_intro]: "tame (upd (update_sock s (\<lambda>k. k\<lparr>this_timer := t\<rparr>)))"
  by (rule tame_upd, rule fewer_update) (simp add: feeding_def)

lemma tame_run_timer [tame_intro]: "tame (run_timer s job)"
  unfolding run_timer_def
  by (intro tame_intro tame_upd fewer_same) (simp_all add: set_interval_def)

lemma tame_reset_timers [tame_intro]: "tame reset_timers_and_query_sockets"
proof -
  have "fewer ((fold socket_close ss p)\<lparr>active_query_sockets := []\<rparr>) p" for ss p
  proof -
    have "fewer (fold socket_close ss p) p" by (rule tame.below_fold) simp
    then show ?thesis by (simp add: fewer_def)
  qed
  moreover have "fewer ((fold clear_interval js p)\<lparr>timers := []\<rparr>) p" for js p
  proof -
    have "fewer (fold clear_interval js p) p" by (rule tame.below_fold) simp
    then show ?thesis by (simp add: fewer_def)
  qed
  ultimately show ?thesis
    unfolding reset_timers_and_query_sockets_def
    by (intro tame_intro tame_upd) (simp_all add: close_query_sockets_def remove_timers_def)
qed

lemma tame_on_open [tame_intro]: "tame (on_open s k)"
  by (cases k) (auto simp: send_value_def simp del: block.simps intro!: tame_intro tame_upd fewer_same
      simp: set_interval_def)

lemma tame_on_close [tame_intro]: "tame (on_close s)"
  unfolding on_close_def
  by (intro tame_intro) (auto split: sock_kind.splits intro!: tame_intro tame_upd fewer_same simp del: block.simps)

lemma tame_replay [tame_intro]: "tame (replay_session_event_list v)"
  unfolding replay_session_event_list_def by (intro tame_intro)

lemma tame_fetch [tame_intro]: "tame (fetch_session_json_and_update_link f a)"
  unfolding fetch_session_json_and_update_link_def
  by (intro tame_intro tame_upd fewer_same) simp_all

section \<open>Opening sockets\<close>

lemma new_other_sock:
  assumes "\<not> is_session k" "one_session p"
  shows "one_session (new_sock k p)"
  using assms by (auto simp: one_session_def new_sock_def nth_append feeding_def less_Suc_eq)

lemma one_list_session [tame_intro]: "preserves one_session (list_session vk auto key viewer)"
  unfolding list_session_def by (rule preserves_upd) (simp add: new_other_sock)

named_theorems one_intro "statements that keep one session"

lemma one_init_query [one_intro]: "preserves one_session init_query_socket"
proof -
  have q: "preserves one_session (upd (\<lambda>p. p\<lparr>active_query_sockets := active_query_sockets p @ [s]\<rparr>))" for s
    by (rule tame_one, rule tame_upd, rule fewer_same) simp_all
  have n: "preserves one_session (upd (new_sock QuerySock))"
    by (rule preserves_upd) (simp add: new_other_sock)
  show ?thesis unfolding init_query_socket_def by (intro pres_intro q n)
qed

lemma one_lists [one_intro]:
  "preserves one_session (list_viewer_session_and_add_to_list vk)"
  "preserves one_session (list_viewer_session_and_play_first_item vk)"
  "preserves one_session (list_viewer_session_and_play_key vk key)"
  "preserves one_session (list_and_play_session key)"
  unfolding list_viewer_session_and_add_to_list_def list_viewer_session_and_play_first_item_def
    list_viewer_session_and_play_key_def list_and_play_session_def list_viewer_session_def
  by (rule one_list_session)+

lemma one_tame [one_intro]:
  "preserves one_session skip" "preserves one_session reset_timers_and_query_sockets"
  "preserves one_session (fetch_session_json_and_update_link f a)"
  by (rule tame_one, rule tame_intro)+

lemma one_read_hashes [one_intro]: "preserves one_session (read_hashes b)"
  unfolding read_hashes_def Let_def
  by (intro pres_intro pres_cases one_intro)

text \<open>Closing the session sockets leaves none that feeds the reader.\<close>

lemma close_all:
  "length (sockets (fold socket_close ss p)) = length (sockets p) \<and>
   (s < length (sockets p) \<longrightarrow> s \<in> set ss \<longrightarrow> \<not> feeding (sockets (fold socket_close ss p) ! s))"
proof (induction ss arbitrary: p)
  case (Cons x ss)
  have len: "length (sockets (socket_close x p)) = length (sockets p)"
    by (simp add: socket_close_def update_sock_def)
  have "\<not> feeding (sockets (socket_close x p) ! x)" if "x < length (sockets p)"
    using that by (simp add: socket_close_def update_sock_def feeding_def)
  moreover have "fewer (fold socket_close ss (socket_close x p)) (socket_close x p)"
    by (rule tame.below_fold) simp
  ultimately show ?case using Cons.IH [of "socket_close x p"] len by (auto simp: fewer_def)
qed simp

lemma close_session_none: "one_session p \<Longrightarrow> no_session (close_session_sockets p)"
proof -
  assume one: "one_session p"
  let ?q = "fold socket_close (map snd (active_session_sockets p)) p"
  have "fewer ?q p" by (rule tame.below_fold) simp
  have "\<not> feeding (sockets ?q ! s)" if "s < length (sockets p)" for s
  proof (cases "s \<in> snd ` set (active_session_sockets p)")
    case True
    then show ?thesis using close_all [of "map snd (active_session_sockets p)" p s] that by simp
  next
    case False
    with one that have "\<not> feeding (sockets p ! s)" by (auto simp: one_session_def)
    with \<open>fewer ?q p\<close> that show ?thesis by (auto simp: fewer_def)
  qed
  with \<open>fewer ?q p\<close> show "no_session (close_session_sockets p)"
    by (simp add: no_session_def close_session_sockets_def fewer_def)
qed

lemma run_session_one:
  assumes "no_session p" "read_prop sess k = Inr v"
  shows "one_session (snd (run_session_from_socket sess viewer p))"
proof -
  have "\<exists>key. get_str sess ''key'' = Inr key"
    using assms(2) by (cases sess) (auto simp: get_str_def)
  then show ?thesis
    using assms(1)
    by (auto simp: run_session_from_socket_def bind_val_def bind_exp_def seq_upd new_sock_def upd_def
        no_session_def one_session_def nth_append less_Suc_eq feeding_def)
qed

lemma one_get_session [one_intro]: "preserves one_session (get_session_from_socket sess a)"
proof (rule preservesI)
  fix p assume p: "one_session p"
  let ?c = "close_session_sockets (mark a p)"
  have "fewer (mark a p) p" by (rule fewer_same) (simp_all add: mark_def)
  then have "no_session ?c" using p close_session_none fewer_one by blast
  then have c: "no_session (snd (on_reader (reset False) ?c))"
    using fewer_no [OF tameD [OF tame_on_reader]] by blast
  show "one_session (snd (get_session_from_socket sess a p))"
    using c run_session_one [OF c] no_session_one [OF c]
    by (auto simp: get_session_from_socket_def seq_upd seq_if upd_def bind_exp_def split: sum.splits)
qed

lemma one_update_hash [one_intro]:
  "preserves one_session (upd (\<lambda>p. p\<lparr>page_dom := f p\<rparr>))" "preserves one_session (upd (page_dom_update g))"
  by (rule tame_one, rule tame_upd, rule fewer_same; simp)+

lemma one_list_answer [one_intro]: "preserves one_session (on_list_answer s vk auto key viewer vs)"
proof -
  have c: "preserves one_session (upd (socket_close s))" and d: "preserves one_session (on_dom m)" for m
    by (rule tame_one, rule tame_intro)+
  show ?thesis unfolding on_list_answer_def by (intro pres_intro pres_cases one_intro c d)
qed

lemma tame_session_chunk [tame_intro]: "tame (on_session_chunk s sess chunk)"
  unfolding on_session_chunk_def by (intro tame_intro)

lemma one_on_message [one_intro]: "preserves one_session (on_message s k msg)"
proof (cases "json_parse msg")
  case (Inr data)
  have d: "preserves one_session (on_dom m)" for m by (rule tame_one, rule tame_intro)
  have c: "preserves one_session (on_session_chunk s sess data)" for sess by (rule tame_one, rule tame_intro)
  show ?thesis using Inr by (cases k) (auto intro!: pres_intro one_intro d c)
qed (simp add: preserves_skip)

lemma one_opens: "preserves one_session (page_handler (SocketOpens s))"
proof (rule preservesI)
  fix p assume p: "one_session p"
  show "one_session (snd (page_handler (SocketOpens s) p))"
  proof (cases "s < length (sockets p) \<and> ready (sockets p ! s) = Connecting")
    case True
    have "fewer (set_ready s Open p) p"
      unfolding set_ready_def by (rule fewer_update) (use True in \<open>simp add: feeding_def\<close>)
    then have "one_session (set_ready s Open p)" using p by (rule fewer_one)
    from fewer_one [OF tameD [OF tame_on_open] this] True show ?thesis
      by (simp add: guard_def ite_def seq_upd bind_val_def)
  next
    case False
    then have "page_handler (SocketOpens s) p = (None, p)" by (auto simp: guard_def ite_def skip_def)
    then show ?thesis using p by simp
  qed
qed

lemma tame_resize [tame_intro]: "tame resize_terminal_to_window"
  unfolding resize_terminal_to_window_def by (intro tame_intro)

lemma one_session_handler: "preserves one_session (page_handler e)"
proof (cases e)
  case (SocketOpens s)
  then show ?thesis using one_opens by simp
next
  case (SocketReceives s msg)
  then show ?thesis by (auto intro!: pres_intro one_intro simp del: on_message.simps)
next
  case (SocketCloses s)
  have "tame (upd (set_ready s Closed))"
    unfolding set_ready_def by (rule tame_upd, rule fewer_update) (simp add: feeding_def)
  then show ?thesis
    unfolding SocketCloses page_handler.simps by (intro tame_one tame_intro)
next
  case (IntervalFires i)
  have "tame (case job of None \<Rightarrow> skip | Some j \<Rightarrow> interval_body j)" for job
    by (cases job) (simp_all add: tame_intro)
  then show ?thesis unfolding IntervalFires page_handler.simps by (intro tame_one tame_intro)
next
  case (RequestDone i answer)
  have "tame (upd (take_request i))" by (rule tame_upd, rule fewer_same) (simp_all add: take_request_def)
  moreover have "tame (on_answer r answer)" for r
    by (cases r) (auto simp: on_answer_def intro!: tame_intro split: sum.splits)
  ultimately show ?thesis unfolding RequestDone page_handler.simps by (intro tame_one tame_intro)
next
  case (WindowResized w h)
  have "tame (upd (reader_update f))" for f by (rule tame_upd, rule fewer_same) simp_all
  then show ?thesis unfolding WindowResized page_handler.simps by (intro tame_one tame_intro)
next
  case FitTimeout
  have "tame (upd (fit_scheduled_update f))" for f by (rule tame_upd, rule fewer_same) simp_all
  then show ?thesis unfolding FitTimeout page_handler.simps by (intro tame_one tame_intro)
qed (auto intro!: pres_intro one_intro tame_one [OF tame_on_reader] simp del: block.simps)

section \<open>The reader of the page\<close>

definition reader_synced :: "page \<Rightarrow> bool" where
  "reader_synced p \<longleftrightarrow> synced (reader p)"

named_theorems reader_intro "statements that keep the reader in step"

lemma reader_upd [reader_intro]: "(\<And>p. reader (f p) = reader p) \<Longrightarrow> preserves reader_synced (upd f)"
  by (rule preserves_upd) (simp add: reader_synced_def)

lemma reader_fold: "(\<And>x p. reader (f x p) = reader p) \<Longrightarrow> reader (fold f xs p) = reader p"
  by (induction xs arbitrary: p) simp_all

lemma reader_same [simp]:
  "reader (new_sock k p) = reader p" "reader (update_sock s f p) = reader p" "reader (socket_close s p) = reader p"
  "reader (clear_interval i p) = reader p" "reader (set_interval job p) = reader p" "reader (mark a p) = reader p"
  "reader (fetch_old_session_list p) = reader p" "reader (set_ready s st p) = reader p"
  "reader (take_request i p) = reader p" "reader (close_query_sockets p) = reader p"
  "reader (remove_timers p) = reader p" "reader (close_session_sockets p) = reader p"
  "reader (close_and_remove_timer_from_list t p) = reader p" "reader (snd (socket_send s m p)) = reader p"
proof -
  show close: "reader (socket_close s p) = reader p" for s p
    by (simp add: socket_close_def update_sock_def)
  show clear: "reader (clear_interval i p) = reader p" for i p
    by (simp add: clear_interval_def)
  show "reader (close_query_sockets p) = reader p" "reader (close_session_sockets p) = reader p"
    using reader_fold [of socket_close] close by (simp_all add: close_query_sockets_def close_session_sockets_def)
  show "reader (remove_timers p) = reader p"
    using reader_fold [of clear_interval] clear by (simp add: remove_timers_def)
  show "reader (close_and_remove_timer_from_list t p) = reader p"
    by (simp add: close_and_remove_timer_from_list_def clear_interval_def split: option.splits)
  show "reader (snd (socket_send s m p)) = reader p"
    by (simp add: socket_send_def stmt_simps update_sock_def split: ready_state.splits)
qed (simp_all add: new_sock_def update_sock_def set_interval_def mark_def fetch_old_session_list_def
      set_ready_def take_request_def)

lemma reader_send [reader_intro]: "preserves reader_synced (socket_send s m)"
  by (rule preservesI) (simp add: reader_synced_def)

lemma reader_on_dom [reader_intro]: "preserves reader_synced (on_dom m)"
  by (rule preservesI) (simp add: reader_synced_def on_dom_def on_part_def split: prod.splits)

lemma synced_acks: "synced (r\<lparr>acks := xs\<rparr>) = synced r"
  by (rule synced_pos) (simp add: pos_view_def screen_def)

lemma reader_deliver [simp]: "reader (deliver ss p) = reader p"
  unfolding deliver_def by (rule reader_fold) simp

lemma reader_on_reader [reader_intro]: "preserves synced m \<Longrightarrow> preserves reader_synced (on_reader m)"
  by (auto simp: preserves_def reader_synced_def on_reader_def synced_acks split: prod.splits)

lemma reader_interval_body [reader_intro]: "preserves reader_synced (interval_body job)"
  by (cases job) (auto simp: query_poll_def list_poll_def intro!: pres_intro reader_intro simp del: block.simps)

lemma reader_run_timer [reader_intro]: "preserves reader_synced (run_timer s job)"
  unfolding run_timer_def by (intro pres_intro reader_intro) simp_all

lemma reader_reset_timers [reader_intro]: "preserves reader_synced reset_timers_and_query_sockets"
  unfolding reset_timers_and_query_sockets_def by (intro pres_intro reader_intro) simp_all

lemma reader_on_open [reader_intro]: "preserves reader_synced (on_open s k)"
  by (cases k) (auto simp: send_value_def simp del: block.simps intro!: pres_intro pres_cases reader_intro synced_intro)

lemma reader_on_close [reader_intro]: "preserves reader_synced (on_close s)"
  unfolding on_close_def
  by (intro pres_intro) (auto split: sock_kind.splits intro!: pres_intro reader_intro simp del: block.simps)

lemma reader_openers [reader_intro]:
  "preserves reader_synced init_query_socket" "preserves reader_synced (run_session_from_socket sess viewer)"
  "preserves reader_synced (list_viewer_session_and_add_to_list vk)"
  "preserves reader_synced (list_viewer_session_and_play_first_item vk)"
  "preserves reader_synced (list_viewer_session_and_play_key vk key)"
  "preserves reader_synced (list_and_play_session key)"
  "preserves reader_synced (fetch_session_json_and_update_link f a)"
  unfolding init_query_socket_def run_session_from_socket_def list_viewer_session_and_add_to_list_def
    list_viewer_session_and_play_first_item_def list_viewer_session_and_play_key_def
    list_and_play_session_def list_viewer_session_def list_session_def fetch_session_json_and_update_link_def
  by (intro pres_intro reader_intro; simp)+

lemma reader_get_session [reader_intro]: "preserves reader_synced (get_session_from_socket sess a)"
  unfolding get_session_from_socket_def by (intro pres_intro reader_intro synced_intro) simp_all

lemma reader_read_hashes [reader_intro]: "preserves reader_synced (read_hashes b)"
  unfolding read_hashes_def Let_def by (intro pres_intro pres_cases reader_intro)

lemma reader_list_answer [reader_intro]: "preserves reader_synced (on_list_answer s vk auto key viewer vs)"
  unfolding on_list_answer_def by (intro pres_intro pres_cases reader_intro) simp_all

text \<open>The base64 in the messages and in the answers decodes.\<close>

definition blob_decodable :: "jsval \<Rightarrow> bool" where
  "blob_decodable v = (case new_event v of Inl e \<Rightarrow> True | Inr ev \<Rightarrow> decodable ev)"

definition text_decodable :: "string \<Rightarrow> bool" where
  "text_decodable msg = (case json_parse msg of
       Inl e \<Rightarrow> True
     | Inr v \<Rightarrow> blob_decodable v \<and> (case elems_of v of Inl e \<Rightarrow> True | Inr vs \<Rightarrow> list_all blob_decodable vs))"

fun event_decodable :: "page_event \<Rightarrow> bool" where
  "event_decodable (SocketReceives s msg) = text_decodable msg"
| "event_decodable (RequestDone i answer) = text_decodable answer"
| "event_decodable _ = True"

lemma reader_session_chunk:
  assumes "blob_decodable chunk"
  shows "preserves reader_synced (on_session_chunk s sess chunk)"
proof (cases "new_event chunk")
  case (Inr ev)
  then have "preserves synced (load_events [ev])"
    using assms by (intro load_preserves) (simp add: blob_decodable_def)
  then show ?thesis
    unfolding on_session_chunk_def Inr bind_exp_value
    by (intro pres_intro pres_cases reader_intro synced_intro) (simp_all add: given_def)
qed (simp add: on_session_chunk_def preserves_throw)

lemma collect_decodable:
  "collect_events blobs sess queue = Inr (sess', queue') \<Longrightarrow> list_all blob_decodable blobs \<Longrightarrow>
    list_all decodable queue \<Longrightarrow> list_all decodable queue'"
  by (induction blobs sess queue rule: collect_events.induct)
     (auto simp: blob_decodable_def split: sum.splits if_splits)

lemma reader_replay:
  assumes "\<And>vs. elems_of data = Inr vs \<Longrightarrow> list_all blob_decodable vs"
  shows "preserves reader_synced (replay_session_event_list data)"
proof -
  let ?fill = "\<lambda>(sess, queue). block [on_reader (load_events queue), on_reader (update_session sess), on_reader play]"
  have fill: "preserves reader_synced (?fill x)" if "list_all decodable (snd x)" for x
    using load_preserves [OF that]
    by (cases x) (auto simp del: block.simps intro!: pres_intro reader_intro synced_intro)
  have "preserves reader_synced (bind_exp (\<lambda>_. elems_of data) (\<lambda>blobs.
      bind_exp (\<lambda>_. collect_events blobs fresh_session []) ?fill))"
  proof (rule preservesI)
    fix p assume p: "reader_synced p"
    show "reader_synced (snd (bind_exp (\<lambda>_. elems_of data) (\<lambda>blobs.
        bind_exp (\<lambda>_. collect_events blobs fresh_session []) ?fill) p))"
    proof (cases "elems_of data")
      case vs: (Inr vs)
      show ?thesis
      proof (cases "collect_events vs fresh_session []")
        case (Inr x)
        have "list_all decodable (snd x)"
          using collect_decodable [of vs fresh_session "[]" "fst x" "snd x"] Inr assms [OF vs] by simp
        from preservesD [OF fill [OF this] p] show ?thesis by (simp add: vs Inr)
      qed (simp add: throw_def vs p)
    qed (simp add: throw_def p)
  qed
  then show ?thesis
    unfolding replay_session_event_list_def
    by (intro preserves_block preserves_list_all_Cons preserves_list_all_Nil reader_on_reader reset_preserves)
qed

lemma reader_on_message:
  assumes "text_decodable msg"
  shows "preserves reader_synced (on_message s k msg)"
proof (cases "json_parse msg")
  case (Inr data)
  then show ?thesis
    using assms by (cases k)
      (auto simp: text_decodable_def intro!: pres_intro reader_intro reader_session_chunk)
qed (simp add: preserves_skip)

lemma reader_resize [reader_intro]: "preserves reader_synced resize_terminal_to_window"
  unfolding resize_terminal_to_window_def by (intro pres_intro pres_cases reader_intro synced_intro)

lemma reader_handler_step: "event_decodable e \<Longrightarrow> preserves reader_synced (page_handler e)"
proof (cases e)
  case (SocketReceives s msg)
  moreover assume "event_decodable e"
  ultimately show ?thesis by (auto intro!: pres_intro reader_on_message simp del: on_message.simps)
next
  case (RequestDone i answer)
  assume "event_decodable e"
  then have "text_decodable answer" using RequestDone by simp
  then have "preserves reader_synced (on_answer r answer)" for r
    by (cases r) (auto simp: on_answer_def text_decodable_def preserves_skip intro!: reader_intro reader_replay split: sum.splits)
  then show ?thesis unfolding RequestDone page_handler.simps by (intro pres_intro reader_intro) simp_all
next
  case (WindowResized w h)
  have win: "preserves reader_synced (upd (reader_update (\<lambda>r. r\<lparr>win_width := w, win_height := h\<rparr>)))"
    by (rule preserves_upd) (simp add: reader_synced_def synced_pos [of "reader p\<lparr>win_width := w, win_height := h\<rparr>" "reader p" for p]
        pos_view_def screen_def)
  show ?thesis
    unfolding WindowResized page_handler.simps
    by (rule preserves_block, intro preserves_list_all_Cons preserves_list_all_Nil win)
       (intro pres_intro pres_cases reader_intro)
qed (auto simp del: block.simps intro!: pres_intro pres_cases reader_intro synced_intro)

section \<open>The page under the event loop\<close>

definition page_ok :: "page \<Rightarrow> bool" where
  "page_ok p \<longleftrightarrow> one_session p \<and> reader_synced p"

interpretation paging: event_loop page_handler event_decodable page_ok
  by unfold_locales (simp add: page_ok_def preservesD [OF one_session_handler] preservesD [OF reader_handler_step])

lemma initialize_synced: "events r = [] \<Longrightarrow> event_index r = 0 \<Longrightarrow> terminal_buffer r = [] \<Longrightarrow>
    keystroke_buffer r = [] \<Longrightarrow> synced (snd (initialize r))"
proof -
  assume r: "events r = []" "event_index r = 0" "terminal_buffer r = []" "keystroke_buffer r = []"
  have "wp initialize (\<lambda>t. events t = [] \<and> event_index t = 0 \<and> screen t = [] \<and> terminal_buffer t = [] \<and>
      keystroke_buffer t = []) (\<lambda>_. False) r"
    unfolding initialize_def initialize_terminal_def reset_session_def build_reader_def
    by (simp add: wp_simps screen_def r)
  from wp_normal [OF this] show ?thesis by (auto simp: synced_def)
qed

text \<open>The two pages, started with any address.\<close>

definition start_page :: "bool \<Rightarrow> string \<Rightarrow> string \<Rightarrow> string \<Rightarrow> (string \<Rightarrow> string) \<Rightarrow> (string \<Rightarrow> exn + (string \<Rightarrow> bool)) \<Rightarrow>
    (jsnum \<Rightarrow> jsnum \<Rightarrow> jsnum \<times> jsnum) \<Rightarrow> jsnum \<Rightarrow> jsnum \<Rightarrow> int \<Rightarrow> page" where
  "start_page alone org base h enc sel fit ww wh now =
     snd ((if alone then standalone_ready else live_ready) (new_page alone org base h enc sel fit ww wh now))"

lemma init_page_ok:
  assumes "page_ok p" "events (reader p) = []" "event_index (reader p) = 0"
  shows "page_ok (snd (on_reader initialize p))" "total initialize"
proof -
  show "total initialize"
    unfolding initialize_def initialize_terminal_def reset_session_def build_reader_def
    by (intro total_intro never_throws)
  have "synced (snd (initialize (reader p)))"
    using assms by (intro initialize_synced) (simp_all add: page_ok_def reader_synced_def synced_def)
  then have "reader_synced (snd (on_reader initialize p))"
    by (cases "initialize (reader p)") (simp add: reader_synced_def on_reader_def synced_acks)
  moreover have "one_session (snd (on_reader initialize p))"
    using preservesD [OF tame_one [OF tame_on_reader]] assms(1) by (simp add: page_ok_def)
  ultimately show "page_ok (snd (on_reader initialize p))" by (simp add: page_ok_def)
qed

lemma on_reader_total: "total m \<Longrightarrow> total (on_reader m)"
  by (auto simp: total_def on_reader_def split: prod.splits) (metis fst_conv)

lemma read_hashes_ok: "page_ok p \<Longrightarrow> page_ok (snd (read_hashes b p))"
  using preservesD [OF one_read_hashes] preservesD [OF reader_read_hashes] by (simp add: page_ok_def)

lemma page_ok_read_hashes: "preserves page_ok (read_hashes b)"
  by (rule preservesI) (rule read_hashes_ok)

lemma page_ok_schedule: "preserves page_ok (upd (fit_scheduled_update f))"
  by (rule preserves_upd) (simp add: page_ok_def one_session_def reader_synced_def)

lemma start_page_ok: "page_ok (start_page alone org base h enc sel fit ww wh now)"
proof -
  let ?p = "new_page alone org base h enc sel fit ww wh now"
  let ?d = "snd (on_reader disable_resize ?p)"
  have p: "page_ok ?p" "events (reader ?p) = []" "event_index (reader ?p) = 0"
    by (simp_all add: page_ok_def one_session_def reader_synced_def new_page_def new_reader_def synced_def
        screen_def)
  have d: "page_ok ?d" "events (reader ?d) = []" "event_index (reader ?d) = 0"
    using p by (simp_all add: page_ok_def one_session_def reader_synced_def on_reader_def disable_resize_def
        upd_def synced_def screen_def texts_def deliver_def new_page_def new_reader_def)
  have "total (on_reader disable_resize)"
    unfolding disable_resize_def by (intro on_reader_total total_intro)
  then show ?thesis
    using read_hashes_ok [OF init_page_ok(1) [OF p]] init_page_ok(1) [OF d]
      on_reader_total [OF init_page_ok(2) [OF p]]
      preservesD [OF preserves_seq [OF page_ok_read_hashes page_ok_schedule]]
    by (cases alone) (simp_all add: start_page_def live_ready_def standalone_ready_def total_seq_eq)
qed

section \<open>Changing the address\<close>

text \<open>What reading the address adds once the polling has stopped: sockets and requests only.\<close>

definition grows :: "page \<Rightarrow> page \<Rightarrow> bool" where
  "grows q p \<longleftrightarrow> intervals q = intervals p \<and> timers q = timers p \<and> (\<exists>ks. sockets q = sockets p @ ks)"

interpretation growing: step_order grows
  by unfold_locales (auto simp: grows_def)

lemma growing_openers:
  "growing.within (upd (new_sock k))" "growing.within (upd (mark a))"
  "growing.within (upd (\<lambda>p. p\<lparr>requests := f p\<rparr>))" "growing.within (upd (\<lambda>p. p\<lparr>active_query_sockets := g p\<rparr>))"
  by (rule growing.within_upd; simp add: grows_def new_sock_def mark_def)+

lemma growing_init: "growing.within init_query_socket"
  and growing_list: "growing.within (list_session vk auto key viewer)"
  and growing_fetch: "growing.within (fetch_session_json_and_update_link f a)"
  unfolding init_query_socket_def list_session_def fetch_session_json_and_update_link_def
  by (intro growing.within_intro growing_openers)+

lemma read_hashes_rest: "\<exists>m. read_hashes False = seq reset_timers_and_query_sockets m \<and> growing.within m"
  unfolding read_hashes_def block.simps Let_def if_False seq_skip
    list_viewer_session_and_add_to_list_def list_viewer_session_and_play_first_item_def
    list_viewer_session_and_play_key_def list_and_play_session_def list_viewer_session_def
  by (rule exI, rule conjI [OF refl], intro growing.within_intro growing_init growing_list growing_fetch)

lemma read_hashes_grows:
  "grows (snd (read_hashes False p)) (snd (reset_timers_and_query_sockets p))"
proof -
  have "total reset_timers_and_query_sockets"
    unfolding reset_timers_and_query_sockets_def by (intro total_intro)
  moreover obtain m where "read_hashes False = seq reset_timers_and_query_sockets m" "growing.within m"
    using read_hashes_rest by blast
  ultimately show ?thesis by (simp add: total_seq_eq growing.withinD)
qed

lemma fold_close_ready:
  "length (sockets (fold socket_close ss p)) = length (sockets p) \<and>
   (s < length (sockets p) \<longrightarrow> ready (sockets (fold socket_close ss p) ! s) =
     (if s \<in> set ss \<and> ready (sockets p ! s) \<noteq> Closed then Closing else ready (sockets p ! s)) \<and>
     kind (sockets (fold socket_close ss p) ! s) = kind (sockets p ! s) \<and>
     this_timer (sockets (fold socket_close ss p) ! s) = this_timer (sockets p ! s))"
proof (induction ss arbitrary: p)
  case (Cons x ss)
  have "length (sockets (socket_close x p)) = length (sockets p)"
    by (simp add: socket_close_def update_sock_def)
  moreover have "ready (sockets (socket_close x p) ! s) =
      (if s = x \<and> ready (sockets p ! s) \<noteq> Closed then Closing else ready (sockets p ! s))"
    "kind (sockets (socket_close x p) ! s) = kind (sockets p ! s)"
    "this_timer (sockets (socket_close x p) ! s) = this_timer (sockets p ! s)" if "s < length (sockets p)"
    using that by (cases "s = x"; simp add: socket_close_def update_sock_def)+
  ultimately show ?case using Cons.IH [of "socket_close x p"] by (auto split: if_splits)
qed simp

lemma fold_clear_intervals:
  "intervals (fold clear_interval js p) = filter (\<lambda>(i, _). i \<notin> set js) (intervals p) \<and>
   sockets (fold clear_interval js p) = sockets p"
  by (induction js arbitrary: p) (auto simp: clear_interval_def intro!: filter_cong)

lemma fold_close_others:
  "intervals (fold socket_close ss p) = intervals p \<and> timers (fold socket_close ss p) = timers p"
  by (induction ss arbitrary: p) (simp_all add: socket_close_def update_sock_def)

lemma reset_effect:
  "sockets (snd (reset_timers_and_query_sockets p)) = sockets (fold socket_close (rev (active_query_sockets p)) p)"
  "intervals (snd (reset_timers_and_query_sockets p)) = filter (\<lambda>(i, _). i \<notin> set (timers p)) (intervals p)"
  "timers (snd (reset_timers_and_query_sockets p)) = []"
  by (simp_all add: reset_timers_and_query_sockets_def seq_upd upd_def skip_def remove_timers_def close_query_sockets_def
      fold_clear_intervals fold_close_others)

lemma navigate_live:
  assumes "\<not> standalone_page p" "q = snd (page_handler (Navigate h) p)"
  defines "p' \<equiv> page_dom_update (location_hash_update (\<lambda>_. h)) p"
  shows "grows q (snd (reset_timers_and_query_sockets p'))"
  using assms(1) read_hashes_grows [of p'] by (simp add: assms(2) p'_def seq_upd bind_val_def)

text \<open>The sockets that are noted as polling ones and that are not closed yet.\<close>

definition pollers :: "page \<Rightarrow> nat list" where
  "pollers p = filter (\<lambda>s. s < length (sockets p) \<and> ready (sockets p ! s) \<noteq> Closed \<and>
     (case kind (sockets p ! s) of SessionSock _ _ \<Rightarrow> False | _ \<Rightarrow> True)) (active_query_sockets p)"

lemma close_clears:
  assumes "s < length (sockets q)" "ready (sockets q ! s) \<noteq> Closed" "\<And>sess v. kind (sockets q ! s) \<noteq> SessionSock sess v"
  shows "intervals (snd (page_handler (SocketCloses s) q)) = filter (\<lambda>(i, _). this_timer (sockets q ! s) \<noteq> Some i) (intervals q)"
  using assms
  by (cases "kind (sockets q ! s)"; cases "this_timer (sockets q ! s)")
     (auto simp: guard_def ite_def on_close_def bind_val_def seq_upd upd_def set_ready_def update_sock_def
       close_and_remove_timer_from_list_def clear_interval_def intro!: filter_cong)

text \<open>
  C21. A change of the address of the live page stops the polling that is noted, and nothing else:
  of the intervals exactly the noted ones (those of the query sockets) end at once, and of the
  sockets that are there exactly the noted ones start to close. The interval of a list socket is
  not noted: it goes on until the page is told that its socket has closed, which ends the
  interval of any polling socket.
\<close>

theorem new_address_stops_polling:
  assumes "\<not> standalone_page p" "q = snd (page_handler (Navigate h) p)"
  shows "timers q = [] \<and> intervals q = filter (\<lambda>(i, _). i \<notin> set (timers p)) (intervals p) \<and>
    map ready (take (length (sockets p)) (sockets q)) =
      map (\<lambda>s. if s \<in> set (active_query_sockets p) \<and> ready (sockets p ! s) \<noteq> Closed then Closing
        else ready (sockets p ! s)) [0..<length (sockets p)] \<and>
    list_all (\<lambda>s. intervals (snd (page_handler (SocketCloses s) q)) =
      filter (\<lambda>(i, _). this_timer (sockets p ! s) \<noteq> Some i) (intervals q)) (pollers p)"
proof -
  let ?p = "page_dom_update (location_hash_update (\<lambda>_. h)) p"
  note closed = fold_close_ready [of "rev (active_query_sockets p)" ?p]
  obtain ks where q: "sockets q = sockets (fold socket_close (rev (active_query_sockets p)) ?p) @ ks" "timers q = []"
    "intervals q = filter (\<lambda>(i, _). i \<notin> set (timers p)) (intervals p)"
    using navigate_live [OF assms] by (auto simp: grows_def reset_effect)
  have each: "s < length (sockets q)" "kind (sockets q ! s) = kind (sockets p ! s)" "this_timer (sockets q ! s) = this_timer (sockets p ! s)"
    "ready (sockets q ! s) = (if s \<in> set (active_query_sockets p) \<and> ready (sockets p ! s) \<noteq> Closed then Closing else ready (sockets p ! s))"
    if "s < length (sockets p)" for s
    using closed [of s] that by (simp_all add: q(1) nth_append)
  have "length (sockets p) \<le> length (sockets q)" using closed by (simp add: q(1))
  then have "map ready (take (length (sockets p)) (sockets q)) = map (\<lambda>s. ready (sockets q ! s)) [0..<length (sockets p)]"
    by (intro nth_equalityI) simp_all
  also have "\<dots> = map (\<lambda>s. if s \<in> set (active_query_sockets p) \<and> ready (sockets p ! s) \<noteq> Closed then Closing
        else ready (sockets p ! s)) [0..<length (sockets p)]"
    using each(4) by (intro map_cong) simp_all
  finally have "map ready (take (length (sockets p)) (sockets q)) = \<dots>" .
  moreover have "intervals (snd (page_handler (SocketCloses s) q)) = filter (\<lambda>(i, _). this_timer (sockets p ! s) \<noteq> Some i) (intervals q)"
    if "s \<in> set (pollers p)" for s
  proof -
    have s: "s < length (sockets p)" "ready (sockets p ! s) \<noteq> Closed" "\<And>sess v. kind (sockets p ! s) \<noteq> SessionSock sess v"
      using that by (auto simp: pollers_def)
    have "ready (sockets q ! s) \<noteq> Closed" using each(4) [OF s(1)] s(2) by (simp split: if_splits)
    from close_clears [OF each(1) [OF s(1)] this] show ?thesis using each(2,3) [OF s(1)] s(3) by simp
  qed
  ultimately show ?thesis using q(2,3) by (simp add: list_all_iff)
qed

text \<open>
  C22. What a change of the address does not stop is the session that is playing: its socket
  stays open, and, say after choosing a recorded session, it goes on feeding the reader.
\<close>

theorem new_address_keeps_session_open:
  assumes "\<not> standalone_page p" "q = snd (page_handler (Navigate h) p)"
    and "s < length (sockets p)" "feeding (sockets p ! s)" "s \<notin> set (active_query_sockets p)"
  shows "feeding (sockets q ! s)"
  using navigate_live [OF assms(1,2)] assms(3-5)
    fold_close_ready [of "rev (active_query_sockets p)" "page_dom_update (location_hash_update (\<lambda>_. h)) p" s]
  by (auto simp: grows_def reset_effect nth_append feeding_def)

text \<open>A live page with its polling socket and one session open.\<close>

definition demo_page :: page where
  "demo_page = (new_page False ''https://host'' ''https://host/'' ''#live&a1'' (\<lambda>h. h) (\<lambda>_. Inl SelectorError)
       demo_fit (Fin 1000) (Fin 800) 5000)
     \<lparr>sockets := [\<lparr>kind = QuerySock, sock_url = [], ready = Open, outbox = [], this_timer = Some 1\<rparr>,
        \<lparr>kind = SessionSock (JObj (demo_session ''a1'')) False, sock_url = [], ready = Open, outbox = [], this_timer = None\<rparr>],
      active_query_sockets := [0], timers := [1], intervals := [(1, QueryPoll 0)], next_interval := 2,
      active_session_sockets := [(''a1'', 1)]\<rparr>"

text \<open>With a list of a viewer's sessions on it, which polls as well.\<close>

definition demo_lists :: page where
  "demo_lists = demo_page\<lparr>sockets := sockets demo_page @
       [\<lparr>kind = ListSock ''v1'' False [] True, sock_url = [], ready = Open, outbox = [], this_timer = Some 2\<rparr>],
     active_query_sockets := [0, 2], intervals := [(1, QueryPoll 0), (2, ListPoll 2 ''v1'')], next_interval := 3\<rparr>"

lemma new_address_stops_polling_witness:
  "let q = snd (page_handler (Navigate ''#replay&f.log.json'') demo_lists)
   in timers q = [] \<and> intervals q = [(2, ListPoll 2 ''v1'')] \<and>
     map ready (take 3 (sockets q)) = [Closing, Open, Closing] \<and> intervals (snd (page_handler (SocketCloses 2) q)) = []"
proof -
  have "\<not> standalone_page demo_lists" "length (sockets demo_lists) = 3" "pollers demo_lists = [0, 2]"
    by (simp_all add: demo_lists_def demo_page_def new_page_def pollers_def)
  from new_address_stops_polling [OF this(1) refl, of "''#replay&f.log.json''"] this(2,3) show ?thesis
    by (simp add: Let_def upt_rec [of _ 3] upt_rec [of _ "Suc _"] del: page_handler.simps)
      (simp add: demo_lists_def demo_page_def new_page_def)
qed

lemma new_address_keeps_session_open_witness:
  "feeding (sockets (snd (page_handler (Navigate ''#replay&f.log.json'') demo_page)) ! 1)"
  by (rule new_address_keeps_session_open [OF _ refl]) (simp_all add: demo_page_def new_page_def feeding_def)

end
