(* ===== verification/UI_Mouse.thy ===== *)
theory UI_Mouse
  imports Event_Loop JS_Number
begin

text \<open>
  The mouse widget of jQuery UI (\<open>$.widget("ui.mouse")\<close>), the base of the slider and of the
  resizable terminal: the state it keeps between mouse down and mouse up, its handlers, and the
  contract between it and the widget that overrides its four methods.
\<close>

section \<open>State and events\<close>

text \<open>
  A mouse event as the handlers read it. Elements are numbers; \<open>in_cancel\<close> says whether the target
  lies in an element that the option \<open>cancel\<close> selects.
\<close>

record mouse_event =
  page_x :: jsnum
  page_y :: jsnum
  which :: int
  pressed :: int                 \<comment> \<open>\<open>event.button\<close>\<close>
  target :: nat
  in_cancel :: bool
  modifier_key :: bool           \<comment> \<open>alt, control, meta or shift\<close>
  shift_key :: bool

datatype delay_timer = NoTimer | TimerPending | TimerExpired

record mouse =
  distance :: jsnum              \<comment> \<open>options\<close>
  delay :: jsnum
  started :: bool                \<comment> \<open>\<open>_mouseStarted\<close>\<close>
  mouse_moved :: bool
  down_event :: "mouse_event option"
  delay_met :: bool
  delay_state :: delay_timer
  ignore_missing_which :: bool
  bound :: bool                  \<comment> \<open>the delegates for move and up are on the document\<close>
  mouse_handled :: bool          \<comment> \<open>shared by all widgets of the page\<close>
  click_blocked :: "nat set"     \<comment> \<open>the elements with \<open>preventClickEvent\<close>\<close>
  prevented :: bool              \<comment> \<open>the event at hand has its default prevented\<close>
  old_ie :: bool
  answer :: bool                 \<comment> \<open>what the method called last returned\<close>

text \<open>The methods a widget overrides.\<close>

record 's mouse_ops =
  capture :: "mouse_event \<Rightarrow> 's stmt"
  start :: "mouse_event \<Rightarrow> 's stmt"
  drag :: "mouse_event \<Rightarrow> 's stmt"
  stop :: "mouse_event \<Rightarrow> 's stmt"

definition returns :: "bool \<Rightarrow> ('m mouse_scheme) stmt" where
  "returns b = upd (answer_update (\<lambda>_. b))"

definition call :: "('m mouse_scheme) stmt \<Rightarrow> (bool \<Rightarrow> ('m mouse_scheme) stmt) \<Rightarrow> ('m mouse_scheme) stmt" where
  "call m k = seq m (bind_val answer k)"

definition prevent_default :: "('m mouse_scheme) stmt" where
  "prevent_default = upd (prevented_update (\<lambda>_. True))"

text \<open>The placeholders of the base widget.\<close>

definition mouse_placeholders :: "('m mouse_scheme) mouse_ops" where
  "mouse_placeholders = \<lparr>capture = (\<lambda>_. returns True), start = (\<lambda>_. returns True),
     drag = (\<lambda>_. skip), stop = (\<lambda>_. skip)\<rparr>"

section \<open>The handlers\<close>

definition mouse_init :: "('m mouse_scheme) stmt" where
  "mouse_init = upd (\<lambda>s. s\<lparr>started := False, bound := False\<rparr>)"

definition mouse_destroy :: "('m mouse_scheme) stmt" where
  "mouse_destroy = upd (bound_update (\<lambda>_. False))"

definition distance_met :: "mouse_event \<Rightarrow> 'm mouse_scheme \<Rightarrow> bool" where
  "distance_met ev s = (case down_event s of
       None \<Rightarrow> False
     | Some d \<Rightarrow> distance s \<le> math_max (math_abs (page_x d - page_x ev)) (math_abs (page_y d - page_y ev)))"

definition mouse_up :: "('m mouse_scheme) mouse_ops \<Rightarrow> mouse_event \<Rightarrow> ('m mouse_scheme) stmt" where
  "mouse_up ops ev = block
    [upd (bound_update (\<lambda>_. False)),
     guard started (block
       [upd (started_update (\<lambda>_. False)),
        guard (\<lambda>s. map_option target (down_event s) = Some (target ev))
          (upd (click_blocked_update (insert (target ev)))),
        stop ops ev]),
     upd (\<lambda>s. s\<lparr>delay_state := NoTimer, ignore_missing_which := False, mouse_handled := False\<rparr>),
     prevent_default]"

text \<open>What follows once the distance and the delay allow a start on mouse down.\<close>

definition bind_delegates :: "mouse_event \<Rightarrow> ('m mouse_scheme) stmt" where
  "bind_delegates ev = block
    [upd (click_blocked_update (\<lambda>ts. ts - {target ev})),
     upd (bound_update (\<lambda>_. True)),
     prevent_default,
     upd (mouse_handled_update (\<lambda>_. True))]"

definition begin_drag :: "('m mouse_scheme) mouse_ops \<Rightarrow> mouse_event \<Rightarrow> ('m mouse_scheme) stmt" where
  "begin_drag ops ev = call (start ops ev) (\<lambda>ok. block
     [upd (started_update (\<lambda>_. ok)),
      if ok then bind_delegates ev else prevent_default])"

definition set_delay :: "('m mouse_scheme) stmt" where
  "set_delay = block
    [upd (\<lambda>s. s\<lparr>delay_met := num_eq (delay s) (Fin 0) \<or> delay s = NaN\<rparr>),
     guard (\<lambda>s. \<not> delay_met s) (upd (delay_state_update (\<lambda>_. TimerPending)))]"

definition mouse_down :: "('m mouse_scheme) mouse_ops \<Rightarrow> mouse_event \<Rightarrow> ('m mouse_scheme) stmt" where
  "mouse_down ops ev = guard (\<lambda>s. \<not> mouse_handled s) (block
    [upd (mouse_moved_update (\<lambda>_. False)),
     guard started (mouse_up ops ev),
     upd (down_event_update (\<lambda>_. Some ev)),
     if which ev \<noteq> 1 \<or> in_cancel ev then skip
     else call (capture ops ev) (\<lambda>captured. if \<not> captured then skip else block
       [set_delay,
        ite (\<lambda>s. distance_met ev s \<and> delay_met s) (begin_drag ops ev) (bind_delegates ev)])])"

text \<open>Whether a move tells that the button was released out of the window.\<close>

definition release_missed :: "mouse_event \<Rightarrow> 'm mouse_scheme \<Rightarrow> bool" where
  "release_missed ev s \<longleftrightarrow> mouse_moved s \<and>
     (if old_ie s \<and> pressed ev = 0 then True
      else which ev = 0 \<and> \<not> modifier_key ev \<and> \<not> ignore_missing_which s)"

definition mouse_move :: "('m mouse_scheme) mouse_ops \<Rightarrow> mouse_event \<Rightarrow> ('m mouse_scheme) stmt" where
  "mouse_move ops ev = ite (release_missed ev) (mouse_up ops ev) (block
    [guard (\<lambda>s. mouse_moved s \<and> which ev = 0 \<and> modifier_key ev \<and> \<not> (old_ie s \<and> pressed ev = 0))
       (upd (ignore_missing_which_update (\<lambda>_. True))),
     guard (\<lambda>_. which ev \<noteq> 0 \<or> pressed ev \<noteq> 0) (upd (mouse_moved_update (\<lambda>_. True))),
     ite started
       (block [drag ops ev, prevent_default])
       (block
         [guard (\<lambda>s. distance_met ev s \<and> delay_met s)
            (bind_val down_event (\<lambda>d. case d of None \<Rightarrow> skip | Some down_ev \<Rightarrow>
               call (start ops down_ev) (\<lambda>ok. block
                 [upd (started_update (\<lambda>_. ok)),
                  if ok then drag ops ev else mouse_up ops ev]))),
          guard started prevent_default])])"

text \<open>The click handler: a click that ends a drag is swallowed.\<close>

definition mouse_click :: "nat \<Rightarrow> ('m mouse_scheme) stmt" where
  "mouse_click t = guard (\<lambda>s. t \<in> click_blocked s)
     (block [upd (click_blocked_update (\<lambda>ts. ts - {t})), prevent_default])"

text \<open>
  What the document and the page send. The mouse up of the document first reaches the handler
  that clears \<open>mouseHandled\<close>, which was registered when the library was loaded.
\<close>

datatype mouse_input =
    MouseDown mouse_event
  | MouseMove mouse_event
  | MouseUp mouse_event
  | Click nat
  | DelayTimer
  | HandledElsewhere   \<comment> \<open>another widget has taken the mouse\<close>

fun mouse_handler :: "('m mouse_scheme) mouse_ops \<Rightarrow> mouse_input \<Rightarrow> ('m mouse_scheme) stmt" where
  "mouse_handler ops (MouseDown ev) = block [upd (prevented_update (\<lambda>_. False)), mouse_down ops ev]"
| "mouse_handler ops (MouseMove ev) = block
    [upd (prevented_update (\<lambda>_. False)), guard bound (mouse_move ops ev)]"
| "mouse_handler ops (MouseUp ev) = block
    [upd (\<lambda>s. s\<lparr>prevented := False, mouse_handled := False\<rparr>), guard bound (mouse_up ops ev)]"
| "mouse_handler ops (Click t) = block [upd (prevented_update (\<lambda>_. False)), mouse_click t]"
| "mouse_handler ops DelayTimer = guard (\<lambda>s. delay_state s = TimerPending)
    (upd (\<lambda>s. s\<lparr>delay_state := TimerExpired, delay_met := True\<rparr>))"
| "mouse_handler ops HandledElsewhere = upd (mouse_handled_update (\<lambda>_. True))"

section \<open>The contract with a widget\<close>

lemma wp_done: "wp (block []) Q E = Q"
  by (simp add: fun_eq_iff wp_skip)

lemma wp_chain: "wp (block (m # ms)) Q E = wp m (wp (block ms) Q E) E"
  by (simp add: fun_eq_iff wp_seq)

text \<open>The state of the base widget, without the answer and the event at hand.\<close>

definition mouse_view :: "'m mouse_scheme \<Rightarrow> _" where
  "mouse_view s = (distance s, delay s, started s, mouse_moved s, down_event s, delay_met s,
     delay_state s, ignore_missing_which s, bound s, mouse_handled s, click_blocked s, old_ie s)"

lemma keeps_case_option [frame_intro]:
  "keeps v m \<Longrightarrow> (\<And>a. keeps v (k a)) \<Longrightarrow> keeps v (case x of None \<Rightarrow> m | Some a \<Rightarrow> k a)"
  by (cases x) simp_all

lemma keeps_if [frame_intro]: "keeps v m \<Longrightarrow> keeps v n \<Longrightarrow> keeps v (if b then m else n)"
  by simp

lemma keeps_case_prod [frame_intro]: "(\<And>a b. keeps v (k a b)) \<Longrightarrow> keeps v (case x of (a, b) \<Rightarrow> k a b)"
  by (cases x) simp

lemma keeps_call [frame_intro]: "keeps v m \<Longrightarrow> (\<And>b. keeps v (k b)) \<Longrightarrow> keeps v (call m k)"
  unfolding call_def by (intro frame_intro)

text \<open>A widget that starts on mouse down, without waiting for a move.\<close>

definition eager :: "'m mouse_scheme \<Rightarrow> bool" where
  "eager s \<longleftrightarrow> distance s = Fin 0 \<and> delay s = Fin 0"

text \<open>Coordinates of a size a page has.\<close>

definition small :: "jsnum \<Rightarrow> bool" where
  "small x \<longleftrightarrow> (case x of Fin q \<Rightarrow> \<bar>q\<bar> \<le> 2 ^ 20 | _ \<Rightarrow> False)"

definition finite_event :: "mouse_event \<Rightarrow> bool" where
  "finite_event ev \<longleftrightarrow> small (page_x ev) \<and> small (page_y ev)"

fun finite_input :: "mouse_input \<Rightarrow> bool" where
  "finite_input (MouseDown ev) = finite_event ev"
| "finite_input (MouseMove ev) = finite_event ev"
| "finite_input (MouseUp ev) = finite_event ev"
| "finite_input _ = True"

lemma eager_met: "finite_event ev \<Longrightarrow> eager s \<Longrightarrow> down_event s = Some ev \<Longrightarrow> distance_met ev s"
  by (auto simp: finite_event_def small_def distance_met_def eager_def num_defs num_le_def num_eq_def math_max_def
      split: jsnum.splits)

text \<open>
  The widget has three kinds of state: idle, armed (the press was captured), dragging. Its methods
  leave the base widget alone, and lead from one kind to the next; capturing and starting do not
  throw. A widget that waits for a move before it starts may be released while it is armed.
\<close>

locale mouse_client =
  fixes ops :: "('m mouse_scheme) mouse_ops"
    and idle armed dragging :: "'m mouse_scheme \<Rightarrow> bool"
  assumes client_cong: "mouse.more s = mouse.more t \<Longrightarrow> distance s = distance t \<Longrightarrow> delay s = delay t \<Longrightarrow>
      idle s = idle t \<and> armed s = armed t \<and> dragging s = dragging t"
    and capture_frame: "keeps mouse_view (capture ops ev)"
    and start_frame: "keeps mouse_view (start ops ev)"
    and drag_frame: "keeps mouse_view (drag ops ev)"
    and stop_frame: "keeps mouse_view (stop ops ev)"
    and capture_ok: "finite_event ev \<Longrightarrow> idle s \<Longrightarrow> wp (capture ops ev) (\<lambda>t. if answer t then armed t else idle t) (\<lambda>_. False) s"
    and start_ok: "armed s \<Longrightarrow> wp (start ops ev) (\<lambda>t. if answer t then dragging t else idle t) (\<lambda>_. False) s"
    and drag_ok: "finite_event ev \<Longrightarrow> dragging s \<Longrightarrow> dragging (snd (drag ops ev s))"
    and stop_ok: "dragging s \<Longrightarrow> idle (snd (stop ops ev s))"
    and armed_idle: "\<not> eager s \<Longrightarrow> armed s \<Longrightarrow> idle s"
begin

text \<open>
  The protocol between two events: a drag is on exactly while \<open>started\<close>, it has the delegates and
  the event that began it; otherwise the widget is idle. The delegates are there only while the
  mouse is taken.
\<close>

definition protocol :: "'m mouse_scheme \<Rightarrow> bool" where
  "protocol s \<longleftrightarrow> (if started s then dragging s \<and> bound s else idle s \<and> (bound s \<longrightarrow> armed s)) \<and>
     (bound s \<longrightarrow> down_event s \<noteq> None \<and> mouse_handled s)"

lemmas client_congD = client_cong [THEN conjunct1] client_cong [THEN conjunct2, THEN conjunct1]
  client_cong [THEN conjunct2, THEN conjunct2]

lemma client_simps [simp]:
    "idle (bound_update bf s) = idle s" "idle (started_update bf s) = idle s"
    "idle (click_blocked_update tsf s) = idle s" "idle (delay_state_update df s) = idle s"
    "idle (ignore_missing_which_update bf s) = idle s" "idle (mouse_handled_update bf s) = idle s"
    "idle (prevented_update bf s) = idle s" "idle (mouse_moved_update bf s) = idle s"
    "idle (down_event_update ef s) = idle s" "idle (delay_met_update bf s) = idle s"
    "idle (answer_update bf s) = idle s"
    "armed (bound_update bf s) = armed s" "armed (started_update bf s) = armed s"
    "armed (click_blocked_update tsf s) = armed s" "armed (delay_state_update df s) = armed s"
    "armed (ignore_missing_which_update bf s) = armed s" "armed (mouse_handled_update bf s) = armed s"
    "armed (prevented_update bf s) = armed s" "armed (mouse_moved_update bf s) = armed s"
    "armed (down_event_update ef s) = armed s" "armed (delay_met_update bf s) = armed s"
    "armed (answer_update bf s) = armed s"
    "dragging (bound_update bf s) = dragging s" "dragging (started_update bf s) = dragging s"
    "dragging (click_blocked_update tsf s) = dragging s" "dragging (delay_state_update df s) = dragging s"
    "dragging (ignore_missing_which_update bf s) = dragging s"
    "dragging (mouse_handled_update bf s) = dragging s" "dragging (prevented_update bf s) = dragging s"
    "dragging (mouse_moved_update bf s) = dragging s" "dragging (down_event_update ef s) = dragging s"
    "dragging (delay_met_update bf s) = dragging s" "dragging (answer_update bf s) = dragging s"
  by (rule client_congD; simp)+

lemma frame_wp:
  assumes "keeps mouse_view m" "wp m Q' E' s"
    and "\<And>t. Q' t \<Longrightarrow> mouse_view t = mouse_view s \<Longrightarrow> Q t" "\<And>t. E' t \<Longrightarrow> mouse_view t = mouse_view s \<Longrightarrow> E t"
  shows "wp m Q E s"
  using wp_conj [OF assms(2) wp_keeps [OF assms(1)]] assms(3,4) by (auto elim!: wp_mono)

lemma capture_wp:
  assumes "finite_event ev" "idle s" and "\<And>t. mouse_view t = mouse_view s \<Longrightarrow> if answer t then armed t else idle t \<Longrightarrow> Q t"
  shows "wp (capture ops ev) Q E s"
  by (rule frame_wp [OF capture_frame capture_ok]) (use assms in auto)

lemma start_wp:
  assumes "armed s" and "\<And>t. mouse_view t = mouse_view s \<Longrightarrow> if answer t then dragging t else idle t \<Longrightarrow> Q t"
  shows "wp (start ops ev) Q E s"
  by (rule frame_wp [OF start_frame start_ok]) (use assms in auto)

lemma drag_wp:
  assumes "finite_event ev" "dragging s" and "\<And>t. mouse_view t = mouse_view s \<Longrightarrow> dragging t \<Longrightarrow> Q t \<and> E t"
  shows "wp (drag ops ev) Q E s"
  by (rule frame_wp [OF drag_frame, where Q' = dragging and E' = dragging])
     (use assms in \<open>auto simp: wp_same drag_ok\<close>)

lemma stop_wp:
  assumes "dragging s" and "\<And>t. mouse_view t = mouse_view s \<Longrightarrow> idle t \<Longrightarrow> Q t \<and> E t"
  shows "wp (stop ops ev) Q E s"
  by (rule frame_wp [OF stop_frame, where Q' = idle and E' = idle])
     (use assms in \<open>auto simp: wp_same stop_ok\<close>)

text \<open>Released: neither a drag nor delegates.\<close>

definition rest :: "'m mouse_scheme \<Rightarrow> bool" where
  "rest s \<longleftrightarrow> \<not> started s \<and> \<not> bound s \<and> idle s"

lemma rest_protocol: "rest s \<Longrightarrow> protocol s"
  by (simp add: rest_def protocol_def)

lemma up_rest: "if started s then dragging s else idle s \<Longrightarrow> wp (mouse_up ops ev) rest rest s"
  unfolding mouse_up_def
  by (auto simp: wp_simps prevent_default_def rest_def mouse_view_def intro!: stop_wp)

lemma up_protocol: "protocol s \<Longrightarrow> wp (mouse_up ops ev) rest rest s"
  by (rule up_rest) (auto simp: protocol_def split: if_splits)

lemma bind_delegates_wp:
  "wp (bind_delegates ev) Q E s = Q (click_blocked_update (\<lambda>ts. ts - {target ev}) s
     \<lparr>bound := True, prevented := True, mouse_handled := True\<rparr>)"
  by (simp add: bind_delegates_def prevent_default_def wp_simps)

lemma bound_armed:
  "protocol (click_blocked_update f s\<lparr>bound := True, prevented := p, mouse_handled := h\<rparr>)
    \<longleftrightarrow> (if started s then dragging s else idle s \<and> armed s) \<and> down_event s \<noteq> None \<and> h"
  by (auto simp: protocol_def)

lemma set_delay_wp:
  "\<exists>t. (\<forall>Q E. wp set_delay Q E s = Q t) \<and> started t = started s \<and> bound t = bound s \<and>
    down_event t = down_event s \<and> armed t = armed s \<and> eager t = eager s \<and> (eager t \<longrightarrow> delay_met t)"
proof -
  let ?s = "s\<lparr>delay_met := num_eq (delay s) (Fin 0) \<or> delay s = NaN\<rparr>"
  show ?thesis
    by (rule exI [of _ "if delay_met ?s then ?s else ?s\<lparr>delay_state := TimerPending\<rparr>"])
       (auto simp: set_delay_def wp_simps eager_def num_eq_def)
qed

lemma begin_drag_wp:
  "armed s \<Longrightarrow> \<not> started s \<Longrightarrow> \<not> bound s \<Longrightarrow> down_event s = Some ev \<Longrightarrow>
    wp (begin_drag ops ev) protocol (\<lambda>_. False) s"
  unfolding begin_drag_def call_def wp_seq wp_bind_val
  by (erule start_wp) (auto simp: wp_simps prevent_default_def bind_delegates_wp bound_armed mouse_view_def
      protocol_def split: if_splits)

lemma captured_protocol:
  assumes ev: "finite_event ev" and s: "\<not> started s" "\<not> bound s" "armed s" "down_event s = Some ev"
  shows "wp (block [set_delay,
      ite (\<lambda>s. distance_met ev s \<and> delay_met s) (begin_drag ops ev) (bind_delegates ev)]) protocol (\<lambda>_. False) s"
proof -
  obtain t where w: "\<And>Q E. wp set_delay Q E s = Q t"
    and t: "\<not> started t" "\<not> bound t" "down_event t = Some ev" "armed t" "eager t \<longrightarrow> delay_met t"
    using set_delay_wp [of s] s by metis
  have "wp (ite (\<lambda>s. distance_met ev s \<and> delay_met s) (begin_drag ops ev) (bind_delegates ev)) protocol (\<lambda>_. False) t"
  proof (cases "distance_met ev t \<and> delay_met t")
    case True
    then show ?thesis using begin_drag_wp t by (simp add: wp_ite)
  next
    case False
    then have "idle t" using eager_met [OF ev _ t(3)] armed_idle [OF _ t(4)] t(5) by blast
    then have "wp (bind_delegates ev) protocol (\<lambda>_. False) t"
      using t by (simp add: bind_delegates_wp bound_armed)
    then show ?thesis by (simp only: wp_ite False if_False)
  qed
  then show ?thesis by (simp add: wp_block_Cons wp_done w del: block.simps)
qed

lemma down_protocol:
  assumes ev: "finite_event ev" and s: "protocol s"
  shows "wp (mouse_down ops ev) protocol (\<lambda>_. False) s"
proof (cases "mouse_handled s")
  case False
  let ?s = "mouse_moved_update (\<lambda>_. False) s\<lparr>down_event := Some ev\<rparr>"
  have r: "\<not> started s" "\<not> bound s" "idle s" using s False by (auto simp: protocol_def split: if_splits)
  have "wp (call (capture ops ev) (\<lambda>captured. if \<not> captured then skip else block [set_delay,
      ite (\<lambda>s. distance_met ev s \<and> delay_met s) (begin_drag ops ev) (bind_delegates ev)])) protocol (\<lambda>_. False) ?s"
    unfolding call_def wp_seq wp_bind_val
    by (rule capture_wp [OF ev])
       (use r captured_protocol [OF ev] in \<open>auto simp: wp_skip mouse_view_def protocol_def simp del: block.simps\<close>)
  then show ?thesis
    using False r by (auto simp: mouse_down_def wp_simps wp_done protocol_def simp del: block.simps)
qed (use s in \<open>simp add: mouse_down_def wp_guard\<close>)

lemma late_start_wp:
  assumes ev: "finite_event ev" and "protocol s" "bound s" "\<not> started s" "down_event s = Some d"
  shows "wp (call (start ops d) (\<lambda>ok. block
      [upd (started_update (\<lambda>_. ok)), if ok then drag ops ev else mouse_up ops ev])) protocol protocol s"
  unfolding call_def wp_seq wp_bind_val
proof (rule start_wp)
  show "armed s" using assms by (simp add: protocol_def)
  fix t assume v: "mouse_view t = mouse_view s" and a: "if answer t then dragging t else idle t"
  let ?t = "started_update (\<lambda>_. answer t) t"
  have p: "bound ?t \<and> down_event ?t \<noteq> None \<and> mouse_handled ?t"
    using v assms by (auto simp: mouse_view_def protocol_def)
  have up: "wp (mouse_up ops ev) protocol protocol ?t" if "\<not> answer t"
    by (rule wp_mono [OF up_rest]) (use a that in \<open>auto intro: rest_protocol\<close>)
  have drag: "wp (drag ops ev) protocol protocol ?t" if "answer t"
    by (rule drag_wp [OF ev]) (use a that p in \<open>auto simp: mouse_view_def protocol_def\<close>)
  show "wp (block [upd (started_update (\<lambda>_. answer t)), if answer t then drag ops ev else mouse_up ops ev])
      protocol protocol t"
    using up drag by (simp add: wp_block_Cons wp_done wp_upd del: block.simps)
qed

lemma move_protocol:
  assumes ev: "finite_event ev" and s: "protocol s" "bound s"
  shows "wp (mouse_move ops ev) protocol protocol s"
proof (cases "release_missed ev s")
  case True
  then show ?thesis
    using wp_mono [OF up_protocol [OF s(1)] rest_protocol rest_protocol] by (simp add: mouse_move_def wp_ite)
next
  case False
  define t where "t = s\<lparr>ignore_missing_which := (if mouse_moved s \<and> which ev = 0 \<and> modifier_key ev \<and>
      \<not> (old_ie s \<and> pressed ev = 0) then True else ignore_missing_which s),
    mouse_moved := (if which ev \<noteq> 0 \<or> pressed ev \<noteq> 0 then True else mouse_moved s)\<rparr>"
  have t: "protocol t" "bound t" using s by (simp_all add: t_def protocol_def)
  have drag: "wp (block [drag ops ev, prevent_default]) protocol protocol t" if "started t"
    unfolding wp_block_Cons
    by (rule drag_wp [OF ev]) (use t that in \<open>auto simp: protocol_def mouse_view_def prevent_default_def wp_simps\<close>)
  have late: "wp (call (start ops d) (\<lambda>ok. block
      [upd (started_update (\<lambda>_. ok)), if ok then drag ops ev else mouse_up ops ev]))
      (wp (block [guard started prevent_default]) protocol protocol) protocol t"
    if "\<not> started t" "down_event t = Some d" for d
    by (rule wp_mono [OF late_start_wp [OF ev t that]])
       (auto simp: wp_simps prevent_default_def protocol_def)
  obtain d where d: "down_event t = Some d" using t by (auto simp: protocol_def)
  have flags: "wp (block (guard (\<lambda>s. mouse_moved s \<and> which ev = 0 \<and> modifier_key ev \<and> \<not> (old_ie s \<and> pressed ev = 0))
       (upd (ignore_missing_which_update (\<lambda>_. True)))
     # guard (\<lambda>_. which ev \<noteq> 0 \<or> pressed ev \<noteq> 0) (upd (mouse_moved_update (\<lambda>_. True))) # ms)) Q E s
    = wp (block ms) Q E t" for ms Q E
    by (cases s) (auto simp: t_def wp_simps)
  have "wp (ite started (block [drag ops ev, prevent_default]) (block
      [guard (\<lambda>s. distance_met ev s \<and> delay_met s)
         (bind_val down_event (\<lambda>d. case d of None \<Rightarrow> skip | Some down_ev \<Rightarrow>
            call (start ops down_ev) (\<lambda>ok. block
              [upd (started_update (\<lambda>_. ok)), if ok then drag ops ev else mouse_up ops ev]))),
       guard started prevent_default])) protocol protocol t"
    using drag late [OF _ d] t d
    by (auto simp: wp_ite wp_guard wp_block_Cons wp_done wp_bind_val prevent_default_def wp_upd protocol_def
        simp del: block.simps)
  then show ?thesis
    by (simp only: mouse_move_def wp_ite [of "release_missed ev"] False if_False flags) (simp only: wp_block_Cons wp_done)
qed

text \<open>Whatever the mouse does, the protocol holds after every event.\<close>

lemma protocol_step: "finite_input i \<Longrightarrow> protocol s \<Longrightarrow> protocol (snd (mouse_handler ops i s))"
proof (cases i)
  case (MouseDown ev)
  assume "finite_input i" "protocol s"
  then have "wp (mouse_down ops ev) protocol (\<lambda>_. False) (prevented_update (\<lambda>_. False) s)"
    using MouseDown by (intro down_protocol) (simp_all add: protocol_def)
  from wp_normal [OF this] show ?thesis by (auto simp: MouseDown stmt_simps)
next
  case (MouseMove ev)
  assume p: "protocol s" and "finite_input i"
  then have ev: "finite_event ev" using MouseMove by simp
  let ?s = "prevented_update (\<lambda>_. False) s"
  have "protocol ?s" using p by (simp add: protocol_def)
  then have "bound ?s \<Longrightarrow> protocol (snd (mouse_move ops ev ?s))"
    using move_protocol [OF ev, of ?s] by (simp add: wp_same)
  then show ?thesis using \<open>protocol ?s\<close> by (simp add: MouseMove stmt_simps)
next
  case (MouseUp ev)
  assume p: "protocol s"
  let ?s = "s\<lparr>prevented := False, mouse_handled := False\<rparr>"
  have "bound ?s \<Longrightarrow> rest (snd (mouse_up ops ev ?s))"
    using up_rest [of ?s ev] p by (simp add: wp_same protocol_def)
  then show ?thesis using p rest_protocol by (auto simp: MouseUp stmt_simps protocol_def)
qed (auto simp: stmt_simps mouse_click_def prevent_default_def protocol_def)

end
text \<open>So a widget that keeps the contract is driven by the event loop of the page.\<close>

sublocale mouse_client \<subseteq> running: event_loop "mouse_handler ops" finite_input protocol
  by unfold_locales (rule protocol_step)

end
