(* ===== verification/UI_Slider.thy ===== *)
theory UI_Slider
  imports UI_Mouse JS_Text
begin

text \<open>
  The slider widget of jQuery UI (\<open>$.widget("ui.slider", $.ui.mouse)\<close>), which the control bar
  uses for the position: its options and values, the handlers of the mouse and of the keys, and
  the calls of the callbacks. What happens in a callback, and in the handlers of the DOM event
  that goes with it, is a parameter \<open>listen\<close>; it may change the rest of the page (\<open>outside\<close>),
  forbid what is about to happen, or throw.
\<close>

section \<open>State\<close>

datatype range_kind = NoRange | RangeTrue | RangeMin | RangeMax

record handle =
  css_left :: string
  css_bottom :: string
  animated :: bool
  active :: bool               \<comment> \<open>the classes of the handle\<close>
  hover :: bool
  focused :: bool

record range_element =
  range_left :: string
  range_bottom :: string
  range_width :: string
  range_height :: string
  range_side :: range_kind     \<comment> \<open>its class\<close>

text \<open>Where an element is and how large; of a handle also its borders and margin, in whole pixels.\<close>

record geometry =
  box_width :: jsnum
  box_height :: jsnum
  box_left :: jsnum
  box_top :: jsnum
  box_border_top :: jsnum
  box_border_bottom :: jsnum
  box_margin_top :: jsnum

datatype ui_type = SlideStart | SlideMove | SlideStop | SlideChange

datatype source = ByMouse | ByKey | ByProgram

text \<open>An event of the slider with its \<open>ui\<close> object.\<close>

record ui_event =
  ui_type :: ui_type
  ui_source :: source
  ui_index :: "nat option"
  ui_value :: jsnum
  ui_values :: "jsnum list option"

record 'e slider = mouse +
  opt_animate :: bool
  opt_max :: jsnum
  opt_min :: jsnum
  opt_orientation :: string
  opt_range :: range_kind
  opt_step :: jsnum
  opt_value :: jsnum
  opt_values :: "jsnum list option"
  opt_disabled :: bool
  key_sliding :: bool
  mouse_sliding :: bool
  animate_off :: bool
  handle_index :: "nat option"
  vertical :: bool
  max_value :: jsnum           \<comment> \<open>\<open>this.max\<close>, the largest aligned value\<close>
  handles :: "handle list"
  range_el :: "range_element option"
  last_changed :: "nat option"
  element_size :: "jsnum \<times> jsnum"
  element_offset :: "jsnum \<times> jsnum"
  click_offset :: "(jsnum \<times> jsnum) option"
  element_classes :: "string list"
  element_box :: geometry      \<comment> \<open>read from the page\<close>
  handle_box :: "nat \<Rightarrow> geometry"
  handle_targets :: "nat set"  \<comment> \<open>the elements in a handle\<close>
  history :: "ui_event list"   \<comment> \<open>the events so far\<close>
  outside :: 'e

type_synonym 'e listener = "ui_event \<Rightarrow> 'e \<Rightarrow> (exn + bool) \<times> 'e"

section \<open>Values\<close>

definition value_min :: "'e slider \<Rightarrow> jsnum" where
  "value_min s = opt_min s"

definition value_max :: "'e slider \<Rightarrow> jsnum" where
  "value_max s = max_value s"

text \<open>\<open>_trimAlignValue\<close>: the aligned value closest to \<open>val\<close> between the bounds.\<close>

definition trim_align :: "'e slider \<Rightarrow> jsnum \<Rightarrow> jsnum" where
  "trim_align s val =
     (if val \<le> value_min s then value_min s
      else if value_max s \<le> val then value_max s
      else let step = (if Fin 0 < opt_step s then opt_step s else Fin 1);
               val_mod_step = num_rem (val - value_min s) step;
               align_value = val - val_mod_step
           in parse_float (to_fixed 5
                (if step \<le> math_abs val_mod_step * Fin 2
                 then align_value + (if Fin 0 < val_mod_step then step else - step)
                 else align_value)))"

text \<open>The digits after the point of a number as text.\<close>

definition precision_of :: "jsnum \<Rightarrow> nat" where
  "precision_of x = (let point = dropWhile (\<lambda>c. c \<noteq> CHR ''.'') (num_to_string x)
     in if point = [] then 0 else length point - 1)"

definition precision :: "'e slider \<Rightarrow> nat" where
  "precision s = max (precision_of (opt_step s)) (precision_of (opt_min s))"

definition calculate_new_max :: "'e slider stmt" where
  "calculate_new_max = upd (\<lambda>s.
     let above_min = math_round ((opt_max s - value_min s) div opt_step s) * opt_step s;
         m = above_min + value_min s;
         m' = (if opt_max s < m then m - opt_step s else m)
     in s\<lparr>max_value := parse_float (to_fixed (precision s) m')\<rparr>)"

definition has_multiple_values :: "'e slider \<Rightarrow> bool" where
  "has_multiple_values s \<longleftrightarrow> (case opt_values s of None \<Rightarrow> False | Some vs \<Rightarrow> vs \<noteq> [])"

text \<open>Reading an array out of its bounds gives \<open>undefined\<close>, which counts as \<open>NaN\<close>.\<close>

definition array_get :: "jsnum list \<Rightarrow> nat option \<Rightarrow> jsnum" where
  "array_get vs i = (case i of None \<Rightarrow> NaN | Some k \<Rightarrow> if k < length vs then vs ! k else NaN)"

definition array_set :: "jsnum list \<Rightarrow> nat option \<Rightarrow> jsnum \<Rightarrow> jsnum list" where
  "array_set vs i v = (case i of None \<Rightarrow> vs
     | Some k \<Rightarrow> if k < length vs then vs[k := v] else vs @ replicate (k - length vs) NaN @ [v])"

definition value_list :: "'e slider \<Rightarrow> jsnum list" where
  "value_list s = (case opt_values s of None \<Rightarrow> [] | Some vs \<Rightarrow> vs)"

definition get_value :: "'e slider \<Rightarrow> jsnum" where
  "get_value s = trim_align s (opt_value s)"

definition get_values :: "'e slider \<Rightarrow> jsnum list" where
  "get_values s = map (trim_align s) (value_list s)"

definition get_values_at :: "nat option \<Rightarrow> 'e slider \<Rightarrow> jsnum" where
  "get_values_at i s =
     (if has_multiple_values s then trim_align s (array_get (value_list s) i) else get_value s)"

section \<open>Events\<close>

definition ui_hash :: "nat option \<Rightarrow> jsnum option \<Rightarrow> jsnum list option \<Rightarrow> ui_type \<Rightarrow> source \<Rightarrow> 'e slider \<Rightarrow> ui_event" where
  "ui_hash i v vs ty src s = \<lparr>ui_type = ty, ui_source = src, ui_index = i,
     ui_value = (case v of Some x \<Rightarrow> x | None \<Rightarrow> get_values_at i s),
     ui_values = (if has_multiple_values s
        then Some (case vs of Some xs \<Rightarrow> xs | None \<Rightarrow> get_values s) else None)\<rparr>"

text \<open>The answer is false when a callback returned false or prevented the default.\<close>

definition hear :: "'e listener \<Rightarrow> ui_event \<Rightarrow> 'e slider stmt" where
  "hear listen e s = (case listen e (outside s) of
       (Inl x, out) \<Rightarrow> (Some x, s\<lparr>outside := out\<rparr>)
     | (Inr allowed, out) \<Rightarrow> (None, s\<lparr>outside := out, answer := allowed\<rparr>))"

definition trigger :: "'e listener \<Rightarrow> ui_type \<Rightarrow> source \<Rightarrow> nat option \<Rightarrow> jsnum option \<Rightarrow> jsnum list option \<Rightarrow> 'e slider stmt" where
  "trigger listen ty src i v vs = bind_val (ui_hash i v vs ty src) (\<lambda>e. block
     [upd (\<lambda>s. s\<lparr>history := history s @ [e]\<rparr>), hear listen e])"

definition slide_start :: "'e listener \<Rightarrow> source \<Rightarrow> nat option \<Rightarrow> 'e slider stmt" where
  "slide_start listen src i = trigger listen SlideStart src i None None"

definition slide_stop :: "'e listener \<Rightarrow> source \<Rightarrow> nat option \<Rightarrow> 'e slider stmt" where
  "slide_stop listen src i = trigger listen SlideStop src i None None"

definition slide_change :: "'e listener \<Rightarrow> source \<Rightarrow> nat option \<Rightarrow> 'e slider stmt" where
  "slide_change listen src i = guard (\<lambda>s. \<not> key_sliding s \<and> \<not> mouse_sliding s) (block
     [upd (last_changed_update (\<lambda>_. i)),
      trigger listen SlideChange src i None None])"

section \<open>Drawing\<close>

definition percent :: "jsnum \<Rightarrow> string" where
  "percent x = num_to_string x @ ''%''"

definition draws_animated :: "'e slider \<Rightarrow> bool" where
  "draws_animated s \<longleftrightarrow> \<not> animate_off s \<and> opt_animate s"

definition update_handle :: "nat \<Rightarrow> (handle \<Rightarrow> handle) \<Rightarrow> 'e slider \<Rightarrow> 'e slider" where
  "update_handle i f s = s\<lparr>handles := (handles s)[i := f (handles s ! i)]\<rparr>"

text \<open>The handle is moved along the orientation of the slider.\<close>

definition place_handle :: "nat \<Rightarrow> jsnum \<Rightarrow> 'e slider stmt" where
  "place_handle i p = upd (\<lambda>s. update_handle i (\<lambda>h.
     if vertical s then h\<lparr>css_bottom := percent p, animated := draws_animated s\<rparr>
     else h\<lparr>css_left := percent p, animated := draws_animated s\<rparr>) s)"

text \<open>A method of \<open>this.range\<close>, which is null when the option is off.\<close>

definition style_range :: "(range_element \<Rightarrow> range_element) \<Rightarrow> 'e slider stmt" where
  "style_range f = ite (\<lambda>s. range_el s = None) (throw TypeError)
     (upd (range_el_update (map_option f)))"

definition value_percent :: "nat \<Rightarrow> 'e slider \<Rightarrow> jsnum" where
  "value_percent i s = (get_values_at (Some i) s - value_min s) div (value_max s - value_min s) * Fin 100"

text \<open>One handle of several, and the part of the range that hangs on it.\<close>

definition refresh_handle :: "nat \<Rightarrow> 'e slider stmt" where
  "refresh_handle i = bind_val (\<lambda>s. (value_percent i s, value_percent (i - 1) s)) (\<lambda>(p, last_p). block
     [place_handle i p,
      guard (\<lambda>s. opt_range s = RangeTrue) (bind_val vertical (\<lambda>v. block
        [if i = 0 then style_range (\<lambda>r. if v then r\<lparr>range_bottom := percent p\<rparr> else r\<lparr>range_left := percent p\<rparr>)
         else skip,
         if i = 1 then style_range (\<lambda>r. if v then r\<lparr>range_height := percent (p - last_p)\<rparr>
           else r\<lparr>range_width := percent (p - last_p)\<rparr>)
         else skip]))])"

definition single_percent :: "'e slider \<Rightarrow> jsnum" where
  "single_percent s = (if \<not> num_eq (value_max s) (value_min s)
     then (get_value s - value_min s) div (value_max s - value_min s) * Fin 100 else Fin 0)"

definition refresh_single :: "'e slider stmt" where
  "refresh_single = bind_val single_percent (\<lambda>p. block
     [place_handle 0 p,
      bind_val (\<lambda>s. (opt_range s, vertical s)) (\<lambda>(kind, v).
        if kind = RangeMin then
          style_range (\<lambda>r. if v then r\<lparr>range_height := percent p\<rparr> else r\<lparr>range_width := percent p\<rparr>)
        else if kind = RangeMax then
          style_range (\<lambda>r. if v then r\<lparr>range_height := percent (Fin 100 - p)\<rparr>
            else r\<lparr>range_width := percent (Fin 100 - p)\<rparr>)
        else skip)])"

definition refresh_value :: "'e slider stmt" where
  "refresh_value = ite has_multiple_values
     (bind_val (\<lambda>s. length (handles s)) (\<lambda>n. for_each [0..<n] refresh_handle))
     refresh_single"

text \<open>\<open>_refreshRange\<close>: undo the styles of the other orientation; the argument is the new option.\<close>

definition refresh_range :: "string \<Rightarrow> 'e slider stmt" where
  "refresh_range orient = block
    [if orient = ''vertical'' then style_range (\<lambda>r. r\<lparr>range_width := [], range_left := []\<rparr>) else skip,
     if orient = ''horizontal'' then style_range (\<lambda>r. r\<lparr>range_height := [], range_bottom := []\<rparr>) else skip]"

section \<open>Setting values\<close>

text \<open>\<open>value(v)\<close>, \<open>values(i, v)\<close> and \<open>values(vs)\<close>.\<close>

definition set_value :: "'e listener \<Rightarrow> jsnum \<Rightarrow> 'e slider stmt" where
  "set_value listen v = block
    [upd (\<lambda>s. s\<lparr>opt_value := trim_align s v\<rparr>),
     refresh_value,
     slide_change listen ByProgram (Some 0)]"

definition set_values_at :: "'e listener \<Rightarrow> nat option \<Rightarrow> jsnum \<Rightarrow> 'e slider stmt" where
  "set_values_at listen i v = ite (\<lambda>s. opt_values s = None) (throw TypeError) (block
    [upd (\<lambda>s. s\<lparr>opt_values := Some (array_set (value_list s) i (trim_align s v))\<rparr>),
     refresh_value,
     slide_change listen ByProgram i])"

definition set_values :: "'e listener \<Rightarrow> jsnum list \<Rightarrow> 'e slider stmt" where
  "set_values listen vs = ite (\<lambda>s. opt_values s = None) (throw TypeError) (block
    [bind_val (\<lambda>s. length (value_list s)) (\<lambda>n. for_each [0..<n] (\<lambda>i. block
       [upd (\<lambda>s. s\<lparr>opt_values := Some (array_set (value_list s) (Some i) (trim_align s (array_get vs (Some i))))\<rparr>),
        slide_change listen ByProgram (Some i)])),
     refresh_value])"

text \<open>What \<open>_slide\<close> makes of the new value: with a range of two, one handle stops at the other.\<close>

definition limited_value :: "nat option \<Rightarrow> jsnum \<Rightarrow> 'e slider \<Rightarrow> jsnum" where
  "limited_value i v s =
     (if has_multiple_values s \<and> length (value_list s) = 2 \<and> opt_range s = RangeTrue
      then let other = get_values_at (Some (if i = None \<or> i = Some 0 then 1 else 0)) s
           in if i = Some 0 then math_min other v else math_max other v
      else v)"

definition slide :: "'e listener \<Rightarrow> source \<Rightarrow> nat option \<Rightarrow> jsnum \<Rightarrow> 'e slider stmt" where
  "slide listen src i new = bind_val (\<lambda>s. (limited_value i new s, get_values_at i s)) (\<lambda>(v, current).
     if num_eq v current then skip
     else bind_val (\<lambda>s. if has_multiple_values s then array_set (get_values s) i v else get_values s) (\<lambda>vs.
       call (trigger listen SlideMove src i (Some v) (Some vs)) (\<lambda>allowed.
         if \<not> allowed then skip
         else ite has_multiple_values (set_values_at listen i v) (set_value listen v))))"

section \<open>The mouse\<close>

text \<open>\<open>_normValueFromMouse\<close>, from the sizes read when the press was captured.\<close>

definition norm_value_from_mouse :: "mouse_event \<Rightarrow> 'e slider \<Rightarrow> jsnum" where
  "norm_value_from_mouse ev s =
     (let (dx, dy) = (case click_offset s of None \<Rightarrow> (Fin 0, Fin 0) | Some d \<Rightarrow> d);
          pixel_total = (if vertical s then snd (element_size s) else fst (element_size s));
          pixel_mouse = (if vertical s then page_y ev - snd (element_offset s) - dy
            else page_x ev - fst (element_offset s) - dx);
          p = pixel_mouse div pixel_total;
          p = (if Fin 1 < p then Fin 1 else p);
          p = (if p < Fin 0 then Fin 0 else p);
          p = (if vertical s then Fin 1 - p else p)
      in trim_align s (value_min s + p * (value_max s - value_min s)))"

text \<open>The loop that looks for the handle closest to a value: the distance so far, and the handle.\<close>

definition closer :: "jsnum \<Rightarrow> 'e slider \<Rightarrow> nat \<Rightarrow> jsnum \<times> nat option \<Rightarrow> jsnum \<times> nat option" where
  "closer v s i best =
     (let d = math_abs (v - get_values_at (Some i) s)
      in if d < fst best \<or> num_eq (fst best) d \<and>
            (last_changed s = Some i \<or> num_eq (get_values_at (Some i) s) (opt_min s))
         then (d, Some i) else best)"

definition closest_handle :: "jsnum \<Rightarrow> 'e slider \<Rightarrow> nat option" where
  "closest_handle v s =
     snd (fold (closer v s) [0..<length (handles s)] (value_max s - value_min s + Fin 1, None))"

definition focus_handle :: "nat \<Rightarrow> 'e slider \<Rightarrow> 'e slider" where
  "focus_handle i s = s\<lparr>handles := map (\<lambda>(k, h). h\<lparr>focused := (k = i)\<rparr>) (enumerate 0 (handles s))\<rparr>"

text \<open>Where in the handle the press was; without a handle under the mouse the handle jumps.\<close>

definition grip :: "mouse_event \<Rightarrow> nat \<Rightarrow> 'e slider \<Rightarrow> jsnum \<times> jsnum" where
  "grip ev i s = (if target ev \<in> handle_targets s
     then (page_x ev - box_left (handle_box s i) - box_width (handle_box s i) div Fin 2,
           page_y ev - box_top (handle_box s i) - box_height (handle_box s i) div Fin 2
             - box_border_top (handle_box s i) - box_border_bottom (handle_box s i) + box_margin_top (handle_box s i))
     else (Fin 0, Fin 0))"

definition mouse_capture :: "'e listener \<Rightarrow> mouse_event \<Rightarrow> 'e slider stmt" where
  "mouse_capture listen ev = ite opt_disabled (returns False) (block
    [upd (\<lambda>s. s\<lparr>element_size := (box_width (element_box s), box_height (element_box s)),
       element_offset := (box_left (element_box s), box_top (element_box s))\<rparr>),
     bind_val (norm_value_from_mouse ev) (\<lambda>v.
     bind_val (closest_handle v) (\<lambda>index.
       call (slide_start listen ByMouse index) (\<lambda>allowed.
         if \<not> allowed then returns False
         else block
           [upd (\<lambda>s. s\<lparr>mouse_sliding := True, handle_index := index\<rparr>),
            case index of None \<Rightarrow> throw TypeError | Some i \<Rightarrow> block
              [upd (update_handle i (active_update (\<lambda>_. True))),
               upd (focus_handle i),
               upd (\<lambda>s. s\<lparr>click_offset := Some (grip ev i s)\<rparr>),
               guard (\<lambda>s. \<not> (\<exists>h \<in> set (handles s). hover h)) (slide listen ByMouse (Some i) v)],
            upd (animate_off_update (\<lambda>_. True)),
            returns True])))])"

definition mouse_start :: "mouse_event \<Rightarrow> 'e slider stmt" where
  "mouse_start ev = returns True"

definition mouse_drag :: "'e listener \<Rightarrow> mouse_event \<Rightarrow> 'e slider stmt" where
  "mouse_drag listen ev = bind_val (\<lambda>s. (handle_index s, norm_value_from_mouse ev s)) (\<lambda>(i, v).
     block [slide listen ByMouse i v, returns False])"

definition mouse_stop :: "'e listener \<Rightarrow> mouse_event \<Rightarrow> 'e slider stmt" where
  "mouse_stop listen ev = block
    [upd (\<lambda>s. s\<lparr>handles := map (active_update (\<lambda>_. False)) (handles s), mouse_sliding := False\<rparr>),
     bind_val handle_index (slide_stop listen ByMouse),
     bind_val handle_index (slide_change listen ByMouse),
     upd (\<lambda>s. s\<lparr>handle_index := None, click_offset := None, animate_off := False\<rparr>),
     returns False]"

definition slider_mouse :: "'e listener \<Rightarrow> ('e slider) mouse_ops" where
  "slider_mouse listen = \<lparr>capture = mouse_capture listen, start = mouse_start,
     drag = mouse_drag listen, stop = mouse_stop listen\<rparr>"

section \<open>The keys\<close>

definition key_codes :: "(string \<times> int) list" where
  "key_codes = [(''BACKSPACE'', 8), (''COMMA'', 188), (''DELETE'', 46), (''DOWN'', 40), (''END'', 35), (''ENTER'', 13),
     (''ESCAPE'', 27), (''HOME'', 36), (''LEFT'', 37), (''PAGE_DOWN'', 34), (''PAGE_UP'', 33), (''PERIOD'', 190),
     (''RIGHT'', 39), (''SPACE'', 32), (''TAB'', 9), (''UP'', 38)]"

definition key_is :: "string \<Rightarrow> int \<Rightarrow> bool" where
  "key_is name k \<longleftrightarrow> map_of key_codes name = Some k"

definition slider_key :: "int \<Rightarrow> bool" where
  "slider_key k \<longleftrightarrow> list_ex (\<lambda>name. key_is name k)
     [''HOME'', ''END'', ''PAGE_UP'', ''PAGE_DOWN'', ''UP'', ''RIGHT'', ''DOWN'', ''LEFT'']"

definition num_pages :: jsnum where
  "num_pages = Fin 5"

text \<open>The value a key leads to; nothing when the handle is at the end in that direction already.\<close>

definition key_value :: "int \<Rightarrow> nat \<Rightarrow> 'e slider \<Rightarrow> jsnum option" where
  "key_value k i s =
     (let cur = get_values_at (Some i) s; page = (value_max s - value_min s) div num_pages
      in if key_is ''HOME'' k then Some (value_min s)
         else if key_is ''END'' k then Some (value_max s)
         else if key_is ''PAGE_UP'' k then Some (trim_align s (cur + page))
         else if key_is ''PAGE_DOWN'' k then Some (trim_align s (cur - page))
         else if key_is ''UP'' k \<or> key_is ''RIGHT'' k then
           (if num_eq cur (value_max s) then None else Some (trim_align s (cur + opt_step s)))
         else if key_is ''DOWN'' k \<or> key_is ''LEFT'' k then
           (if num_eq cur (value_min s) then None else Some (trim_align s (cur - opt_step s)))
         else Some cur)"

definition key_slide :: "'e listener \<Rightarrow> int \<Rightarrow> nat \<Rightarrow> 'e slider stmt" where
  "key_slide listen k i = bind_val (key_value k i) (\<lambda>new. case new of
       None \<Rightarrow> skip
     | Some v \<Rightarrow> slide listen ByKey (Some i) v)"

definition keydown :: "'e listener \<Rightarrow> int \<Rightarrow> nat \<Rightarrow> 'e slider stmt" where
  "keydown listen k i =
     (if slider_key k then block
        [prevent_default,
         ite key_sliding (key_slide listen k i) (block
           [upd (key_sliding_update (\<lambda>_. True)),
            upd (update_handle i (active_update (\<lambda>_. True))),
            call (slide_start listen ByKey (Some i)) (\<lambda>allowed.
              if \<not> allowed then skip else key_slide listen k i)])]
      else key_slide listen k i)"

definition keyup :: "'e listener \<Rightarrow> nat \<Rightarrow> 'e slider stmt" where
  "keyup listen i = guard key_sliding (block
     [upd (key_sliding_update (\<lambda>_. False)),
      slide_stop listen ByKey (Some i),
      slide_change listen ByKey (Some i),
      upd (update_handle i (active_update (\<lambda>_. False)))])"

section \<open>Creation and options\<close>

definition plain_handle :: handle where
  "plain_handle = \<lparr>css_left = [], css_bottom = [], animated = False, active = False, hover = False, focused = False\<rparr>"

text \<open>One handle per value, at least one: superfluous ones go, missing ones are added at the end.\<close>

definition create_handles :: "'e slider stmt" where
  "create_handles = upd (\<lambda>s.
     let n = (if value_list s = [] then 1 else length (value_list s))
     in s\<lparr>handles := take n (handles s) @ replicate (n - length (handles s)) plain_handle\<rparr>)"

definition create_range :: "'e slider stmt" where
  "create_range = ite (\<lambda>s. opt_range s \<noteq> NoRange) (block
     [guard (\<lambda>s. opt_range s = RangeTrue) (upd (\<lambda>s. s\<lparr>opt_values := (case opt_values s of
          None \<Rightarrow> Some [value_min s, value_min s]
        | Some vs \<Rightarrow> if vs \<noteq> [] \<and> length vs \<noteq> 2 then Some [hd vs, hd vs] else Some vs)\<rparr>)),
      upd (\<lambda>s. s\<lparr>range_el := Some (case range_el s of
          None \<Rightarrow> \<lparr>range_left = [], range_bottom = [], range_width = [], range_height = [], range_side = NoRange\<rparr>
        | Some r \<Rightarrow> r\<lparr>range_left := [], range_bottom := [], range_side := NoRange\<rparr>)\<rparr>),
      guard (\<lambda>s. opt_range s = RangeMin \<or> opt_range s = RangeMax)
        (upd (\<lambda>s. s\<lparr>range_el := map_option (range_side_update (\<lambda>_. opt_range s)) (range_el s)\<rparr>))])
     (upd (range_el_update (\<lambda>_. None)))"

definition refresh :: "'e slider stmt" where
  "refresh = block [create_range, create_handles, refresh_value]"

definition detect_orientation :: "'e slider stmt" where
  "detect_orientation = upd (\<lambda>s. s\<lparr>vertical := (opt_orientation s = ''vertical'')\<rparr>)"

definition orientation_class :: "'e slider \<Rightarrow> string" where
  "orientation_class s = (if vertical s then ''ui-slider-vertical'' else ''ui-slider-horizontal'')"

definition create_slider :: "'e slider stmt" where
  "create_slider = block
    [upd (\<lambda>s. s\<lparr>key_sliding := False, mouse_sliding := False, animate_off := True, handle_index := None\<rparr>),
     detect_orientation,
     mouse_init,
     calculate_new_max,
     upd (\<lambda>s. s\<lparr>element_classes := element_classes s @
       [''ui-slider'', ''ui-corner-all'', orientation_class s, ''ui-widget'', ''ui-widget-content'']\<rparr>),
     refresh,
     upd (animate_off_update (\<lambda>_. False))]"

definition destroy_slider :: "'e slider stmt" where
  "destroy_slider = block [upd (\<lambda>s. s\<lparr>handles := [], range_el := None\<rparr>), mouse_destroy]"

datatype slider_option =
    OptAnimate bool
  | OptDisabled bool
  | OptMax jsnum
  | OptMin jsnum
  | OptOrientation string
  | OptRange range_kind
  | OptStep jsnum
  | OptValue jsnum
  | OptValues "jsnum list option"

text \<open>\<open>_setOption\<close> of the base widget with the slider's \<open>_setOptionDisabled\<close>.\<close>

fun store_option :: "slider_option \<Rightarrow> 'e slider \<Rightarrow> 'e slider" where
  "store_option (OptAnimate b) s = s\<lparr>opt_animate := b\<rparr>"
| "store_option (OptDisabled b) s = s\<lparr>opt_disabled := b,
     element_classes := filter (\<lambda>c. c \<notin> {''ui-slider-disabled'', ''ui-state-disabled''}) (element_classes s) @
       (if b then [''ui-slider-disabled'', ''ui-state-disabled''] else []),
     handles := (if b then map (\<lambda>h. h\<lparr>hover := False, focused := False\<rparr>) (handles s) else handles s)\<rparr>"
| "store_option (OptMax x) s = s\<lparr>opt_max := x\<rparr>"
| "store_option (OptMin x) s = s\<lparr>opt_min := x\<rparr>"
| "store_option (OptOrientation x) s = s\<lparr>opt_orientation := x\<rparr>"
| "store_option (OptRange x) s = s\<lparr>opt_range := x\<rparr>"
| "store_option (OptStep x) s = s\<lparr>opt_step := x\<rparr>"
| "store_option (OptValue x) s = s\<lparr>opt_value := x\<rparr>"
| "store_option (OptValues x) s = s\<lparr>opt_values := x\<rparr>"

text \<open>A range that stops being \<open>true\<close> keeps the value of its first or last handle.\<close>

definition leave_range :: "slider_option \<Rightarrow> 'e slider stmt" where
  "leave_range opt = guard (\<lambda>s. opt_range s = RangeTrue)
     (if opt = OptRange RangeMin then
        ite (\<lambda>s. opt_values s = None) (throw TypeError)
          (upd (\<lambda>s. s\<lparr>opt_value := trim_align s (array_get (value_list s) (Some 0)), opt_values := None\<rparr>))
      else if opt = OptRange RangeMax then
        ite (\<lambda>s. opt_values s = None) (throw TypeError)
          (upd (\<lambda>s. s\<lparr>opt_value := trim_align s (array_get (value_list s)
             (if value_list s = [] then None else Some (length (value_list s) - 1))), opt_values := None\<rparr>))
      else skip)"

definition unanimated :: "'e slider stmt list \<Rightarrow> 'e slider stmt" where
  "unanimated ms = block
    [upd (animate_off_update (\<lambda>_. True)), block ms, upd (animate_off_update (\<lambda>_. False))]"

text \<open>The effect of an option on the page; \<open>n\<close> is the number of values before the change.\<close>

fun apply_option :: "'e listener \<Rightarrow> nat \<Rightarrow> slider_option \<Rightarrow> 'e slider stmt" where
  "apply_option listen n (OptOrientation x) = block
    [detect_orientation,
     upd (\<lambda>s. s\<lparr>element_classes := filter (\<lambda>c. c \<notin> {''ui-slider-horizontal'', ''ui-slider-vertical''})
       (element_classes s) @ [orientation_class s]\<rparr>),
     refresh_value,
     guard (\<lambda>s. opt_range s \<noteq> NoRange) (refresh_range x),
     upd (\<lambda>s. s\<lparr>handles := map (\<lambda>h. if x = ''horizontal'' then h\<lparr>css_bottom := []\<rparr> else h\<lparr>css_left := []\<rparr>)
       (handles s)\<rparr>)]"
| "apply_option listen n (OptValue x) = unanimated [refresh_value, slide_change listen ByProgram (Some 0)]"
| "apply_option listen n (OptValues x) = unanimated
    [refresh_value, for_each (rev [0..<n]) (\<lambda>i. slide_change listen ByProgram (Some i))]"
| "apply_option listen n (OptStep x) = unanimated [calculate_new_max, refresh_value]"
| "apply_option listen n (OptMin x) = unanimated [calculate_new_max, refresh_value]"
| "apply_option listen n (OptMax x) = unanimated [calculate_new_max, refresh_value]"
| "apply_option listen n (OptRange x) = unanimated [refresh]"
| "apply_option listen n (OptAnimate x) = skip"
| "apply_option listen n (OptDisabled x) = skip"

definition set_option :: "'e listener \<Rightarrow> slider_option \<Rightarrow> 'e slider stmt" where
  "set_option listen opt = block
    [leave_range opt,
     bind_val (\<lambda>s. length (value_list s)) (\<lambda>n. block
       [upd (store_option opt),
        apply_option listen n opt])]"

section \<open>What happens to a slider\<close>

datatype slider_input =
    FromMouse mouse_input
  | KeyDown int nat            \<comment> \<open>key code and handle\<close>
  | KeyUp nat
  | EnterHandle nat
  | LeaveHandle nat
  | FocusHandle nat
  | SetOption slider_option
  | SetValue jsnum
  | SetValuesAt nat jsnum
  | SetValues "jsnum list"

text \<open>The handlers on the handles do nothing while the slider is disabled.\<close>

fun slider_handler :: "'e listener \<Rightarrow> slider_input \<Rightarrow> 'e slider stmt" where
  "slider_handler listen (FromMouse i) = mouse_handler (slider_mouse listen) i"
| "slider_handler listen (KeyDown k i) = guard (\<lambda>s. \<not> opt_disabled s \<and> i < length (handles s)) (keydown listen k i)"
| "slider_handler listen (KeyUp i) = guard (\<lambda>s. \<not> opt_disabled s \<and> i < length (handles s)) (keyup listen i)"
| "slider_handler listen (EnterHandle i) = guard (\<lambda>s. \<not> opt_disabled s \<and> i < length (handles s))
     (upd (update_handle i (hover_update (\<lambda>_. True))))"
| "slider_handler listen (LeaveHandle i) = guard (\<lambda>s. \<not> opt_disabled s \<and> i < length (handles s))
     (upd (update_handle i (hover_update (\<lambda>_. False))))"
| "slider_handler listen (FocusHandle i) = guard (\<lambda>s. \<not> opt_disabled s \<and> i < length (handles s))
     (upd (focus_handle i))"
| "slider_handler listen (SetOption opt) = set_option listen opt"
| "slider_handler listen (SetValue v) = set_value listen v"
| "slider_handler listen (SetValuesAt i v) = set_values_at listen (Some i) v"
| "slider_handler listen (SetValues vs) = set_values listen vs"

end
