(* ===== verification/JS_Rounding.thy ===== *)
theory JS_Rounding
  imports JS_Text
begin

text \<open>
  How far a double is from the number it stands for, and what is left of a number that goes
  through \<open>toFixed\<close> and \<open>parseFloat\<close>.
\<close>

section \<open>The error of rounding\<close>

lemma rne_error: "\<bar>of_int (rne q) - q\<bar> \<le> 1 / 2"
proof -
  have "of_int \<lfloor>q\<rfloor> \<le> q" "q < of_int \<lfloor>q\<rfloor> + 1" by linarith+
  then show ?thesis by (auto simp: rne_def Let_def abs_le_iff split: if_splits)
qed

lemma fl_error: "\<bar>fl q - q\<bar> \<le> \<bar>q\<bar> / 2 ^ 53 + 1 / 2 ^ 61"
proof (cases "q = 0")
  case False
  define e where "e = max (ilog2 \<bar>q\<bar> - 52) (- 1074)"
  define b :: rat where "b = 2 powi (- 1074)"
  have pos: "(0::rat) < 2 powi e" by simp
  have "fl q - q = (of_int (rne (q / 2 powi e)) - q / 2 powi e) * 2 powi e"
    using False by (simp add: fl_def e_def Let_def field_simps)
  then have "\<bar>fl q - q\<bar> = \<bar>of_int (rne (q / 2 powi e)) - q / 2 powi e\<bar> * 2 powi e"
    using pos by (simp add: abs_mult)
  also have "\<dots> \<le> 1 / 2 * 2 powi e"
    using rne_error [of "q / 2 powi e"] pos by (intro mult_right_mono) auto
  also have "(2::rat) powi e \<le> 2 powi (ilog2 \<bar>q\<bar> - 52) + b"
  proof -
    have "e = ilog2 \<bar>q\<bar> - 52 \<or> e = - 1074" by (simp add: e_def max_def)
    then have "(2::rat) powi e = 2 powi (ilog2 \<bar>q\<bar> - 52) \<or> (2::rat) powi e = b"
      unfolding b_def by metis
    moreover have "0 < b" "(0::rat) < 2 powi (ilog2 \<bar>q\<bar> - 52)" unfolding b_def by (simp_all only: zero_less_power_int zero_less_numeral)
    ultimately show ?thesis by (elim disjE) simp_all
  qed
  also have "(2::rat) powi (ilog2 \<bar>q\<bar> - 52) = 2 powi ilog2 \<bar>q\<bar> / 2 ^ 52"
    by (simp add: power_int_diff)
  also have "\<dots> \<le> \<bar>q\<bar> / 2 ^ 52"
    using ilog2_lower [of "\<bar>q\<bar>"] False by (intro divide_right_mono) auto
  also have "b \<le> 2 powi (- 60)" unfolding b_def by (intro power_int_increasing) simp_all
  also have "(2::rat) powi (- 60) = 1 / 2 ^ 60"
    by (simp only: power_int_minus power_int_numeral inverse_eq_divide)
  finally show ?thesis by (simp add: field_simps)
qed simp

text \<open>For numbers below \<open>2 ^ 30\<close> the error is below a five-millionth.\<close>

lemma fl_close: "\<bar>q\<bar> \<le> 2 ^ 30 \<Longrightarrow> \<bar>fl q - q\<bar> \<le> 1 / 5000000"
proof -
  assume "\<bar>q\<bar> \<le> 2 ^ 30"
  then have "\<bar>q\<bar> / 2 ^ 53 \<le> 2 ^ 30 / 2 ^ 53" by (rule divide_right_mono) simp
  then show ?thesis using fl_error [of q] by simp
qed

lemma mk_close:
  assumes "\<bar>q\<bar> \<le> 2 ^ 30"
  shows "\<exists>r. mk q = Fin r \<and> \<bar>r - q\<bar> \<le> 1 / 5000000"
proof -
  have "\<bar>fl q\<bar> < 2 ^ 31" using fl_close [OF assms] assms unfolding abs_le_iff abs_less_iff by simp
  also have "(2::rat) ^ 31 \<le> 2 ^ 1024" by (intro power_increasing) auto
  finally have "\<not> 2 ^ 1024 \<le> fl q" "\<not> fl q \<le> - (2 ^ 1024)" unfolding abs_less_iff by linarith+
  then have "mk q = Fin (fl q)" unfolding mk_def Let_def by (simp only: if_False)
  then show ?thesis using fl_close [OF assms] by blast
qed

section \<open>Through text and back\<close>

lemma int_of_digits_zeros: "int_of_digits (replicate k (CHR ''0'') @ s) = int_of_digits s"
proof (induction k)
  case (Suc k)
  have "code (CHR ''0'') = 48" by (simp add: code_def)
  with Suc show ?case by (simp add: int_of_digits_def)
qed simp

lemma is_digit_zero: "is_digit (CHR ''0'')" and not_digit_point: "\<not> is_digit (CHR ''.'')"
  by (simp_all add: is_digit_def code_def)

lemma split_sign_digit: "is_digit c \<Longrightarrow> split_sign (c # s) = (False, c # s)"
  by (auto simp: split_sign_def is_digit_def code_minus code_plus)

lemma read_decimal_fixed:
  assumes "i \<noteq> []" "\<forall>c \<in> set i. is_digit c" "\<forall>c \<in> set d. is_digit c"
  shows "read_decimal ((if neg then ''-'' else []) @ i @ CHR ''.'' # d)
    = Some (signed neg (mk (of_int (int_of_digits (i @ d)) * 10 powi (- int (length d)))), [])"
proof -
  let ?t = "i @ CHR ''.'' # d"
  obtain c s where i: "i = c # s" using assms(1) by (cases i) auto
  have c: "is_digit c" using assms(2) i by simp
  have sgn: "split_sign ((if neg then ''-'' else []) @ ?t) = (neg, ?t)"
    using c by (simp add: i split_sign_digit) (simp add: split_sign_def)
  have "CHR ''I'' \<noteq> c" using c by (auto simp: is_digit_def code_def)
  then have pre: "\<not> prefix ''Infinity'' ?t" by (simp add: i)
  have tk: "takeWhile is_digit ?t = i" "dropWhile is_digit ?t = CHR ''.'' # d"
    using assms(2) not_digit_point by (auto simp: takeWhile_append2 dropWhile_append2)
  have td: "takeWhile is_digit d = d" "dropWhile is_digit d = []"
    using assms(3) by (auto simp: takeWhile_eq_all_conv dropWhile_eq_Nil_conv)
  show ?thesis
    unfolding read_decimal_def sgn using assms(1)
    by (simp add: pre tk td read_exponent_def)
qed

text \<open>\<open>parseFloat(x.toFixed(f))\<close>: \<open>x\<close> to \<open>f\<close> digits, ties away from zero.\<close>

lemma parse_float_to_fixed:
  assumes "0 < f" "\<bar>q\<bar> < 10 ^ 21"
  shows "parse_float (to_fixed f (Fin q))
    = signed (q < 0) (mk (of_int \<lfloor>\<bar>q\<bar> * 10 ^ f + 1 / 2\<rfloor> * 10 powi (- int f)))"
proof -
  define n where "n = \<lfloor>\<bar>q\<bar> * 10 ^ f + 1 / 2\<rfloor>"
  have n: "0 \<le> n" by (simp add: n_def)
  define p where "p = (let m = digits n in replicate (f + 1 - length m) (CHR ''0'') @ m)"
  have p: "f < length p" "\<forall>c \<in> set p. is_digit c" "int_of_digits p = n"
    using digits_are_digits [OF n] n by (auto simp: p_def Let_def int_of_digits_zeros is_digit_zero)
  define i d where "i = take (length p - f) p" and "d = drop (length p - f) p"
  have id: "i \<noteq> []" "\<forall>c \<in> set i. is_digit c" "\<forall>c \<in> set d. is_digit c" "i @ d = p" "length d = f"
    using p(1,2) by (auto simp: i_def d_def dest: in_set_takeD in_set_dropD)
  have fx: "to_fixed f (Fin q) = (if q < 0 then ''-'' else []) @ i @ CHR ''.'' # d"
    unfolding to_fixed.simps n_def [symmetric] i_def d_def p_def Let_def using assms by simp
  obtain c s where c: "(if q < 0 then ''-'' else []) @ i @ CHR ''.'' # d = c # s"
    by (cases "(if q < 0 then ''-'' else []) @ i @ CHR ''.'' # d") auto
  have "\<not> is_space c"
    using c id(1,2) is_digit_not_space [of c]
    by (cases i) (auto simp: is_space_def code_minus split: if_splits)
  then have "dropWhile is_space (to_fixed f (Fin q)) = to_fixed f (Fin q)"
    by (simp only: fx c) simp
  then have "parse_float (to_fixed f (Fin q))
      = signed (q < 0) (mk (of_int (int_of_digits (i @ d)) * 10 powi (- int (length d))))"
    unfolding parse_float_def by (simp only: fx read_decimal_fixed [OF id(1-3)]) simp
  then show ?thesis by (simp only: id p(3) n_def)
qed

text \<open>Numbers close to an integer become that integer.\<close>

lemma to_fixed_near_int:
  assumes "\<bar>q - of_int k\<bar> \<le> 1 / 1000000" "\<bar>k\<bar> \<le> 2 ^ 31"
  shows "parse_float (to_fixed 5 (Fin q)) = num_of_int k"
proof -
  have k: "\<bar>of_int k :: rat\<bar> \<le> 2 ^ 31"
    using assms(2) by (metis of_int_abs of_int_le_iff of_int_numeral of_int_power)
  then have q: "\<bar>q\<bar> < 10 ^ 21" using assms(1) unfolding abs_le_iff abs_less_iff by simp
  have "\<bar>\<bar>q\<bar> - of_int \<bar>k\<bar>\<bar> \<le> 1 / 1000000"
    using assms(1) unfolding of_int_abs by linarith
  then have "of_int (\<bar>k\<bar> * 100000) \<le> \<bar>q\<bar> * 10 ^ 5 + 1 / 2" "\<bar>q\<bar> * 10 ^ 5 + 1 / 2 < of_int (\<bar>k\<bar> * 100000) + 1"
    unfolding abs_le_iff by simp_all
  then have fl: "\<lfloor>\<bar>q\<bar> * 10 ^ 5 + 1 / 2\<rfloor> = \<bar>k\<bar> * 100000" by (rule floor_unique)
  have eq: "of_int (\<bar>k\<bar> * 100000) * (10::rat) powi (- int 5) = of_int \<bar>k\<bar>"
    by (simp add: power_int_minus)
  have mk: "mk (of_int \<bar>k\<bar>) = num_of_int \<bar>k\<bar>" using assms(2) by (intro mk_of_int) simp
  have "q < 0 \<Longrightarrow> (of_int k :: rat) < 1" "0 \<le> q \<Longrightarrow> (- 1 :: rat) < of_int k"
    using assms(1) by linarith+
  then have "q < 0 \<Longrightarrow> k \<le> 0" "0 \<le> q \<Longrightarrow> 0 \<le> k" by simp_all
  then show ?thesis
    using parse_float_to_fixed [OF _ q, of 5] fl eq mk by (auto simp: signed_def)
qed

text \<open>Whole numbers, without a point.\<close>

lemma parse_float_digits:
  assumes "0 \<le> n" "n < 2 ^ 53"
  shows "parse_float (digits n) = num_of_int n"
proof -
  obtain c s where c: "digits n = c # s" "is_digit c" using digits_hd [OF assms(1)] by (cases "digits n") auto
  then have "CHR ''I'' \<noteq> c" by (auto simp: is_digit_def code_def)
  then have pre: "\<not> prefix ''Infinity'' (digits n)" by (simp add: c(1))
  have dw: "dropWhile is_digit (digits n) = []"
    using digits_are_digits [OF assms(1)] by (simp add: dropWhile_eq_Nil_conv)
  show ?thesis
    using assms by (simp add: parse_float_def read_decimal_def pre dw read_exponent_def signed_def mk_of_int)
qed

lemma parse_float_fixed_int:
  assumes "m \<le> 2 ^ 30"
  shows "parse_float (to_fixed 0 (num_of_nat m)) = num_of_nat m"
proof -
  have m: "(of_nat m :: rat) \<le> 2 ^ 30" using assms by (metis of_nat_le_iff of_nat_numeral of_nat_power)
  have "\<lfloor>(of_nat m :: rat) + 1 / 2\<rfloor> = int m" by (rule floor_unique) simp_all
  then have "to_fixed 0 (num_of_nat m) = digits (int m)" using m by simp
  then show ?thesis using parse_float_digits [of "int m"] assms by simp
qed

lemma no_point:
  "\<bar>n\<bar> < 2 ^ 53 \<Longrightarrow> CHR ''.'' \<notin> set (num_to_string (num_of_int n))"
  using digits_are_digits [of "\<bar>n\<bar>"] not_digit_point by (auto simp: num_to_string_int string_of_int_def)

end
