(* ===== verification/UI_Slider_Props.thy ===== *)
theory UI_Slider_Props
  imports UI_Slider JS_Rounding
begin

text \<open>
  The slider as the control bar uses it: one handle, values from zero in steps of one. Its values
  are always whole numbers between the bounds, every gesture of the mouse is a start, slides, a
  stop and a change, and a callback can forbid a slide.
\<close>

section \<open>Bounded arithmetic\<close>

definition within_size :: "rat \<Rightarrow> jsnum \<Rightarrow> bool" where
  "within_size b x \<longleftrightarrow> (case x of Fin q \<Rightarrow> \<bar>q\<bar> \<le> b | _ \<Rightarrow> False)"

lemma within_sizeD: "within_size b x \<Longrightarrow> \<exists>q. x = Fin q \<and> \<bar>q\<bar> \<le> b"
  by (cases x) (simp_all add: within_size_def)

lemma within_size_Fin [simp]: "within_size b (Fin q) \<longleftrightarrow> \<bar>q\<bar> \<le> b"
  by (simp add: within_size_def)

lemma within_size_mono: "within_size a x \<Longrightarrow> a \<le> b \<Longrightarrow> within_size b x"
  by (auto dest!: within_sizeD)

lemma small_size: "small x \<longleftrightarrow> within_size (2 ^ 20) x"
  unfolding small_def within_size_def by (rule refl)

lemma mk_size:
  assumes "\<bar>q\<bar> \<le> b" "b \<le> 2 ^ 30"
  shows "within_size (b + 1) (mk q)"
proof -
  have "\<bar>q\<bar> \<le> 2 ^ 30" using assms by linarith
  from mk_close [OF this] obtain r where "mk q = Fin r" "\<bar>r - q\<bar> \<le> 1 / 5000000" by blast
  moreover have "\<bar>r\<bar> \<le> b + 1" using calculation(2) assms(1) by linarith
  ultimately show ?thesis by simp
qed

lemma sub_size: "within_size a x \<Longrightarrow> within_size b y \<Longrightarrow> a + b \<le> 2 ^ 30 \<Longrightarrow> within_size (a + b + 1) (x - y)"
  by (auto simp: num_defs dest!: within_sizeD intro!: mk_size)

lemma add_size: "within_size a x \<Longrightarrow> within_size b y \<Longrightarrow> a + b \<le> 2 ^ 30 \<Longrightarrow> within_size (a + b + 1) (x + y)"
  by (auto simp: num_defs dest!: within_sizeD intro!: mk_size)

lemma half_size: "within_size a x \<Longrightarrow> 0 \<le> a \<Longrightarrow> a \<le> 2 ^ 30 \<Longrightarrow> within_size (a + 1) (x div Fin 2)"
  by (auto simp: num_defs dest!: within_sizeD intro!: mk_size)

section \<open>Aligned values\<close>

text \<open>The slider of the control bar, with the values \<open>0\<close> to \<open>n\<close>.\<close>

definition scale :: "nat \<Rightarrow> 'e slider \<Rightarrow> bool" where
  "scale n s \<longleftrightarrow> n \<le> 2 ^ 29 \<and> opt_min s = Fin 0 \<and> opt_max s = num_of_nat n \<and> max_value s = num_of_nat n \<and>
     opt_step s = Fin 1 \<and> opt_values s = None \<and> opt_range s = NoRange \<and> length (handles s) = 1"

lemma mk_near:
  assumes "\<bar>x - y\<bar> \<le> d" "\<bar>x\<bar> \<le> 2 ^ 30"
  shows "\<exists>r. mk x = Fin r \<and> \<bar>r - y\<bar> \<le> d + 1 / 5000000"
proof -
  obtain r where "mk x = Fin r" "\<bar>r - x\<bar> \<le> 1 / 5000000" using mk_close [OF assms(2)] by blast
  moreover have "\<bar>r - y\<bar> \<le> d + 1 / 5000000" using calculation(2) assms(1) by linarith
  ultimately show ?thesis by blast
qed

lemma int_below:
  fixes q :: rat
  assumes "\<bar>of_int k - q\<bar> \<le> 1 / 2 + 1 / 1000000" "q < of_nat n"
  shows "k \<le> int n"
proof -
  have "of_int k < (of_nat n :: rat) + 1" using assms by linarith
  then have "(of_int k :: rat) < of_int (int n + 1)" by simp
  then show ?thesis by (simp only: of_int_less_iff)
qed

lemma aligned_near:
  assumes "0 < q" "q < of_nat n" "n \<le> 2 ^ 29"
  obtains k where "0 \<le> k" "k \<le> int n" "\<bar>of_int k - q\<bar> \<le> 1 / 2 + 1 / 1000000"
    "parse_float (to_fixed 5 (let m = num_rem (Fin q - Fin 0) (Fin 1); a = Fin q - m
       in if Fin 1 \<le> math_abs m * Fin 2 then a + (if Fin 0 < m then Fin 1 else - Fin 1) else a)) = num_of_int k"
proof -
  note result = that
  have n29: "(of_nat n :: rat) \<le> 2 ^ 29" using assms(3) by (metis of_nat_le_iff of_nat_numeral of_nat_power)
  have q30: "\<bar>q\<bar> \<le> 2 ^ 30"
    using assms(1,2) n29 unfolding abs_le_iff by simp
  obtain v where v: "mk q = Fin v" "\<bar>v - q\<bar> \<le> 1 / 5000000" using mk_close [OF q30] by blast
  have v0: "0 \<le> v" using mk_sign(1) [OF v(1)] assms(1) by simp
  define f where "f = \<lfloor>v\<rfloor>"
  define m where "m = v - of_int f"
  have m: "0 \<le> m" "m < 1" unfolding m_def f_def by linarith+
  have rem: "num_rem (Fin q - Fin 0) (Fin 1) = Fin m"
    using v v0 by (simp add: num_defs trunc_def m_def f_def)
  have qm: "\<bar>(q - m) - of_int f\<bar> \<le> 1 / 5000000" using v(2) by (simp add: m_def abs_minus_commute)
  have f30: "\<bar>q - m\<bar> \<le> 2 ^ 30" using assms(1,2) n29 m unfolding abs_le_iff by simp
  obtain a where a: "mk (q - m) = Fin a" "\<bar>a - of_int f\<bar> \<le> 2 / 5000000"
    using mk_near [OF qm f30] by auto
  obtain t where t: "mk (m * 2) = Fin t" "\<bar>t - m * 2\<bar> \<le> 1 / 5000000"
    using mk_close [of "m * 2"] m by auto
  have f0: "0 \<le> f" using v0 by (simp add: f_def)
  have vq: "\<bar>of_int f + m - q\<bar> \<le> 1 / 5000000" using v(2) by (simp add: m_def)
  have goal: thesis
    if k: "\<bar>of_int k - q\<bar> \<le> 1 / 2 + 1 / 1000000" "0 \<le> k"
      and x: "(if 1 \<le> t then Fin a + (if Fin 0 < Fin m then Fin 1 else - Fin 1) else Fin a) = Fin x"
        "\<bar>x - of_int k\<bar> \<le> 1 / 1000000" for k x
  proof (rule result)
    show "k \<le> int n" by (rule int_below [OF k(1) assms(2)])
    then have k31: "\<bar>k\<bar> \<le> 2 ^ 31" using k(2) assms(3) by simp
    have "Fin q - Fin m = Fin a" using a by (simp add: num_defs)
    moreover have "Fin 1 \<le> math_abs (Fin m) * Fin 2 \<longleftrightarrow> 1 \<le> t"
      using m t by (auto simp: num_defs num_le_def num_eq_def)
    ultimately show "parse_float (to_fixed 5 (let m = num_rem (Fin q - Fin 0) (Fin 1); a = Fin q - m
       in if Fin 1 \<le> math_abs m * Fin 2 then a + (if Fin 0 < m then Fin 1 else - Fin 1) else a)) = num_of_int k"
      by (simp only: rem Let_def x(1) to_fixed_near_int [OF x(2) k31])
  qed (use k in auto)
  show ?thesis
  proof (cases "1 \<le> t")
    case False
    have "\<bar>of_int f - q\<bar> \<le> 1 / 2 + 1 / 1000000" using False t(2) vq m by linarith
    then show ?thesis using False a(2) f0 by (intro goal [of f a]) simp_all
  next
    case True
    have k: "\<bar>of_int (f + 1) - q\<bar> \<le> 1 / 2 + 1 / 1000000"
      using True t(2) vq m unfolding of_int_add of_int_1 by linarith
    have m0: "0 < m" using True t(2) by linarith
    have "\<bar>(a + 1) - of_int (f + 1)\<bar> \<le> 2 / 5000000" using a(2) by simp
    moreover have "\<bar>a + 1\<bar> \<le> 2 ^ 30"
    proof -
      have "\<bar>a\<bar> \<le> of_nat n + 2" using a(2) vq m assms(1,2) unfolding abs_le_iff by linarith
      then show ?thesis using n29 unfolding abs_le_iff by simp
    qed
    ultimately obtain x where x: "mk (a + 1) = Fin x" "\<bar>x - of_int (f + 1)\<bar> \<le> 2 / 5000000 + 1 / 5000000"
      using mk_near by blast
    show ?thesis
    proof (rule goal [OF k])
      show "0 \<le> f + 1" using f0 by simp
      show "(if 1 \<le> t then Fin a + (if Fin 0 < Fin m then Fin 1 else - Fin 1) else Fin a) = Fin x"
        using True m0 x(1) by (simp add: num_defs)
      show "\<bar>x - of_int (f + 1)\<bar> \<le> 1 / 1000000" using x(2) by simp
    qed
  qed
qed

lemma aligned_scale:
  assumes "scale n s"
  shows "\<exists>k. trim_align s (Fin q) = num_of_int k \<and> 0 \<le> k \<and> k \<le> int n \<and>
    (0 \<le> q \<and> q \<le> of_nat n \<longrightarrow> \<bar>of_int k - q\<bar> \<le> 1 / 2 + 1 / 1000000)"
proof -
  have s: "value_min s = Fin 0" "value_max s = num_of_nat n" "opt_step s = Fin 1" "n \<le> 2 ^ 29"
    using assms by (simp_all add: scale_def value_min_def value_max_def)
  have lo: "trim_align s (Fin q) = num_of_int 0" if "q \<le> 0"
    using that s by (simp add: trim_align_def num_defs num_le_def num_eq_def le_less)
  have hi: "trim_align s (Fin q) = num_of_int (int n)" if "0 < q" "of_nat n \<le> q"
    using that s by (auto simp: trim_align_def num_defs num_le_def num_eq_def le_less)
  show ?thesis
  proof (cases "0 < q \<and> q < of_nat n")
    case True
    then have "0 < q" "q < of_nat n" by simp_all
    from aligned_near [OF this s(4)] obtain k where k: "0 \<le> k" "k \<le> int n"
        "\<bar>of_int k - q\<bar> \<le> 1 / 2 + 1 / 1000000"
        "parse_float (to_fixed 5 (let m = num_rem (Fin q - Fin 0) (Fin 1); a = Fin q - m
         in if Fin 1 \<le> math_abs m * Fin 2 then a + (if Fin 0 < m then Fin 1 else - Fin 1) else a)) = num_of_int k"
      by blast
    have "\<not> Fin q \<le> Fin 0" "\<not> num_of_nat n \<le> Fin q" "Fin 0 < Fin 1"
      using True by (auto simp: num_defs num_le_def num_eq_def)
    then have "trim_align s (Fin q) = num_of_int k"
      unfolding trim_align_def s Let_def using k(4) unfolding Let_def by (simp only: if_False if_True)
    then show ?thesis using k by blast
  next
    case False
    then consider "q \<le> 0" | "0 < q" "of_nat n \<le> q" by linarith
    then show ?thesis
    proof cases
      case 1
      show ?thesis
        by (intro exI conjI) (rule lo [OF 1], use 1 in simp_all)
    next
      case 2
      show ?thesis
        by (intro exI conjI) (rule hi [OF 2], use 2 in simp_all)
    qed
  qed
qed

lemma aligned_nat:
  assumes "scale n s" "x \<noteq> NaN"
  shows "\<exists>k \<le> n. trim_align s x = num_of_nat k"
proof (cases x)
  case (Fin q)
  obtain k where "trim_align s (Fin q) = num_of_int k" "0 \<le> k" "k \<le> int n"
    using aligned_scale [OF assms(1), of q] by blast
  then show ?thesis by (intro exI [of _ "nat k"]) (simp add: Fin nat_le_iff)
next
  case PInf
  then show ?thesis using assms(1)
    by (intro exI [of _ n]) (simp add: trim_align_def scale_def value_min_def value_max_def num_defs num_le_def num_eq_def)
next
  case NInf
  then show ?thesis using assms(1)
    by (intro exI [of _ 0]) (simp add: trim_align_def scale_def value_min_def num_defs num_le_def num_eq_def)
qed (use assms(2) in simp)

lemma aligned_int:
  assumes "scale n s" "k \<le> n"
  shows "trim_align s (num_of_nat k) = num_of_nat k"
proof -
  obtain j where j: "trim_align s (num_of_nat k) = num_of_int j" "0 \<le> j"
      "\<bar>of_int j - (of_nat k :: rat)\<bar> \<le> 1 / 2 + 1 / 1000000"
    using aligned_scale [OF assms(1), of "of_nat k"] assms(2) by auto
  then have "\<bar>of_int (j - int k) :: rat\<bar> < 1" by simp
  then have "\<bar>j - int k\<bar> < 1" by (simp only: of_int_abs [symmetric] of_int_less_1_iff)
  then have "j = int k" by linarith
  then show ?thesis using j by simp
qed

lemma get_value_nat:
  "scale n s \<Longrightarrow> opt_value s \<noteq> NaN \<Longrightarrow> \<exists>k \<le> n. get_value s = num_of_nat k \<and> get_values_at i s = num_of_nat k"
  using aligned_nat [of n s "opt_value s"]
  by (simp add: get_value_def get_values_at_def has_multiple_values_def scale_def)

text \<open>Setting the option \<open>max\<close>, as the reader does when events arrive.\<close>

lemma precision_int: "\<bar>n\<bar> < 2 ^ 53 \<Longrightarrow> precision_of (num_of_int n) = 0"
  using no_point [of n] by (simp add: precision_of_def dropWhile_eq_Nil_conv)

lemma new_max_exact:
  assumes "opt_min s = Fin 0" "opt_step s = Fin 1" "opt_max s = num_of_nat m" "m \<le> 2 ^ 29"
  shows "calculate_new_max s = (None, s\<lparr>max_value := num_of_nat m\<rparr>)"
proof -
  have p: "precision s = 0"
    using assms(1,2) precision_int [of 0] precision_int [of 1] by (simp add: precision_def)
  have mm: "mk (of_nat m) = num_of_nat m" using assms(4) by (intro mk_of_nat) simp
  have "\<lfloor>(of_nat m :: rat) + 1 / 2\<rfloor> = int m" by (rule floor_unique) simp_all
  then have r: "math_round (num_of_nat m) = num_of_nat m" using mm by simp
  show ?thesis
    using assms p mm r parse_float_fixed_int [of m]
    by (simp add: calculate_new_max_def upd_def value_min_def num_defs Let_def)
qed

lemma new_max_scale:
  assumes "scale n s" "m \<le> 2 ^ 29"
  shows "calculate_new_max (s\<lparr>opt_max := num_of_nat m\<rparr>) = (None, s\<lparr>opt_max := num_of_nat m, max_value := num_of_nat m\<rparr>)"
  using assms by (subst new_max_exact [where m = m]) (simp_all add: scale_def)

section \<open>From the mouse to a value\<close>

text \<open>The sizes and offsets that a capture has read.\<close>

definition measured :: "'e slider \<Rightarrow> bool" where
  "measured s \<longleftrightarrow> (\<exists>w h. element_size s = (Fin w, Fin h) \<and> 0 < w \<and> 0 < h) \<and>
     small (fst (element_offset s)) \<and> small (snd (element_offset s)) \<and>
     (case click_offset s of None \<Rightarrow> True | Some (dx, dy) \<Rightarrow> within_size (2 ^ 24) dx \<and> within_size (2 ^ 24) dy)"

lemma fraction:
  assumes "within_size b x" "0 < w"
  shows "\<exists>r. 0 \<le> r \<and> r \<le> 1 \<and> (let p = x div Fin w; p = (if Fin 1 < p then Fin 1 else p)
    in if p < Fin 0 then Fin 0 else p) = Fin r"
proof -
  obtain q where q: "x = Fin q" using within_sizeD [OF assms(1)] by blast
  show ?thesis
  proof (cases "mk (q / w)")
    case (Fin r)
    show ?thesis
      by (rule exI [of _ "max 0 (min 1 r)"]) (use assms(2) q Fin in \<open>auto simp: num_defs Let_def\<close>)
  next
    case PInf
    then show ?thesis using assms(2) q by (intro exI [of _ 1]) (simp add: num_defs Let_def)
  next
    case NInf
    then show ?thesis using assms(2) q by (intro exI [of _ 0]) (simp add: num_defs Let_def)
  qed (simp add: mk_def Let_def split: if_splits)
qed

lemma norm_value_nat:
  assumes s: "scale n s" and m: "measured s" and ev: "finite_event ev"
  shows "\<exists>k \<le> n. norm_value_from_mouse ev s = num_of_nat k"
proof -
  obtain w h where wh: "element_size s = (Fin w, Fin h)" "0 < w" "0 < h" using m by (auto simp: measured_def)
  obtain dx dy where d: "(case click_offset s of None \<Rightarrow> (Fin 0, Fin 0) | Some d \<Rightarrow> d) = (dx, dy)"
      "within_size (2 ^ 24) dx" "within_size (2 ^ 24) dy"
    using m by (auto simp: measured_def split: option.splits prod.splits)
  define x where "x = (if vertical s then page_y ev - snd (element_offset s) - dy else page_x ev - fst (element_offset s) - dx)"
  have px: "within_size (2 ^ 20 + 2 ^ 20 + 1) (page_x ev - fst (element_offset s))"
    "within_size (2 ^ 20 + 2 ^ 20 + 1) (page_y ev - snd (element_offset s))"
    using sub_size [of "2 ^ 20" "page_x ev" "2 ^ 20" "fst (element_offset s)"]
      sub_size [of "2 ^ 20" "page_y ev" "2 ^ 20" "snd (element_offset s)"] ev m
    by (simp_all add: finite_event_def measured_def small_size)
  have x: "within_size (2 ^ 20 + 2 ^ 20 + 1 + 2 ^ 24 + 1) x"
    unfolding x_def using sub_size [OF px(1) d(2)] sub_size [OF px(2) d(3)] by auto
  define l where "l = (if vertical s then h else w)"
  have l: "0 < l" using wh by (simp add: l_def)
  obtain r where r: "0 \<le> r" "r \<le> 1" "(let p = x div Fin l; p = (if Fin 1 < p then Fin 1 else p)
      in if p < Fin 0 then Fin 0 else p) = Fin r"
    using fraction [OF x l] by blast
  have n29: "(of_nat n :: rat) \<le> 2 ^ 29" using s by (metis scale_def of_nat_le_iff of_nat_numeral of_nat_power)
  obtain u where u: "(if vertical s then Fin 1 - Fin r else Fin r) = Fin u" "\<bar>u\<bar> \<le> 3 / 2"
  proof (cases "vertical s")
    case True
    have "\<bar>1 - r\<bar> \<le> 2 ^ 30" using r by simp
    from mk_close [OF this] obtain u where u: "mk (1 - r) = Fin u" "\<bar>u - (1 - r)\<bar> \<le> 1 / 5000000" by blast
    have "\<bar>u\<bar> \<le> 3 / 2" using u(2) r by linarith
    then show ?thesis using True u(1) that by (simp add: num_defs)
  next
    case False
    then show ?thesis using r that by simp
  qed
  have tot: "value_max s - value_min s = num_of_nat n"
    using s mk_of_nat [of n] by (simp add: scale_def value_max_def value_min_def num_defs)
  have un: "\<bar>u * of_nat n\<bar> \<le> 3 / 2 * 2 ^ 29"
    unfolding abs_mult using u(2) n29 by (intro mult_mono) simp_all
  then have "\<bar>u * of_nat n\<bar> \<le> 2 ^ 30" by simp
  from mk_close [OF this] obtain z where z: "mk (u * of_nat n) = Fin z" "\<bar>z - u * of_nat n\<bar> \<le> 1 / 5000000" by blast
  have "\<bar>z\<bar> \<le> 3 / 2 * 2 ^ 29 + 1" using z(2) un by linarith
  then have "\<bar>z\<bar> \<le> 2 ^ 30" by simp
  from mk_close [OF this] obtain y where "mk z = Fin y" by blast
  then have y: "value_min s + Fin u * (value_max s - value_min s) = Fin y"
    using z(1) s unfolding tot by (simp add: num_defs scale_def value_min_def)
  have "norm_value_from_mouse ev s = trim_align s (value_min s +
      (if vertical s then Fin 1 - Fin r else Fin r) * (value_max s - value_min s))"
    unfolding norm_value_from_mouse_def d(1) wh(1)
    using r(3) by (cases "vertical s") (simp_all add: Let_def x_def l_def)
  then show ?thesis using aligned_nat [OF s, of "Fin y"] by (simp add: u(1) y)
qed

section \<open>What the slider leaves alone of the base widget\<close>

lemma frame_upd: "(\<And>s. mouse_view (f s) = mouse_view s) \<Longrightarrow> keeps mouse_view (upd f)"
  by (rule keeps_upd)

lemma hear_frame [frame_intro]: "keeps mouse_view (hear listen e)"
  by (auto simp: keeps_def hear_def mouse_view_def split: prod.splits sum.splits)

named_theorems slider_frames "the slider's methods that leave the base widget alone"

lemma trigger_frame [slider_frames, frame_intro]: "keeps mouse_view (trigger listen ty src i v vs)"
  unfolding trigger_def by (intro frame_intro keeps_upd) (simp add: mouse_view_def)

lemma change_frame [slider_frames, frame_intro]:
  "keeps mouse_view (slide_start listen src i)" "keeps mouse_view (slide_stop listen src i)"
  "keeps mouse_view (slide_change listen src i)"
  unfolding slide_start_def slide_stop_def slide_change_def
  by (intro frame_intro keeps_upd; simp add: mouse_view_def)+

lemma refresh_frame [slider_frames, frame_intro]: "keeps mouse_view refresh_value"
  unfolding refresh_value_def refresh_handle_def refresh_single_def place_handle_def style_range_def
  by (intro frame_intro keeps_upd) (simp_all add: mouse_view_def update_handle_def)

lemma set_frame [slider_frames, frame_intro]:
  "keeps mouse_view (set_value listen v)" "keeps mouse_view (set_values_at listen i v)"
  unfolding set_value_def set_values_at_def
  by (intro frame_intro keeps_upd; simp add: mouse_view_def)+

lemma slide_frame [slider_frames, frame_intro]: "keeps mouse_view (slide listen src i v)"
  unfolding slide_def by (intro frame_intro)

section \<open>Gestures\<close>

text \<open>The events a gesture of the mouse may trigger; the flag says whether one is on.\<close>

fun gesture :: "bool \<Rightarrow> ui_type list \<Rightarrow> bool option" where
  "gesture on [] = Some on"
| "gesture False (SlideStart # es) = gesture True es"
| "gesture True (SlideMove # es) = gesture True es"
| "gesture True (SlideStop # es) = gesture False es"
| "gesture False (SlideChange # es) = gesture False es"
| "gesture _ (_ # _) = None"

lemma gesture_append: "gesture b (xs @ ys) = Option.bind (gesture b xs) (\<lambda>c. gesture c ys)"
  by (induction b xs rule: gesture.induct) simp_all

definition mouse_types :: "'e slider \<Rightarrow> ui_type list" where
  "mouse_types s = map ui_type (filter (\<lambda>e. ui_source e = ByMouse) (history s))"

text \<open>What the values and the drawing leave alone.\<close>

definition gesture_view :: "'e slider \<Rightarrow> _" where
  "gesture_view s = (mouse_view s, key_sliding s, mouse_sliding s, handle_index s, element_size s, element_offset s,
     click_offset s, vertical s, element_box s, handle_box s, opt_disabled s)"

definition tuned :: "nat \<Rightarrow> 'e slider \<Rightarrow> bool" where
  "tuned n s \<longleftrightarrow> scale n s \<and> opt_value s \<noteq> NaN"

lemma refresh_scale:
  assumes "scale n s"
  shows "\<exists>h. refresh_value s = (None, s\<lparr>handles := [h]\<rparr>) \<and> hover h = hover (handles s ! 0) \<and>
    active h = active (handles s ! 0) \<and> focused h = focused (handles s ! 0)"
proof -
  obtain h where h: "handles s = [h]" using assms by (cases "handles s") (auto simp: scale_def)
  let ?h = "if vertical s then h\<lparr>css_bottom := percent (single_percent s), animated := draws_animated s\<rparr>
     else h\<lparr>css_left := percent (single_percent s), animated := draws_animated s\<rparr>"
  have "refresh_value s = (None, s\<lparr>handles := [?h]\<rparr>)"
    using assms h by (simp add: refresh_value_def refresh_single_def place_handle_def update_handle_def stmt_simps
        seq_def has_multiple_values_def scale_def)
  then show ?thesis using h by (intro exI [of _ ?h]) simp
qed

text \<open>
  The contract of what listens to the slider: from a good state it does not throw, it leaves a
  good state, and it lets every gesture start.
\<close>

locale slider_client =
  fixes listen :: "'e listener" and good :: "'e \<Rightarrow> bool"
  assumes calm: "good out \<Longrightarrow> \<exists>b out'. listen e out = (Inr b, out') \<and> good out'"
    and lets_start: "good out \<Longrightarrow> ui_type e = SlideStart \<Longrightarrow> fst (listen e out) = Inr True"
begin

definition ready_state :: "nat \<Rightarrow> 'e slider \<Rightarrow> bool" where
  "ready_state n s \<longleftrightarrow> tuned n s \<and> good (outside s)"

lemma ready_fields [simp]:
  "ready_state n (s\<lparr>handles := [h]\<rparr>) = ready_state n s" if "length (handles s) = 1"
  using that by (simp add: ready_state_def tuned_def scale_def)

lemma trigger_wp:
  assumes "good (outside s)"
    and "\<And>b out. good out \<Longrightarrow> (ty = SlideStart \<longrightarrow> b) \<Longrightarrow>
      Q (s\<lparr>history := history s @ [ui_hash i v vs ty src s], outside := out, answer := b\<rparr>)"
  shows "wp (trigger listen ty src i v vs) Q E s"
proof -
  let ?e = "ui_hash i v vs ty src s"
  obtain b out where l: "listen ?e (outside s) = (Inr b, out)" "good out" using calm [OF assms(1)] by blast
  have "ui_type ?e = ty" by (simp add: ui_hash_def)
  then have "ty = SlideStart \<longrightarrow> b" using lets_start [OF assms(1), of ?e] l by auto
  with assms(2) [OF l(2)] show ?thesis by (simp add: trigger_def wp_simps) (simp add: wp_def hear_def l(1))
qed

lemma change_wp:
  assumes "ready_state n s"
  shows "wp (slide_change listen src i) (\<lambda>t. ready_state n t \<and> gesture_view t = gesture_view s \<and>
      opt_value t = opt_value s \<and> handles t = handles s \<and>
      mouse_types t = mouse_types s @ (if src = ByMouse \<and> \<not> key_sliding s \<and> \<not> mouse_sliding s then [SlideChange] else []))
    (\<lambda>_. False) s"
  unfolding slide_change_def
  using assms by (auto simp: wp_simps ready_state_def tuned_def scale_def gesture_view_def mouse_view_def mouse_types_def
      ui_hash_def intro!: trigger_wp)

lemma set_value_wp:
  assumes "ready_state n s" "v \<noteq> NaN"
  shows "wp (set_value listen v) (\<lambda>t. ready_state n t \<and> gesture_view t = gesture_view s \<and>
      opt_value t = trim_align s v \<and> mouse_types t = mouse_types s) (\<lambda>_. False) s"
proof -
  let ?s = "s\<lparr>opt_value := trim_align s v\<rparr>"
  have sc: "scale n s" using assms(1) by (simp add: ready_state_def tuned_def)
  then have r: "ready_state n ?s"
    using assms aligned_nat [OF sc assms(2)] by (auto simp: ready_state_def tuned_def scale_def)
  then have "scale n ?s" by (simp add: ready_state_def tuned_def)
  from refresh_scale [OF this] obtain h where h: "refresh_value ?s = (None, ?s\<lparr>handles := [h]\<rparr>)" by blast
  have w: "wp refresh_value Q E ?s = Q (?s\<lparr>handles := [h]\<rparr>)" for Q E by (simp add: wp_def h)
  have r': "ready_state n (?s\<lparr>handles := [h]\<rparr>)" using r by (simp add: ready_state_def tuned_def scale_def)
  show ?thesis
    unfolding set_value_def wp_block_Cons wp_upd w wp_done
    by (rule wp_mono [OF change_wp [OF r']]) (auto simp: gesture_view_def mouse_view_def mouse_types_def)
qed

lemma ready_triggered:
  assumes "ready_state n s" "good out"
  shows "ready_state n (s\<lparr>history := h, outside := out, answer := b\<rparr>)"
  using assms by (simp add: ready_state_def tuned_def scale_def)

lemma slide_wp:
  assumes r: "ready_state n s" and v: "v \<noteq> NaN"
  shows "wp (slide listen src i v) (\<lambda>t. ready_state n t \<and> gesture_view t = gesture_view s \<and>
      (mouse_types t = mouse_types s \<or> src = ByMouse \<and> mouse_types t = mouse_types s @ [SlideMove])) (\<lambda>_. False) s"
proof -
  have one: "\<not> has_multiple_values t" if "ready_state n t" for t
    using that by (simp add: ready_state_def tuned_def scale_def has_multiple_values_def)
  have lim: "limited_value i v s = v" using one [OF r] by (simp add: limited_value_def)
  have trig: "wp (call (trigger listen SlideMove src i (Some v) (Some (get_values s))) (\<lambda>allowed.
         if \<not> allowed then skip
         else ite has_multiple_values (set_values_at listen i v) (set_value listen v)))
     (\<lambda>t. ready_state n t \<and> gesture_view t = gesture_view s \<and>
      (mouse_types t = mouse_types s \<or> src = ByMouse \<and> mouse_types t = mouse_types s @ [SlideMove])) (\<lambda>_. False) s"
    unfolding call_def wp_seq wp_bind_val
  proof (rule trigger_wp)
    show "good (outside s)" using r by (simp add: ready_state_def)
    fix b out assume g: "good out"
    let ?t = "s\<lparr>history := history s @ [ui_hash i (Some v) (Some (get_values s)) SlideMove src s], outside := out, answer := b\<rparr>"
    have t: "ready_state n ?t" using ready_triggered [OF r g] .
    have view: "gesture_view ?t = gesture_view s"
      "mouse_types ?t = mouse_types s @ (if src = ByMouse then [SlideMove] else [])"
      by (simp_all add: gesture_view_def mouse_view_def mouse_types_def ui_hash_def)
    show "wp (if \<not> answer ?t then skip else ite has_multiple_values (set_values_at listen i v) (set_value listen v))
      (\<lambda>t. ready_state n t \<and> gesture_view t = gesture_view s \<and>
        (mouse_types t = mouse_types s \<or> src = ByMouse \<and> mouse_types t = mouse_types s @ [SlideMove])) (\<lambda>_. False) ?t"
    proof (cases b)
      case True
      have "wp (set_value listen v) (\<lambda>t. ready_state n t \<and> gesture_view t = gesture_view s \<and>
        (mouse_types t = mouse_types s \<or> src = ByMouse \<and> mouse_types t = mouse_types s @ [SlideMove])) (\<lambda>_. False) ?t"
        by (rule wp_mono [OF set_value_wp [OF t v]]) (use view in auto)
      then show ?thesis using True one [OF t] by (simp add: wp_ite)
    next
      case False
      then show ?thesis using t view by (auto simp: wp_skip)
    qed
  qed
  show ?thesis
    using trig r one [OF r] by (simp add: slide_def wp_simps lim)
qed

text \<open>What capture reads from the page.\<close>

definition laid_out :: "'e slider \<Rightarrow> bool" where
  "laid_out s \<longleftrightarrow> (\<exists>w h. box_width (element_box s) = Fin w \<and> box_height (element_box s) = Fin h \<and> 0 < w \<and> 0 < h) \<and>
     small (box_left (element_box s)) \<and> small (box_top (element_box s)) \<and>
     (\<forall>b \<in> {box_width, box_height, box_left, box_top, box_border_top, box_border_bottom, box_margin_top}.
        small (b (handle_box s 0)))"

lemma grip_size:
  assumes "laid_out s" "finite_event ev"
  shows "\<exists>dx dy. grip ev 0 s = (dx, dy) \<and> within_size (2 ^ 24) dx \<and> within_size (2 ^ 24) dy"
proof (cases "target ev \<in> handle_targets s")
  case True
  let ?g = "handle_box s 0"
  have e: "within_size (2 ^ 20) (page_x ev)" "within_size (2 ^ 20) (page_y ev)"
    using assms(2) by (simp_all only: finite_event_def small_size)
  have b: "within_size (2 ^ 20) (b ?g)"
    if "b \<in> {box_width, box_height, box_left, box_top, box_border_top, box_border_bottom, box_margin_top}" for b
    using assms(1) that unfolding laid_out_def small_size by blast
  have w: "within_size (2 ^ 20 + 1) (box_width ?g div Fin 2)" "within_size (2 ^ 20 + 1) (box_height ?g div Fin 2)"
    by (rule half_size; use b in simp)+
  have x: "within_size (2 ^ 20 + 2 ^ 20 + 1 + (2 ^ 20 + 1) + 1) (page_x ev - box_left ?g - box_width ?g div Fin 2)"
    by (rule sub_size [OF sub_size [OF e(1) b] w(1)]) simp_all
  have y: "within_size (2 ^ 20 + 2 ^ 20 + 1 + (2 ^ 20 + 1) + 1) (page_y ev - box_top ?g - box_height ?g div Fin 2)"
    by (rule sub_size [OF sub_size [OF e(2) b] w(2)]) simp_all
  have y': "within_size (2 ^ 20 + 2 ^ 20 + 1 + (2 ^ 20 + 1) + 1 + 2 ^ 20 + 1 + 2 ^ 20 + 1 + 2 ^ 20 + 1)
      (page_y ev - box_top ?g - box_height ?g div Fin 2 - box_border_top ?g - box_border_bottom ?g + box_margin_top ?g)"
    by (rule add_size [OF sub_size [OF sub_size [OF y b] b] b]) simp_all
  show ?thesis
    using True within_size_mono [OF x, of "2 ^ 24"] within_size_mono [OF y', of "2 ^ 24"] by (simp add: grip_def)
qed (simp add: grip_def)

lemma closest_single:
  assumes "ready_state n s" "k \<le> n"
  shows "closest_handle (num_of_nat k) s = Some 0"
proof -
  have sc: "scale n s" "opt_value s \<noteq> NaN" "n \<le> 2 ^ 29"
    using assms(1) by (simp_all add: ready_state_def tuned_def scale_def)
  obtain j where j: "j \<le> n" "get_values_at (Some 0) s = num_of_nat j" using get_value_nat [OF sc(1,2)] by blast
  have "mk (of_nat k - of_nat j) = Fin (of_nat k - of_nat j)"
    using mk_of_int [of "int k - int j"] sc(3) assms(2) j(1) by simp
  then have d: "math_abs (num_of_nat k - get_values_at (Some 0) s) = Fin \<bar>of_nat k - of_nat j\<bar>"
    by (simp add: j(2) num_defs)
  have "value_max s - value_min s + Fin 1 = num_of_nat (n + 1)"
    using sc mk_of_nat [of n] mk_of_nat [of "n + 1"] by (simp add: scale_def value_max_def value_min_def num_defs add.commute)
  moreover have "\<bar>of_nat k - of_nat j :: rat\<bar> < of_nat (n + 1)"
  proof -
    have "(of_nat k :: rat) \<le> of_nat n" "(of_nat j :: rat) \<le> of_nat n" using assms(2) j(1) by simp_all
    then show ?thesis by (simp add: abs_less_iff)
  qed
  ultimately show ?thesis
    using sc(1) by (simp add: closest_handle_def scale_def closer_def d) (simp add: num_defs)
qed

definition idle :: "'e slider \<Rightarrow> bool" where
  "idle s \<longleftrightarrow> (\<exists>n. ready_state n s) \<and> eager s \<and> laid_out s \<and> \<not> mouse_sliding s \<and> click_offset s = None \<and>
     gesture False (mouse_types s) = Some False"

definition dragging :: "'e slider \<Rightarrow> bool" where
  "dragging s \<longleftrightarrow> (\<exists>n. ready_state n s) \<and> eager s \<and> laid_out s \<and> mouse_sliding s \<and> measured s \<and>
     handle_index s = Some 0 \<and> gesture False (mouse_types s) = Some True"

lemma view_fields:
  assumes "gesture_view t = gesture_view s"
  shows "eager t = eager s" "laid_out t = laid_out s" "measured t = measured s" "mouse_sliding t = mouse_sliding s"
    "click_offset t = click_offset s" "handle_index t = handle_index s" "mouse_view t = mouse_view s"
    "key_sliding t = key_sliding s" "opt_disabled t = opt_disabled s"
  using assms by (simp_all add: gesture_view_def eager_def laid_out_def measured_def mouse_view_def)

lemma state_cong:
  assumes "mouse.more s = mouse.more t" "distance s = distance t" "delay s = delay t"
  shows "idle s = idle t" "dragging s = dragging t"
  using assms by (cases s; cases t;
    simp add: idle_def dragging_def ready_state_def tuned_def scale_def eager_def laid_out_def measured_def mouse_types_def)+

lemma answer_cong [simp]: "idle (answer_update f s) = idle s" "dragging (answer_update f s) = dragging s"
  by (rule state_cong; simp)+

lemma dragging_after:
  assumes "dragging s" "ready_state n t" "gesture_view t = gesture_view s"
    and "mouse_types t = mouse_types s \<or> mouse_types t = mouse_types s @ [SlideMove]"
  shows "dragging t"
  using assms(1,2,4) view_fields [OF assms(3)] by (auto simp: dragging_def gesture_append)

text \<open>A slide of a handle that is dragged.\<close>

lemma drag_keeps:
  assumes "finite_event ev" "dragging s"
  shows "wp (mouse_drag listen ev) dragging (\<lambda>_. False) s"
proof -
  obtain n where n: "ready_state n s" using assms(2) by (auto simp: dragging_def)
  then obtain k where k: "norm_value_from_mouse ev s = num_of_nat k"
    using norm_value_nat [OF _ _ assms(1), of n s] assms(2) by (auto simp: dragging_def ready_state_def tuned_def)
  have h: "handle_index s = Some 0" using assms(2) by (simp add: dragging_def)
  have "wp (slide listen ByMouse (Some 0) (num_of_nat k)) (wp (block [returns False]) dragging (\<lambda>_. False)) (\<lambda>_. False) s"
    by (rule wp_mono [OF slide_wp [OF n]])
       (auto simp: wp_block_Cons wp_done returns_def wp_upd simp del: block.simps intro: dragging_after [OF assms(2)])
  then show ?thesis
    by (simp add: mouse_drag_def wp_bind_val wp_block_Cons k h del: block.simps)
qed

lemma stop_idles:
  assumes "dragging s"
  shows "wp (mouse_stop listen ev) idle (\<lambda>_. False) s"
proof -
  obtain n where n: "ready_state n s" using assms by (auto simp: dragging_def)
  let ?s = "s\<lparr>handles := map (active_update (\<lambda>_. False)) (handles s), mouse_sliding := False\<rparr>"
  have r: "ready_state n ?s" using n by (simp add: ready_state_def tuned_def scale_def)
  have h: "handle_index ?s = Some 0" and g: "eager ?s" "laid_out ?s" "\<not> mouse_sliding ?s"
    "gesture False (mouse_types ?s) = Some True"
    using assms by (simp_all add: dragging_def eager_def laid_out_def mouse_types_def)
  have fin: "idle (t\<lparr>handle_index := None, click_offset := None, animate_off := False\<rparr>)"
    if "ready_state n t" "eager t" "laid_out t" "\<not> mouse_sliding t" "gesture False (mouse_types t) = Some False" for t
    using that by (auto simp: idle_def ready_state_def tuned_def scale_def eager_def laid_out_def mouse_types_def)
  have change: "wp (slide_change listen ByMouse (Some 0)) (wp (block
      [upd (\<lambda>s. s\<lparr>handle_index := None, click_offset := None, animate_off := False\<rparr>), returns False]) idle (\<lambda>_. False))
      (\<lambda>_. False) t"
    if t: "ready_state n t" "gesture_view t = gesture_view ?s" "mouse_types t = mouse_types ?s @ [SlideStop]" for t
  proof (rule wp_mono [OF change_wp [OF t(1)]])
    fix u assume u: "ready_state n u \<and> gesture_view u = gesture_view t \<and> opt_value u = opt_value t \<and> handles u = handles t \<and>
      mouse_types u = mouse_types t @ (if ByMouse = ByMouse \<and> \<not> key_sliding t \<and> \<not> mouse_sliding t then [SlideChange] else [])"
    have v: "gesture_view u = gesture_view ?s" using u t(2) by simp
    have "gesture False (mouse_types u) = Some False"
      using u t(3) g(4) by (auto simp: gesture_append)
    then have "idle (u\<lparr>handle_index := None, click_offset := None, animate_off := False\<rparr>)"
      using u g view_fields [OF v] by (intro fin) simp_all
    then show "wp (block [upd (\<lambda>s. s\<lparr>handle_index := None, click_offset := None, animate_off := False\<rparr>), returns False])
        idle (\<lambda>_. False) u"
      by (simp add: wp_block_Cons wp_done returns_def wp_upd del: block.simps)
  qed simp
  have trig: "wp (slide_stop listen ByMouse (Some 0)) (wp (block
      [bind_val handle_index (slide_change listen ByMouse),
       upd (\<lambda>s. s\<lparr>handle_index := None, click_offset := None, animate_off := False\<rparr>), returns False]) idle (\<lambda>_. False))
      (\<lambda>_. False) ?s"
    unfolding slide_stop_def
  proof (rule trigger_wp)
    show "good (outside ?s)" using r by (simp add: ready_state_def)
    fix b out assume o: "good out"
    let ?t = "?s\<lparr>history := history ?s @ [ui_hash (Some 0) None None SlideStop ByMouse ?s], outside := out, answer := b\<rparr>"
    have "ready_state n ?t" by (rule ready_triggered [OF r o])
    moreover have "gesture_view ?t = gesture_view ?s" by (simp add: gesture_view_def mouse_view_def)
    moreover have "mouse_types ?t = mouse_types ?s @ [SlideStop]" by (simp add: mouse_types_def ui_hash_def)
    moreover have "handle_index ?t = Some 0" using h by simp
    ultimately show "wp (block
      [bind_val handle_index (slide_change listen ByMouse),
       upd (\<lambda>s. s\<lparr>handle_index := None, click_offset := None, animate_off := False\<rparr>), returns False]) idle (\<lambda>_. False) ?t"
      unfolding wp_block_Cons [of "bind_val handle_index (slide_change listen ByMouse)"] wp_bind_val
      by (simp only: change)
  qed
  show ?thesis
    unfolding mouse_stop_def wp_block_Cons [of "upd f" for f] wp_upd
      wp_block_Cons [of "bind_val handle_index (slide_stop listen ByMouse)"] wp_bind_val h
    by (rule trig)
qed

text \<open>The first slide of a gesture, after the press.\<close>

lemma press_drags:
  assumes s: "dragging s" and k: "v \<noteq> NaN"
  shows "wp (block [guard (\<lambda>s. \<not> (\<exists>h \<in> set (handles s). hover h)) (slide listen ByMouse (Some 0) v),
      upd (animate_off_update (\<lambda>_. True)), returns True]) (\<lambda>t. answer t \<and> dragging t) (\<lambda>_. False) s"
proof -
  obtain n where n: "ready_state n s" using s by (auto simp: dragging_def)
  have off: "dragging (animate_off_update f t)" if "dragging t" for f t
    using that by (auto simp: dragging_def ready_state_def tuned_def scale_def eager_def laid_out_def measured_def mouse_types_def)
  have rest: "wp (block [upd (animate_off_update (\<lambda>_. True)), returns True]) (\<lambda>t. answer t \<and> dragging t) (\<lambda>_. False) t"
    if "dragging t" for t
    using off [OF that] by (simp add: wp_block_Cons wp_done returns_def wp_upd del: block.simps)
  have "wp (slide listen ByMouse (Some 0) v) (wp (block [upd (animate_off_update (\<lambda>_. True)), returns True])
      (\<lambda>t. answer t \<and> dragging t) (\<lambda>_. False)) (\<lambda>_. False) s"
    by (rule wp_mono [OF slide_wp [OF n k]]) (auto simp del: block.simps intro: rest dragging_after [OF s])
  then show ?thesis
    using rest [OF s] by (simp add: wp_block_Cons [of "guard c m" for c m] wp_guard del: block.simps)
qed

lemma capture_drags:
  assumes ev: "finite_event ev" and s: "idle s"
  shows "wp (mouse_capture listen ev) (\<lambda>t. if answer t then dragging t else idle t) (\<lambda>_. False) s"
proof (cases "opt_disabled s")
  case True
  then show ?thesis using s by (simp add: mouse_capture_def wp_ite returns_def wp_upd)
next
  case False
  let ?s = "s\<lparr>element_size := (box_width (element_box s), box_height (element_box s)),
     element_offset := (box_left (element_box s), box_top (element_box s))\<rparr>"
  obtain n where n: "ready_state n s" using s by (auto simp: idle_def)
  then have n': "ready_state n ?s" by (simp add: ready_state_def tuned_def scale_def)
  have m: "measured ?s" using s by (auto simp: idle_def laid_out_def measured_def)
  obtain k where k: "k \<le> n" "norm_value_from_mouse ev ?s = num_of_nat k"
    using norm_value_nat [OF _ m ev] n' by (auto simp: ready_state_def tuned_def)
  have c: "closest_handle (num_of_nat k) ?s = Some 0" by (rule closest_single [OF n' k(1)])
  let ?rest = "block
    [upd (\<lambda>s. s\<lparr>mouse_sliding := True, handle_index := Some 0\<rparr>),
     block
      [upd (update_handle 0 (active_update (\<lambda>_. True))),
       upd (focus_handle 0),
       upd (\<lambda>s. s\<lparr>click_offset := Some (grip ev 0 s)\<rparr>),
       guard (\<lambda>s. \<not> (\<exists>h \<in> set (handles s). hover h)) (slide listen ByMouse (Some 0) (num_of_nat k))],
     upd (animate_off_update (\<lambda>_. True)),
     returns True]"
  have "wp (slide_start listen ByMouse (Some 0)) (\<lambda>t. answer t \<and> wp ?rest (\<lambda>t. answer t \<and> dragging t) (\<lambda>_. False) t)
      (\<lambda>_. False) ?s"
    unfolding slide_start_def
  proof (rule trigger_wp)
    show "good (outside ?s)" using n' by (simp add: ready_state_def)
    fix b out assume o: "good out" "SlideStart = SlideStart \<longrightarrow> b"
    let ?t = "?s\<lparr>history := history ?s @ [ui_hash (Some 0) None None SlideStart ByMouse ?s], outside := out, answer := b\<rparr>"
    have t: "ready_state n ?t" by (rule ready_triggered [OF n' o(1)])
    have g: "mouse_types ?t = mouse_types s @ [SlideStart]" by (simp add: mouse_types_def ui_hash_def)
    let ?u = "focus_handle 0 (update_handle 0 (active_update (\<lambda>_. True)) (?t\<lparr>mouse_sliding := True, handle_index := Some 0\<rparr>))"
    let ?d = "?u\<lparr>click_offset := Some (grip ev 0 ?u)\<rparr>"
    have lo: "laid_out ?u" using s by (simp add: focus_handle_def update_handle_def idle_def laid_out_def)
    obtain dx dy where gr: "grip ev 0 ?u = (dx, dy)" "within_size (2 ^ 24) dx" "within_size (2 ^ 24) dy"
      using grip_size [OF lo ev] by blast
    have "dragging ?d"
      unfolding dragging_def
    proof (intro conjI exI)
      show "ready_state n ?d" using t by (simp add: focus_handle_def update_handle_def ready_state_def tuned_def scale_def)
      show "gesture False (mouse_types ?d) = Some True"
        using s g by (simp add: focus_handle_def update_handle_def mouse_types_def gesture_append idle_def)
      show "measured ?d" using m gr by (simp add: focus_handle_def update_handle_def measured_def)
      show "laid_out ?d" using lo by (simp add: laid_out_def)
      show "eager ?d" using s by (simp add: focus_handle_def update_handle_def idle_def eager_def)
    qed (simp_all add: focus_handle_def update_handle_def)
    from press_drags [OF this, of "num_of_nat k"]
    have "wp ?rest (\<lambda>t. answer t \<and> dragging t) (\<lambda>_. False) ?t"
      by (simp only: wp_block_Cons wp_upd wp_done) (simp add: wp_block_Cons wp_upd wp_done wp_guard del: block.simps)
    then show "answer ?t \<and> wp ?rest (\<lambda>t. answer t \<and> dragging t) (\<lambda>_. False) ?t" using o(2) by simp
  qed
  then have "wp (slide_start listen ByMouse (Some 0)) (wp (bind_val answer (\<lambda>allowed.
      if \<not> allowed then returns False else ?rest)) (\<lambda>t. if answer t then dragging t else idle t) (\<lambda>_. False)) (\<lambda>_. False) ?s"
    by (rule wp_mono) (auto simp: wp_bind_val simp del: block.simps elim!: wp_mono)
  then show ?thesis
    unfolding mouse_capture_def
    by (simp only: wp_ite False if_False wp_block_Cons [of "upd f" for f] wp_upd wp_block_Cons [of "bind_val f g" for f g]
        wp_bind_val [of "norm_value_from_mouse ev"] k(2) wp_bind_val [of "closest_handle x" for x] c call_def wp_seq
        wp_done option.case)
qed

lemma slider_mouse_frame:
  "keeps mouse_view (mouse_capture listen ev)" "keeps mouse_view (mouse_start ev)"
  "keeps mouse_view (mouse_drag listen ev)" "keeps mouse_view (mouse_stop listen ev)"
  unfolding mouse_capture_def mouse_start_def mouse_drag_def mouse_stop_def returns_def
  by (intro frame_intro keeps_upd; simp add: mouse_view_def update_handle_def focus_handle_def)+

end

sublocale slider_client \<subseteq> mouse_client "slider_mouse listen" idle dragging dragging
proof
  fix s t :: "'e slider" and ev
  show "mouse.more s = mouse.more t \<Longrightarrow> distance s = distance t \<Longrightarrow> delay s = delay t \<Longrightarrow>
      idle s = idle t \<and> dragging s = dragging t \<and> dragging s = dragging t"
    using state_cong [of s t] by simp
  show "dragging s \<Longrightarrow> wp (start (slider_mouse listen) ev) (\<lambda>t. if answer t then dragging t else idle t) (\<lambda>_. False) s"
    by (simp add: slider_mouse_def mouse_start_def returns_def wp_upd)
  show "finite_event ev \<Longrightarrow> dragging s \<Longrightarrow> dragging (snd (drag (slider_mouse listen) ev s))"
    using wp_normal [OF drag_keeps [of ev s]] by (auto simp: slider_mouse_def)
  show "dragging s \<Longrightarrow> idle (snd (stop (slider_mouse listen) ev s))"
    using wp_normal [OF stop_idles [of s ev]] by (auto simp: slider_mouse_def)
qed (simp_all add: slider_mouse_def slider_mouse_frame capture_drags, simp add: dragging_def)

context slider_client
begin

text \<open>
  What is not the mouse: the keys, the options and the values. Such steps may happen while the
  mouse drags the handle; they neither begin nor end its gesture.
\<close>

definition hand_view :: "'e slider \<Rightarrow> _" where
  "hand_view s = (mouse_view s, mouse_sliding s, handle_index s, element_size s, element_offset s,
     click_offset s, element_box s, handle_box s)"

definition aside :: "'e slider stmt \<Rightarrow> bool" where
  "aside m \<longleftrightarrow> (\<forall>s n. ready_state n s \<longrightarrow>
     wp m (\<lambda>t. (\<exists>n. ready_state n t) \<and> hand_view t = hand_view s \<and> mouse_types t = mouse_types s) (\<lambda>_. False) s)"

named_theorems aside_intro "steps beside the gesture of the mouse"

lemma asideD:
  "aside m \<Longrightarrow> ready_state n s \<Longrightarrow>
    wp m (\<lambda>t. (\<exists>n. ready_state n t) \<and> hand_view t = hand_view s \<and> mouse_types t = mouse_types s) (\<lambda>_. False) s"
  unfolding aside_def by blast

lemma hand_of_gesture: "gesture_view t = gesture_view s \<Longrightarrow> hand_view t = hand_view s"
  by (simp add: gesture_view_def hand_view_def)

lemma aside_skip [aside_intro]: "aside skip"
  by (auto simp: aside_def wp_skip)

lemma aside_seq [aside_intro]: "aside m \<Longrightarrow> aside k \<Longrightarrow> aside (seq m k)"
proof -
  assume m: "aside m" and k: "aside k"
  show "aside (seq m k)"
    unfolding aside_def wp_seq
  proof (intro allI impI)
    fix s n assume "ready_state n s"
    from m [unfolded aside_def, rule_format, OF this]
    show "wp m (wp k (\<lambda>t. (\<exists>n. ready_state n t) \<and> hand_view t = hand_view s \<and> mouse_types t = mouse_types s) (\<lambda>_. False))
        (\<lambda>_. False) s"
    proof (rule wp_mono)
      fix t assume t: "(\<exists>n. ready_state n t) \<and> hand_view t = hand_view s \<and> mouse_types t = mouse_types s"
      then obtain n' where "ready_state n' t" by blast
      from k [unfolded aside_def, rule_format, OF this]
      show "wp k (\<lambda>t. (\<exists>n. ready_state n t) \<and> hand_view t = hand_view s \<and> mouse_types t = mouse_types s) (\<lambda>_. False) t"
        by (rule wp_mono) (use t in auto)
    qed simp
  qed
qed

lemma aside_block [aside_intro]: "list_all aside ms \<Longrightarrow> aside (block ms)"
  by (induction ms) (simp_all add: aside_skip aside_seq)

lemma aside_list [aside_intro]: "list_all aside []" "aside m \<Longrightarrow> list_all aside ms \<Longrightarrow> list_all aside (m # ms)"
  by simp_all

lemma aside_choice [aside_intro]:
  "aside m \<Longrightarrow> aside k \<Longrightarrow> aside (ite c m k)" "aside m \<Longrightarrow> aside (guard c m)"
  "aside m \<Longrightarrow> aside k \<Longrightarrow> aside (if b then m else k)"
  by (auto simp: aside_def wp_ite wp_guard)

lemma aside_call [aside_intro]: "aside m \<Longrightarrow> (\<And>b. aside (k b)) \<Longrightarrow> aside (call m k)"
  unfolding call_def by (rule aside_seq) (auto simp: aside_def wp_bind_val)

lemma aside_upd:
  "(\<And>s n. ready_state n s \<Longrightarrow> (\<exists>n. ready_state n (f s)) \<and> hand_view (f s) = hand_view s \<and> mouse_types (f s) = mouse_types s)
    \<Longrightarrow> aside (upd f)"
  by (simp add: aside_def wp_upd)

lemma aside_trigger [aside_intro]: "src \<noteq> ByMouse \<Longrightarrow> aside (trigger listen ty src i v vs)"
  unfolding aside_def
  by (auto intro!: trigger_wp simp: ready_state_def tuned_def scale_def hand_view_def mouse_view_def mouse_types_def ui_hash_def)

lemma aside_start_stop [aside_intro]:
  "src \<noteq> ByMouse \<Longrightarrow> aside (slide_start listen src i)" "src \<noteq> ByMouse \<Longrightarrow> aside (slide_stop listen src i)"
  by (simp_all add: slide_start_def slide_stop_def aside_trigger)

lemma aside_change [aside_intro]: "src \<noteq> ByMouse \<Longrightarrow> aside (slide_change listen src i)"
  unfolding aside_def by (auto elim!: wp_mono [OF change_wp] dest: hand_of_gesture)

lemma aside_set_value [aside_intro]: "v \<noteq> NaN \<Longrightarrow> aside (set_value listen v)"
  unfolding aside_def by (auto elim!: wp_mono [OF set_value_wp] dest: hand_of_gesture)

lemma aside_slide [aside_intro]: "v \<noteq> NaN \<Longrightarrow> src \<noteq> ByMouse \<Longrightarrow> aside (slide listen src i v)"
  unfolding aside_def by (auto elim!: wp_mono [OF slide_wp] dest: hand_of_gesture)

lemma aside_refresh [aside_intro]: "aside refresh_value"
  unfolding aside_def
proof (intro allI impI)
  fix s n assume r: "ready_state n s"
  then have "scale n s" by (simp add: ready_state_def tuned_def)
  from refresh_scale [OF this] obtain h where h: "refresh_value s = (None, s\<lparr>handles := [h]\<rparr>)" by blast
  have "ready_state n (s\<lparr>handles := [h]\<rparr>)" using r by (simp add: ready_state_def tuned_def scale_def)
  then show "wp refresh_value (\<lambda>t. (\<exists>n. ready_state n t) \<and> hand_view t = hand_view s \<and> mouse_types t = mouse_types s)
      (\<lambda>_. False) s"
    by (auto simp: wp_def h hand_view_def mouse_view_def mouse_types_def)
qed

lemmas aside_simps = ready_state_def tuned_def scale_def hand_view_def mouse_view_def mouse_types_def

lemma mk_number: "mk q \<noteq> NaN"
  by (simp add: mk_def Let_def)

lemma sum_number: "Fin a + x \<noteq> NaN" "Fin a - x \<noteq> NaN" if "x \<noteq> NaN"
  using that by (cases x; simp add: num_defs mk_number)+

lemma key_value_numeric:
  assumes r: "ready_state n s" and k: "key_value k i s = Some v"
  shows "v \<noteq> NaN"
proof -
  have sc: "scale n s" "opt_value s \<noteq> NaN" using r by (simp_all add: ready_state_def tuned_def)
  obtain c where c: "get_values_at (Some i) s = num_of_nat c" using get_value_nat [OF sc] by blast
  have ends: "value_min s = Fin 0" "value_max s = num_of_nat n" "opt_step s = Fin 1"
    using sc by (simp_all add: value_min_def value_max_def scale_def)
  have "n < 2 ^ 53" using sc by (simp add: scale_def)
  then have "num_of_nat n - Fin 0 = num_of_nat n" using mk_of_nat [of n] by (simp add: num_defs)
  then have page: "(num_of_nat n - Fin 0) div num_pages \<noteq> NaN" by (simp add: num_pages_def num_defs mk_number)
  have trim: "trim_align s x \<noteq> NaN" if "x \<noteq> NaN" for x
    using aligned_nat [OF sc(1) that] by auto
  show ?thesis
    using k page unfolding key_value_def c ends Let_def
    by (auto simp: trim sum_number c split: if_splits)
qed

lemma aside_key_slide [aside_intro]: "aside (key_slide listen k i)"
  unfolding aside_def
proof (intro allI impI)
  fix s n assume r: "ready_state n s"
  show "wp (key_slide listen k i) (\<lambda>t. (\<exists>n. ready_state n t) \<and> hand_view t = hand_view s \<and> mouse_types t = mouse_types s)
      (\<lambda>_. False) s"
  proof (cases "key_value k i s")
    case None
    then show ?thesis using r by (auto simp: key_slide_def wp_bind_val wp_skip)
  next
    case (Some v)
    then have "aside (slide listen ByKey (Some i) v)"
      using key_value_numeric [OF r Some] by (intro aside_intro) simp_all
    from asideD [OF this r] show ?thesis by (simp add: key_slide_def wp_bind_val Some)
  qed
qed

lemma aside_keys [aside_intro]: "aside (keydown listen k i)" "aside (keyup listen i)"
  unfolding keydown_def keyup_def prevent_default_def
  by (intro aside_intro aside_upd; fastforce simp: aside_simps update_handle_def)+

text \<open>The inputs of the slider of the control bar.\<close>

fun control_input :: "slider_input \<Rightarrow> bool" where
  "control_input (FromMouse i) = finite_input i"
| "control_input (SetOption (OptMax x)) = (\<exists>m \<le> 2 ^ 29. x = num_of_nat m)"
| "control_input (SetOption (OptValue x)) = (x \<noteq> NaN)"
| "control_input (SetOption (OptDisabled b)) = True"
| "control_input (SetOption (OptAnimate b)) = True"
| "control_input (SetOption _) = False"
| "control_input (SetValue x) = (x \<noteq> NaN)"
| "control_input (SetValuesAt i x) = False"
| "control_input (SetValues xs) = False"
| "control_input _ = True"

lemma aside_leave [aside_intro]: "(\<And>k. opt \<noteq> OptRange k) \<Longrightarrow> aside (leave_range opt)"
  unfolding leave_range_def by (auto intro!: aside_intro)

lemma aside_unanimated [aside_intro]: "list_all aside ms \<Longrightarrow> aside (unanimated ms)"
  unfolding unanimated_def by (intro aside_intro aside_upd) (fastforce simp: aside_simps)+

lemma wp_seq_eq: "wp (seq m k) Q E = wp m (wp k Q E) E"
  by (simp add: fun_eq_iff wp_seq)

lemma aside_max:
  assumes "m \<le> 2 ^ 29"
  shows "aside (block [upd (store_option (OptMax (num_of_nat m))), unanimated [calculate_new_max, refresh_value]])"
  unfolding aside_def
proof (intro allI impI)
  fix s n assume r: "ready_state n s"
  let ?s = "s\<lparr>animate_off := True\<rparr>"
  let ?t = "?s\<lparr>opt_max := num_of_nat m, max_value := num_of_nat m\<rparr>"
  have sc: "scale n ?s" using r by (simp add: aside_simps)
  have t: "ready_state m ?t" using r assms by (simp add: aside_simps)
  have eq: "s\<lparr>opt_max := num_of_nat m, animate_off := True\<rparr> = ?s\<lparr>opt_max := num_of_nat m\<rparr>" by simp
  have w: "wp calculate_new_max Q E (?s\<lparr>opt_max := num_of_nat m\<rparr>) = Q ?t" for Q E
    by (simp add: wp_def new_max_scale [OF sc assms])
  have same: "wp (block [upd (store_option (OptMax (num_of_nat m))), unanimated [calculate_new_max, refresh_value]]) Q E s
    = wp (block [calculate_new_max, refresh_value, upd (animate_off_update (\<lambda>_. False))]) Q E
        (?s\<lparr>opt_max := num_of_nat m\<rparr>)" for Q E
    by (simp only: unanimated_def block.simps seq_skip wp_seq_eq wp_upd seq_assoc store_option.simps eq)
  have "aside (block [refresh_value, upd (animate_off_update (\<lambda>_. False))])"
    by (intro aside_intro aside_upd) (fastforce simp: aside_simps)
  from asideD [OF this t]
  have "wp (block [refresh_value, upd (animate_off_update (\<lambda>_. False))])
      (\<lambda>t. (\<exists>n. ready_state n t) \<and> hand_view t = hand_view s \<and> mouse_types t = mouse_types s) (\<lambda>_. False) ?t"
    by (rule wp_mono) (auto simp: hand_view_def mouse_view_def mouse_types_def)
  then have "wp (block [calculate_new_max, refresh_value, upd (animate_off_update (\<lambda>_. False))])
      (\<lambda>t. (\<exists>n. ready_state n t) \<and> hand_view t = hand_view s \<and> mouse_types t = mouse_types s) (\<lambda>_. False)
      (?s\<lparr>opt_max := num_of_nat m\<rparr>)"
    unfolding wp_block_Cons [of calculate_new_max] w .
  then show "wp (block [upd (store_option (OptMax (num_of_nat m))), unanimated [calculate_new_max, refresh_value]])
      (\<lambda>t. (\<exists>n. ready_state n t) \<and> hand_view t = hand_view s \<and> mouse_types t = mouse_types s) (\<lambda>_. False) s"
    unfolding same .
qed

lemma aside_bind_val [aside_intro]: "(\<And>a. aside (k a)) \<Longrightarrow> aside (bind_val f k)"
  by (simp add: aside_def wp_bind_val)

lemma aside_option:
  assumes "control_input (SetOption opt)"
  shows "aside (set_option listen opt)"
proof -
  have each: "aside (block [upd (store_option opt), apply_option listen n opt])" for n
  proof (cases opt)
    case (OptMax x)
    then obtain m where "m \<le> 2 ^ 29" "x = num_of_nat m" using assms by auto
    then show ?thesis using aside_max [of m] OptMax by simp
  next
    case (OptValue x)
    then have "aside (upd (store_option opt))" using assms by (intro aside_upd) (fastforce simp: aside_simps)
    then show ?thesis unfolding OptValue apply_option.simps by (intro aside_intro) simp_all
  next
    case (OptAnimate b)
    have "aside (upd (store_option opt))" unfolding OptAnimate by (intro aside_upd) (fastforce simp: aside_simps)
    then show ?thesis unfolding OptAnimate apply_option.simps by (intro aside_intro)
  next
    case (OptDisabled b)
    have "aside (upd (store_option opt))" unfolding OptDisabled by (intro aside_upd) (fastforce simp: aside_simps)
    then show ?thesis unfolding OptDisabled apply_option.simps by (intro aside_intro)
  qed (use assms in simp_all)
  have "aside (leave_range opt)" using assms by (intro aside_leave) auto
  then show ?thesis
    unfolding set_option_def by (intro aside_block) (simp add: aside_bind_val each del: block.simps)
qed

lemma aside_protocol:
  assumes "aside m" "protocol s"
  shows "protocol (snd (m s))"
proof -
  have "\<exists>n. ready_state n s" using assms(2) by (auto simp: protocol_def idle_def dragging_def split: if_splits)
  then obtain n where "ready_state n s" by blast
  from wp_normal [OF asideD [OF assms(1) this]] obtain t n' where t: "m s = (None, t)" "ready_state n' t"
    "hand_view t = hand_view s" "mouse_types t = mouse_types s" by blast
  have "mouse_view t = mouse_view s" "eager t = eager s" "laid_out t = laid_out s" "measured t = measured s"
    "mouse_sliding t = mouse_sliding s" "click_offset t = click_offset s" "handle_index t = handle_index s"
    using t(3) by (simp_all add: hand_view_def mouse_view_def eager_def laid_out_def measured_def)
  then show ?thesis
    using assms(2) t by (auto simp: protocol_def idle_def dragging_def mouse_view_def split: if_splits)
qed

lemma slider_step: "control_input i \<Longrightarrow> protocol s \<Longrightarrow> protocol (snd (slider_handler listen i s))"
proof (cases i)
  case (FromMouse j)
  then show "control_input i \<Longrightarrow> protocol s \<Longrightarrow> ?thesis" by (simp add: protocol_step)
next
  case (SetOption opt)
  then show "control_input i \<Longrightarrow> protocol s \<Longrightarrow> ?thesis" by (auto intro: aside_protocol aside_option)
next
  case (EnterHandle j)
  have "aside (upd (update_handle j (hover_update (\<lambda>_. True))))"
    by (intro aside_upd) (fastforce simp: aside_simps update_handle_def)
  then show "control_input i \<Longrightarrow> protocol s \<Longrightarrow> ?thesis"
    unfolding EnterHandle slider_handler.simps by (intro aside_protocol aside_choice)
next
  case (LeaveHandle j)
  have "aside (upd (update_handle j (hover_update (\<lambda>_. False))))"
    by (intro aside_upd) (fastforce simp: aside_simps update_handle_def)
  then show "control_input i \<Longrightarrow> protocol s \<Longrightarrow> ?thesis"
    unfolding LeaveHandle slider_handler.simps by (intro aside_protocol aside_choice)
next
  case (FocusHandle j)
  have "aside (upd (focus_handle j))"
    by (intro aside_upd) (fastforce simp: aside_simps focus_handle_def)
  then show "control_input i \<Longrightarrow> protocol s \<Longrightarrow> ?thesis"
    unfolding FocusHandle slider_handler.simps by (intro aside_protocol aside_choice)
qed (auto intro!: aside_protocol intro: aside_intro)

end

sublocale slider_client \<subseteq> sliding: event_loop "slider_handler listen" control_input protocol
  by unfold_locales (rule slider_step)

end
