(* ===== verification/UI_Reader.thy ===== *)
theory UI_Reader
  imports UI_Slider_Props Reader_Props
begin

text \<open>
  The position slider of the control bar and the reader behind it (\<open>build_reader\<close>,
  \<open>update_controlbar_status\<close> and \<open>load_events\<close> of \<open>html/js/terminal_reader.js\<close>): the reader is the
  \<open>outside\<close> of the slider, its callback is the listener, and the calls
  \<open>slider("option", \<dots>)\<close> of the reader are options set on the slider.
\<close>

section \<open>The control bar\<close>

text \<open>The callback \<open>slide\<close> that \<open>build_reader\<close> passes; it returns nothing, so it never forbids.\<close>

definition reader_listener :: "tr listener" where
  "reader_listener e r = (case ui_type e of
       SlideMove \<Rightarrow> (case control_handler (Slide (ui_value e)) r of
           (None, r') \<Rightarrow> (Inr True, r')
         | (Some x, r') \<Rightarrow> (Inl x, r'))
     | _ \<Rightarrow> (Inr True, r))"

definition slider_max_option :: "tr slider stmt" where
  "slider_max_option = bind_val (\<lambda>s. length (events (outside s)))
     (\<lambda>n. set_option reader_listener (OptMax (num_of_nat n)))"

definition slider_value_option :: "tr slider stmt" where
  "slider_value_option = bind_val (\<lambda>s. event_index (outside s))
     (\<lambda>i. set_option reader_listener (OptValue (num_of_nat i)))"

datatype bar_input =
    BarSlider slider_input    \<comment> \<open>the user, at the slider\<close>
  | BarReader reader_call

definition on_outside :: "'e stmt \<Rightarrow> 'e slider stmt" where
  "on_outside = on_part outside outside_update"

fun bar_handler :: "bar_input \<Rightarrow> tr slider stmt" where
  "bar_handler (BarSlider i) = slider_handler reader_listener i"
| "bar_handler (BarReader (OnLoad evs)) = block [on_outside (load_events evs), slider_max_option]"
| "bar_handler (BarReader (OnControl ControlbarTick)) =
     block [on_outside update_controlbar_status, slider_value_option]"
| "bar_handler (BarReader c) = on_outside (reader_handler c)"

text \<open>The slider as \<open>build_reader\<close> creates it, with the options that it does not set at their defaults.\<close>

definition new_slider :: "geometry \<Rightarrow> geometry \<Rightarrow> nat set \<Rightarrow> tr \<Rightarrow> tr slider" where
  "new_slider box hbox ts r = \<lparr>distance = Fin 0, delay = Fin 0, started = False, mouse_moved = False,
     down_event = None, delay_met = False, delay_state = NoTimer, ignore_missing_which = False, bound = False,
     mouse_handled = False, click_blocked = {}, prevented = False, old_ie = False, answer = False,
     opt_animate = False, opt_max = num_of_nat (length (events r)), opt_min = Fin 0,
     opt_orientation = ''horizontal'', opt_range = NoRange, opt_step = Fin 1, opt_value = Fin 0,
     opt_values = None, opt_disabled = False, key_sliding = False, mouse_sliding = False, animate_off = False,
     handle_index = None, vertical = False, max_value = Fin 0, handles = [], range_el = None,
     last_changed = None, element_size = (Fin 0, Fin 0), element_offset = (Fin 0, Fin 0), click_offset = None,
     element_classes = [''session-slider''], element_box = box, handle_box = (\<lambda>_. hbox), handle_targets = ts,
     history = [], outside = r\<rparr>"

definition new_bar :: "geometry \<Rightarrow> geometry \<Rightarrow> nat set \<Rightarrow> tr \<Rightarrow> tr slider" where
  "new_bar box hbox ts r = snd (create_slider (new_slider box hbox ts r))"

section \<open>The reader is a client of the slider\<close>

lemma slide_calm: "synced r \<Longrightarrow> wp (control_handler (Slide v)) synced (\<lambda>_. False) r"
  by (simp add: wp_guard move_synced)

lemma listener_calm:
  assumes "synced r"
  shows "\<exists>b r'. reader_listener e r = (Inr b, r') \<and> synced r'"
proof (cases "ui_type e")
  case SlideMove
  from wp_normal [OF slide_calm [OF assms, of "ui_value e"]] SlideMove show ?thesis
    by (auto simp: reader_listener_def simp del: control_handler.simps)
qed (use assms in \<open>auto simp: reader_listener_def\<close>)

interpretation bar: slider_client reader_listener synced
proof
  show "synced out \<Longrightarrow> \<exists>b out'. reader_listener e out = (Inr b, out') \<and> synced out'" for out e
    by (rule listener_calm)
qed (simp add: reader_listener_def)

section \<open>What a step leaves of the bounds\<close>

text \<open>A step neither adds events nor changes the largest value of the slider.\<close>

definition fewer_events :: "tr \<Rightarrow> tr \<Rightarrow> bool" where
  "fewer_events u t \<longleftrightarrow> length (events u) \<le> length (events t)"

interpretation fewer: step_order fewer_events
  by unfold_locales (simp_all add: fewer_events_def)

named_theorems fewer_intro "methods of the reader that add no events"

lemmas [fewer_intro] = fewer.within_intro

lemma fewer_keeps: "keeps show_core m \<Longrightarrow> fewer.within m"
  unfolding fewer.within_def fewer_events_def by (metis keeps_show_events keepsD order_refl)

lemma fewer_core: "keeps core m \<Longrightarrow> fewer.within m"
  by (rule fewer_keeps [OF keeps_core_show])

lemma fewer_upd: "(\<And>r. length (events (f r)) \<le> length (events r)) \<Longrightarrow> fewer.within (upd f)"
  by (rule fewer.within_upd) (simp add: fewer_events_def)

lemmas [fewer_intro] =
  fewer_core [OF resize_by_pixels_core] fewer_core [OF pause_core] fewer_core [OF refresh_statusbar_core]
  fewer_core [OF reset_timeout_core] fewer_core [OF update_speed_core] fewer_core [OF update_controlbar_core]
  fewer_keeps [OF start_timer_show] fewer_keeps [OF play_show] fewer_keeps [OF toggle_show]
  fewer_keeps [OF increase_speed_show] fewer_keeps [OF decrease_speed_show]

lemma fewer_for_each [fewer_intro]: "(\<And>x. fewer.within (b x)) \<Longrightarrow> fewer.within (for_each xs b)"
  by (induction xs) (simp_all add: fewer.within_skip fewer.within_seq)

lemma fewer_action [fewer_intro]: "fewer.within (action_event i)"
  unfolding fewer.within_def fewer_events_def
proof
  fix r
  have "map ev_view (events (snd (action_event i r))) = map ev_view (events r)"
    using action_event_view [of i r] by (simp add: play_view_def)
  from map_eq_imp_length_eq [OF this] show "length (events (snd (action_event i r))) \<le> length (events r)" by simp
qed

lemma fewer_callback [fewer_intro]: "fewer.within (run_callback cb)"
  by (induction cb) (auto intro!: fewer_intro fewer_upd simp: set_timeout_def)

lemma fewer_write [fewer_intro]: "fewer.within (write_buffers cb b)"
  unfolding write_buffers_def write_keystroke_buffer_def write_terminal_buffer_def Let_def
  by (intro fewer_intro fewer_upd) simp_all

lemma fewer_move [fewer_intro]: "fewer.within (move_to_event e b)"
  unfolding move_to_event_def Let_def by (intro fewer_intro fewer_upd) simp_all

lemma fewer_process [fewer_intro]: "fewer.within (process_next_event cb)"
  unfolding process_next_event_def clear_buffers_def Let_def by (intro fewer_intro fewer_upd) simp_all

lemma fewer_next [fewer_intro]: "fewer.within next_event"
  unfolding next_event_def by (intro fewer_intro fewer_upd) simp_all

lemma fewer_controls [fewer_intro]: "fewer.within (control_handler c)"
  by (cases c) (auto simp: prev_def intro!: fewer_intro)

lemma fewer_fire [fewer_intro]: "fewer.within fire_first"
proof -
  have "fewer.within (run_job j)" for j
    by (cases j) (auto intro!: fewer_intro fewer_upd)
  then show ?thesis unfolding fire_first_def
    by (intro fewer_intro fewer_upd) (simp_all add: remove_timer_def)
qed

lemma fewer_sessions [fewer_intro]:
  "fewer.within (update_session obj)" "fewer.within set_session_mode_live" "fewer.within reset_session"
  "fewer.within set_session_mode_disconnected" "fewer.within allow_resize" "fewer.within disable_resize"
  unfolding update_session_def set_session_mode_live_def set_session_mode_disconnected_def reset_session_def
    allow_resize_def disable_resize_def
  by (intro fewer_intro fewer_upd; simp)+

lemma fewer_reset [fewer_intro]: "fewer.within (reset b)"
  unfolding reset_def clear_events_def clear_buffers_def by (intro fewer_intro fewer_upd) simp_all

lemma fewer_reader: "(\<And>evs. c \<noteq> OnLoad evs) \<Longrightarrow> fewer.within (reader_handler c)"
  by (cases c) (auto intro!: fewer_intro)


text \<open>The same for the control bar: neither more events nor another largest value.\<close>

definition roomy :: "tr slider \<Rightarrow> tr slider \<Rightarrow> bool" where
  "roomy u t \<longleftrightarrow> fewer_events (outside u) (outside t) \<and> max_value u = max_value t"

interpretation room: step_order roomy
  by unfold_locales (auto simp: roomy_def fewer_events_def)

named_theorems room_intro "steps of the slider that keep its bounds"

lemmas [room_intro] = room.within_intro

lemma room_upd: "(\<And>s. outside (f s) = outside s \<and> max_value (f s) = max_value s) \<Longrightarrow> room.within (upd f)"
  by (rule room.within_upd) (simp add: roomy_def fewer.below_refl)

lemma room_call [room_intro]: "room.within m \<Longrightarrow> (\<And>b. room.within (k b)) \<Longrightarrow> room.within (call m k)"
  unfolding call_def by (intro room_intro)

lemma room_for_each [room_intro]: "(\<And>x. room.within (b x)) \<Longrightarrow> room.within (for_each xs b)"
  by (induction xs) (simp_all add: room.within_skip room.within_seq)

lemma listener_fewer: "fewer_events (snd (reader_listener e r)) r"
proof (cases "ui_type e")
  case SlideMove
  then show ?thesis
    using fewer.withinD [OF fewer_controls, of "Slide (ui_value e)" r]
    by (auto simp: reader_listener_def simp del: control_handler.simps split: prod.splits option.splits)
qed (simp_all add: reader_listener_def fewer.below_refl)

lemma room_trigger [room_intro]: "room.within (trigger reader_listener ty src i v vs)"
proof -
  have "room.within (hear reader_listener e)" for e
    using listener_fewer [of e]
    by (auto simp: room.within_def hear_def roomy_def split: prod.splits sum.splits) (metis snd_conv)+
  then show ?thesis unfolding trigger_def by (intro room_intro room_upd) simp_all
qed

lemma room_events [room_intro]:
  "room.within (slide_start reader_listener src i)" "room.within (slide_stop reader_listener src i)"
  "room.within (slide_change reader_listener src i)"
  unfolding slide_start_def slide_stop_def slide_change_def by (intro room_intro room_upd; simp)+

lemma room_refresh [room_intro]: "room.within refresh_value"
  unfolding refresh_value_def refresh_handle_def refresh_single_def place_handle_def style_range_def
  by (intro room_intro room_upd) (simp_all add: update_handle_def)

lemma room_set [room_intro]:
  "room.within (set_value reader_listener v)" "room.within (set_values_at reader_listener i v)"
  unfolding set_value_def set_values_at_def by (intro room_intro room_upd; simp)+

lemma room_slide [room_intro]: "room.within (slide reader_listener src i v)"
  unfolding slide_def by (intro room_intro)

lemma room_mouse [room_intro]:
  "room.within (mouse_capture reader_listener ev)" "room.within (mouse_start ev)"
  "room.within (mouse_drag reader_listener ev)" "room.within (mouse_stop reader_listener ev)"
  unfolding mouse_capture_def mouse_start_def mouse_drag_def mouse_stop_def returns_def
  by (intro room_intro room_upd; simp add: update_handle_def focus_handle_def)+

lemma room_base [room_intro]:
  "room.within (mouse_up (slider_mouse reader_listener) ev)"
  "room.within (bind_delegates ev)" "room.within prevent_default" "room.within set_delay"
  unfolding mouse_up_def bind_delegates_def prevent_default_def set_delay_def
  by (intro room_intro room_upd; simp add: slider_mouse_def room_intro)+

lemma room_press [room_intro]:
  "room.within (mouse_down (slider_mouse reader_listener) ev)" "room.within (mouse_move (slider_mouse reader_listener) ev)"
  unfolding mouse_down_def mouse_move_def begin_drag_def
  by (intro room_intro room_upd; simp add: slider_mouse_def room_intro)+

lemma room_keys [room_intro]: "room.within (keydown reader_listener k i)" "room.within (keyup reader_listener i)"
  unfolding keydown_def keyup_def key_slide_def
  by (intro room_intro room_upd; simp add: update_handle_def)+

text \<open>What the user does, and the calls of the page whose events decode.\<close>

fun user_input :: "slider_input \<Rightarrow> bool" where
  "user_input (FromMouse i) = finite_input i"
| "user_input (SetOption opt) = False"
| "user_input (SetValue v) = False"
| "user_input (SetValuesAt i v) = False"
| "user_input (SetValues vs) = False"
| "user_input _ = True"

lemma user_control: "user_input i \<Longrightarrow> bar.control_input i"
  by (cases i rule: user_input.cases) simp_all

lemma room_mouse_input: "room.within (mouse_handler (slider_mouse reader_listener) i)"
  by (cases i) (auto simp: mouse_click_def intro!: room_intro room_upd)

lemma room_user: "user_input i \<Longrightarrow> room.within (slider_handler reader_listener i)"
  by (cases i rule: user_input.cases)
     (auto simp: focus_handle_def update_handle_def room_mouse_input intro!: room_intro room_upd)


section \<open>Every run of the control bar\<close>

fun bar_admissible :: "bar_input \<Rightarrow> bool" where
  "bar_admissible (BarSlider i) = user_input i"
| "bar_admissible (BarReader c) = call_decodable c"

fun bar_loads :: "bar_input \<Rightarrow> nat" where
  "bar_loads (BarReader (OnLoad evs)) = length evs"
| "bar_loads _ = 0"

text \<open>
  The slider follows its protocol and reaches every event of the reader (a reset of the reader
  does not set its maximum, so it may reach further).
\<close>

definition bar_ok :: "tr slider \<Rightarrow> bool" where
  "bar_ok s \<longleftrightarrow> bar.protocol s \<and> (\<exists>m. max_value s = num_of_nat m \<and> length (events (outside s)) \<le> m)"

lemma protocol_ready: "bar.protocol s \<Longrightarrow> \<exists>n. bar.ready_state n s"
  by (auto simp: bar.protocol_def bar.idle_def bar.dragging_def split: if_splits)

lemma outside_protocol:
  assumes "bar.protocol s" "synced r"
  shows "bar.protocol (s\<lparr>outside := r\<rparr>)"
proof -
  have "bar.aside (upd (outside_update (\<lambda>_. r)))"
  proof (rule bar.aside_upd)
    fix s n
    assume "bar.ready_state n s"
    then have "bar.ready_state n (s\<lparr>outside := r\<rparr>)" using assms(2) by (simp add: bar.ready_state_def tuned_def scale_def)
    then show "(\<exists>n. bar.ready_state n (s\<lparr>outside := r\<rparr>)) \<and> bar.hand_view (s\<lparr>outside := r\<rparr>) = bar.hand_view s \<and>
        mouse_types (s\<lparr>outside := r\<rparr>) = mouse_types s"
      by (intro conjI exI [of _ n]) (simp_all add: bar.hand_view_def mouse_view_def mouse_types_def)
  qed
  from bar.aside_protocol [OF this assms(1)] show ?thesis by (simp add: upd_def)
qed

lemma on_outside_state: "on_outside m s = (fst (m (outside s)), s\<lparr>outside := snd (m (outside s))\<rparr>)"
  by (simp add: on_outside_def on_part_def split: prod.splits)

lemma on_outside_protocol:
  assumes "bar.protocol s" "preserves synced m"
  shows "bar.protocol (snd (on_outside m s))"
proof -
  have "synced (outside s)" using protocol_ready [OF assms(1)] by (auto simp: bar.ready_state_def)
  then show ?thesis
    using outside_protocol [OF assms(1) preservesD [OF assms(2)]] by (simp add: on_outside_state)
qed

lemma room_ok:
  assumes "bar_ok s" "roomy t s" "bar.protocol t"
  shows "bar_ok t"
  using assms by (auto simp: bar_ok_def roomy_def fewer_events_def)

lemma slider_max_option_eq:
  "slider_max_option s = set_option reader_listener (OptMax (num_of_nat (length (events (outside s))))) s"
  "slider_value_option s = set_option reader_listener (OptValue (num_of_nat (event_index (outside s)))) s"
  by (simp_all add: slider_max_option_def slider_value_option_def bind_val_def)

text \<open>Setting the maximum to the number of events gives exactly this maximum.\<close>

lemma set_max_exact:
  assumes r: "bar.ready_state n s" and m: "m \<le> 2 ^ 29"
  shows "\<exists>t. set_option reader_listener (OptMax (num_of_nat m)) s = (None, t) \<and> max_value t = num_of_nat m \<and>
    outside t = outside s"
proof -
  let ?s = "s\<lparr>animate_off := True\<rparr>"
  let ?t = "?s\<lparr>opt_max := num_of_nat m, max_value := num_of_nat m\<rparr>"
  have sc: "scale n ?s" "opt_range s = NoRange" using r by (simp_all add: bar.ready_state_def tuned_def scale_def)
  have eq: "s\<lparr>opt_max := num_of_nat m, animate_off := True\<rparr> = ?s\<lparr>opt_max := num_of_nat m\<rparr>" by simp
  have "scale m ?t" using sc m by (simp add: scale_def)
  from refresh_scale [OF this] obtain h where h: "refresh_value ?t = (None, ?t\<lparr>handles := [h]\<rparr>)" by blast
  have new_max: "seq calculate_new_max k (?s\<lparr>opt_max := num_of_nat m\<rparr>) = k ?t" for k
    by (rule seq_None, rule new_max_scale [OF sc(1) m])
  have refreshed: "seq refresh_value k ?t = k (?t\<lparr>handles := [h]\<rparr>)" for k
    by (rule seq_None, rule h)
  have quiet: "leave_range (OptMax (num_of_nat m)) s = (None, s)"
    by (simp add: leave_range_def stmt_simps sc(2))
  have "set_option reader_listener (OptMax (num_of_nat m)) s =
      block [calculate_new_max, refresh_value, upd (animate_off_update (\<lambda>_. False))] (?s\<lparr>opt_max := num_of_nat m\<rparr>)"
    by (simp only: set_option_def block.simps seq_None [of "leave_range (OptMax (num_of_nat m))" s s, OF quiet] bind_val_def seq_skip seq_upd store_option.simps
        apply_option.simps unanimated_def seq_assoc eq)
  also have "\<dots> = (None, ?t\<lparr>handles := [h], animate_off := False\<rparr>)"
    by (simp add: new_max refreshed) (simp add: stmt_simps)
  finally show ?thesis by simp
qed

lemma option_outside_max:
  assumes "bar.ready_state n s"
  shows "roomy (snd (set_option reader_listener (OptValue x) s)) s"
proof -
  have "room.within (set_option reader_listener (OptValue x))"
    unfolding set_option_def leave_range_def apply_option.simps unanimated_def
    by (intro room_intro room_upd) simp_all
  then show ?thesis by (rule room.withinD)
qed

lemma load_length: "length (events (snd (load_events evs r))) = length (events r) + length evs"
  by (simp add: load_events_def stmt_simps seq_def)

lemma option_protocol:
  "bar.protocol s \<Longrightarrow> bar.control_input (SetOption opt) \<Longrightarrow> bar.protocol (snd (set_option reader_listener opt s))"
  by (rule bar.aside_protocol [OF bar.aside_option])

lemma load_seq: "block [on_outside (load_events evs), slider_max_option] s =
    slider_max_option (s\<lparr>outside := snd (load_events evs (outside s))\<rparr>)"
  by (simp add: seq_def on_outside_state load_events_def stmt_simps)

lemma tick_seq: "block [on_outside update_controlbar_status, slider_value_option] s =
    slider_value_option (s\<lparr>outside := snd (update_controlbar_status (outside s))\<rparr>)"
  by (simp add: seq_def on_outside_state update_controlbar_status_def stmt_simps)

lemma bar_load:
  assumes s: "bar_ok s" and evs: "list_all decodable evs" and len: "length (events (outside s)) + length evs \<le> 2 ^ 29"
  shows "bar_ok (snd (block [on_outside (load_events evs), slider_max_option] s))"
    "length (events (outside (snd (block [on_outside (load_events evs), slider_max_option] s)))) =
      length (events (outside s)) + length evs"
proof -
  let ?t = "s\<lparr>outside := snd (load_events evs (outside s))\<rparr>"
  let ?m = "length (events (outside ?t))"
  have p: "bar.protocol ?t"
    using on_outside_protocol [of s "load_events evs"] s load_preserves [OF evs] by (simp add: bar_ok_def on_outside_state)
  then obtain n where "bar.ready_state n ?t" using protocol_ready by blast
  moreover have m: "?m \<le> 2 ^ 29" using len by (simp add: load_length)
  ultimately obtain u where u: "set_option reader_listener (OptMax (num_of_nat ?m)) ?t = (None, u)"
    "max_value u = num_of_nat ?m" "outside u = outside ?t"
    using set_max_exact by blast
  have "bar.protocol u" using option_protocol [OF p, of "OptMax (num_of_nat ?m)"] u(1) m by auto
  then have "bar_ok u" using u by (auto simp: bar_ok_def)
  then show "bar_ok (snd (block [on_outside (load_events evs), slider_max_option] s))"
    unfolding load_seq slider_max_option_eq u(1) by simp
  show "length (events (outside (snd (block [on_outside (load_events evs), slider_max_option] s)))) =
      length (events (outside s)) + length evs"
    unfolding load_seq slider_max_option_eq u(1) using u(3) by (simp add: load_length)
qed

lemma update_controlbar_events: "events (snd (update_controlbar_status r)) = events r"
  "event_index (snd (update_controlbar_status r)) = event_index r"
  by (simp_all add: update_controlbar_status_def upd_def)

lemma bar_tick:
  assumes s: "bar_ok s"
  shows "bar_ok (snd (block [on_outside update_controlbar_status, slider_value_option] s)) \<and>
    roomy (snd (block [on_outside update_controlbar_status, slider_value_option] s)) s"
proof -
  let ?t = "s\<lparr>outside := snd (update_controlbar_status (outside s))\<rparr>"
  have p: "bar.protocol ?t"
    using on_outside_protocol [of s update_controlbar_status] s preserves_synced_core [OF update_controlbar_core]
    by (simp add: bar_ok_def on_outside_state)
  have t: "bar_ok ?t"
    using s p by (auto simp: bar_ok_def update_controlbar_events)
  let ?u = "snd (set_option reader_listener (OptValue (num_of_nat (event_index (outside ?t)))) ?t)"
  have u: "roomy ?u ?t" using protocol_ready [OF p] option_outside_max by blast
  moreover have "bar.protocol ?u" by (rule option_protocol [OF p]) simp
  ultimately have "bar_ok ?u" using room_ok [OF t] by blast
  moreover have "roomy ?u s" using u by (simp add: roomy_def fewer_events_def update_controlbar_events)
  ultimately show ?thesis unfolding tick_seq slider_max_option_eq by blast
qed

lemma bar_reader:
  assumes s: "bar_ok s" and m: "preserves synced m" "fewer.within m"
  shows "bar_ok (snd (on_outside m s)) \<and> roomy (snd (on_outside m s)) s"
proof -
  have "roomy (snd (on_outside m s)) s" using fewer.withinD [OF m(2)] by (simp add: on_outside_state roomy_def)
  then show ?thesis using room_ok [OF s] on_outside_protocol [OF _ m(1)] s by (simp add: bar_ok_def)
qed

lemma bar_reader_call:
  assumes "\<And>evs. c \<noteq> OnLoad evs" "c \<noteq> OnControl ControlbarTick"
  shows "bar_handler (BarReader c) = on_outside (reader_handler c)"
  by (cases "BarReader c" rule: bar_handler.cases) (use assms in auto)

lemma bar_step:
  assumes "bar_admissible i" "bar_ok s" "length (events (outside s)) + bar_loads i \<le> 2 ^ 29"
  shows "bar_ok (snd (bar_handler i s)) \<and>
    length (events (outside (snd (bar_handler i s)))) \<le> length (events (outside s)) + bar_loads i"
proof (cases "\<exists>evs. i = BarReader (OnLoad evs)")
  case True
  then show ?thesis using assms bar_load by (auto simp del: block.simps)
next
  case False
  have "bar_ok (snd (bar_handler i s)) \<and> roomy (snd (bar_handler i s)) s"
  proof (cases i)
    case (BarSlider j)
    then have "user_input j" using assms(1) by simp
    then have "bar.protocol (snd (slider_handler reader_listener j s))" "roomy (snd (slider_handler reader_listener j s)) s"
      using assms(2) bar.slider_step [OF user_control, of j s] room.withinD [OF room_user, of j s]
      by (simp_all add: bar_ok_def)
    then show ?thesis using room_ok [OF assms(2)] BarSlider by simp
  next
    case (BarReader c)
    show ?thesis
    proof (cases "c = OnControl ControlbarTick")
      case True
      then show ?thesis using BarReader bar_tick [OF assms(2)] by (simp del: block.simps)
    next
      case tick: False
      have load: "\<And>evs. c \<noteq> OnLoad evs" using False BarReader by simp
      have "preserves synced (reader_handler c)" using BarReader assms(1) by (intro reader_preserves) simp
      from bar_reader [OF assms(2) this fewer_reader [OF load]] show ?thesis
        using BarReader bar_reader_call [OF load tick] by simp
    qed
  qed
  then show ?thesis by (auto simp: roomy_def fewer_events_def)
qed

lemma bar_run:
  "list_all bar_admissible is \<Longrightarrow> bar_ok s \<Longrightarrow> length (events (outside s)) + sum_list (map bar_loads is) \<le> 2 ^ 29 \<Longrightarrow>
    bar_ok (run_events bar_handler is s)"
proof (induction "is" arbitrary: s)
  case (Cons i "is")
  have "bar_ok (snd (bar_handler i s)) \<and>
      length (events (outside (snd (bar_handler i s)))) \<le> length (events (outside s)) + bar_loads i"
    by (rule bar_step) (use Cons.prems in simp_all)
  then show ?case using Cons.IH [of "snd (bar_handler i s)"] Cons.prems by simp
qed simp

text \<open>The page has laid the slider and its handle out, at a size and place that a page has.\<close>

definition layout_ok :: "geometry \<Rightarrow> geometry \<Rightarrow> bool" where
  "layout_ok box hbox \<longleftrightarrow> Fin 0 < box_width box \<and> Fin 0 < box_height box \<and>
     small (box_width box) \<and> small (box_height box) \<and> small (box_left box) \<and> small (box_top box) \<and>
     small (box_width hbox) \<and> small (box_height hbox) \<and> small (box_left hbox) \<and> small (box_top hbox) \<and>
     small (box_border_top hbox) \<and> small (box_border_bottom hbox) \<and> small (box_margin_top hbox)"

lemma new_bar_state:
  assumes r: "synced r" "length (events r) \<le> 2 ^ 29" and box: "layout_ok box hbox"
  shows "bar_ok (new_bar box hbox ts r)" "outside (new_bar box hbox ts r) = r" "\<not> started (new_bar box hbox ts r)"
    "\<not> opt_disabled (new_bar box hbox ts r)" "\<not> key_sliding (new_bar box hbox ts r)" "history (new_bar box hbox ts r) = []"
proof -
  let ?m = "length (events r)"
  let ?s = "new_slider box hbox ts r\<lparr>animate_off := True\<rparr>"
  define u where "u = ?s\<lparr>max_value := num_of_nat ?m, element_classes := element_classes ?s @
       [''ui-slider'', ''ui-corner-all'', ''ui-slider-horizontal'', ''ui-widget'', ''ui-widget-content''],
       handles := [plain_handle]\<rparr>"
  have sc: "scale ?m u" using r(2) by (simp add: u_def scale_def new_slider_def)
  obtain h where h: "refresh_value u = (None, u\<lparr>handles := [h]\<rparr>)" using refresh_scale [OF sc] by blast
  have new_max: "seq calculate_new_max k ?s = k (?s\<lparr>max_value := num_of_nat ?m\<rparr>)" for k
    by (rule seq_None, rule new_max_exact) (use r(2) in \<open>simp_all add: new_slider_def\<close>)
  have refreshed: "seq refresh_value k u = k (u\<lparr>handles := [h]\<rparr>)" for k
    by (rule seq_None, rule h)
  have init: "s\<lparr>key_sliding := False, mouse_sliding := False, animate_off := True, handle_index := None,
      vertical := (opt_orientation s = ''vertical''), started := False, bound := False\<rparr> = ?s"
    if "s = new_slider box hbox ts r" for s
    by (simp add: that new_slider_def)
  have eq: "?s\<lparr>max_value := num_of_nat ?m, element_classes := element_classes (?s\<lparr>max_value := num_of_nat ?m\<rparr>) @
       [''ui-slider'', ''ui-corner-all'', orientation_class (?s\<lparr>max_value := num_of_nat ?m\<rparr>), ''ui-widget'', ''ui-widget-content''],
       range_el := None, handles := [plain_handle]\<rparr> = u"
    by (simp add: u_def new_slider_def orientation_class_def)
  have "create_slider (new_slider box hbox ts r) =
      block [calculate_new_max,
       upd (\<lambda>s. s\<lparr>element_classes := element_classes s @
         [''ui-slider'', ''ui-corner-all'', orientation_class s, ''ui-widget'', ''ui-widget-content'']\<rparr>),
       refresh, upd (animate_off_update (\<lambda>_. False))] ?s"
    by (simp add: create_slider_def detect_orientation_def mouse_init_def stmt_simps init)
  also have "\<dots> = block [refresh_value, upd (animate_off_update (\<lambda>_. False))] u"
    unfolding eq [symmetric]
    by (simp add: new_max refresh_def create_range_def create_handles_def seq_assoc)
      (simp add: stmt_simps seq_def new_slider_def value_list_def)
  also have "\<dots> = (None, u\<lparr>handles := [h], animate_off := False\<rparr>)"
    by (simp add: refreshed) (simp add: stmt_simps)
  finally have new: "new_bar box hbox ts r = u\<lparr>handles := [h], animate_off := False\<rparr>" by (simp add: new_bar_def)
  have lo: "bar.laid_out (u\<lparr>handles := [h], animate_off := False\<rparr>)"
    using box by (auto simp: u_def new_slider_def bar.laid_out_def layout_ok_def small_def less_jsnum_def split: jsnum.splits)
  have "bar.idle (u\<lparr>handles := [h], animate_off := False\<rparr>)"
    unfolding bar.idle_def
  proof (intro conjI exI [of _ ?m])
    show "bar.ready_state ?m (u\<lparr>handles := [h], animate_off := False\<rparr>)"
      using sc r by (simp add: bar.ready_state_def tuned_def scale_def) (simp add: u_def new_slider_def)
    show "bar.laid_out (u\<lparr>handles := [h], animate_off := False\<rparr>)" by (rule lo)
  qed (simp_all add: u_def new_slider_def eager_def mouse_types_def)
  then have "bar.protocol (u\<lparr>handles := [h], animate_off := False\<rparr>)"
    by (simp add: bar.protocol_def) (simp add: u_def new_slider_def)
  then show "bar_ok (new_bar box hbox ts r)" unfolding new by (simp add: bar_ok_def) (simp add: u_def new_slider_def)
  show "outside (new_bar box hbox ts r) = r" "\<not> started (new_bar box hbox ts r)"
    "\<not> opt_disabled (new_bar box hbox ts r)" "\<not> key_sliding (new_bar box hbox ts r)" "history (new_bar box hbox ts r) = []"
    unfolding new by (simp_all add: u_def new_slider_def)
qed


section \<open>What a slide does, exactly\<close>

lemma trigger_exact:
  "listen (ui_hash i v vs ty src s) (outside s) = (Inr b, out) \<Longrightarrow> trigger listen ty src i v vs s =
    (None, s\<lparr>history := history s @ [ui_hash i v vs ty src s], outside := out, answer := b\<rparr>)"
  by (simp add: trigger_def hear_def stmt_simps seq_def)

lemma set_value_exact:
  assumes "scale n s" "mouse_sliding s \<or> key_sliding s" "v \<noteq> NaN"
  shows "\<exists>h. set_value listen v s = (None, s\<lparr>opt_value := trim_align s v, handles := [h]\<rparr>)"
proof -
  let ?s = "s\<lparr>opt_value := trim_align s v\<rparr>"
  have "scale n ?s" using assms(1) by (simp add: scale_def)
  from refresh_scale [OF this] obtain h where h: "refresh_value ?s = (None, ?s\<lparr>handles := [h]\<rparr>)" by blast
  have refreshed: "seq refresh_value k ?s = k (?s\<lparr>handles := [h]\<rparr>)" for k
    by (rule seq_None, rule h)
  have "set_value listen v s = (None, ?s\<lparr>handles := [h]\<rparr>)"
    using assms(2) by (simp add: set_value_def seq_upd refreshed) (auto simp: slide_change_def stmt_simps)
  then show ?thesis by blast
qed

lemma slide_exact:
  assumes sc: "scale n s" and moving: "mouse_sliding s \<or> key_sliding s" and v: "v \<noteq> NaN"
    and new: "\<not> num_eq v (get_value s)"
    and heard: "listen (ui_hash (Some 0) (Some v) (Some (get_values s)) SlideMove src s) (outside s) = (Inr True, out)"
  shows "\<exists>h. slide listen src (Some 0) v s = (None, s\<lparr>history := history s @
      [ui_hash (Some 0) (Some v) (Some (get_values s)) SlideMove src s], outside := out, answer := True,
      opt_value := trim_align s v, handles := [h]\<rparr>)"
proof -
  have one: "\<not> has_multiple_values s" using sc by (simp add: scale_def has_multiple_values_def)
  let ?e = "ui_hash (Some 0) (Some v) (Some (get_values s)) SlideMove src s"
  let ?t = "s\<lparr>history := history s @ [?e], outside := out, answer := True\<rparr>"
  have t: "scale n ?t" "mouse_sliding ?t \<or> key_sliding ?t" "\<not> has_multiple_values ?t"
    using sc moving one by (simp_all add: scale_def has_multiple_values_def)
  obtain h where h: "set_value listen v ?t = (None, ?t\<lparr>opt_value := trim_align ?t v, handles := [h]\<rparr>)"
    using set_value_exact [OF t(1,2) v] by blast
  have trig: "trigger listen SlideMove src (Some 0) (Some v) (Some (get_values s)) s = (None, ?t)"
    by (rule trigger_exact, rule heard)
  have "trim_align ?t v = trim_align s v" by (simp add: trim_align_def value_min_def value_max_def)
  moreover have "slide listen src (Some 0) v s = set_value listen v ?t"
  proof -
    have "slide listen src (Some 0) v s =
      call (trigger listen SlideMove src (Some 0) (Some v) (Some (get_values s))) (\<lambda>allowed.
         if \<not> allowed then skip else ite has_multiple_values (set_values_at listen (Some 0) v) (set_value listen v)) s"
      using one new by (simp add: slide_def bind_val_def limited_value_def get_values_at_def)
    also have "\<dots> = set_value listen v ?t"
      using t(3) by (simp add: call_def seq_def trig bind_val_def ite_def)
    finally show ?thesis .
  qed
  ultimately show ?thesis using h by auto
qed


text \<open>The reader hears a slide to the whole number \<open>k\<close>.\<close>

lemma hears_slide:
  assumes "synced r" "ui_type e = SlideMove" "ui_value e = num_of_nat k" "k \<noteq> event_index r"
  shows "reader_listener e r = (Inr True, snd (move_to_event (num_of_nat k) True r))"
proof -
  have "\<not> num_eq (num_of_nat (event_index r)) (num_of_nat k)" using assms(4) by (simp add: num_eq_def)
  then have "control_handler (Slide (num_of_nat k)) r = move_to_event (num_of_nat k) True r"
    by (simp add: guard_def ite_def)
  moreover obtain t where "move_to_event (num_of_nat k) True r = (None, t)"
    using wp_normal [OF move_synced [OF assms(1), of "num_of_nat k"]] by blast
  ultimately show ?thesis using assms(2,3) by (simp add: reader_listener_def del: control_handler.simps)
qed

lemma ui_hash_fields [simp]: "ui_type (ui_hash i (Some v) vs ty src s) = ty" "ui_value (ui_hash i (Some v) vs ty src s) = v"
  by (simp_all add: ui_hash_def)

lemma reader_slide:
  assumes r: "bar.ready_state n s" and moving: "mouse_sliding s \<or> key_sliding s" and k: "k \<le> n"
    and new: "get_value s \<noteq> num_of_nat k" "k \<noteq> event_index (outside s)"
  shows "\<exists>h e. slide reader_listener src (Some 0) (num_of_nat k) s = (None, s\<lparr>history := history s @ [e],
      outside := snd (move_to_event (num_of_nat k) True (outside s)), answer := True,
      opt_value := num_of_nat k, handles := [h]\<rparr>) \<and> ui_source e = src \<and> ui_type e = SlideMove"
proof -
  have sc: "scale n s" "opt_value s \<noteq> NaN" and sy: "synced (outside s)"
    using r by (simp_all add: bar.ready_state_def tuned_def)
  obtain j where "get_value s = num_of_nat j" using get_value_nat [OF sc] by blast
  then have new': "\<not> num_eq (num_of_nat k) (get_value s)" using new(1) by (auto simp: num_eq_def)
  let ?e = "ui_hash (Some 0) (Some (num_of_nat k)) (Some (get_values s)) SlideMove src s"
  have "\<exists>h. slide reader_listener src (Some 0) (num_of_nat k) s = (None, s\<lparr>history := history s @ [?e],
      outside := snd (move_to_event (num_of_nat k) True (outside s)), answer := True,
      opt_value := trim_align s (num_of_nat k), handles := [h]\<rparr>)"
    by (rule slide_exact [OF sc(1) moving _ new'], simp, rule hears_slide [OF sy _ _ new(2)], simp_all)
  moreover have "ui_source ?e = src" "ui_type ?e = SlideMove" by (simp_all add: ui_hash_def)
  ultimately show ?thesis unfolding aligned_int [OF sc(1) k] by blast
qed

text \<open>The tick of the control bar puts the handle at the position of the reader.\<close>

abbreviation tick :: bar_input where
  "tick \<equiv> BarReader (OnControl ControlbarTick)"

text \<open>What a change event leaves alone when the reader listens.\<close>

definition drawn :: "tr slider \<Rightarrow> _" where
  "drawn s = (outside s, opt_value s, gesture_view s)"

lemma change_exact: "\<exists>t. slide_change reader_listener src i s = (None, t) \<and> drawn t = drawn s \<and>
    (\<forall>n. scale n s \<longrightarrow> scale n t)"
proof (cases "key_sliding s \<or> mouse_sliding s")
  case True
  then show ?thesis by (auto simp: slide_change_def stmt_simps)
next
  case False
  let ?s = "s\<lparr>last_changed := i\<rparr>"
  let ?e = "ui_hash i None None SlideChange src ?s"
  let ?t = "?s\<lparr>history := history ?s @ [?e], outside := outside ?s, answer := True\<rparr>"
  have "trigger reader_listener SlideChange src i None None ?s = (None, ?t)"
    by (rule trigger_exact) (simp add: reader_listener_def ui_hash_def)
  then have "slide_change reader_listener src i s = (None, ?t)"
    using False by (simp add: slide_change_def stmt_simps seq_def)
  moreover have "drawn ?t = drawn s" by (simp add: drawn_def gesture_view_def mouse_view_def)
  moreover have "\<forall>n. scale n s \<longrightarrow> scale n ?t" by (simp add: scale_def)
  ultimately show ?thesis by blast
qed

lemma value_option_exact:
  assumes sc: "scale n s"
  shows "\<exists>t. set_option reader_listener (OptValue x) s = (None, t) \<and> scale n t \<and> opt_value t = x \<and> outside t = outside s"
proof -
  let ?s = "s\<lparr>opt_value := x, animate_off := True\<rparr>"
  have sc': "scale n ?s" "opt_range s = NoRange" using sc by (simp_all add: scale_def)
  obtain h where h: "refresh_value ?s = (None, ?s\<lparr>handles := [h]\<rparr>)" using refresh_scale [OF sc'(1)] by blast
  have drawn: "scale n (?s\<lparr>handles := [h]\<rparr>)" using sc'(1) by (simp add: scale_def)
  obtain t where t: "slide_change reader_listener ByProgram (Some 0) (?s\<lparr>handles := [h]\<rparr>) = (None, t)"
      "drawn t = drawn (?s\<lparr>handles := [h]\<rparr>)" "scale n t"
    using change_exact [of ByProgram "Some 0" "?s\<lparr>handles := [h]\<rparr>"] drawn by blast
  have refreshed: "seq refresh_value k ?s = k (?s\<lparr>handles := [h]\<rparr>)" for k
    by (rule seq_None, rule h)
  have changed: "seq (slide_change reader_listener ByProgram (Some 0)) k (?s\<lparr>handles := [h]\<rparr>) = k t" for k
    by (rule seq_None, rule t(1))
  have quiet: "leave_range (OptValue x) s = (None, s)"
    by (simp add: leave_range_def stmt_simps sc'(2))
  have "set_option reader_listener (OptValue x) s =
      block [refresh_value, slide_change reader_listener ByProgram (Some 0), upd (animate_off_update (\<lambda>_. False))] ?s"
    by (simp only: set_option_def block.simps seq_None [of "leave_range (OptValue x)" s s, OF quiet] bind_val_def seq_skip
        seq_upd store_option.simps apply_option.simps unanimated_def seq_assoc)
  also have "\<dots> = (None, t\<lparr>animate_off := False\<rparr>)"
    by (simp only: block.simps seq_skip refreshed changed upd_def)
  finally have "set_option reader_listener (OptValue x) s = (None, t\<lparr>animate_off := False\<rparr>)" .
  moreover have "scale n (t\<lparr>animate_off := False\<rparr>)" using t(3) by (simp add: scale_def)
  moreover have "opt_value (t\<lparr>animate_off := False\<rparr>) = x" "outside (t\<lparr>animate_off := False\<rparr>) = outside s"
    using t(2) by (simp_all add: drawn_def)
  ultimately show ?thesis by blast
qed

lemma bar_ready:
  assumes "bar_ok s"
  obtains n where "bar.ready_state n s" "max_value s = num_of_nat n" "length (events (outside s)) \<le> n"
proof -
  note result = that
  obtain n where n: "bar.ready_state n s" using protocol_ready assms by (auto simp: bar_ok_def)
  then have "max_value s = num_of_nat n" by (simp add: bar.ready_state_def tuned_def scale_def)
  moreover from this have "length (events (outside s)) \<le> n" using assms by (auto simp: bar_ok_def)
  ultimately show thesis using result n by blast
qed

lemma tick_value:
  assumes "bar_ok s"
  shows "get_value (snd (bar_handler tick s)) = num_of_nat (event_index (outside s)) \<and>
    outside (snd (bar_handler tick s)) = snd (update_controlbar_status (outside s))"
proof -
  let ?t = "s\<lparr>outside := snd (update_controlbar_status (outside s))\<rparr>"
  let ?x = "num_of_nat (event_index (outside ?t))"
  obtain n where n: "bar.ready_state n s" "length (events (outside s)) \<le> n" using bar_ready [OF assms] by blast
  then have i: "event_index (outside s) \<le> n" by (simp add: bar.ready_state_def synced_def)
  have "scale n ?t" using n(1) by (simp add: bar.ready_state_def tuned_def scale_def)
  from value_option_exact [OF this, of ?x] obtain u where u: "set_option reader_listener (OptValue ?x) ?t = (None, u)"
    "scale n u" "opt_value u = ?x" "outside u = outside ?t" by blast
  have "get_value u = ?x"
    unfolding get_value_def u(3) by (rule aligned_int [OF u(2)]) (use i in \<open>simp add: update_controlbar_events\<close>)
  moreover have "snd (bar_handler tick s) = u"
    using u(1) by (simp only: bar_handler.simps tick_seq slider_max_option_eq snd_conv)
  ultimately show ?thesis using u(4) by (simp add: update_controlbar_events)
qed


section \<open>Dragging the handle\<close>

lemma trim_cong:
  assumes "opt_min t = opt_min s" "max_value t = max_value s" "opt_step t = opt_step s"
  shows "trim_align t = trim_align s"
  unfolding trim_align_def value_min_def value_max_def assms by (rule refl)

lemma value_cong:
  assumes "opt_min t = opt_min s" "max_value t = max_value s" "opt_step t = opt_step s" "opt_value t = opt_value s"
  shows "get_value t = get_value s"
  unfolding get_value_def assms(4) trim_cong [OF assms(1-3)] by (rule refl)

lemma norm_cong:
  "norm_value_from_mouse ev (s\<lparr>prevented := p, ignore_missing_which := w, mouse_moved := m\<rparr>) = norm_value_from_mouse ev s"
proof -
  have "trim_align (s\<lparr>prevented := p, ignore_missing_which := w, mouse_moved := m\<rparr>) = trim_align s"
    by (rule trim_cong) simp_all
  then show ?thesis by (simp add: norm_value_from_mouse_def value_min_def value_max_def)
qed

lemma bar_started:
  assumes "bar_ok s" "started s"
  shows "bar.dragging s" "bound s" "mouse_sliding s" "handle_index s = Some 0" "measured s"
  using assms by (auto simp: bar_ok_def bar.protocol_def bar.dragging_def)

lemma drag_move:
  assumes s: "bar_ok s" "started s" "\<not> release_missed ev s"
    and k: "norm_value_from_mouse ev s = num_of_nat k" "max_value s = num_of_nat n" "k \<le> n"
    and new: "get_value s \<noteq> num_of_nat k" "k \<noteq> event_index (outside s)"
  shows "\<exists>t. bar_handler (BarSlider (FromMouse (MouseMove ev))) s = (None, t) \<and>
    outside t = snd (move_to_event (num_of_nat k) True (outside s)) \<and> opt_value t = num_of_nat k \<and> scale n t"
proof -
  obtain n' where n': "bar.ready_state n' s" "max_value s = num_of_nat n'" using bar_ready [OF s(1)] by blast
  then have n: "bar.ready_state n s" using k(2) by simp
  define u where "u = s\<lparr>prevented := False, ignore_missing_which := (if mouse_moved s \<and> which ev = 0 \<and> modifier_key ev \<and>
      \<not> (old_ie s \<and> pressed ev = 0) then True else ignore_missing_which s),
    mouse_moved := (if which ev \<noteq> 0 \<or> pressed ev \<noteq> 0 then True else mouse_moved s)\<rparr>"
  have u: "bar.ready_state n u" "mouse_sliding u \<or> key_sliding u" "get_value u \<noteq> num_of_nat k"
      "k \<noteq> event_index (outside u)" "handle_index u = Some 0" "norm_value_from_mouse ev u = num_of_nat k" "started u"
    using n bar_started [OF s(1,2)] s(2) k(1) new value_cong [of u s]
    unfolding u_def by (simp_all add: bar.ready_state_def tuned_def scale_def norm_cong)
  obtain h e where sl: "slide reader_listener ByMouse (Some 0) (num_of_nat k) u = (None, u\<lparr>history := history u @ [e],
      outside := snd (move_to_event (num_of_nat k) True (outside u)), answer := True,
      opt_value := num_of_nat k, handles := [h]\<rparr>)" (is "_ = (None, ?v)")
    using reader_slide [OF u(1,2) k(3) u(3,4), of ByMouse] by blast
  have drag: "mouse_drag reader_listener ev u = (None, ?v\<lparr>answer := False\<rparr>)"
    unfolding mouse_drag_def returns_def bind_val_def u(5,6) by (simp add: seq_None [where t = ?v] sl upd_def)
  have flags: "block (guard (\<lambda>s. mouse_moved s \<and> which ev = 0 \<and> modifier_key ev \<and> \<not> (old_ie s \<and> pressed ev = 0))
       (upd (ignore_missing_which_update (\<lambda>_. True)))
     # guard (\<lambda>_. which ev \<noteq> 0 \<or> pressed ev \<noteq> 0) (upd (mouse_moved_update (\<lambda>_. True))) # ms) (s\<lparr>prevented := False\<rparr>)
    = block ms u" for ms
    unfolding u_def by (cases s) (auto simp: seq_def stmt_simps)
  have missed: "\<not> release_missed ev (s\<lparr>prevented := False\<rparr>)" using s(3) by (auto simp: release_missed_def)
  have "bar_handler (BarSlider (FromMouse (MouseMove ev))) s = mouse_move (slider_mouse reader_listener) ev (s\<lparr>prevented := False\<rparr>)"
    using bar_started(2) [OF s(1,2)] by (simp add: stmt_simps)
  also have "\<dots> = block [ite started (block [mouse_drag reader_listener ev, prevent_default])
      (block
         [guard (\<lambda>s. distance_met ev s \<and> delay_met s)
            (bind_val down_event (\<lambda>d. case d of None \<Rightarrow> skip | Some down_ev \<Rightarrow>
               call (mouse_start down_ev) (\<lambda>ok. block
                 [upd (started_update (\<lambda>_. ok)),
                  if ok then mouse_drag reader_listener ev else mouse_up (slider_mouse reader_listener) ev]))),
          guard started prevent_default])] u"
    by (simp only: mouse_move_def ite_def [of "release_missed ev"] missed if_False flags slider_mouse_def mouse_ops.simps)
  also have "\<dots> = (None, ?v\<lparr>answer := False, prevented := True\<rparr>)"
    using u(7) by (simp add: ite_def seq_def drag prevent_default_def upd_def)
  finally have eq: "bar_handler (BarSlider (FromMouse (MouseMove ev))) s = (None, ?v\<lparr>answer := False, prevented := True\<rparr>)" .
  have "outside u = outside s" by (simp add: u_def)
  moreover have "scale n (?v\<lparr>answer := False, prevented := True\<rparr>)"
    using u(1) by (simp add: bar.ready_state_def tuned_def scale_def)
  ultimately show ?thesis using eq by auto
qed


section \<open>The keys\<close>

lemma starts_heard: "slide_start reader_listener src i s =
    (None, s\<lparr>history := history s @ [ui_hash i None None SlideStart src s], outside := outside s, answer := True\<rparr>)"
  unfolding slide_start_def by (rule trigger_exact) (simp add: reader_listener_def ui_hash_def)

lemma stops_heard: "slide_stop reader_listener src i s =
    (None, s\<lparr>history := history s @ [ui_hash i None None SlideStop src s], outside := outside s, answer := True\<rparr>)"
  unfolding slide_stop_def by (rule trigger_exact) (simp add: reader_listener_def ui_hash_def)

text \<open>An arrow key at a handle that shows \<open>i\<close>, pressed and released.\<close>

definition arrow_target :: "int \<Rightarrow> nat \<Rightarrow> nat" where
  "arrow_target k i = (if k = 37 \<or> k = 40 then i - 1 else i + 1)"

lemma key_is_codes:
  "key_is ''HOME'' k \<longleftrightarrow> k = 36" "key_is ''END'' k \<longleftrightarrow> k = 35" "key_is ''PAGE_UP'' k \<longleftrightarrow> k = 33"
  "key_is ''PAGE_DOWN'' k \<longleftrightarrow> k = 34" "key_is ''UP'' k \<longleftrightarrow> k = 38" "key_is ''RIGHT'' k \<longleftrightarrow> k = 39"
  "key_is ''DOWN'' k \<longleftrightarrow> k = 40" "key_is ''LEFT'' k \<longleftrightarrow> k = 37"
  by (auto simp: key_is_def key_codes_def)

lemma arrow_value:
  assumes r: "bar.ready_state n s" and i: "get_value s = num_of_nat i" "i \<le> n"
    and k: "k \<in> {37, 40} \<and> 0 < i \<or> k \<in> {38, 39} \<and> i < n"
  shows "key_value k 0 s = Some (num_of_nat (arrow_target k i))" "slider_key k"
proof -
  have sc: "scale n s" using r by (simp add: bar.ready_state_def tuned_def)
  then have ends: "value_min s = Fin 0" "value_max s = num_of_nat n" "opt_step s = Fin 1" "n \<le> 2 ^ 29"
    by (simp_all add: value_min_def value_max_def scale_def)
  have v: "get_values_at (Some 0) s = num_of_nat i"
    using sc i by (simp add: get_values_at_def has_multiple_values_def scale_def)
  have up: "mk (of_nat (Suc i)) = num_of_nat (Suc i)" if "i < n"
    using that ends(4) by (intro mk_of_nat) simp
  show "slider_key k" using k by (auto simp: slider_key_def key_is_codes)
  show "key_value k 0 s = Some (num_of_nat (arrow_target k i))"
    using k
  proof
    assume k': "k \<in> {37, 40} \<and> 0 < i"
    then obtain j where j: "i = Suc j" by (cases i) auto
    have "mk (of_nat j) = num_of_nat j" using j i(2) ends(4) by (intro mk_of_nat) simp
    then have "trim_align s (num_of_nat i - Fin 1) = num_of_nat (i - 1)"
      using aligned_int [OF sc, of j] i(2) j by (simp add: num_defs)
    then show ?thesis
      using k' by (elim conjE insertE emptyE) (simp_all add: key_value_def key_is_codes v ends num_eq_def arrow_target_def)
  next
    assume k': "k \<in> {38, 39} \<and> i < n"
    then have "trim_align s (num_of_nat i + Fin 1) = num_of_nat (Suc i)"
      using aligned_int [OF sc, of "Suc i"] up by (simp add: num_defs add.commute)
    then show ?thesis
      using k' by (elim conjE insertE emptyE) (simp_all add: key_value_def key_is_codes v ends num_eq_def arrow_target_def)
  qed
qed

lemma arrow_press:
  assumes s: "bar_ok s" "\<not> opt_disabled s" "\<not> key_sliding s"
    and i: "get_value s = num_of_nat i" "max_value s = num_of_nat n" "i \<le> n"
    and k: "k \<in> {37, 40} \<and> 0 < i \<or> k \<in> {38, 39} \<and> i < n"
    and new: "arrow_target k i \<noteq> event_index (outside s)"
  shows "\<exists>t. bar_handler (BarSlider (KeyDown k 0)) s = (None, t) \<and> key_sliding t \<and> scale n t \<and> \<not> opt_disabled t \<and>
    outside t = snd (move_to_event (num_of_nat (arrow_target k i)) True (outside s)) \<and>
    opt_value t = num_of_nat (arrow_target k i) \<and> map ui_type (history t) = map ui_type (history s) @ [SlideStart, SlideMove]"
proof -
  obtain n' where n': "bar.ready_state n' s" "max_value s = num_of_nat n'" using bar_ready [OF s(1)] by blast
  then have n: "bar.ready_state n s" using i(2) by simp
  let ?p = "s\<lparr>prevented := True, key_sliding := True\<rparr>"
  define u where "u = (update_handle 0 (active_update (\<lambda>_. True)) ?p)\<lparr>history := history ?p @
      [ui_hash (Some 0) None None SlideStart ByKey (update_handle 0 (active_update (\<lambda>_. True)) ?p)],
    outside := outside ?p, answer := True\<rparr>"
  have u: "bar.ready_state n u" "mouse_sliding u \<or> key_sliding u" "get_value u = num_of_nat i" "outside u = outside s"
    "key_sliding u" "answer u" "history u = history s @
      [ui_hash (Some 0) None None SlideStart ByKey (update_handle 0 (active_update (\<lambda>_. True)) ?p)]" "\<not> opt_disabled u"
    using n i(1) s(2) value_cong [of u s] by (simp_all add: u_def update_handle_def bar.ready_state_def tuned_def scale_def)
  have le: "arrow_target k i \<le> n" "arrow_target k i \<noteq> i" using k i(3) by (auto simp: arrow_target_def)
  then have ne: "get_value u \<noteq> num_of_nat (arrow_target k i)" unfolding u(3) by simp
  obtain h e where sl: "slide reader_listener ByKey (Some 0) (num_of_nat (arrow_target k i)) u = (None, u\<lparr>history := history u @ [e],
      outside := snd (move_to_event (num_of_nat (arrow_target k i)) True (outside u)), answer := True,
      opt_value := num_of_nat (arrow_target k i), handles := [h]\<rparr>)" (is "_ = (None, ?v)") "ui_type e = SlideMove"
    using reader_slide [OF u(1,2) le(1) ne, of ByKey] new u(4) by auto
  have key: "key_slide reader_listener k 0 u = (None, ?v)"
  proof -
    have "key_value k 0 u = Some (num_of_nat (arrow_target k i))" by (rule arrow_value [OF u(1,3) i(3) k])
    then show ?thesis using sl(1) by (simp add: key_slide_def bind_val_def)
  qed
  have "0 < length (handles s)" using n by (simp add: bar.ready_state_def tuned_def scale_def)
  then have "bar_handler (BarSlider (KeyDown k 0)) s = keydown reader_listener k 0 s"
    using s(2) by (simp add: guard_def ite_def)
  also have "\<dots> = call (slide_start reader_listener ByKey (Some 0)) (\<lambda>allowed.
      if \<not> allowed then skip else key_slide reader_listener k 0) (update_handle 0 (active_update (\<lambda>_. True)) ?p)"
    using arrow_value(2) [OF u(1,3) i(3) k] s(3)
    by (simp add: keydown_def prevent_default_def seq_upd ite_def)
  also have "\<dots> = key_slide reader_listener k 0 u"
  proof -
    have start: "slide_start reader_listener ByKey (Some 0) (update_handle 0 (active_update (\<lambda>_. True)) ?p) = (None, u)"
      unfolding starts_heard u_def by (simp add: update_handle_def)
    show ?thesis using u(6) by (simp add: call_def seq_def start bind_val_def)
  qed
  finally have eq: "bar_handler (BarSlider (KeyDown k 0)) s = (None, ?v)" unfolding key .
  have "scale n ?v" using u(1) by (simp add: bar.ready_state_def tuned_def scale_def)
  moreover have "map ui_type (history ?v) = map ui_type (history s) @ [SlideStart, SlideMove]"
    using u(7) sl(2) by (simp add: ui_hash_def)
  ultimately show ?thesis using eq u(4,5,8) by simp
qed


lemma arrow_release:
  assumes "scale n s" "key_sliding s" "\<not> opt_disabled s"
  shows "\<exists>t. bar_handler (BarSlider (KeyUp 0)) s = (None, t) \<and> outside t = outside s \<and> opt_value t = opt_value s \<and>
    \<not> key_sliding t \<and> scale n t"
proof -
  let ?s = "s\<lparr>key_sliding := False\<rparr>"
  let ?u = "?s\<lparr>history := history ?s @ [ui_hash (Some 0) None None SlideStop ByKey ?s], outside := outside ?s, answer := True\<rparr>"
  obtain t where t: "slide_change reader_listener ByKey (Some 0) ?u = (None, t)" "drawn t = drawn ?u"
      "\<forall>n. scale n ?u \<longrightarrow> scale n t"
    using change_exact by blast
  have h: "0 < length (handles s)" and sc: "scale n ?u" using assms(1) by (simp_all add: scale_def)
  have "bar_handler (BarSlider (KeyUp 0)) s = keyup reader_listener 0 s"
    using assms(3) h by (simp add: guard_def ite_def)
  also have "\<dots> = block [slide_stop reader_listener ByKey (Some 0), slide_change reader_listener ByKey (Some 0),
      upd (update_handle 0 (active_update (\<lambda>_. False)))] ?s"
    using assms(2) by (simp add: keyup_def guard_def ite_def seq_upd)
  also have "\<dots> = (None, update_handle 0 (active_update (\<lambda>_. False)) t)"
    by (simp only: block.simps seq_skip seq_None [of "slide_stop reader_listener ByKey (Some 0)" ?s ?u, OF stops_heard]
        seq_None [of "slide_change reader_listener ByKey (Some 0)" ?u t, OF t(1)] upd_def)
  finally have eq: "bar_handler (BarSlider (KeyUp 0)) s = (None, update_handle 0 (active_update (\<lambda>_. False)) t)" .
  have d: "outside t = outside s" "opt_value t = opt_value s" "\<not> key_sliding t"
    using t(2) by (simp_all add: drawn_def gesture_view_def)
  have "scale n (update_handle 0 (active_update (\<lambda>_. False)) t)"
    using t(3) sc by (simp add: update_handle_def scale_def)
  then show ?thesis unfolding eq using d by (simp add: update_handle_def)
qed

text \<open>A key of the handle, pressed and released.\<close>

definition press :: "int \<Rightarrow> tr slider \<Rightarrow> tr slider" where
  "press k = run_events bar_handler [BarSlider (KeyDown k 0), BarSlider (KeyUp 0)]"

lemma arrow_player:
  assumes s: "bar_ok s" "\<not> opt_disabled s" "\<not> key_sliding s"
    and i: "get_value s = num_of_nat i" "max_value s = num_of_nat n" "i \<le> n"
    and k: "k \<in> {37, 40} \<and> 0 < i \<or> k \<in> {38, 39} \<and> i < n"
    and new: "arrow_target k i \<noteq> event_index (outside s)"
  shows "player (outside (press k s)) = jump (int (arrow_target k i)) (player (outside s))"
    "get_value (press k s) = num_of_nat (arrow_target k i)"
proof -
  obtain t where t: "bar_handler (BarSlider (KeyDown k 0)) s = (None, t)" "key_sliding t" "scale n t" "\<not> opt_disabled t"
    "outside t = snd (move_to_event (num_of_nat (arrow_target k i)) True (outside s))"
    "opt_value t = num_of_nat (arrow_target k i)"
    using arrow_press [OF assms] by blast
  obtain u where u: "bar_handler (BarSlider (KeyUp 0)) t = (None, u)" "outside u = outside t" "opt_value u = opt_value t" "scale n u"
    using arrow_release [OF t(3,2,4)] by blast
  obtain n' where n': "bar.ready_state n' s" "max_value s = num_of_nat n'" "length (events (outside s)) \<le> n'"
    using bar_ready [OF s(1)] by blast
  have n29: "n \<le> 2 ^ 29" using t(3) by (simp add: scale_def)
  have sy: "synced (outside s)" and len: "length (events (outside s)) < 10 ^ 21"
    using n' i(2) n29 by (simp_all add: bar.ready_state_def)
  have p: "press k s = u" by (simp only: press_def run_events.simps t(1) u(1) snd_conv)
  show "player (outside (press k s)) = jump (int (arrow_target k i)) (player (outside s))"
    using player_move [OF sy len, of "int (arrow_target k i)"] unfolding p u(2) t(5) by simp
  have le: "arrow_target k i \<le> n" using k i(3) by (auto simp: arrow_target_def)
  show "get_value (press k s) = num_of_nat (arrow_target k i)"
    unfolding p get_value_def u(3) t(6) by (rule aligned_int [OF u(4) le])
qed

section \<open>Properties\<close>

text \<open>
  The values of the slider of the control bar are whole numbers: whatever finite value is
  asked for, \<open>_trimAlignValue\<close> gives a whole number between the bounds, and for a value between
  the bounds one that is at most half a step away (up to the rounding of doubles).
\<close>

theorem aligned_values:
  assumes "scale n s"
  shows "\<exists>k. trim_align s (Fin q) = num_of_int k \<and> 0 \<le> k \<and> k \<le> int n \<and>
    (0 \<le> q \<and> q \<le> of_nat n \<longrightarrow> \<bar>of_int k - q\<bar> \<le> 1 / 2 + 1 / 1000000)"
  using assms by (rule aligned_scale)

text \<open>
  C6. Whatever the user does with the mouse and the keys of the slider, and whatever the page
  does to the reader meanwhile, in any order: every gesture of the mouse is a start, slides, a
  stop and a change, and a gesture is on exactly while the mouse drags.
\<close>

theorem slider_gestures:
  assumes "list_all bar_admissible es" "synced r" "layout_ok box hbox"
    and "length (events r) + sum_list (map bar_loads es) \<le> 2 ^ 29"
    and "s = run_events bar_handler es (new_bar box hbox ts r)"
  shows "gesture False (mouse_types s) = Some (started s)"
proof -
  have "bar_ok s" unfolding assms(5)
    by (rule bar_run [OF assms(1)]) (use assms(2-4) new_bar_state in simp_all)
  then show ?thesis by (auto simp: bar_ok_def bar.protocol_def bar.idle_def bar.dragging_def split: if_splits)
qed

text \<open>
  C7. In every such run the slider shows a whole number between zero and its maximum, the maximum
  is at least the number of events, and the terminal is in step with the position of the reader.
\<close>

theorem slider_in_bounds:
  assumes "list_all bar_admissible es" "synced r" "layout_ok box hbox"
    and "length (events r) + sum_list (map bar_loads es) \<le> 2 ^ 29"
    and "s = run_events bar_handler es (new_bar box hbox ts r)"
  shows "\<exists>k m. get_value s = num_of_nat k \<and> value_max s = num_of_nat m \<and> k \<le> m \<and>
    length (events (outside s)) \<le> m \<and> event_index (outside s) \<le> length (events (outside s)) \<and>
    screen (outside s) = concat (take (event_index (outside s)) (texts (outside s)))"
proof -
  have ok: "bar_ok s" unfolding assms(5)
    by (rule bar_run [OF assms(1)]) (use assms(2-4) new_bar_state in simp_all)
  obtain m where m: "bar.ready_state m s" "max_value s = num_of_nat m" "length (events (outside s)) \<le> m"
    using bar_ready [OF ok] by blast
  then obtain k where "k \<le> m" "get_value s = num_of_nat k"
    using get_value_nat [of m s] by (auto simp: bar.ready_state_def tuned_def)
  then show ?thesis using m by (intro exI [of _ k] exI [of _ m]) (simp add: value_max_def bar.ready_state_def synced_def)
qed

text \<open>
  C15. Dragging the handle to \<open>k\<close>, another event than the one the reader is at, seeks: the reader
  is paused after event \<open>k\<close>, and the terminal shows the output up to and including it. The handle
  stays at \<open>k\<close> until the next tick of the control bar, which moves it one further, since the
  position of the reader counts the events it has consumed.
\<close>

theorem drag_seeks:
  assumes "bar_ok s" "started s" "\<not> release_missed ev s"
    and "norm_value_from_mouse ev s = num_of_nat k" "k < length (events (outside s))"
    and "get_value s \<noteq> num_of_nat k" "k \<noteq> event_index (outside s)" "finite_event ev"
    and "t = snd (bar_handler (BarSlider (FromMouse (MouseMove ev))) s)"
  shows "event_index (outside t) = Suc k \<and> paused (outside t) \<and>
    screen (outside t) = concat (take (Suc k) (texts (outside s))) \<and> get_value t = num_of_nat k \<and>
    get_value (snd (bar_handler tick t)) = num_of_nat (Suc k)"
proof -
  obtain n where n: "bar.ready_state n s" "max_value s = num_of_nat n" "length (events (outside s)) \<le> n"
    using bar_ready [OF assms(1)] by blast
  have kn: "k \<le> n" using assms(5) n(3) by simp
  from drag_move [OF assms(1-4) n(2) kn assms(6,7)] obtain u where
    u: "bar_handler (BarSlider (FromMouse (MouseMove ev))) s = (None, u)"
      "outside u = snd (move_to_event (num_of_nat k) True (outside s))" "opt_value u = num_of_nat k" "scale n u" by blast
  have tu: "t = u" using assms(9) u(1) by simp
  have sy: "synced (outside s)" "length (events (outside s)) < 10 ^ 21"
    using n by (simp_all add: bar.ready_state_def tuned_def scale_def)
  have "\<not> move_refused (num_of_nat k) (outside s)"
    using move_refused_int [OF sy(2), of "int k"] assms(5,7) by simp
  from wp_normal [OF move_shows [OF sy(1) this]] have m: "synced (outside t)" "event_index (outside t) = Suc k"
    "texts (outside t) = texts (outside s)" "paused (outside t)"
    using tu u(2) by (auto simp: event_number_def)
  have "bar_ok t" using bar_step [of "BarSlider (FromMouse (MouseMove ev))" s] assms(1,8,9) n
    by (simp add: bar.ready_state_def tuned_def scale_def del: bar_handler.simps)
  from tick_value [OF this] m(2) have "get_value (snd (bar_handler tick t)) = num_of_nat (Suc k)" by simp
  moreover have "get_value t = num_of_nat k"
    unfolding tu get_value_def u(3) by (rule aligned_int [OF u(4) kn])
  ultimately show ?thesis using m by (simp add: synced_def)
qed


text \<open>
  The slider has one position more than the reader can be moved to: dragging the handle to the
  right end, a value equal to the number of events, shows that value, but the reader refuses it
  and stays where it is, and the next tick puts the handle back.
\<close>

theorem drag_to_end_refused:
  assumes "bar_ok s" "started s" "\<not> release_missed ev s"
    and "norm_value_from_mouse ev s = num_of_nat k" "k = length (events (outside s))" "max_value s = num_of_nat k"
    and "get_value s \<noteq> num_of_nat k" "k \<noteq> event_index (outside s)" "finite_event ev"
    and "t = snd (bar_handler (BarSlider (FromMouse (MouseMove ev))) s)"
  shows "outside t = outside s \<and> get_value t = num_of_nat k \<and>
    get_value (snd (bar_handler tick t)) = num_of_nat (event_index (outside s))"
proof -
  from drag_move [OF assms(1-4) assms(6) order_refl assms(7,8)] obtain u where
    u: "bar_handler (BarSlider (FromMouse (MouseMove ev))) s = (None, u)"
      "outside u = snd (move_to_event (num_of_nat k) True (outside s))" "opt_value u = num_of_nat k" "scale k u" by blast
  have tu: "t = u" using assms(10) u(1) by simp
  have k29: "k \<le> 2 ^ 29" using u(4) by (simp add: scale_def)
  then have "move_refused (num_of_nat k) (outside s)"
    using move_refused_int [of "outside s" "int k"] assms(5) by simp
  then have out: "outside t = outside s" unfolding tu u(2) by (simp add: move_refused_skip)
  have "bar_ok t" using bar_step [of "BarSlider (FromMouse (MouseMove ev))" s] assms(1,5,9,10) k29
    by (simp del: bar_handler.simps)
  from tick_value [OF this] out have "get_value (snd (bar_handler tick t)) = num_of_nat (event_index (outside s))" by simp
  moreover have "get_value t = num_of_nat k"
    unfolding tu get_value_def u(3) by (rule aligned_int [OF u(4) order_refl])
  ultimately show ?thesis using out by simp
qed

text \<open>
  C16. The arrow keys of the handle, pressed and released when it shows the position of the reader,
  as after every tick: left and down leave the reader where it is, right and up skip an event,
  except that right before the end they do nothing to the reader.
\<close>

theorem arrow_keys_move:
  assumes "bar_ok s" "\<not> opt_disabled s" "\<not> key_sliding s"
    and "get_value s = num_of_nat (event_index (outside s))" "i = event_index (outside s)"
    and "l = length (events (outside s))"
  shows "(0 < i \<longrightarrow> event_index (outside (press 37 s)) = i \<and> event_index (outside (press 40 s)) = i) \<and>
    (i + 1 < l \<longrightarrow> event_index (outside (press 39 s)) = i + 2 \<and> event_index (outside (press 38 s)) = i + 2) \<and>
    (i + 1 = l \<longrightarrow> event_index (outside (press 39 s)) = i \<and> event_index (outside (press 38 s)) = i)"
proof -
  obtain n where n: "bar.ready_state n s" "max_value s = num_of_nat n" "l \<le> n"
    using bar_ready [OF assms(1)] assms(6) by blast
  then have il: "i \<le> l" using assms(5,6) by (simp add: bar.ready_state_def synced_def)
  have ps: "player (outside s) = (texts (outside s), i)" "length (texts (outside s)) = l"
    using assms(5,6) by (simp_all add: player_def texts_def)
  note arrow = arrow_player(1) [OF assms(1-4) n(2), folded assms(5), unfolded ps(1)]
  have down: "event_index (outside (press k s)) = i" if "k \<in> {37, 40}" "0 < i" for k
  proof -
    have t: "arrow_target k i = i - 1" using that(1) by (auto simp: arrow_target_def)
    have "player (outside (press k s)) = jump (int (i - 1)) (texts (outside s), i)"
      using arrow [of k] that il n(3) unfolding t by fastforce
    then show ?thesis using that il ps(2) by (auto simp: jump_def player_def split: if_splits)
  qed
  have up: "event_index (outside (press k s)) = (if i + 1 < l then i + 2 else i)" if "k \<in> {38, 39}" "i + 1 \<le> l" for k
  proof -
    have t: "arrow_target k i = i + 1" using that(1) by (auto simp: arrow_target_def)
    have "player (outside (press k s)) = jump (int (i + 1)) (texts (outside s), i)"
      using arrow [of k] that il n(3) unfolding t by fastforce
    then show ?thesis using that il ps(2) by (auto simp: jump_def player_def split: if_splits)
  qed
  show ?thesis using down up by auto
qed


section \<open>A control bar to try the properties on\<close>

definition demo_box :: geometry where
  "demo_box = \<lparr>box_width = Fin 100, box_height = Fin 10, box_left = Fin 0, box_top = Fin 0, box_border_top = Fin 0,
     box_border_bottom = Fin 0, box_margin_top = Fin 0\<rparr>"

definition demo_bar :: "tr \<Rightarrow> tr slider" where
  "demo_bar r = new_slider demo_box demo_box {} r\<lparr>max_value := num_of_nat (length (events r)), handles := [plain_handle],
     opt_value := num_of_nat (event_index r)\<rparr>"

definition demo_press :: mouse_event where
  "demo_press = \<lparr>page_x = Fin 0, page_y = Fin 0, which = 1, pressed = 0, target = 7, in_cancel = False, modifier_key = False,
     shift_key = False\<rparr>"

definition demo_grabbed :: "tr \<Rightarrow> tr slider" where
  "demo_grabbed r = demo_bar r\<lparr>started := True, bound := True, mouse_handled := True, down_event := Some demo_press,
     mouse_sliding := True, handle_index := Some 0, element_size := (Fin 100, Fin 10), mouse_moved := True,
     history := [\<lparr>ui_type = SlideStart, ui_source = ByMouse, ui_index = Some 0, ui_value = Fin 0, ui_values = None\<rparr>]\<rparr>"

lemma demo_layout: "layout_ok demo_box demo_box"
  by (simp add: layout_ok_def demo_box_def small_def less_jsnum_def)

lemma demo_ready:
  assumes "synced r" "length (events r) \<le> 2 ^ 29"
  shows "bar.ready_state (length (events r)) (demo_bar r)" "bar.ready_state (length (events r)) (demo_grabbed r)"
    "bar.laid_out (demo_bar r)" "bar.laid_out (demo_grabbed r)"
  using assms by (simp_all add: demo_bar_def demo_grabbed_def new_slider_def bar.ready_state_def tuned_def scale_def
      bar.laid_out_def demo_box_def small_def)

lemma demo_ok:
  assumes "synced r" "length (events r) \<le> 2 ^ 29"
  shows "bar_ok (demo_bar r)" "bar_ok (demo_grabbed r)"
proof -
  have "bar.idle (demo_bar r)"
    using demo_ready(1,3) [OF assms]
    by (auto simp: bar.idle_def) (simp_all add: demo_bar_def new_slider_def eager_def mouse_types_def)
  then show "bar_ok (demo_bar r)"
    by (simp add: bar_ok_def bar.protocol_def) (simp add: demo_bar_def new_slider_def)
  have "bar.dragging (demo_grabbed r)"
    using demo_ready(2,4) [OF assms]
    by (auto simp: bar.dragging_def)
      (simp_all add: demo_grabbed_def demo_bar_def new_slider_def eager_def mouse_types_def measured_def small_def)
  then show "bar_ok (demo_grabbed r)"
    by (simp add: bar_ok_def bar.protocol_def) (simp add: demo_grabbed_def demo_bar_def new_slider_def)
qed

lemma demo_value:
  assumes "synced r" "length (events r) \<le> 2 ^ 29"
  shows "get_value (demo_bar r) = num_of_nat (event_index r)" "get_value (demo_grabbed r) = num_of_nat (event_index r)"
proof -
  have i: "event_index r \<le> length (events r)" using assms(1) by (simp add: synced_def)
  have v: "opt_value (demo_bar r) = num_of_nat (event_index r)" "opt_value (demo_grabbed r) = num_of_nat (event_index r)"
    by (simp_all add: demo_bar_def demo_grabbed_def)
  have sc: "scale (length (events r)) (demo_bar r)" "scale (length (events r)) (demo_grabbed r)"
    using demo_ready [OF assms] by (simp_all add: bar.ready_state_def tuned_def)
  show "get_value (demo_bar r) = num_of_nat (event_index r)" "get_value (demo_grabbed r) = num_of_nat (event_index r)"
    unfolding get_value_def v using aligned_int [OF sc(1) i] aligned_int [OF sc(2) i] by simp_all
qed

text \<open>The mouse far left and far right of the slider.\<close>

definition far :: "int \<Rightarrow> mouse_event" where
  "far x = demo_press\<lparr>page_x := num_of_int x\<rparr>"

lemma far_event: "x \<in> {-100, 200} \<Longrightarrow> finite_event (far x)"
  by (auto simp: far_def demo_press_def finite_event_def small_def)

lemma far_norm:
  assumes "length (events r) \<le> 2 ^ 29"
  shows "norm_value_from_mouse (far (-100)) (demo_grabbed r) = Fin 0"
    "norm_value_from_mouse (far 200) (demo_grabbed r) = num_of_nat (length (events r))"
proof -
  have m: "mk (of_int x) = Fin (of_int x)" if "x \<in> {-100, 200, -1, 2, 0}" for x
    using that by (intro mk_of_int) auto
  note ms = m [of "-100", simplified] m [of 200, simplified] m [of "-1", simplified] m [of 2, simplified] m [of 0, simplified]
  have n: "mk (of_nat (length (events r))) = num_of_nat (length (events r))" using assms by (intro mk_of_nat) simp
  show "norm_value_from_mouse (far (-100)) (demo_grabbed r) = Fin 0"
    "norm_value_from_mouse (far 200) (demo_grabbed r) = num_of_nat (length (events r))"
    by (simp_all add: norm_value_from_mouse_def far_def demo_press_def demo_grabbed_def demo_bar_def new_slider_def
        trim_align_def value_min_def value_max_def num_defs ms n Let_def num_le_def num_eq_def)
qed

definition demo_inputs :: "bar_input list" where
  "demo_inputs = [BarReader (OnLoad demo_events), BarSlider (FromMouse (MouseDown (far 200))),
     BarSlider (FromMouse (MouseMove (far (-100)))), tick, BarSlider (FromMouse (MouseUp (far (-100))))]"

lemma demo_admissible: "list_all bar_admissible demo_inputs" "sum_list (map bar_loads demo_inputs) = 3"
  using far_event by (simp_all add: demo_inputs_def demo_decodable)

lemma demo_reader_start: "synced demo_reader" "events demo_reader = []"
  by (simp_all add: demo_reader_def start_synced start_state)

lemma aligned_values_witness:
  "\<exists>k. trim_align (demo_bar loaded) (Fin (7 / 5)) = num_of_int k \<and> 0 \<le> k \<and> k \<le> 3 \<and> \<bar>of_int k - 7 / 5 :: rat\<bar> \<le> 1 / 2 + 1 / 1000000"
proof -
  have "scale 3 (demo_bar loaded)" using demo_ready(1) [OF loaded_synced] by (simp add: bar.ready_state_def tuned_def)
  from aligned_values [OF this, of "7 / 5"] show ?thesis by simp
qed

lemma slider_gestures_witness:
  "gesture False (mouse_types (run_events bar_handler demo_inputs (new_bar demo_box demo_box {} demo_reader))) =
    Some (started (run_events bar_handler demo_inputs (new_bar demo_box demo_box {} demo_reader)))"
  by (rule slider_gestures [OF demo_admissible(1) demo_reader_start(1) demo_layout _ refl])
     (simp add: demo_admissible demo_reader_start)

lemma slider_in_bounds_witness:
  "let s = run_events bar_handler demo_inputs (new_bar demo_box demo_box {} demo_reader) in
   \<exists>k m. get_value s = num_of_nat k \<and> value_max s = num_of_nat m \<and> k \<le> m"
  using slider_in_bounds [OF demo_admissible(1) demo_reader_start(1) demo_layout _ refl, of "{}"]
  by (simp add: demo_admissible demo_reader_start Let_def) blast

text \<open>The demonstration session, played to its end.\<close>

definition demo_ended :: tr where
  "demo_ended = snd (move_to_event (Fin 2) True loaded)"

lemma demo_ended_state: "synced demo_ended" "event_index demo_ended = 3" "length (events demo_ended) = 3"
  "texts demo_ended = map ev_text demo_events"
proof -
  from wp_normal [OF move_shows [OF loaded_synced loaded_not_refused]]
  have "synced demo_ended \<and> event_index demo_ended = 3 \<and> texts demo_ended = texts loaded"
    by (auto simp: demo_ended_def event_number_def)
  moreover from this have "length (events demo_ended) = length demo_events"
    by (intro map_eq_imp_length_eq [of ev_text _ ev_text]) (simp add: texts_def)
  ultimately show "synced demo_ended" "event_index demo_ended = 3" "length (events demo_ended) = 3"
    "texts demo_ended = map ev_text demo_events" by (simp_all add: texts_def)
qed

lemma demo_grabbed_fields [simp]:
  "started (demo_grabbed r)" "outside (demo_grabbed r) = r" "max_value (demo_grabbed r) = num_of_nat (length (events r))"
  "outside (demo_bar r) = r" "\<not> opt_disabled (demo_bar r)" "\<not> key_sliding (demo_bar r)"
  "\<not> release_missed (far x) (demo_grabbed r)"
  by (simp_all add: demo_grabbed_def demo_bar_def new_slider_def far_def demo_press_def release_missed_def)

lemma drag_seeks_witness:
  "let t = snd (bar_handler (BarSlider (FromMouse (MouseMove (far (-100))))) (demo_grabbed demo_ended)) in
   event_index (outside t) = 1 \<and> screen (outside t) = ''$ '' \<and> get_value t = Fin 0 \<and>
   get_value (snd (bar_handler tick t)) = Fin 1"
  using drag_seeks [OF demo_ok(2) [OF demo_ended_state(1)] _ _ _ _ _ _ far_event [of "-100"] refl, where k = 0]
    far_norm [of demo_ended] demo_value(2) [OF demo_ended_state(1)]
  by (simp add: demo_ended_state demo_texts Let_def del: bar_handler.simps)

lemma drag_to_end_refused_witness:
  "let t = snd (bar_handler (BarSlider (FromMouse (MouseMove (far 200)))) (demo_grabbed loaded)) in
   outside t = loaded \<and> get_value t = num_of_nat 3 \<and> get_value (snd (bar_handler tick t)) = num_of_nat 0"
proof -
  have n: "norm_value_from_mouse (far 200) (demo_grabbed loaded) = num_of_nat 3"
    "get_value (demo_grabbed loaded) \<noteq> num_of_nat 3" "bar_ok (demo_grabbed loaded)"
    using far_norm(2) [of loaded] demo_value(2) [OF loaded_synced] demo_ok(2) [OF loaded_synced] by simp_all
  show ?thesis
    using drag_to_end_refused [OF n(3) _ _ n(1) _ _ n(2) _ far_event [of 200] refl]
    by (simp add: Let_def del: bar_handler.simps of_nat_numeral)
qed

lemma arrow_keys_move_witness:
  "event_index (outside (press 37 (demo_bar demo_ended))) = 3 \<and> event_index (outside (press 39 (demo_bar loaded))) = 2"
  using arrow_keys_move [OF demo_ok(1) [OF demo_ended_state(1)] _ _ _ refl refl]
    arrow_keys_move [OF demo_ok(1) [OF loaded_synced] _ _ _ refl refl]
    demo_value(1) [OF demo_ended_state(1)] demo_value(1) [OF loaded_synced]
  by (simp add: demo_ended_state)

end
