(* ===== verification/UI_Resizable.thy ===== *)
theory UI_Resizable
  imports UI_Mouse JS_Text
begin

text \<open>
  The resizable widget of jQuery UI (\<open>$.widget("ui.resizable", $.ui.mouse)\<close>), which the reader
  puts on its terminal: the handles, the gesture of the mouse, the arithmetic of the eight
  directions, the limits, and the extensions \<open>containment\<close>, \<open>alsoResize\<close>, \<open>ghost\<close>, \<open>grid\<close> and
  \<open>animate\<close> with the registry that calls them. What listens to the widget is a parameter \<open>listen\<close>:
  it gets the size and position of the \<open>ui\<close> object, which it may change, the element, and the rest
  of the page (\<open>outside\<close>).
\<close>

section \<open>State\<close>

record dims =
  wide :: jsnum
  high :: jsnum

record place =
  at_left :: jsnum
  at_top :: jsnum

text \<open>
  The style of an element: its offsets (\<open>NaN\<close> for \<open>auto\<close>), its inner size, and what borders and
  padding add to it.
\<close>

record css_box =
  el_left :: jsnum
  el_top :: jsnum
  el_width :: jsnum
  el_height :: jsnum
  el_frame_width :: jsnum
  el_frame_height :: jsnum

datatype axis = AxN | AxE | AxS | AxW | AxSE | AxSW | AxNE | AxNW

text \<open>The object that the functions of \<open>_change\<close> return; \<open>None\<close> for a missing or null field.\<close>

record resize_data =
  d_left :: "jsnum option"
  d_top :: "jsnum option"
  d_width :: "jsnum option"
  d_height :: "jsnum option"

datatype aspect = NoAspect | KeepAspect | AspectNumber jsnum

text \<open>What \<open>_hasScroll\<close> finds out about an element.\<close>

record scroll_state =
  overflow_hidden :: bool
  scrolled_left :: jsnum
  scrolled_top :: jsnum
  can_scroll_left :: bool
  can_scroll_top :: bool

record container =
  is_document :: bool
  is_static :: bool
  is_relative :: bool            \<comment> \<open>the position of its style is relative\<close>
  is_absolute :: bool
  is_parent :: bool              \<comment> \<open>it is the parent of the element\<close>
  con_offset :: place
  con_position :: place
  con_inner :: dims
  pad_right :: jsnum
  pad_bottom :: jsnum
  con_scroll :: scroll_state
  con_scroll_size :: dims

record also_element =
  also_box :: css_box
  also_inside :: bool            \<comment> \<open>below the resized element\<close>
  also_start :: "css_box option" \<comment> \<open>the data \<open>ui-resizable-alsoresize\<close>\<close>

record inner_element =
  in_box :: css_box
  in_borders :: "jsnum list"     \<comment> \<open>top, right, bottom, left\<close>
  in_paddings :: "jsnum list"
  in_form :: bool                \<comment> \<open>a text area, an input, a select or a button\<close>
  in_textarea :: bool
  in_scroll :: scroll_state

datatype resize_type = ResizeStart | ResizeMove | ResizeStop

text \<open>The \<open>ui\<close> object, without the elements.\<close>

record resize_event =
  rz_type :: resize_type
  rz_size :: dims
  rz_position :: place
  rz_original_size :: dims
  rz_original_position :: place

text \<open>What a callback sees and may change.\<close>

record 'e heard =
  heard_size :: dims
  heard_position :: place
  heard_element :: css_box
  heard_outside :: 'e

type_synonym 'e resize_listener = "resize_event \<Rightarrow> 'e heard stmt"

record 'e resizable = mouse +
  opt_also_resize :: bool
  opt_animate :: bool
  opt_aspect_ratio :: aspect
  opt_auto_hide :: bool
  opt_containment :: "container option"
  opt_ghost :: bool
  opt_grid :: "(jsnum \<times> jsnum) option"
  opt_handles :: string
  opt_helper :: bool
  opt_max_height :: "jsnum option"
  opt_max_width :: "jsnum option"
  opt_min_height :: "jsnum option"
  opt_min_width :: "jsnum option"
  opt_disabled :: bool
  keep_ratio :: bool             \<comment> \<open>\<open>_aspectRatio\<close>\<close>
  aspect_ratio :: jsnum
  uses_helper :: bool            \<comment> \<open>\<open>_helper\<close> is not null\<close>
  handle_ids :: "(string \<times> nat) list"
  added_handles :: "nat list"
  next_element :: nat
  below_handle :: "nat \<Rightarrow> nat set"   \<comment> \<open>the elements in a handle\<close>
  handles_shown :: bool
  axis :: "axis option"
  resizing :: bool
  cur_offset :: place            \<comment> \<open>\<open>offset\<close>, \<open>position\<close>, \<open>size\<close> and so on\<close>
  cur_position :: place
  cur_size :: dims
  original_position :: place
  original_size :: dims
  original_mouse :: place
  size_diff :: dims
  prev_position :: place
  prev_size :: dims
  min_dims :: dims               \<comment> \<open>\<open>_vBoundaries\<close>\<close>
  max_dims :: dims
  element :: css_box
  helper :: css_box
  inner_elements :: "inner_element list"  \<comment> \<open>the wrapped element, if the element is a wrapper\<close>
  wrapper_padding :: "jsnum list"         \<comment> \<open>top, right, bottom, left\<close>
  handle_size :: "string \<Rightarrow> dims"        \<comment> \<open>how the page draws a handle\<close>
  outer_dims :: "dims option"
  also_elements :: "also_element list"
  ghost_box :: "css_box option"
  parent_data :: "place \<times> dims"
  container_offset :: place
  animations :: "(resize_data \<times> bool) list"  \<comment> \<open>started animations: the target, and whether it is running\<close>
  page_offset :: "css_box \<Rightarrow> place"    \<comment> \<open>the layout of the page\<close>
  handle_cursor :: string
  body_cursor :: string
  connected :: bool              \<comment> \<open>the element is in the document\<close>
  resize_classes :: "string list"
  resize_history :: "resize_event list"
  outside :: 'e

section \<open>Small helpers\<close>

text \<open>\<open>_num\<close>, and \<open>x || 0\<close>.\<close>

definition num_or :: "jsnum \<Rightarrow> jsnum \<Rightarrow> jsnum" where
  "num_or d x = (if x = NaN \<or> x = Fin 0 then d else x)"

definition to_number :: "jsnum \<Rightarrow> jsnum" where
  "to_number x = num_or (Fin 0) x"

definition is_number :: "jsnum option \<Rightarrow> bool" where
  "is_number v \<longleftrightarrow> v \<noteq> None \<and> v \<noteq> Some NaN"

definition truthy_num :: "jsnum option \<Rightarrow> bool" where
  "truthy_num v \<longleftrightarrow> is_number v \<and> v \<noteq> Some (Fin 0)"

definition has_scroll :: "bool \<Rightarrow> scroll_state \<Rightarrow> bool" where
  "has_scroll to_left sc \<longleftrightarrow> \<not> overflow_hidden sc \<and>
     (Fin 0 < (if to_left then scrolled_left sc else scrolled_top sc) \<or>
      (if to_left then can_scroll_left sc else can_scroll_top sc))"

text \<open>Setting a style: the browser ignores a length that is not finite, and a negative size.\<close>

definition css_offset :: "jsnum \<Rightarrow> jsnum \<Rightarrow> jsnum" where
  "css_offset new old = (case new of Fin q \<Rightarrow> new | _ \<Rightarrow> old)"

definition css_size :: "jsnum \<Rightarrow> jsnum \<Rightarrow> jsnum" where
  "css_size new old = (case new of Fin q \<Rightarrow> if 0 \<le> q then new else old | _ \<Rightarrow> old)"

text \<open>\<open>css(props)\<close> with the fields that are there.\<close>

definition set_css :: "resize_data \<Rightarrow> css_box \<Rightarrow> css_box" where
  "set_css d b = b\<lparr>
     el_left := (case d_left d of None \<Rightarrow> el_left b | Some x \<Rightarrow> css_offset x (el_left b)),
     el_top := (case d_top d of None \<Rightarrow> el_top b | Some x \<Rightarrow> css_offset x (el_top b)),
     el_width := (case d_width d of None \<Rightarrow> el_width b | Some x \<Rightarrow> css_size x (el_width b)),
     el_height := (case d_height d of None \<Rightarrow> el_height b | Some x \<Rightarrow> css_size x (el_height b))\<rparr>"

definition outer_width :: "css_box \<Rightarrow> jsnum" where
  "outer_width b = el_width b + el_frame_width b"

definition outer_height :: "css_box \<Rightarrow> jsnum" where
  "outer_height b = el_height b + el_frame_height b"

fun axis_name :: "axis \<Rightarrow> string" where
  "axis_name AxN = ''n''"
| "axis_name AxE = ''e''"
| "axis_name AxS = ''s''"
| "axis_name AxW = ''w''"
| "axis_name AxSE = ''se''"
| "axis_name AxSW = ''sw''"
| "axis_name AxNE = ''ne''"
| "axis_name AxNW = ''nw''"

text \<open>The pattern \<open>ui-resizable-(se|sw|ne|nw|n|e|s|w)\<close> on the class of a handle; otherwise \<open>se\<close>.\<close>

definition axis_of :: "string \<Rightarrow> axis" where
  "axis_of name = (case filter (\<lambda>a. take (length (axis_name a)) name = axis_name a)
       [AxSE, AxSW, AxNE, AxNW, AxN, AxE, AxS, AxW] of [] \<Rightarrow> AxSE | a # _ \<Rightarrow> a)"

text \<open>\<open>this.helper\<close>: a box of its own, or the element itself.\<close>

definition helper_box :: "'e resizable \<Rightarrow> css_box" where
  "helper_box s = (if uses_helper s then helper s else element s)"

definition update_helper :: "(css_box \<Rightarrow> css_box) \<Rightarrow> 'e resizable \<Rightarrow> 'e resizable" where
  "update_helper f s = (if uses_helper s then s\<lparr>helper := f (helper s)\<rparr> else s\<lparr>element := f (element s)\<rparr>)"

section \<open>Inner elements\<close>

definition nth_num :: "jsnum list \<Rightarrow> nat \<Rightarrow> jsnum" where
  "nth_num xs i = (if i < length xs then to_number (xs ! i) else Fin 0)"

definition padding_plus_border :: "inner_element \<Rightarrow> dims" where
  "padding_plus_border e = (let widths = map (\<lambda>i. nth_num (in_borders e) i + nth_num (in_paddings e) i) [0..<4]
     in \<lparr>wide = widths ! 1 + widths ! 3, high = widths ! 0 + widths ! 2\<rparr>)"

text \<open>The outer dimensions of the first element are used for all.\<close>

definition proportionally_resize :: "'e resizable stmt" where
  "proportionally_resize = upd (\<lambda>s. case inner_elements s of [] \<Rightarrow> s | first # _ \<Rightarrow>
     let outer = (case outer_dims s of Some d \<Rightarrow> d | None \<Rightarrow> padding_plus_border first)
     in s\<lparr>outer_dims := Some outer,
          inner_elements := map (\<lambda>e. e\<lparr>in_box := set_css \<lparr>d_left = None, d_top = None,
             d_width = Some (to_number (el_width (helper_box s) - wide outer)),
             d_height = Some (to_number (el_height (helper_box s) - high outer))\<rparr> (in_box e)\<rparr>) (inner_elements s)\<rparr>)"

section \<open>Handles\<close>

definition handle_names :: "string \<Rightarrow> string list" where
  "handle_names given = map trim (split_on (CHR '','') (if given = ''all'' then ''n,e,s,w,se,sw,ne,nw'' else given))"

definition add_handle :: "string \<Rightarrow> 'e resizable \<Rightarrow> 'e resizable" where
  "add_handle name s = (if map_of (handle_ids s) name \<noteq> None then s
     else s\<lparr>handle_ids := handle_ids s @ [(name, next_element s)], added_handles := added_handles s @ [next_element s],
        next_element := Suc (next_element s)\<rparr>)"

text \<open>A wrapper around a form element gets a padding where its handles are.\<close>

definition pad_side :: "string \<Rightarrow> nat" where
  "pad_side name = (if CHR ''n'' \<in> set name then 0 else if CHR ''s'' \<in> set name then 2 else if name = ''e'' then 1 else 3)"

definition pad_wrapper :: "string \<Rightarrow> 'e resizable \<Rightarrow> jsnum" where
  "pad_wrapper name s = (if CHR ''n'' \<in> set name \<or> CHR ''s'' \<in> set name then high (handle_size s name) else wide (handle_size s name))"

definition render_handle :: "string \<Rightarrow> 'e resizable stmt" where
  "render_handle name = guard (\<lambda>s. list_ex in_form (inner_elements s)) (block
    [upd (\<lambda>s. s\<lparr>wrapper_padding := (wrapper_padding s)[pad_side name := pad_wrapper name s]\<rparr>),
     upd (\<lambda>s. s\<lparr>element := (element s)\<lparr>el_frame_width := nth_num (wrapper_padding s) 1 + nth_num (wrapper_padding s) 3,
       el_frame_height := nth_num (wrapper_padding s) 0 + nth_num (wrapper_padding s) 2\<rparr>\<rparr>),
     proportionally_resize])"

definition render_axis :: "'e resizable stmt" where
  "render_axis = bind_val handle_ids (\<lambda>hs. for_each hs (\<lambda>(name, _). render_handle name))"

definition setup_handles :: "'e resizable stmt" where
  "setup_handles = block
    [upd (\<lambda>s. s\<lparr>added_handles := []\<rparr>),
     upd (\<lambda>s. fold add_handle (handle_names (if opt_handles s = [] then ''e,s,se'' else opt_handles s)) s),
     upd (\<lambda>s. s\<lparr>handles_shown := True\<rparr>),
     render_axis,
     guard opt_auto_hide (upd (\<lambda>s. s\<lparr>handles_shown := False, resize_classes := resize_classes s @ [''ui-resizable-autohide'']\<rparr>))]"

definition remove_handles :: "'e resizable stmt" where
  "remove_handles = upd (\<lambda>s. s\<lparr>handle_ids := filter (\<lambda>(_, i). i \<notin> set (added_handles s)) (handle_ids s)\<rparr>)"

text \<open>The handler of \<open>mouseover\<close> on a handle.\<close>

definition over_handle :: "string \<Rightarrow> 'e resizable stmt" where
  "over_handle name = guard (\<lambda>s. \<not> resizing s) (upd (axis_update (\<lambda>_. Some (axis_of name))))"


section \<open>Events\<close>

definition ui_object :: "resize_type \<Rightarrow> 'e resizable \<Rightarrow> resize_event" where
  "ui_object ty s = \<lparr>rz_type = ty, rz_size = cur_size s, rz_position = cur_position s,
     rz_original_size = original_size s, rz_original_position = original_position s\<rparr>"

text \<open>The return value of a callback is not used; the size and the position it gets are the widget's own.\<close>

definition hear_resize :: "'e resize_listener \<Rightarrow> resize_event \<Rightarrow> 'e resizable stmt" where
  "hear_resize listen e s =
     (case listen e \<lparr>heard_size = cur_size s, heard_position = cur_position s, heard_element = element s,
        heard_outside = outside s\<rparr> of
      (x, h) \<Rightarrow> (x, s\<lparr>cur_size := heard_size h, cur_position := heard_position h, element := heard_element h,
        outside := heard_outside h\<rparr>))"

definition trigger_resize :: "'e resize_listener \<Rightarrow> resize_type \<Rightarrow> 'e resizable stmt" where
  "trigger_resize listen ty = bind_val (ui_object ty) (\<lambda>e. block
     [upd (\<lambda>s. s\<lparr>resize_history := resize_history s @ [e]\<rparr>), hear_resize listen e])"

section \<open>The arithmetic of a drag\<close>

definition no_data :: resize_data where
  "no_data = \<lparr>d_left = None, d_top = None, d_width = None, d_height = None\<rparr>"

definition change_e :: "jsnum \<Rightarrow> 'e resizable \<Rightarrow> resize_data \<Rightarrow> resize_data" where
  "change_e dx s d = d\<lparr>d_width := Some (wide (original_size s) + dx)\<rparr>"

definition change_w :: "jsnum \<Rightarrow> 'e resizable \<Rightarrow> resize_data \<Rightarrow> resize_data" where
  "change_w dx s d = d\<lparr>d_left := Some (at_left (original_position s) + dx), d_width := Some (wide (original_size s) - dx)\<rparr>"

definition change_n :: "jsnum \<Rightarrow> 'e resizable \<Rightarrow> resize_data \<Rightarrow> resize_data" where
  "change_n dy s d = d\<lparr>d_top := Some (at_top (original_position s) + dy), d_height := Some (high (original_size s) - dy)\<rparr>"

definition change_s :: "jsnum \<Rightarrow> 'e resizable \<Rightarrow> resize_data \<Rightarrow> resize_data" where
  "change_s dy s d = d\<lparr>d_height := Some (high (original_size s) + dy)\<rparr>"

text \<open>The table \<open>_change\<close>.\<close>

fun change_data :: "axis \<Rightarrow> jsnum \<Rightarrow> jsnum \<Rightarrow> 'e resizable \<Rightarrow> resize_data" where
  "change_data AxE dx dy s = change_e dx s no_data"
| "change_data AxW dx dy s = change_w dx s no_data"
| "change_data AxN dx dy s = change_n dy s no_data"
| "change_data AxS dx dy s = change_s dy s no_data"
| "change_data AxSE dx dy s = change_e dx s (change_s dy s no_data)"
| "change_data AxSW dx dy s = change_w dx s (change_s dy s no_data)"
| "change_data AxNE dx dy s = change_e dx s (change_n dy s no_data)"
| "change_data AxNW dx dy s = change_w dx s (change_n dy s no_data)"

definition option_or :: "jsnum \<Rightarrow> jsnum option \<Rightarrow> jsnum" where
  "option_or d v = (case v of Some x \<Rightarrow> if x = NaN then d else x | None \<Rightarrow> d)"

definition update_virtual_boundaries :: "bool \<Rightarrow> 'e resizable stmt" where
  "update_virtual_boundaries force = upd (\<lambda>s.
     let lo = \<lparr>wide = option_or (Fin 0) (opt_min_width s), high = option_or (Fin 0) (opt_min_height s)\<rparr>;
         hi = \<lparr>wide = option_or PInf (opt_max_width s), high = option_or PInf (opt_max_height s)\<rparr>;
         ratio = aspect_ratio s
     in if keep_ratio s \<or> force
        then s\<lparr>min_dims := \<lparr>wide = (if wide lo < high lo * ratio then high lo * ratio else wide lo),
                 high = (if high lo < wide lo div ratio then wide lo div ratio else high lo)\<rparr>,
               max_dims := \<lparr>wide = (if high hi * ratio < wide hi then high hi * ratio else wide hi),
                 high = (if wide hi div ratio < high hi then wide hi div ratio else high hi)\<rparr>\<rparr>
        else s\<lparr>min_dims := lo, max_dims := hi\<rparr>)"

definition update_cache :: "resize_data \<Rightarrow> 'e resizable stmt" where
  "update_cache d = upd (\<lambda>s. s\<lparr>cur_offset := page_offset s (helper_box s),
     cur_position := \<lparr>at_left = (if is_number (d_left d) then the (d_left d) else at_left (cur_position s)),
       at_top = (if is_number (d_top d) then the (d_top d) else at_top (cur_position s))\<rparr>,
     cur_size := \<lparr>wide = (if is_number (d_width d) then the (d_width d) else wide (cur_size s)),
       high = (if is_number (d_height d) then the (d_height d) else high (cur_size s))\<rparr>\<rparr>)"

text \<open>A missing width in a difference counts as \<open>NaN\<close>.\<close>

definition update_ratio :: "'e resizable \<Rightarrow> resize_data \<Rightarrow> resize_data" where
  "update_ratio s d =
     (let d = (if is_number (d_height d) then d\<lparr>d_width := Some (the (d_height d) * aspect_ratio s)\<rparr>
        else if is_number (d_width d) then d\<lparr>d_height := Some (the (d_width d) div aspect_ratio s)\<rparr> else d);
          left = at_left (cur_position s) + (wide (cur_size s) - option_or NaN (d_width d));
          top = at_top (cur_position s) + (high (cur_size s) - option_or NaN (d_height d))
      in if axis s = Some AxSW then d\<lparr>d_left := Some left, d_top := None\<rparr>
         else if axis s = Some AxNW then d\<lparr>d_left := Some left, d_top := Some top\<rparr>
         else d)"

definition west :: "axis option \<Rightarrow> bool" where
  "west a \<longleftrightarrow> a \<in> {Some AxSW, Some AxNW, Some AxW}"

definition north :: "axis option \<Rightarrow> bool" where
  "north a \<longleftrightarrow> a \<in> {Some AxNW, Some AxNE, Some AxN}"

definition too_small :: "jsnum \<Rightarrow> jsnum option \<Rightarrow> bool" where
  "too_small lo v \<longleftrightarrow> is_number v \<and> truthy_num (Some lo) \<and> the v < lo"

definition too_large :: "jsnum \<Rightarrow> jsnum option \<Rightarrow> bool" where
  "too_large hi v \<longleftrightarrow> is_number v \<and> truthy_num (Some hi) \<and> hi < the v"

text \<open>The parts of \<open>_respectSize\<close>: the sizes, the edges that stay, and the repair of a jump.\<close>

definition limit_size :: "'e resizable \<Rightarrow> resize_data \<Rightarrow> resize_data" where
  "limit_size s d = d\<lparr>
     d_width := (if too_large (wide (max_dims s)) (d_width d) then Some (wide (max_dims s))
       else if too_small (wide (min_dims s)) (d_width d) then Some (wide (min_dims s)) else d_width d),
     d_height := (if too_large (high (max_dims s)) (d_height d) then Some (high (max_dims s))
       else if too_small (high (min_dims s)) (d_height d) then Some (high (min_dims s)) else d_height d)\<rparr>"

text \<open>The tests are on the sizes before they were limited, \<open>d\<close>.\<close>

definition keep_edges :: "'e resizable \<Rightarrow> resize_data \<Rightarrow> resize_data \<Rightarrow> resize_data" where
  "keep_edges s d new =
     (let dw = at_left (original_position s) + wide (original_size s);
          dh = at_top (original_position s) + high (original_size s)
      in new\<lparr>
        d_left := (if west (axis s) \<and> too_large (wide (max_dims s)) (d_width d) then Some (dw - wide (max_dims s))
          else if west (axis s) \<and> too_small (wide (min_dims s)) (d_width d) then Some (dw - wide (min_dims s)) else d_left new),
        d_top := (if north (axis s) \<and> too_large (high (max_dims s)) (d_height d) then Some (dh - high (max_dims s))
          else if north (axis s) \<and> too_small (high (min_dims s)) (d_height d) then Some (dh - high (min_dims s)) else d_top new)\<rparr>)"

definition fix_jump :: "resize_data \<Rightarrow> resize_data" where
  "fix_jump d =
     (let no_size = (\<not> truthy_num (d_width d) \<and> \<not> truthy_num (d_height d)) in
      if no_size \<and> \<not> truthy_num (d_left d) \<and> truthy_num (d_top d) then d\<lparr>d_top := None\<rparr>
      else if no_size \<and> \<not> truthy_num (d_top d) \<and> truthy_num (d_left d) then d\<lparr>d_left := None\<rparr>
      else d)"

definition respect_size :: "'e resizable \<Rightarrow> resize_data \<Rightarrow> resize_data" where
  "respect_size s d = fix_jump (keep_edges s d (limit_size s d))"

section \<open>Extensions\<close>

text \<open>\<open>containment\<close>\<close>

definition containment_start :: "'e resizable stmt" where
  "containment_start = upd (\<lambda>s. case opt_containment s of None \<Rightarrow> s | Some c \<Rightarrow>
     if is_document c
     then s\<lparr>container_offset := \<lparr>at_left = Fin 0, at_top = Fin 0\<rparr>,
            parent_data := (\<lparr>at_left = Fin 0, at_top = Fin 0\<rparr>, con_inner c)\<rparr>
     else s\<lparr>container_offset := con_offset c,
            parent_data := (con_offset c,
              \<lparr>wide = (if has_scroll True (con_scroll c) then wide (con_scroll_size c) else wide (con_inner c) - pad_right c),
               high = (if has_scroll False (con_scroll c) then high (con_scroll_size c) else high (con_inner c) - pad_bottom c)\<rparr>)\<rparr>)"

text \<open>
  The steps of the resize handler of the extension; the flag says whether the ratio is kept, the
  answer whether the resize may go on.
\<close>

definition contain_left :: "bool \<Rightarrow> place \<Rightarrow> 'e resizable \<Rightarrow> bool \<times> 'e resizable" where
  "contain_left p_ratio cop s =
     (let co = container_offset s in
      if at_left (cur_position s) < (if uses_helper s then at_left co else Fin 0)
      then let w = wide (cur_size s) + (at_left (cur_position s) - (if uses_helper s then at_left co else at_left cop));
               s = s\<lparr>cur_size := (cur_size s)\<lparr>wide := w\<rparr>\<rparr>;
               s = (if p_ratio then s\<lparr>cur_size := (cur_size s)\<lparr>high := w div aspect_ratio s\<rparr>\<rparr> else s)
           in (\<not> p_ratio, s\<lparr>cur_position := (cur_position s)\<lparr>at_left := (if opt_helper s then at_left co else Fin 0)\<rparr>\<rparr>)
      else (True, s))"

definition contain_top :: "bool \<Rightarrow> 'e resizable \<Rightarrow> bool \<times> 'e resizable" where
  "contain_top p_ratio s =
     (let co = container_offset s in
      if at_top (cur_position s) < (if uses_helper s then at_top co else Fin 0)
      then let h = high (cur_size s) + (if uses_helper s then at_top (cur_position s) - at_top co else at_top (cur_position s));
               s = s\<lparr>cur_size := (cur_size s)\<lparr>high := h\<rparr>\<rparr>;
               s = (if p_ratio then s\<lparr>cur_size := (cur_size s)\<lparr>wide := h * aspect_ratio s\<rparr>\<rparr> else s)
           in (\<not> p_ratio, s\<lparr>cur_position := (cur_position s)\<lparr>at_top := (if uses_helper s then at_top co else Fin 0)\<rparr>\<rparr>)
      else (True, s))"

definition contain_offset :: "container \<Rightarrow> 'e resizable \<Rightarrow> 'e resizable" where
  "contain_offset c s = s\<lparr>cur_offset :=
     (if is_parent c \<and> (is_relative c \<or> is_absolute c)
      then \<lparr>at_left = at_left (fst (parent_data s)) + at_left (cur_position s),
            at_top = at_top (fst (parent_data s)) + at_top (cur_position s)\<rparr>
      else page_offset s (element s))\<rparr>"

definition contain_right :: "bool \<Rightarrow> place \<Rightarrow> 'e resizable \<Rightarrow> bool \<times> 'e resizable" where
  "contain_right p_ratio cop s =
     (let woset = math_abs (wide (size_diff s) +
            (at_left (cur_offset s) - (if uses_helper s then at_left cop else at_left (container_offset s))))
      in if wide (snd (parent_data s)) \<le> woset + wide (cur_size s)
         then let w = wide (snd (parent_data s)) - woset;
                  s = s\<lparr>cur_size := (cur_size s)\<lparr>wide := w\<rparr>\<rparr>
              in (\<not> p_ratio, if p_ratio then s\<lparr>cur_size := (cur_size s)\<lparr>high := w div aspect_ratio s\<rparr>\<rparr> else s)
         else (True, s))"

definition contain_bottom :: "bool \<Rightarrow> place \<Rightarrow> 'e resizable \<Rightarrow> bool \<times> 'e resizable" where
  "contain_bottom p_ratio cop s =
     (let hoset = math_abs (high (size_diff s) +
            (at_top (cur_offset s) - (if uses_helper s then at_top cop else at_top (container_offset s))))
      in if high (snd (parent_data s)) \<le> hoset + high (cur_size s)
         then let h = high (snd (parent_data s)) - hoset;
                  s = s\<lparr>cur_size := (cur_size s)\<lparr>high := h\<rparr>\<rparr>
              in (\<not> p_ratio, if p_ratio then s\<lparr>cur_size := (cur_size s)\<lparr>wide := h * aspect_ratio s\<rparr>\<rparr> else s)
         else (True, s))"

definition containment_resize :: "bool \<Rightarrow> 'e resizable stmt" where
  "containment_resize shift = upd (\<lambda>s. case opt_containment s of None \<Rightarrow> s | Some c \<Rightarrow>
     let p_ratio = keep_ratio s \<or> shift;
         cop = (if \<not> is_document c \<and> is_static c then container_offset s else \<lparr>at_left = Fin 0, at_top = Fin 0\<rparr>);
         (on1, s1) = contain_left p_ratio cop s;
         (on2, s2) = contain_top p_ratio s1;
         (on3, s3) = contain_right p_ratio cop (contain_offset c s2);
         (on4, s4) = contain_bottom p_ratio cop s3
     in if on1 \<and> on2 \<and> on3 \<and> on4 then s4
        else s4\<lparr>cur_position := prev_position s4, cur_size := prev_size s4\<rparr>)"

text \<open>With a helper, the element takes its place when the container is relative or static.\<close>

definition containment_stop :: "'e resizable stmt" where
  "containment_stop = upd (\<lambda>s. case opt_containment s of None \<Rightarrow> s | Some c \<Rightarrow>
     if uses_helper s \<and> \<not> opt_animate s \<and> (is_relative c \<or> is_static c)
     then s\<lparr>element := set_css \<lparr>
         d_left = Some (at_left (page_offset s (helper s)) -
           (if is_document c then Fin 0 else at_left (con_position c)) - at_left (container_offset s)),
         d_top = None,
         d_width = Some (outer_width (helper s) - wide (size_diff s)),
         d_height = Some (outer_height (helper s) - high (size_diff s))\<rparr> (element s)\<rparr>
     else s)"

text \<open>\<open>alsoResize\<close>: the other elements grow and move by the same differences.\<close>

definition also_resize_start :: "'e resizable stmt" where
  "also_resize_start = upd (\<lambda>s. s\<lparr>also_elements := map (\<lambda>a. a\<lparr>also_start := Some (also_box a)\<rparr>) (also_elements s)\<rparr>)"

definition also_value :: "jsnum \<Rightarrow> jsnum \<Rightarrow> jsnum option" where
  "also_value old delta = (let sum = to_number old + to_number delta
     in if truthy_num (Some sum) \<and> Fin 0 \<le> sum then Some sum else None)"

definition also_style :: "resize_data \<Rightarrow> also_element \<Rightarrow> css_box \<Rightarrow> resize_data" where
  "also_style delta a old = \<lparr>
     d_left = (if also_inside a then None else also_value (el_left old) (the (d_left delta))),
     d_top = (if also_inside a then None else also_value (el_top old) (the (d_top delta))),
     d_width = also_value (el_width old) (the (d_width delta)),
     d_height = also_value (el_height old) (the (d_height delta))\<rparr>"

definition resize_delta :: "'e resizable \<Rightarrow> resize_data" where
  "resize_delta s = \<lparr>d_left = Some (to_number (at_left (cur_position s) - at_left (original_position s))),
     d_top = Some (to_number (at_top (cur_position s) - at_top (original_position s))),
     d_width = Some (to_number (wide (cur_size s) - wide (original_size s))),
     d_height = Some (to_number (high (cur_size s) - high (original_size s)))\<rparr>"

text \<open>Without the data of the start the handler throws.\<close>

definition also_resize :: "'e resizable stmt" where
  "also_resize = ite (\<lambda>s. list_all (\<lambda>a. also_start a \<noteq> None) (also_elements s))
     (upd (\<lambda>s. s\<lparr>also_elements := map (\<lambda>a. case also_start a of None \<Rightarrow> a
        | Some old \<Rightarrow> a\<lparr>also_box := set_css (also_style (resize_delta s) a old) (also_box a)\<rparr>) (also_elements s)\<rparr>))
     (throw TypeError)"

text \<open>\<open>ghost\<close>: a copy of the element in the helper.\<close>

definition ghost_start :: "'e resizable stmt" where
  "ghost_start = upd (\<lambda>s. s\<lparr>ghost_box := Some (set_css \<lparr>d_left = Some (Fin 0), d_top = Some (Fin 0),
     d_width = Some (wide (cur_size s)), d_height = Some (high (cur_size s))\<rparr> (element s))\<rparr>)"

definition ghost_resize :: "'e resizable stmt" where
  "ghost_resize = upd (\<lambda>s. s\<lparr>ghost_box := map_option (set_css (no_data\<lparr>d_width := Some (wide (cur_size s)),
     d_height := Some (high (cur_size s))\<rparr>)) (ghost_box s)\<rparr>)"

definition ghost_stop :: "'e resizable stmt" where
  "ghost_stop = upd (\<lambda>s. s\<lparr>ghost_box := None\<rparr>)"

text \<open>\<open>grid\<close>: the size moves in steps, within the limits of the options.\<close>

definition grid_steps :: "jsnum \<Rightarrow> jsnum \<Rightarrow> jsnum \<Rightarrow> jsnum" where
  "grid_steps now orig step = math_round ((now - orig) div step) * step"

definition grid_limit :: "jsnum \<Rightarrow> jsnum option \<Rightarrow> jsnum option \<Rightarrow> jsnum \<Rightarrow> jsnum" where
  "grid_limit step lo hi v =
     (let up = (if truthy_num lo \<and> v < the lo then v + step else v)
      in if truthy_num hi \<and> the hi < v then up - step else up)"

text \<open>
  In the directions that move the top left corner, a size of at most a step becomes a step less
  the frame of the element. The frame is measured only when one of the sizes is that small.
\<close>

definition grid_height :: "bool \<Rightarrow> jsnum \<Rightarrow> jsnum \<Rightarrow> jsnum \<Rightarrow> 'e resizable stmt" where
  "grid_height measured new oy step = ite (\<lambda>_. Fin 0 < new - step)
     (upd (\<lambda>s. s\<lparr>cur_size := (cur_size s)\<lparr>high := new\<rparr>,
        cur_position := (cur_position s)\<lparr>at_top := at_top (original_position s) - oy\<rparr>\<rparr>))
     (if \<not> measured then throw TypeError
      else bind_val (\<lambda>s. step - el_frame_height (element s)) (\<lambda>new. upd (\<lambda>s. s\<lparr>cur_size := (cur_size s)\<lparr>high := new\<rparr>,
        cur_position := (cur_position s)\<lparr>at_top := at_top (original_position s) + high (original_size s) - new\<rparr>\<rparr>)))"

definition grid_width :: "bool \<Rightarrow> jsnum \<Rightarrow> jsnum \<Rightarrow> jsnum \<Rightarrow> 'e resizable stmt" where
  "grid_width measured new ox step = ite (\<lambda>_. Fin 0 < new - step)
     (upd (\<lambda>s. s\<lparr>cur_size := (cur_size s)\<lparr>wide := new\<rparr>,
        cur_position := (cur_position s)\<lparr>at_left := at_left (original_position s) - ox\<rparr>\<rparr>))
     (if \<not> measured then throw TypeError
      else bind_val (\<lambda>s. step - el_frame_width (element s)) (\<lambda>new. upd (\<lambda>s. s\<lparr>cur_size := (cur_size s)\<lparr>wide := new\<rparr>,
        cur_position := (cur_position s)\<lparr>at_left := at_left (original_position s) + wide (original_size s) - new\<rparr>\<rparr>)))"

definition grid_apply :: "axis option \<Rightarrow> jsnum \<Rightarrow> jsnum \<Rightarrow> dims \<Rightarrow> place \<Rightarrow> 'e resizable stmt" where
  "grid_apply a step_x step_y new off =
     (if a \<in> {Some AxSE, Some AxS, Some AxE} then upd (cur_size_update (\<lambda>_. new))
      else if a = Some AxNE then upd (\<lambda>s. s\<lparr>cur_size := new,
        cur_position := (cur_position s)\<lparr>at_top := at_top (original_position s) - at_top off\<rparr>\<rparr>)
      else if a = Some AxSW then upd (\<lambda>s. s\<lparr>cur_size := new,
        cur_position := (cur_position s)\<lparr>at_left := at_left (original_position s) - at_left off\<rparr>\<rparr>)
      else let measured = (high new - step_y \<le> Fin 0 \<or> wide new - step_x \<le> Fin 0)
        in block [grid_height measured (high new) (at_top off) step_y, grid_width measured (wide new) (at_left off) step_x])"

definition grid_resize :: "'e resizable stmt" where
  "grid_resize = bind_val (\<lambda>s. (opt_grid s, axis s)) (\<lambda>(grid, a). case grid of None \<Rightarrow> skip | Some (gx, gy) \<Rightarrow>
     let step_x = num_or (Fin 1) gx; step_y = num_or (Fin 1) gy in
     bind_val (\<lambda>s. \<lparr>at_left = grid_steps (wide (cur_size s)) (wide (original_size s)) step_x,
                    at_top = grid_steps (high (cur_size s)) (high (original_size s)) step_y\<rparr>) (\<lambda>off.
     bind_val (\<lambda>s. \<lparr>wide = grid_limit step_x (opt_min_width s) (opt_max_width s) (wide (original_size s) + at_left off),
                    high = grid_limit step_y (opt_min_height s) (opt_max_height s) (high (original_size s) + at_top off)\<rparr>)
       (\<lambda>new. grid_apply a step_x step_y new off)))"

text \<open>The frame taken off the size when the gesture ends; a text area keeps its own.\<close>

definition frame_size :: "'e resizable \<Rightarrow> dims" where
  "frame_size s = (case inner_elements s of
       [] \<Rightarrow> size_diff s
     | e # _ \<Rightarrow> if in_textarea e
         then \<lparr>wide = Fin 0, high = (if has_scroll True (in_scroll e) then Fin 0 else high (size_diff s))\<rparr>
         else size_diff s)"

text \<open>\<open>animate\<close>: after the gesture the element is moved to its new size by an animation.\<close>

definition or_null :: "jsnum \<Rightarrow> jsnum option" where
  "or_null x = (if truthy_num (Some x) then Some x else None)"

definition final_left :: "'e resizable \<Rightarrow> jsnum option" where
  "final_left s = or_null (el_left (element s) + (at_left (cur_position s) - at_left (original_position s)))"

definition final_top :: "'e resizable \<Rightarrow> jsnum option" where
  "final_top s = or_null (el_top (element s) + (at_top (cur_position s) - at_top (original_position s)))"

definition animate_stop :: "'e resizable stmt" where
  "animate_stop = upd (\<lambda>s.
     let both = (final_left s \<noteq> None \<and> final_top s \<noteq> None)
     in s\<lparr>animations := animations s @ [(\<lparr>d_left = (if both then final_left s else None),
          d_top = (if both then final_top s else None),
          d_width = Some (wide (cur_size s) - wide (frame_size s)),
          d_height = Some (high (cur_size s) - high (frame_size s))\<rparr>, True)]\<rparr>)"

text \<open>
  The registry of the extensions: for each event their options and handlers in the order of
  registration; \<open>plugin_call\<close> calls those whose option is on, unless the element is detached. The
  stop handler of \<open>alsoResize\<close> removes data that the start has put on other elements: it has no effect.
\<close>

datatype plugin_event = PluginStart | PluginResize | PluginStop

fun plugins :: "bool \<Rightarrow> plugin_event \<Rightarrow> (('e resizable \<Rightarrow> bool) \<times> 'e resizable stmt) list" where
  "plugins shift PluginStart =
     [(\<lambda>s. opt_containment s \<noteq> None, containment_start), (opt_also_resize, also_resize_start), (opt_ghost, ghost_start)]"
| "plugins shift PluginResize =
     [(\<lambda>s. opt_containment s \<noteq> None, containment_resize shift), (opt_also_resize, also_resize),
      (opt_ghost, ghost_resize), (\<lambda>s. opt_grid s \<noteq> None, grid_resize)]"
| "plugins shift PluginStop =
     [(opt_animate, animate_stop), (\<lambda>s. opt_containment s \<noteq> None, containment_stop), (opt_ghost, ghost_stop)]"

definition plugin_call :: "bool \<Rightarrow> plugin_event \<Rightarrow> 'e resizable stmt" where
  "plugin_call shift ev = guard connected (for_each (plugins shift ev) (\<lambda>(on, handler). guard on handler))"

definition propagate_start :: "'e resize_listener \<Rightarrow> bool \<Rightarrow> 'e resizable stmt" where
  "propagate_start listen shift = block [plugin_call shift PluginStart, trigger_resize listen ResizeStart]"

definition propagate_resize :: "bool \<Rightarrow> 'e resizable stmt" where
  "propagate_resize shift = plugin_call shift PluginResize"

definition propagate_stop :: "'e resize_listener \<Rightarrow> bool \<Rightarrow> 'e resizable stmt" where
  "propagate_stop listen shift = block [plugin_call shift PluginStop, trigger_resize listen ResizeStop]"

text \<open>A step of a running animation; the flag in the list goes when it ends.\<close>

definition animation_step :: "css_box \<Rightarrow> bool \<Rightarrow> 'e resizable stmt" where
  "animation_step b shift = guard (\<lambda>s. \<exists>a \<in> set (animations s). snd a) (block
    [upd (\<lambda>s. s\<lparr>element := (element s)\<lparr>el_left := el_left b, el_top := el_top b, el_width := el_width b, el_height := el_height b\<rparr>,
       inner_elements := (case inner_elements s of [] \<Rightarrow> []
         | e # es \<Rightarrow> e\<lparr>in_box := set_css (no_data\<lparr>d_width := Some (el_width b), d_height := Some (el_height b)\<rparr>) (in_box e)\<rparr> # es)\<rparr>),
     update_cache \<lparr>d_left = Some (el_left b), d_top = Some (el_top b), d_width = Some (el_width b), d_height = Some (el_height b)\<rparr>,
     propagate_resize shift])"

section \<open>The gesture\<close>

definition render_proxy :: "'e resizable stmt" where
  "render_proxy = guard uses_helper (upd (\<lambda>s. s\<lparr>helper := set_css \<lparr>d_left = Some (at_left (page_offset s (element s))),
     d_top = Some (at_top (page_offset s (element s))), d_width = Some (outer_width (element s)),
     d_height = Some (outer_height (element s))\<rparr> (helper s)\<rparr>))"

definition container_scroll :: "'e resizable \<Rightarrow> place" where
  "container_scroll s = (case opt_containment s of None \<Rightarrow> \<lparr>at_left = Fin 0, at_top = Fin 0\<rparr>
     | Some c \<Rightarrow> \<lparr>at_left = to_number (scrolled_left (con_scroll c)), at_top = to_number (scrolled_top (con_scroll c))\<rparr>)"

definition start_place :: "'e resizable \<Rightarrow> place" where
  "start_place s =
     (let left = to_number (el_left (helper_box s)); top = to_number (el_top (helper_box s)) in
      if opt_containment s = None then \<lparr>at_left = left, at_top = top\<rparr>
      else \<lparr>at_left = left + at_left (container_scroll s), at_top = top + at_top (container_scroll s)\<rparr>)"

definition inner_size :: "css_box \<Rightarrow> dims" where
  "inner_size b = \<lparr>wide = el_width b, high = el_height b\<rparr>"

definition outer_size :: "css_box \<Rightarrow> dims" where
  "outer_size b = \<lparr>wide = outer_width b, high = outer_height b\<rparr>"

definition axis_text :: "axis option \<Rightarrow> string" where
  "axis_text a = (case a of None \<Rightarrow> ''undefined'' | Some x \<Rightarrow> axis_name x)"

text \<open>What \<open>_mouseStart\<close> remembers of the element and of the event.\<close>

definition remember :: "mouse_event \<Rightarrow> 'e resizable \<Rightarrow> 'e resizable" where
  "remember ev s =
     (let p = start_place s; el = element s;
          size = (if uses_helper s then outer_size el else inner_size el);
          ratio = num_or (Fin 1) (wide size div high size)
      in s\<lparr>cur_offset := page_offset s (helper_box s), cur_position := p,
           cur_size := (if uses_helper s then inner_size (helper s) else inner_size el),
           original_size := size,
           size_diff := \<lparr>wide = outer_width el - el_width el, high = outer_height el - el_height el\<rparr>,
           original_position := p,
           original_mouse := \<lparr>at_left = page_x ev, at_top = page_y ev\<rparr>,
           aspect_ratio := (case opt_aspect_ratio s of AspectNumber r \<Rightarrow> r | _ \<Rightarrow> ratio)\<rparr>)"

definition resize_start :: "'e resize_listener \<Rightarrow> mouse_event \<Rightarrow> 'e resizable stmt" where
  "resize_start listen ev = block
    [upd (resizing_update (\<lambda>_. True)),
     render_proxy,
     upd (remember ev),
     upd (\<lambda>s. s\<lparr>body_cursor := (if handle_cursor s = ''auto'' then axis_text (axis s) @ ''-resize'' else handle_cursor s),
       resize_classes := resize_classes s @ [''ui-resizable-resizing'']\<rparr>),
     propagate_start listen (shift_key ev),
     returns True]"

definition update_prev_properties :: "'e resizable stmt" where
  "update_prev_properties = upd (\<lambda>s. s\<lparr>prev_position := cur_position s, prev_size := cur_size s\<rparr>)"

text \<open>The properties that differ from the previous ones; a difference of \<open>NaN\<close> counts.\<close>

definition changed :: "jsnum \<Rightarrow> jsnum \<Rightarrow> jsnum option" where
  "changed new old = (if num_eq new old then None else Some new)"

definition changes :: "'e resizable \<Rightarrow> resize_data" where
  "changes s = \<lparr>d_left = changed (at_left (cur_position s)) (at_left (prev_position s)),
     d_top = changed (at_top (cur_position s)) (at_top (prev_position s)),
     d_width = changed (wide (cur_size s)) (wide (prev_size s)),
     d_height = changed (high (cur_size s)) (high (prev_size s))\<rparr>"

definition apply_changes :: "resize_data \<Rightarrow> 'e resizable stmt" where
  "apply_changes d = upd (update_helper (set_css d))"

definition mouse_delta :: "mouse_event \<Rightarrow> 'e resizable \<Rightarrow> jsnum \<times> jsnum" where
  "mouse_delta ev s = (to_number (page_x ev - at_left (original_mouse s)), to_number (page_y ev - at_top (original_mouse s)))"

text \<open>The data of a drag in direction \<open>a\<close>, limited.\<close>

definition drag_data :: "mouse_event \<Rightarrow> axis \<Rightarrow> 'e resizable \<Rightarrow> resize_data" where
  "drag_data ev a s = (let (dx, dy) = mouse_delta ev s; d = change_data a dx dy s
     in respect_size s (if keep_ratio s \<or> shift_key ev then update_ratio s d else d))"

text \<open>What follows once the new size and position are known.\<close>

definition finish_drag :: "'e resize_listener \<Rightarrow> 'e resizable stmt" where
  "finish_drag listen = bind_val changes (\<lambda>props. block
     [apply_changes props,
      guard (\<lambda>s. \<not> uses_helper s) proportionally_resize,
      if props = no_data then skip
      else block
        [update_prev_properties,
         trigger_resize listen ResizeMove,
         bind_val changes apply_changes]])"

definition resize_drag :: "'e resize_listener \<Rightarrow> mouse_event \<Rightarrow> 'e resizable stmt" where
  "resize_drag listen ev = block
    [update_prev_properties,
     bind_val axis (\<lambda>a. case a of None \<Rightarrow> skip | Some a \<Rightarrow> block
       [update_virtual_boundaries (shift_key ev),
        bind_val (drag_data ev a) update_cache,
        propagate_resize (shift_key ev),
        finish_drag listen]),
     returns False]"

definition resize_stop :: "'e resize_listener \<Rightarrow> mouse_event \<Rightarrow> 'e resizable stmt" where
  "resize_stop listen ev = block
    [upd (resizing_update (\<lambda>_. False)),
     guard uses_helper (block
       [guard (\<lambda>s. \<not> opt_animate s) (upd (\<lambda>s. s\<lparr>element := set_css \<lparr>d_left = final_left s, d_top = final_top s,
           d_width = Some (el_width (helper s) - wide (frame_size s)),
           d_height = Some (el_height (helper s) - high (frame_size s))\<rparr> (element s)\<rparr>)),
        upd (\<lambda>s. s\<lparr>helper := set_css (no_data\<lparr>d_width := Some (wide (cur_size s)), d_height := Some (high (cur_size s))\<rparr>) (helper s)\<rparr>),
        guard (\<lambda>s. \<not> opt_animate s) proportionally_resize]),
     upd (\<lambda>s. s\<lparr>body_cursor := ''auto'', resize_classes := filter (\<lambda>c. c \<noteq> ''ui-resizable-resizing'') (resize_classes s)\<rparr>),
     propagate_stop listen (shift_key ev),
     returns False]"

text \<open>A press is captured on a handle, or in one.\<close>

definition on_handle :: "nat \<Rightarrow> 'e resizable \<Rightarrow> bool" where
  "on_handle t s \<longleftrightarrow> list_ex (\<lambda>(_, h). t = h \<or> t \<in> below_handle s h) (handle_ids s)"

definition resize_capture :: "mouse_event \<Rightarrow> 'e resizable stmt" where
  "resize_capture ev = bind_val (\<lambda>s. \<not> opt_disabled s \<and> on_handle (target ev) s) returns"

definition resizable_mouse :: "'e resize_listener \<Rightarrow> ('e resizable) mouse_ops" where
  "resizable_mouse listen = \<lparr>capture = resize_capture, start = resize_start listen,
     drag = resize_drag listen, stop = resize_stop listen\<rparr>"

section \<open>Creation and options\<close>

text \<open>An element that cannot have children is wrapped; the wrapper takes its place and size.\<close>

definition wrap_element :: "inner_element \<Rightarrow> 'e resizable stmt" where
  "wrap_element e = block
    [upd (\<lambda>s. s\<lparr>element := (element s)\<lparr>el_width := outer_width (element s), el_height := outer_height (element s),
       el_frame_width := Fin 0, el_frame_height := Fin 0\<rparr>,
       inner_elements := [e], wrapper_padding := replicate 4 (Fin 0)\<rparr>),
     proportionally_resize]"

fun aspect_on :: "aspect \<Rightarrow> bool" where
  "aspect_on NoAspect = False"
| "aspect_on KeepAspect = True"
| "aspect_on (AspectNumber r) = truthy_num (Some r)"

text \<open>The helper is not built before the first gesture, so the wrapping and the handles measure the element.\<close>

definition create_resizable :: "inner_element option \<Rightarrow> 'e resizable stmt" where
  "create_resizable wrapped = block
    [upd (\<lambda>s. s\<lparr>resize_classes := resize_classes s @ [''ui-resizable''], keep_ratio := aspect_on (opt_aspect_ratio s),
       inner_elements := [], uses_helper := False\<rparr>),
     (case wrapped of None \<Rightarrow> skip | Some e \<Rightarrow> wrap_element e),
     setup_handles,
     upd (\<lambda>s. s\<lparr>uses_helper := (opt_helper s \<or> opt_ghost s \<or> opt_animate s)\<rparr>),
     mouse_init]"

text \<open>\<open>autoHide\<close>: the handles show while the mouse is over the element.\<close>

definition enter_element :: "'e resizable stmt" where
  "enter_element = guard (\<lambda>s. opt_auto_hide s \<and> \<not> opt_disabled s) (upd (\<lambda>s. s\<lparr>handles_shown := True,
     resize_classes := filter (\<lambda>c. c \<noteq> ''ui-resizable-autohide'') (resize_classes s)\<rparr>))"

definition leave_element :: "'e resizable stmt" where
  "leave_element = guard (\<lambda>s. opt_auto_hide s \<and> \<not> opt_disabled s \<and> \<not> resizing s) (upd (\<lambda>s. s\<lparr>handles_shown := False,
     resize_classes := resize_classes s @ [''ui-resizable-autohide'']\<rparr>))"

text \<open>A wrapped element takes the place and size of the wrapper, which is removed.\<close>

definition unwrap_element :: "'e resizable stmt" where
  "unwrap_element = guard (\<lambda>s. inner_elements s \<noteq> []) (upd (\<lambda>s. s\<lparr>
     inner_elements := map (\<lambda>e. e\<lparr>in_box := (in_box e)\<lparr>el_left := el_left (element s), el_top := el_top (element s),
       el_width := outer_width (element s), el_height := outer_height (element s)\<rparr>\<rparr>) (inner_elements s),
     connected := False\<rparr>))"

definition destroy_resizable :: "'e resizable stmt" where
  "destroy_resizable = block [mouse_destroy, remove_handles, unwrap_element]"

datatype resizable_option =
    OptHandles string
  | OptAspectRatio aspect
  | OptGrid "(jsnum \<times> jsnum) option"
  | OptMinWidth "jsnum option"
  | OptMinHeight "jsnum option"
  | OptMaxWidth "jsnum option"
  | OptMaxHeight "jsnum option"
  | OptResizeDisabled bool

fun store_resizable_option :: "resizable_option \<Rightarrow> 'e resizable \<Rightarrow> 'e resizable" where
  "store_resizable_option (OptHandles x) s = s\<lparr>opt_handles := x\<rparr>"
| "store_resizable_option (OptAspectRatio x) s = s\<lparr>opt_aspect_ratio := x\<rparr>"
| "store_resizable_option (OptGrid x) s = s\<lparr>opt_grid := x\<rparr>"
| "store_resizable_option (OptMinWidth x) s = s\<lparr>opt_min_width := x\<rparr>"
| "store_resizable_option (OptMinHeight x) s = s\<lparr>opt_min_height := x\<rparr>"
| "store_resizable_option (OptMaxWidth x) s = s\<lparr>opt_max_width := x\<rparr>"
| "store_resizable_option (OptMaxHeight x) s = s\<lparr>opt_max_height := x\<rparr>"
| "store_resizable_option (OptResizeDisabled x) s = s\<lparr>opt_disabled := x\<rparr>"

definition set_resizable_option :: "resizable_option \<Rightarrow> 'e resizable stmt" where
  "set_resizable_option opt = block
    [upd (store_resizable_option opt),
     (case opt of
        OptHandles x \<Rightarrow> block [remove_handles, setup_handles]
      | OptAspectRatio x \<Rightarrow> upd (keep_ratio_update (\<lambda>_. aspect_on x))
      | _ \<Rightarrow> skip)]"

section \<open>What happens to a resizable element\<close>

datatype resizable_input =
    ResizeMouse mouse_input
  | OverHandle string
  | EnterElement
  | LeaveElement
  | AnimationStep css_box bool
  | SetResizableOption resizable_option

fun resizable_handler :: "'e resize_listener \<Rightarrow> resizable_input \<Rightarrow> 'e resizable stmt" where
  "resizable_handler listen (ResizeMouse i) = mouse_handler (resizable_mouse listen) i"
| "resizable_handler listen (OverHandle name) = over_handle name"
| "resizable_handler listen EnterElement = enter_element"
| "resizable_handler listen LeaveElement = leave_element"
| "resizable_handler listen (AnimationStep b shift) = animation_step b shift"
| "resizable_handler listen (SetResizableOption opt) = set_resizable_option opt"

end
