(* ===== verification/UI_Resizable_Props.thy ===== *)
theory UI_Resizable_Props
  imports UI_Resizable
begin

text \<open>
  The resizable widget as the terminal uses it, with no extension and no helper: the contract of
  its listener, the gestures it makes of the mouse, and the bounds its sizes keep.
\<close>

section \<open>Options of the terminal\<close>

definition plain_options :: "'e resizable \<Rightarrow> bool" where
  "plain_options s \<longleftrightarrow> \<not> opt_also_resize s \<and> \<not> opt_animate s \<and> opt_containment s = None \<and> \<not> opt_ghost s \<and>
     opt_grid s = None \<and> \<not> uses_helper s \<and> inner_elements s = [] \<and> opt_min_width s = Some (Fin 10) \<and>
     opt_min_height s = Some (Fin 10) \<and> opt_max_width s = None \<and> opt_max_height s = None \<and> \<not> keep_ratio s \<and> opt_aspect_ratio s = NoAspect"

lemma plain_plugin: "plain_options s \<Longrightarrow> plugin_call shift ev s = (None, s)"
  by (cases ev) (simp_all add: plugin_call_def plain_options_def stmt_simps seq_def)

lemma plain_proxy: "plain_options s \<Longrightarrow> render_proxy s = (None, s)"
  by (simp add: render_proxy_def plain_options_def stmt_simps)

lemma wp_plugin: "plain_options s \<Longrightarrow> wp (plugin_call shift ev) Q E s = Q s"
  and wp_proxy: "plain_options s \<Longrightarrow> wp render_proxy Q E s = Q s"
  by (simp_all add: wp_def plain_plugin plain_proxy)

section \<open>Sizes and their limits\<close>

text \<open>A size is the one before the gesture, or at least the minimum.\<close>

definition grown :: "jsnum \<Rightarrow> jsnum \<Rightarrow> bool" where
  "grown x orig \<longleftrightarrow> x = orig \<or> Fin 10 \<le> x"

definition sized :: "dims \<Rightarrow> dims \<Rightarrow> bool" where
  "sized d orig \<longleftrightarrow> grown (wide d) (wide orig) \<and> grown (high d) (high orig) \<and> Fin 0 \<le> wide orig \<and> Fin 0 \<le> high orig"

lemma sized_refl: "Fin 0 \<le> wide d \<Longrightarrow> Fin 0 \<le> high d \<Longrightarrow> sized d d"
  by (simp add: sized_def grown_def)

lemma le_ten: "Fin 10 \<le> x \<Longrightarrow> Fin 0 \<le> x"
  by (cases x) (auto simp: num_defs num_le_def num_eq_def)

lemma sized_nonneg: "sized d orig \<Longrightarrow> Fin 0 \<le> wide d \<and> Fin 0 \<le> high d"
  by (auto simp: sized_def grown_def le_ten)

text \<open>The limits that the options give, also when shift keeps the ratio.\<close>

definition limited :: "'e resizable \<Rightarrow> bool" where
  "limited s \<longleftrightarrow> Fin 10 \<le> wide (min_dims s) \<and> Fin 10 \<le> high (min_dims s) \<and> max_dims s = \<lparr>wide = PInf, high = PInf\<rparr>"

lemma less_le: "(x::jsnum) < y \<Longrightarrow> x \<le> y"
  by (simp add: num_defs num_le_def)

lemma num_trans: "(x::jsnum) \<le> y \<Longrightarrow> y \<le> z \<Longrightarrow> x \<le> z"
  by (cases x; cases y; cases z) (auto simp: num_defs num_le_def num_eq_def)

lemma not_less_le: "\<not> (x::jsnum) < y \<Longrightarrow> x \<noteq> NaN \<Longrightarrow> y \<noteq> NaN \<Longrightarrow> y \<le> x"
  by (cases x; cases y) (auto simp: num_defs num_le_def num_eq_def)

lemma le_number: "Fin a \<le> x \<Longrightarrow> x \<noteq> NaN"
  by (auto simp: num_defs num_le_def num_eq_def)

lemma pinf_max: "\<not> PInf < x"
  by (cases x) (simp_all add: num_defs)

lemma pinf_ratio:
  assumes "Fin 0 < r"
  shows "PInf * r = PInf" "\<not> PInf div r < PInf"
  using assms by (cases r; simp add: num_defs inf_of_sign_def)+

lemma boundaries_wp:
  assumes "plain_options s" "Fin 0 < aspect_ratio s"
  shows "\<exists>lo. update_virtual_boundaries f s = (None, s\<lparr>min_dims := lo, max_dims := \<lparr>wide = PInf, high = PInf\<rparr>\<rparr>) \<and>
    Fin 10 \<le> wide lo \<and> Fin 10 \<le> high lo"
proof -
  have ten: "Fin 10 \<le> Fin 10" by (simp add: num_defs num_le_def num_eq_def)
  have opts: "option_or (Fin 0) (opt_min_width s) = Fin 10" "option_or (Fin 0) (opt_min_height s) = Fin 10"
    "option_or PInf (opt_max_width s) = PInf" "option_or PInf (opt_max_height s) = PInf" "\<not> keep_ratio s"
    using assms(1) by (simp_all add: plain_options_def option_or_def)
  have irr: "\<not> PInf < PInf" by (simp add: num_defs)
  let ?r = "aspect_ratio s"
  let ?lo = "if f then \<lparr>wide = (if Fin 10 < Fin 10 * ?r then Fin 10 * ?r else Fin 10),
    high = (if Fin 10 < Fin 10 div ?r then Fin 10 div ?r else Fin 10)\<rparr> else \<lparr>wide = Fin 10, high = Fin 10\<rparr>"
  have "update_virtual_boundaries f s = (None, s\<lparr>min_dims := ?lo, max_dims := \<lparr>wide = PInf, high = PInf\<rparr>\<rparr>)"
    using pinf_ratio [OF assms(2)] by (simp add: update_virtual_boundaries_def upd_def opts Let_def irr)
  moreover have "Fin 10 \<le> wide ?lo" "Fin 10 \<le> high ?lo" using ten by (auto intro: less_le)
  ultimately show ?thesis by blast
qed

lemma respect_sizes:
  "d_width (respect_size s d) = d_width (limit_size s d)" "d_height (respect_size s d) = d_height (limit_size s d)"
proof -
  have jump: "d_width (fix_jump x) = d_width x" "d_height (fix_jump x) = d_height x" for x
    by (simp_all add: fix_jump_def Let_def)
  show "d_width (respect_size s d) = d_width (limit_size s d)" "d_height (respect_size s d) = d_height (limit_size s d)"
    unfolding respect_size_def jump by (simp_all add: keep_edges_def Let_def)
qed

lemma respect_grown:
  assumes "limited s"
  shows "is_number (d_width (respect_size s d)) \<Longrightarrow> Fin 10 \<le> the (d_width (respect_size s d))"
    and "is_number (d_height (respect_size s d)) \<Longrightarrow> Fin 10 \<le> the (d_height (respect_size s d))"
proof -
  have large: "\<not> too_large (wide (max_dims s)) v" "\<not> too_large (high (max_dims s)) v" for v
    using assms by (simp_all add: limited_def too_large_def pinf_max)
  have small: "Fin 10 \<le> the v" if "\<not> too_small lo v" "is_number v" "Fin 10 \<le> lo" for lo v
  proof -
    have "truthy_num (Some lo)"
      using that(3) le_number [OF that(3)] by (auto simp: truthy_num_def is_number_def num_defs num_le_def num_eq_def)
    then have "\<not> the v < lo" using that(1,2) by (simp add: too_small_def)
    moreover have "the v \<noteq> NaN" using that(2) by (auto simp: is_number_def)
    ultimately show ?thesis using not_less_le [of "the v" lo] le_number [OF that(3)] num_trans [OF that(3)] by blast
  qed
  have width: "d_width (respect_size s d) = (if too_small (wide (min_dims s)) (d_width d) then Some (wide (min_dims s)) else d_width d)"
    using large by (simp add: respect_sizes limit_size_def)
  have height: "d_height (respect_size s d) = (if too_small (high (min_dims s)) (d_height d) then Some (high (min_dims s)) else d_height d)"
    using large by (simp add: respect_sizes limit_size_def)
  show "is_number (d_width (respect_size s d)) \<Longrightarrow> Fin 10 \<le> the (d_width (respect_size s d))"
    "is_number (d_height (respect_size s d)) \<Longrightarrow> Fin 10 \<le> the (d_height (respect_size s d))"
    unfolding width height using assms small by (auto simp: limited_def)
qed


section \<open>Gestures\<close>

fun resize_gesture :: "bool \<Rightarrow> resize_type list \<Rightarrow> bool option" where
  "resize_gesture on [] = Some on"
| "resize_gesture False (ResizeStart # es) = resize_gesture True es"
| "resize_gesture True (ResizeMove # es) = resize_gesture True es"
| "resize_gesture True (ResizeStop # es) = resize_gesture False es"
| "resize_gesture _ (_ # _) = None"

lemma resize_gesture_append: "resize_gesture b (xs @ ys) = Option.bind (resize_gesture b xs) (\<lambda>c. resize_gesture c ys)"
  by (induction b xs rule: resize_gesture.induct) simp_all

definition resize_types :: "'e resizable \<Rightarrow> resize_type list" where
  "resize_types s = map rz_type (resize_history s)"

text \<open>The sizes that the widget has told its listener.\<close>

definition told_sized :: "'e resizable \<Rightarrow> bool" where
  "told_sized s \<longleftrightarrow> list_all (\<lambda>e. sized (rz_size e) (rz_original_size e)) (resize_history s)"

definition settled :: "place \<Rightarrow> bool" where
  "settled p \<longleftrightarrow> at_left p \<noteq> NaN \<and> at_top p \<noteq> NaN"

lemma no_changes:
  assumes "settled (cur_position s)" "sized (cur_size s) d" "prev_position s = cur_position s" "prev_size s = cur_size s"
  shows "changes s = no_data"
proof -
  have "wide (cur_size s) \<noteq> NaN" "high (cur_size s) \<noteq> NaN"
    using sized_nonneg [OF assms(2)] le_number by auto
  then show ?thesis
    using assms(1,3,4) by (simp add: changes_def changed_def num_eq_def settled_def no_data_def)
qed

lemma set_css_none [simp]: "set_css no_data b = b"
  by (simp add: set_css_def no_data_def)

lemma set_css_nonneg:
  "Fin 0 \<le> el_width b \<Longrightarrow> Fin 0 \<le> el_height b \<Longrightarrow> Fin 0 \<le> el_width (set_css d b) \<and> Fin 0 \<le> el_height (set_css d b)"
  by (auto simp: set_css_def css_size_def num_defs num_le_def num_eq_def split: option.splits jsnum.splits)

text \<open>
  The contract of the listener: from a good state of the page it does not throw and leaves a good
  state; it leaves the \<open>ui\<close> object alone; what it makes of the element on a resize to a size is fit
  to be shown, and otherwise a fit element stays fit.
\<close>

locale resizable_client =
  fixes listen :: "'e resize_listener" and good :: "'e \<Rightarrow> bool" and fit :: "css_box \<Rightarrow> bool"
  assumes calm: "good (heard_outside h) \<Longrightarrow> Fin 0 \<le> wide (heard_size h) \<Longrightarrow> Fin 0 \<le> high (heard_size h) \<Longrightarrow>
      Fin 0 \<le> el_width (heard_element h) \<Longrightarrow> Fin 0 \<le> el_height (heard_element h) \<Longrightarrow>
      rz_type e = ResizeMove \<or> fit (heard_element h) \<Longrightarrow>
      \<exists>h'. listen e h = (None, h') \<and> good (heard_outside h') \<and> fit (heard_element h') \<and>
        heard_size h' = heard_size h \<and> heard_position h' = heard_position h"
    and fit_nonneg: "fit b \<Longrightarrow> Fin 0 \<le> el_width b \<and> Fin 0 \<le> el_height b"
begin

definition calm_state :: "'e resizable \<Rightarrow> bool" where
  "calm_state s \<longleftrightarrow> plain_options s \<and> good (outside s) \<and> fit (element s) \<and> told_sized s"

definition resize_idle :: "'e resizable \<Rightarrow> bool" where
  "resize_idle s \<longleftrightarrow> calm_state s \<and> \<not> resizing s \<and> resize_gesture False (resize_types s) = Some False"

definition resize_dragging :: "'e resizable \<Rightarrow> bool" where
  "resize_dragging s \<longleftrightarrow> calm_state s \<and> resizing s \<and> resize_gesture False (resize_types s) = Some True \<and>
     sized (cur_size s) (original_size s) \<and> Fin 0 < aspect_ratio s \<and> settled (cur_position s)"

lemmas state_defs = resize_idle_def resize_dragging_def calm_state_def plain_options_def told_sized_def resize_types_def

lemma resize_cong:
  assumes "mouse.more s = mouse.more t"
  shows "resize_idle s = resize_idle t" "resize_dragging s = resize_dragging t"
  using assms by (cases s; cases t; simp add: state_defs)+

text \<open>A trigger, from a state whose sizes are fit to be told.\<close>

lemma trigger_resize_wp:
  assumes s: "good (outside s)" "plain_options s" "told_sized s" "sized (cur_size s) (original_size s)"
      "Fin 0 \<le> el_width (element s)" "Fin 0 \<le> el_height (element s)" "ty = ResizeMove \<or> fit (element s)"
    and Q: "\<And>b out. good out \<Longrightarrow> fit b \<Longrightarrow>
      Q (s\<lparr>resize_history := resize_history s @ [ui_object ty s], element := b, outside := out\<rparr>)"
  shows "wp (trigger_resize listen ty) Q E s"
proof -
  let ?e = "ui_object ty s"
  let ?h = "\<lparr>heard_size = cur_size s, heard_position = cur_position s, heard_element = element s, heard_outside = outside s\<rparr>"
  have "rz_type ?e = ResizeMove \<or> fit (heard_element ?h)" using s(7) by (simp add: ui_object_def)
  then obtain h' where h': "listen ?e ?h = (None, h')" "good (heard_outside h')" "fit (heard_element h')"
    "heard_size h' = cur_size s" "heard_position h' = cur_position s"
    using calm [of ?h ?e] s(1,5,6) sized_nonneg [OF s(4)] by auto
  let ?s = "s\<lparr>resize_history := resize_history s @ [?e]\<rparr>"
  have same: "?s\<lparr>cur_size := cur_size s, cur_position := cur_position s, element := heard_element h', outside := heard_outside h'\<rparr>
      = s\<lparr>resize_history := resize_history s @ [?e], element := heard_element h', outside := heard_outside h'\<rparr>"
    by (cases s) simp
  have "hear_resize listen ?e ?s = (None, s\<lparr>resize_history := resize_history s @ [?e], element := heard_element h', outside := heard_outside h'\<rparr>)"
    using h' same by (simp add: hear_resize_def)
  then have "trigger_resize listen ty s = (None, s\<lparr>resize_history := resize_history s @ [?e], element := heard_element h', outside := heard_outside h'\<rparr>)"
    by (simp add: trigger_resize_def bind_val_def seq_upd)
  then show ?thesis using Q [OF h'(2,3)] by (simp add: wp_def)
qed

lemma sized_object: "sized (cur_size s) (original_size s) \<Longrightarrow> sized (rz_size (ui_object ty s)) (rz_original_size (ui_object ty s))"
  by (simp add: ui_object_def)

lemma start_drags:
  assumes "resize_idle s"
  shows "wp (resize_start listen ev) (\<lambda>t. if answer t then resize_dragging t else resize_idle t) (\<lambda>_. False) s"
proof -
  let ?s = "s\<lparr>resizing := True\<rparr>"
  have p: "plain_options ?s" using assms by (simp add: state_defs)
  let ?t = "remember ev ?s"
  let ?u = "?t\<lparr>body_cursor := (if handle_cursor ?t = ''auto'' then axis_text (axis ?t) @ ''-resize'' else handle_cursor ?t),
       resize_classes := resize_classes ?t @ [''ui-resizable-resizing'']\<rparr>"
  have box: "Fin 0 \<le> el_width (element s)" "Fin 0 \<le> el_height (element s)"
    using assms fit_nonneg [of "element s"] by (simp_all add: state_defs)
  have u: "plain_options ?u" "good (outside ?u)" "fit (element ?u)" "told_sized ?u" "sized (cur_size ?u) (original_size ?u)"
    "element ?u = element s" "resizing ?u" "resize_types ?u = resize_types s" "Fin 0 < aspect_ratio ?u" "settled (cur_position ?u)"
  proof -
    have num: "to_number x \<noteq> NaN" for x by (simp add: to_number_def num_or_def)
    have "Fin 0 < num_or (Fin 1) (x div y)" if "Fin 0 \<le> x" "Fin 0 \<le> y" for x y :: jsnum
    proof -
      have "Fin 0 \<le> x div y \<or> x div y = NaN"
      proof (cases x; cases y)
        fix a b assume xy: "x = Fin a" "y = Fin b"
        then have "0 \<le> a / b" using that by (auto simp: num_defs num_le_def num_eq_def)
        then show ?thesis using xy that mk_nonneg_cases [of "a / b"]
          by (auto simp: num_defs num_le_def num_eq_def inf_of_sign_def sgn_if)
      qed (use that in \<open>auto simp: num_defs num_le_def num_eq_def inf_of_sign_def\<close>)
      then show ?thesis by (auto simp: num_or_def num_defs num_le_def num_eq_def)
    qed
    then show "plain_options ?u" "good (outside ?u)" "fit (element ?u)" "told_sized ?u" "sized (cur_size ?u) (original_size ?u)"
      "element ?u = element s" "resizing ?u" "resize_types ?u = resize_types s" "Fin 0 < aspect_ratio ?u" "settled (cur_position ?u)"
      using assms box num by (simp_all add: remember_def state_defs Let_def sized_refl inner_size_def settled_def start_place_def)
  qed
  have "wp (trigger_resize listen ResizeStart) (wp (block [returns True])
      (\<lambda>t. if answer t then resize_dragging t else resize_idle t) (\<lambda>_. False)) (\<lambda>_. False) ?u"
  proof (rule trigger_resize_wp [OF u(2,1,4,5)])
    show "Fin 0 \<le> el_width (element ?u)" "Fin 0 \<le> el_height (element ?u)" using box u(6) by simp_all
    show "ResizeStart = ResizeMove \<or> fit (element ?u)" using u(3) by simp
    fix b out assume b: "good out" "fit b"
    let ?v = "?u\<lparr>resize_history := resize_history ?u @ [ui_object ResizeStart ?u], element := b, outside := out\<rparr>"
    have "resize_types ?v = resize_types s @ [ResizeStart]" using u(8) by (simp add: resize_types_def ui_object_def)
    then have "resize_dragging (answer_update (\<lambda>_. True) ?v)"
      using u b assms sized_object [OF u(5)]
      by (simp add: resize_dragging_def resize_idle_def calm_state_def plain_options_def told_sized_def
          resize_types_def resize_gesture_append)
    then show "wp (block [returns True]) (\<lambda>t. if answer t then resize_dragging t else resize_idle t) (\<lambda>_. False) ?v"
      by (simp add: wp_block_Cons wp_done returns_def wp_upd del: block.simps)
  qed
  then show ?thesis
    unfolding resize_start_def propagate_start_def
    by (simp only: wp_block_Cons wp_upd wp_done wp_proxy [OF p] wp_plugin [OF u(1)])
qed

lemma drag_respects: "\<exists>d. drag_data ev a s = respect_size s d"
  by (auto simp: drag_data_def Let_def split: prod.splits)

lemma number_the: "is_number v \<Longrightarrow> the v \<noteq> NaN"
  by (auto simp: is_number_def)

lemma finish_drags:
  assumes s: "resize_dragging s"
  shows "wp (finish_drag listen) resize_dragging (\<lambda>_. False) s"
proof (cases "changes s = no_data")
  case True
  have p: "inner_elements s = []" "\<not> uses_helper s" using s by (simp_all add: state_defs)
  then have "s\<lparr>element := element s\<rparr> = s" by simp
  then show ?thesis
    using True s p by (simp add: finish_drag_def wp_simps apply_changes_def update_helper_def proportionally_resize_def)
next
  case False
  let ?t = "s\<lparr>element := set_css (changes s) (element s)\<rparr>"
  let ?u = "?t\<lparr>prev_position := cur_position ?t, prev_size := cur_size ?t\<rparr>"
  have p: "inner_elements s = []" "\<not> uses_helper s" using s by (simp_all add: state_defs)
  have box: "Fin 0 \<le> el_width (element ?u)" "Fin 0 \<le> el_height (element ?u)"
    using set_css_nonneg [of "element s" "changes s"] s fit_nonneg [of "element s"] by (simp_all add: state_defs)
  have u: "good (outside ?u)" "plain_options ?u" "told_sized ?u" "sized (cur_size ?u) (original_size ?u)"
    using s by (simp_all add: state_defs)
  have "wp (trigger_resize listen ResizeMove) (wp (block [bind_val changes apply_changes]) resize_dragging (\<lambda>_. False)) (\<lambda>_. False) ?u"
  proof (rule trigger_resize_wp [OF u box])
    fix b out assume b: "good out" "fit b"
    let ?v = "?u\<lparr>resize_history := resize_history ?u @ [ui_object ResizeMove ?u], element := b, outside := out\<rparr>"
    have v: "resize_dragging ?v"
      using s b sized_object [OF u(4)]
      by (simp add: resize_dragging_def calm_state_def plain_options_def told_sized_def resize_types_def resize_gesture_append)
        (simp add: ui_object_def)
    have "changes ?v = no_data"
      by (rule no_changes [where d = "original_size s"]) (use s in \<open>simp_all add: resize_dragging_def\<close>)
    moreover have "update_helper (set_css no_data) ?v = ?v" using p by (simp add: update_helper_def)
    ultimately show "wp (block [bind_val changes apply_changes]) resize_dragging (\<lambda>_. False) ?v"
      using v by (simp only: wp_block_Cons wp_done wp_bind_val apply_changes_def wp_upd)
  qed simp
  moreover have "update_helper (set_css (changes s)) s = ?t" using p by (simp add: update_helper_def)
  moreover have "wp (guard (\<lambda>s. \<not> uses_helper s) proportionally_resize) Q E ?t = Q ?t" for Q E
    using p by (simp add: wp_guard proportionally_resize_def wp_upd)
  ultimately show ?thesis
    by (simp only: finish_drag_def wp_bind_val [of changes "\<lambda>props. block (K props)" for K] wp_chain wp_done
        apply_changes_def [of "changes s"] wp_upd False if_False update_prev_properties_def)
qed

lemma drag_drags:
  assumes s: "resize_dragging s"
  shows "wp (resize_drag listen ev) resize_dragging (\<lambda>_. False) s"
proof -
  let ?s = "s\<lparr>prev_position := cur_position s, prev_size := cur_size s\<rparr>"
  have r: "wp (block [returns False]) resize_dragging (\<lambda>_. False) t" if "resize_dragging t" for t
  proof -
    have "resize_dragging (answer_update (\<lambda>_. False) t)" using that by (subst resize_cong(2) [of _ t]) simp_all
    then show ?thesis by (simp add: wp_block_Cons wp_done returns_def wp_upd del: block.simps)
  qed
  have s': "resize_dragging ?s" using s by (simp add: state_defs)
  have "wp (case axis ?s of None \<Rightarrow> skip | Some a \<Rightarrow> block
      [update_virtual_boundaries (shift_key ev), bind_val (drag_data ev a) update_cache,
       propagate_resize (shift_key ev), finish_drag listen]) resize_dragging (\<lambda>_. False) ?s"
  proof (cases "axis s")
    case None
    then show ?thesis using s' by (simp add: wp_skip)
  next
    case (Some a)
    have p: "plain_options ?s" "Fin 0 < aspect_ratio ?s" using s' by (simp_all add: state_defs)
    obtain lo where lo: "update_virtual_boundaries (shift_key ev) ?s =
        (None, ?s\<lparr>min_dims := lo, max_dims := \<lparr>wide = PInf, high = PInf\<rparr>\<rparr>)" "Fin 10 \<le> wide lo" "Fin 10 \<le> high lo"
      using boundaries_wp [OF p] by blast
    let ?t = "?s\<lparr>min_dims := lo, max_dims := \<lparr>wide = PInf, high = PInf\<rparr>\<rparr>"
    let ?d = "drag_data ev a ?t"
    have lim: "limited ?t" using lo by (simp add: limited_def)
    have big: "is_number (d_width ?d) \<Longrightarrow> Fin 10 \<le> the (d_width ?d)" "is_number (d_height ?d) \<Longrightarrow> Fin 10 \<le> the (d_height ?d)"
      using respect_grown [OF lim] drag_respects [of ev a ?t] by auto
    have fin: "wp (finish_drag listen) resize_dragging (\<lambda>_. False) (?t\<lparr>cur_offset := o',
        cur_position := \<lparr>at_left = (if is_number (d_left ?d) then the (d_left ?d) else at_left (cur_position ?t)),
          at_top = (if is_number (d_top ?d) then the (d_top ?d) else at_top (cur_position ?t))\<rparr>,
        cur_size := \<lparr>wide = (if is_number (d_width ?d) then the (d_width ?d) else wide (cur_size ?t)),
          high = (if is_number (d_height ?d) then the (d_height ?d) else high (cur_size ?t))\<rparr>\<rparr>)" (is "wp _ _ _ ?u") for o'
      by (rule finish_drags)
         (use s' big in \<open>simp add: state_defs sized_def grown_def settled_def number_the\<close>)
    have plain: "plain_options (?t\<lparr>cur_offset := x, cur_position := y, cur_size := z\<rparr>)" for x y z
      using p(1) by (simp add: plain_options_def)
    have "wp (bind_val (drag_data ev a) update_cache) (wp (propagate_resize (shift_key ev))
        (wp (finish_drag listen) resize_dragging (\<lambda>_. False)) (\<lambda>_. False)) (\<lambda>_. False) ?t"
      unfolding wp_bind_val update_cache_def wp_upd propagate_resize_def wp_plugin [OF plain] by (rule fin)
    moreover have "wp (update_virtual_boundaries (shift_key ev)) Q E ?s = Q ?t" for Q E
      using lo(1) by (simp add: wp_def)
    moreover have "axis ?s = Some a" using Some by simp
    ultimately show ?thesis by (simp only: option.case wp_chain wp_done)
  qed
  then have "wp (case axis ?s of None \<Rightarrow> skip | Some a \<Rightarrow> block
      [update_virtual_boundaries (shift_key ev), bind_val (drag_data ev a) update_cache,
       propagate_resize (shift_key ev), finish_drag listen]) (wp (block [returns False]) resize_dragging (\<lambda>_. False)) (\<lambda>_. False) ?s"
    by (rule wp_mono) (auto intro: r simp del: block.simps)
  then show ?thesis
    by (simp only: resize_drag_def update_prev_properties_def wp_block_Cons [of "upd f" for f]
        wp_block_Cons [of "bind_val axis f" for f] wp_upd wp_bind_val [of axis])
qed

lemma stop_idle:
  assumes s: "resize_dragging s"
  shows "wp (resize_stop listen ev) resize_idle (\<lambda>_. False) s"
proof -
  let ?t = "s\<lparr>resizing := False\<rparr>\<lparr>body_cursor := ''auto'',
    resize_classes := filter (\<lambda>c. c \<noteq> ''ui-resizable-resizing'') (resize_classes (s\<lparr>resizing := False\<rparr>))\<rparr>"
  have t: "good (outside ?t)" "plain_options ?t" "told_sized ?t" "sized (cur_size ?t) (original_size ?t)" "fit (element ?t)"
    using s by (simp_all add: state_defs)
  then have box: "Fin 0 \<le> el_width (element ?t)" "Fin 0 \<le> el_height (element ?t)"
    using fit_nonneg by blast+
  have "wp (trigger_resize listen ResizeStop) (wp (block [returns False]) resize_idle (\<lambda>_. False)) (\<lambda>_. False) ?t"
  proof (rule trigger_resize_wp [OF t(1-4) box])
    show "ResizeStop = ResizeMove \<or> fit (element ?t)" using t(5) by simp
    fix b out assume b: "good out" "fit b"
    let ?u = "?t\<lparr>resize_history := resize_history ?t @ [ui_object ResizeStop ?t], element := b, outside := out\<rparr>"
    have "resize_types ?u = resize_types s @ [ResizeStop]" by (simp add: resize_types_def ui_object_def)
    then have "resize_idle (answer_update (\<lambda>_. False) ?u)"
      using s b sized_object [OF t(4)]
      by (simp add: resize_idle_def resize_dragging_def calm_state_def plain_options_def told_sized_def resize_types_def
          resize_gesture_append)
    then show "wp (block [returns False]) resize_idle (\<lambda>_. False) ?u"
      by (simp add: wp_block_Cons wp_done returns_def wp_upd del: block.simps)
  qed
  moreover have "wp (guard uses_helper m) Q E (s\<lparr>resizing := False\<rparr>) = Q (s\<lparr>resizing := False\<rparr>)" for m Q E
    using s by (simp add: wp_guard state_defs)
  ultimately show ?thesis
    by (simp only: resize_stop_def propagate_stop_def wp_chain wp_done wp_upd wp_plugin [OF t(2)])
qed

lemma capture_idle:
  assumes "resize_idle s"
  shows "wp (resize_capture ev) (\<lambda>t. if answer t then resize_idle t else resize_idle t) (\<lambda>_. False) s"
proof -
  have "resize_idle (answer_update f s)" for f using assms by (subst resize_cong(1) [of _ s]) simp_all
  then show ?thesis by (simp add: resize_capture_def wp_bind_val returns_def wp_upd)
qed

end

section \<open>What the widget leaves alone of the base widget\<close>

lemma contain_view:
  "mouse_view (snd (contain_left p c s)) = mouse_view s" "mouse_view (snd (contain_top p s)) = mouse_view s"
  "mouse_view (snd (contain_right p c s)) = mouse_view s" "mouse_view (snd (contain_bottom p c s)) = mouse_view s"
  "mouse_view (contain_offset k s) = mouse_view s"
  by (simp_all add: contain_left_def contain_top_def contain_right_def contain_bottom_def contain_offset_def Let_def mouse_view_def)

lemma containment_frame: "keeps mouse_view containment_start" "keeps mouse_view (containment_resize b)" "keeps mouse_view containment_stop"
proof -
  show "keeps mouse_view containment_start" "keeps mouse_view containment_stop"
    unfolding containment_start_def containment_stop_def
    by (rule keeps_upd; simp add: mouse_view_def split: option.split)+
  show "keeps mouse_view (containment_resize b)"
    unfolding containment_resize_def
  proof (rule keeps_upd)
    fix s :: "'e resizable"
    have restored: "mouse_view (t\<lparr>cur_position := p, cur_size := q\<rparr>) = mouse_view t" for t :: "'e resizable" and p q
      by (simp add: mouse_view_def)
    show "mouse_view (case opt_containment s of None \<Rightarrow> s | Some c \<Rightarrow>
       let p_ratio = keep_ratio s \<or> b;
         cop = (if \<not> is_document c \<and> is_static c then container_offset s else \<lparr>at_left = Fin 0, at_top = Fin 0\<rparr>);
         (on1, s1) = contain_left p_ratio cop s;
         (on2, s2) = contain_top p_ratio s1;
         (on3, s3) = contain_right p_ratio cop (contain_offset c s2);
         (on4, s4) = contain_bottom p_ratio cop s3
       in if on1 \<and> on2 \<and> on3 \<and> on4 then s4
          else s4\<lparr>cur_position := prev_position s4, cur_size := prev_size s4\<rparr>) = mouse_view s"
      by (cases "opt_containment s") (simp_all add: Let_def split_beta restored contain_view)
  qed
qed

lemma extension_frame:
  "keeps mouse_view also_resize_start" "keeps mouse_view also_resize" "keeps mouse_view ghost_start"
  "keeps mouse_view ghost_resize" "keeps mouse_view ghost_stop" "keeps mouse_view animate_stop"
  unfolding also_resize_start_def also_resize_def ghost_start_def ghost_resize_def ghost_stop_def animate_stop_def Let_def
  by (intro frame_intro keeps_upd; simp add: mouse_view_def)+

lemma grid_frame: "keeps mouse_view grid_resize"
  unfolding grid_resize_def grid_apply_def grid_height_def grid_width_def Let_def
  by (intro frame_intro keeps_upd; simp add: mouse_view_def)

lemma plugin_frame [frame_intro]: "keeps mouse_view (plugin_call shift ev)"
proof -
  have each: "\<forall>p \<in> set (plugins shift ev). keeps mouse_view (snd p)"
    by (cases ev) (simp_all add: containment_frame extension_frame grid_frame)
  have "keeps mouse_view (for_each hs (\<lambda>(on, h). guard on h))" if "\<forall>p \<in> set hs. keeps mouse_view (snd p)" for hs :: "(_ \<times> 'e resizable stmt) list"
    using that by (induction hs) (auto intro!: frame_intro)
  then show ?thesis unfolding plugin_call_def using each by (intro keeps_guard) blast
qed

lemma resize_event_frame [frame_intro]: "keeps mouse_view (trigger_resize listen ty)" "keeps mouse_view proportionally_resize"
proof -
  have "keeps mouse_view (hear_resize listen e)" for e
    by (auto simp: keeps_def hear_resize_def mouse_view_def split: prod.splits)
  then show "keeps mouse_view (trigger_resize listen ty)"
    unfolding trigger_resize_def by (intro frame_intro keeps_upd; simp add: mouse_view_def)
  show "keeps mouse_view proportionally_resize"
    unfolding proportionally_resize_def by (rule keeps_upd) (simp add: mouse_view_def Let_def split: list.split)
qed

lemma resizable_frame:
  "keeps mouse_view (resize_capture ev)" "keeps mouse_view (resize_start listen ev)"
  "keeps mouse_view (resize_drag listen ev)" "keeps mouse_view (resize_stop listen ev)"
  unfolding resize_capture_def resize_start_def resize_drag_def resize_stop_def returns_def propagate_start_def propagate_resize_def
    propagate_stop_def update_prev_properties_def update_virtual_boundaries_def update_cache_def finish_drag_def
    apply_changes_def render_proxy_def
  by (intro frame_intro keeps_upd; simp add: mouse_view_def remember_def update_helper_def Let_def)+

sublocale resizable_client \<subseteq> mouse_client "resizable_mouse listen" resize_idle resize_idle resize_dragging
proof
  fix s t :: "'e resizable" and ev
  show "mouse.more s = mouse.more t \<Longrightarrow> distance s = distance t \<Longrightarrow> delay s = delay t \<Longrightarrow>
      resize_idle s = resize_idle t \<and> resize_idle s = resize_idle t \<and> resize_dragging s = resize_dragging t"
    using resize_cong [of s t] by simp
  show "resize_idle s \<Longrightarrow> wp (capture (resizable_mouse listen) ev) (\<lambda>t. if answer t then resize_idle t else resize_idle t) (\<lambda>_. False) s"
    by (simp only: resizable_mouse_def mouse_ops.simps capture_idle)
  show "resize_idle s \<Longrightarrow> wp (start (resizable_mouse listen) ev) (\<lambda>t. if answer t then resize_dragging t else resize_idle t) (\<lambda>_. False) s"
    by (simp only: resizable_mouse_def mouse_ops.simps start_drags)
  show "resize_dragging s \<Longrightarrow> resize_dragging (snd (drag (resizable_mouse listen) ev s))"
    using wp_normal [OF drag_drags [of s ev]] by (auto simp: resizable_mouse_def)
  show "resize_dragging s \<Longrightarrow> resize_idle (snd (stop (resizable_mouse listen) ev s))"
    using wp_normal [OF stop_idle [of s ev]] by (auto simp: resizable_mouse_def)
qed (simp_all add: resizable_mouse_def resizable_frame)

context resizable_client
begin

text \<open>The inputs of the terminal: the mouse on the handles, and over the element.\<close>

fun terminal_input :: "resizable_input \<Rightarrow> bool" where
  "terminal_input (ResizeMouse i) = finite_input i"
| "terminal_input (OverHandle name) = True"
| "terminal_input EnterElement = True"
| "terminal_input LeaveElement = True"
| "terminal_input _ = False"

lemma protocol_upd:
  assumes "\<And>s. mouse_view (f s) = mouse_view s" "\<And>s. resize_idle (f s) = resize_idle s"
    "\<And>s. resize_dragging (f s) = resize_dragging s" "protocol s"
  shows "protocol (f s)"
  using assms(1) [of s] assms(2,3) [of s] assms(4) by (simp add: protocol_def mouse_view_def)

lemma resizable_step: "terminal_input i \<Longrightarrow> protocol s \<Longrightarrow> protocol (snd (resizable_handler listen i s))"
proof (cases i)
  case (ResizeMouse j)
  then show "terminal_input i \<Longrightarrow> protocol s \<Longrightarrow> ?thesis" by (simp add: protocol_step)
next
  case (OverHandle name)
  have "protocol s \<Longrightarrow> protocol (axis_update (\<lambda>_. Some (axis_of name)) s)"
    by (rule protocol_upd; simp add: mouse_view_def state_defs)
  then show "protocol s \<Longrightarrow> ?thesis" using OverHandle by (simp add: over_handle_def stmt_simps)
next
  case EnterElement
  have "protocol s \<Longrightarrow> protocol (s\<lparr>handles_shown := True,
     resize_classes := filter (\<lambda>c. c \<noteq> ''ui-resizable-autohide'') (resize_classes s)\<rparr>)"
    by (rule protocol_upd; simp add: mouse_view_def state_defs)
  then show "protocol s \<Longrightarrow> ?thesis" using EnterElement by (simp add: enter_element_def stmt_simps)
next
  case LeaveElement
  have "protocol s \<Longrightarrow> protocol (s\<lparr>handles_shown := False, resize_classes := resize_classes s @ [''ui-resizable-autohide'']\<rparr>)"
    by (rule protocol_upd; simp add: mouse_view_def state_defs)
  then show "protocol s \<Longrightarrow> ?thesis" using LeaveElement by (simp add: leave_element_def stmt_simps)
qed simp_all

end

sublocale resizable_client \<subseteq> resizing_loop: event_loop "resizable_handler listen" terminal_input protocol
  by unfold_locales (rule resizable_step)

end
