(* ===== verification/UI_Terminal.thy ===== *)
theory UI_Terminal
  imports UI_Resizable_Props Reader_Props
begin

text \<open>
  The terminal element as the user sizes it (\<open>build_reader\<close> of \<open>html/js/terminal_reader.js\<close>): the
  resizable widget on it, with the reader behind it. Both set the style of the same element: the
  widget the size of the drag, the reader the size that fits into the window.
\<close>

section \<open>The widget and the reader\<close>

text \<open>The reader runs on the element as it is, and what it sets is the element's style.\<close>

definition reader_sees :: "css_box \<Rightarrow> tr \<Rightarrow> tr" where
  "reader_sees b r = r\<lparr>terminal_width := el_width b, terminal_height := el_height b\<rparr>"

definition element_of :: "tr \<Rightarrow> css_box \<Rightarrow> css_box" where
  "element_of r b = b\<lparr>el_width := terminal_width r, el_height := terminal_height r\<rparr>"

text \<open>The callback \<open>resize\<close> that \<open>build_reader\<close> passes.\<close>

definition terminal_listener :: "tr resize_listener" where
  "terminal_listener e h = (case rz_type e of
       ResizeMove \<Rightarrow>
         (case control_handler (ResizeDrag (wide (heard_size h)) (high (heard_size h)))
            (reader_sees (heard_element h) (heard_outside h)) of
          (x, r) \<Rightarrow> (x, h\<lparr>heard_outside := r, heard_element := element_of r (heard_element h)\<rparr>))
     | _ \<Rightarrow> (None, h))"

datatype terminal_event =
    OnTerminal resizable_input   \<comment> \<open>the user, at the element\<close>
  | OnReader reader_call
  | OnWindow int int              \<comment> \<open>the new width and height of the window\<close>

definition run_reader :: "tr stmt \<Rightarrow> tr resizable stmt" where
  "run_reader m s = (case m (reader_sees (element s) (outside s)) of
     (x, r) \<Rightarrow> (x, s\<lparr>outside := r, element := element_of r (element s)\<rparr>))"

text \<open>
  The live page does not listen to the size of the window: the reader reads it when it is asked to
  resize the terminal, and only then.
\<close>

fun terminal_handler :: "terminal_event \<Rightarrow> tr resizable stmt" where
  "terminal_handler (OnTerminal i) = resizable_handler terminal_listener i"
| "terminal_handler (OnReader c) = run_reader (reader_handler c)"
| "terminal_handler (OnWindow x y) = upd (\<lambda>s. s\<lparr>outside := (outside s)\<lparr>win_width := num_of_int x, win_height := num_of_int y\<rparr>\<rparr>)"

text \<open>The widget as \<open>build_reader\<close> creates it, the options it does not set at their defaults.\<close>

definition new_resizable :: "css_box \<Rightarrow> (css_box \<Rightarrow> place) \<Rightarrow> (nat \<Rightarrow> nat set) \<Rightarrow> string \<Rightarrow> nat \<Rightarrow> tr \<Rightarrow> tr resizable" where
  "new_resizable b layout below cursor first r = (let nowhere = \<lparr>at_left = Fin 0, at_top = Fin 0\<rparr>; none = \<lparr>wide = Fin 0, high = Fin 0\<rparr> in
   \<lparr>distance = Fin 1, delay = Fin 0, started = False, mouse_moved = False,
     down_event = None, delay_met = False, delay_state = NoTimer, ignore_missing_which = False, bound = False,
     mouse_handled = False, click_blocked = {}, prevented = False, old_ie = False, answer = False,
     opt_also_resize = False, opt_animate = False, opt_aspect_ratio = NoAspect, opt_auto_hide = False,
     opt_containment = None, opt_ghost = False, opt_grid = None, opt_handles = ''e,s,se'', opt_helper = False,
     opt_max_height = None, opt_max_width = None, opt_min_height = Some (Fin 10), opt_min_width = Some (Fin 10),
     opt_disabled = False, keep_ratio = False, aspect_ratio = Fin 1, uses_helper = False, handle_ids = [],
     added_handles = [], next_element = first, below_handle = below, handles_shown = False, axis = None, resizing = False,
     cur_offset = nowhere, cur_position = nowhere, cur_size = none, original_position = nowhere, original_size = none,
     original_mouse = nowhere, size_diff = none, prev_position = nowhere, prev_size = none, min_dims = none, max_dims = none,
     element = b, helper = b, inner_elements = [], wrapper_padding = [], handle_size = (\<lambda>_. none), outer_dims = None, also_elements = [], ghost_box = None,
     parent_data = (nowhere, none), container_offset = nowhere, animations = [], page_offset = layout,
     handle_cursor = cursor, body_cursor = ''auto'', connected = True, resize_classes = [], resize_history = [], outside = r\<rparr>)"

definition new_terminal :: "css_box \<Rightarrow> (css_box \<Rightarrow> place) \<Rightarrow> (nat \<Rightarrow> nat set) \<Rightarrow> string \<Rightarrow> nat \<Rightarrow> tr \<Rightarrow> tr resizable" where
  "new_terminal b layout below cursor first r = snd (create_resizable None (new_resizable b layout below cursor first r))"

section \<open>The reader keeps the terminal in the window\<close>

definition windowed :: "int \<Rightarrow> int \<Rightarrow> tr \<Rightarrow> bool" where
  "windowed ww wh r \<longleftrightarrow> win_width r = num_of_int ww \<and> win_height r = num_of_int wh \<and> 10 \<le> ww \<and> 160 \<le> wh \<and>
     ww < 2 ^ 31 \<and> wh < 2 ^ 31"

text \<open>The reader leaves 10 pixels of the width of the window and 160 of its height.\<close>

definition fits :: "int \<Rightarrow> int \<Rightarrow> jsnum \<Rightarrow> jsnum \<Rightarrow> bool" where
  "fits ww wh x y \<longleftrightarrow> (\<exists>w h. x = Fin w \<and> y = Fin h \<and> 0 \<le> w \<and> w \<le> of_int (ww - 10) \<and> 0 \<le> h \<and> h \<le> of_int (wh - 160))"

text \<open>A window that is no larger than it has been at most.\<close>

definition roomy :: "int \<Rightarrow> int \<Rightarrow> tr \<Rightarrow> bool" where
  "roomy ww wh r \<longleftrightarrow> (\<exists>x y. windowed x y r \<and> x \<le> ww \<and> y \<le> wh)"

definition fits_window :: "int \<Rightarrow> int \<Rightarrow> tr \<Rightarrow> bool" where
  "fits_window ww wh r \<longleftrightarrow> roomy ww wh r \<and> fits ww wh (terminal_width r) (terminal_height r)"

lemma windowed_roomy: "windowed x y r \<Longrightarrow> x \<le> ww \<Longrightarrow> y \<le> wh \<Longrightarrow> roomy ww wh r"
  by (auto simp: roomy_def)

lemma roomy_cong: "win_width r = win_width t \<Longrightarrow> win_height r = win_height t \<Longrightarrow> roomy ww wh r = roomy ww wh t"
  by (simp add: roomy_def windowed_def)

lemma fits_mono: "fits x y w h \<Longrightarrow> x \<le> ww \<Longrightarrow> y \<le> wh \<Longrightarrow> fits ww wh w h"
proof -
  assume "fits x y w h" and le: "x \<le> ww" "y \<le> wh"
  then obtain i j where "w = Fin i" "h = Fin j" "0 \<le> i" "0 \<le> j" "i \<le> of_int (x - 10)" "j \<le> of_int (y - 160)" by (auto simp: fits_def)
  moreover have "(of_int (x - 10) :: rat) \<le> of_int (ww - 10)" "(of_int (y - 160) :: rat) \<le> of_int (wh - 160)"
    using le by (simp_all only: of_int_le_iff)
  ultimately show ?thesis by (simp add: fits_def)
qed

definition frame_view :: "tr \<Rightarrow> _" where
  "frame_view r = (terminal_width r, terminal_height r, win_width r, win_height r)"

lemma css_px_limited:
  assumes "Fin 0 \<le> w \<or> (\<exists>x. old = Fin x \<and> 0 \<le> x \<and> x \<le> of_int m)" "0 \<le> n" "n \<le> m"
  shows "\<exists>x. css_px (math_min w (num_of_int n)) old = Fin x \<and> 0 \<le> x \<and> x \<le> of_int m"
proof -
  have m: "(0::rat) \<le> of_int n" "(of_int n :: rat) \<le> of_int m" using assms(2,3) by simp_all
  show ?thesis
  proof (cases w)
    case (Fin q)
    then show ?thesis using assms m
      by (auto simp: math_min_def css_px_def num_defs num_le_def num_eq_def)
  qed (use assms m in \<open>auto simp: math_min_def css_px_def num_defs num_le_def num_eq_def\<close>)
qed

lemma resize_fits:
  assumes r: "roomy ww wh r"
    and wh: "Fin 0 \<le> w \<and> Fin 0 \<le> h \<or> fits ww wh (terminal_width r) (terminal_height r)"
  shows "\<exists>t. resize_by_pixels w h r = (None, t) \<and> fits_window ww wh t"
proof -
  obtain i j where ij: "windowed i j r" "i \<le> ww" "j \<le> wh" using r by (auto simp: roomy_def)
  have max: "max_terminal_width r = num_of_int (i - 10)" "max_terminal_height r = num_of_int (j - 160)"
    using ij(1) mk_of_int [of "i - 10"] mk_of_int [of "j - 160"]
    by (simp_all add: windowed_def max_terminal_width_def max_terminal_height_def num_defs)
  have room: "0 \<le> i - 10" "i - 10 \<le> ww - 10" "0 \<le> j - 160" "j - 160 \<le> wh - 160" using ij by (simp_all add: windowed_def)
  obtain x where x: "css_px (math_min w (num_of_int (i - 10))) (terminal_width r) = Fin x" "0 \<le> x" "x \<le> of_int (ww - 10)"
    using css_px_limited [of w "terminal_width r" "ww - 10" "i - 10"] room wh unfolding fits_def by blast
  obtain y where y: "css_px (math_min h (num_of_int (j - 160))) (terminal_height r) = Fin y" "0 \<le> y" "y \<le> of_int (wh - 160)"
    using css_px_limited [of h "terminal_height r" "wh - 160" "j - 160"] room wh unfolding fits_def by blast
  have fit: "frame_view (snd (fit_terminal s)) = frame_view s" for s
    by (simp add: fit_terminal_def frame_view_def seq_def stmt_simps update_col_width_def update_col_height_def split: prod.splits)
  have same: "roomy ww wh t" if "win_width t = win_width r" "win_height t = win_height r" for t
    using r roomy_cong [OF that] by blast
  have "wp (resize_by_pixels w h) (fits_window ww wh) (\<lambda>_. False) r"
    unfolding resize_by_pixels_def wp_simps max
    using fit same x y wp_total [OF fit_terminal_total]
    by (simp add: frame_view_def fits_window_def fits_def)
  from wp_normal [OF this] show ?thesis by blast
qed


named_theorems fits_intro "methods that keep the terminal in the window"

abbreviation fitting :: "int \<Rightarrow> int \<Rightarrow> tr stmt \<Rightarrow> bool" where
  "fitting ww wh \<equiv> preserves (fits_window ww wh)"

lemmas [fits_intro] = pres_intro pres_cases

lemma fitting_upd: "(\<And>r. frame_view (f r) = frame_view r) \<Longrightarrow> fitting ww wh (upd f)"
  by (rule preserves_upd) (simp add: frame_view_def fits_window_def roomy_def windowed_def)

lemma fitting_resize [fits_intro]: "fitting ww wh (resize_by_pixels w h)"
proof (rule preservesI)
  fix r assume "fits_window ww wh r"
  then have "roomy ww wh r" "fits ww wh (terminal_width r) (terminal_height r)" by (simp_all add: fits_window_def)
  then show "fits_window ww wh (snd (resize_by_pixels w h r))" using resize_fits [of ww wh r w h] by auto
qed

lemma fitting_parts [fits_intro]:
  "fitting ww wh (resize rws cls)" "fitting ww wh refresh_statusbar" "fitting ww wh (reset_timeout b)"
  "fitting ww wh (start_timer_for_next_event d)" "fitting ww wh (update_speed v)" "fitting ww wh update_controlbar_status"
  "fitting ww wh show_pause" "fitting ww wh show_play" "fitting ww wh (update_session obj)"
  "fitting ww wh set_session_mode_live" "fitting ww wh reset_session" "fitting ww wh allow_resize"
  "fitting ww wh disable_resize" "fitting ww wh clear_buffers" "fitting ww wh clear_events" "fitting ww wh (load_events evs)"
  unfolding resize_def refresh_statusbar_def reset_timeout_def start_timer_for_next_event_def start_process_timer_def
    update_speed_def update_controlbar_status_def show_pause_def show_play_def update_session_def set_session_mode_live_def
    reset_session_def allow_resize_def disable_resize_def clear_buffers_def clear_events_def load_events_def Let_def
  by (intro fits_intro fitting_upd; simp add: frame_view_def set_timeout_def)+

lemma fitting_play [fits_intro]:
  "fitting ww wh pause" "fitting ww wh play" "fitting ww wh set_session_mode_disconnected"
  unfolding pause_def play_def resume_with_new_delay_def set_session_mode_disconnected_def
  by (intro fits_intro fitting_upd; simp add: frame_view_def)+

lemma fitting_speed [fits_intro]:
  "fitting ww wh toggle_play_pause" "fitting ww wh (increase_speed a)" "fitting ww wh (decrease_speed a)"
  unfolding toggle_play_pause_def increase_speed_def decrease_speed_def change_speed_to_new_val_def
  by (intro fits_intro fitting_upd; simp add: frame_view_def)+

lemma fitting_callback [fits_intro]: "fitting ww wh (run_callback cb)"
  by (induction cb) (auto intro!: fits_intro fitting_upd simp: frame_view_def set_timeout_def)

lemma fitting_write [fits_intro]: "fitting ww wh (write_buffers cb b)"
  unfolding write_buffers_def write_keystroke_buffer_def write_terminal_buffer_def Let_def
  by (intro fits_intro fitting_upd) (simp_all add: frame_view_def)

lemma fitting_action [fits_intro]: "fitting ww wh (action_event i)"
  unfolding action_event_def
  by (intro fits_intro fitting_upd) (simp_all add: frame_view_def delete_type_def)

lemma fitting_move [fits_intro]: "fitting ww wh (move_to_event e b)"
  unfolding move_to_event_def Let_def by (intro fits_intro fitting_upd) (simp_all add: frame_view_def)

lemma fitting_process [fits_intro]: "fitting ww wh (process_next_event cb)" "fitting ww wh next_event" "fitting ww wh prev"
  unfolding process_next_event_def next_event_def prev_def Let_def
  by (intro fits_intro fitting_upd; simp add: frame_view_def)+

lemma fitting_reset [fits_intro]: "fitting ww wh (reset b)"
  unfolding reset_def by (intro fits_intro fitting_upd) (simp_all add: frame_view_def)

lemma fitting_fire [fits_intro]: "fitting ww wh fire_first"
proof -
  have "fitting ww wh (run_job j)" for j
    by (cases j) (auto intro!: fits_intro fitting_upd simp: frame_view_def)
  then show ?thesis unfolding fire_first_def
    by (intro fits_intro fitting_upd) (simp_all add: frame_view_def remove_timer_def)
qed

lemma fitting_reader: "fitting ww wh (reader_handler c)"
proof -
  have "fitting ww wh (control_handler k)" for k
    by (cases k) (auto intro!: fits_intro)
  then show ?thesis by (cases c) (auto intro!: fits_intro)
qed


section \<open>The reader is a client of the resizable widget\<close>

interpretation sizing: resizable_client terminal_listener "roomy ww wh" "\<lambda>b. fits ww wh (el_width b) (el_height b)"
  for ww wh
proof
  fix h :: "tr heard" and e :: resize_event
  assume h: "roomy ww wh (heard_outside h)" "Fin 0 \<le> wide (heard_size h)" "Fin 0 \<le> high (heard_size h)"
    "rz_type e = ResizeMove \<or> fits ww wh (el_width (heard_element h)) (el_height (heard_element h))"
  show "\<exists>h'. terminal_listener e h = (None, h') \<and> roomy ww wh (heard_outside h') \<and>
      fits ww wh (el_width (heard_element h')) (el_height (heard_element h')) \<and>
      heard_size h' = heard_size h \<and> heard_position h' = heard_position h"
  proof (cases "rz_type e = ResizeMove")
    case True
    let ?r = "reader_sees (heard_element h) (heard_outside h)"
    have "roomy ww wh ?r" using h(1) by (simp add: roomy_def windowed_def reader_sees_def)
    then obtain t where t: "resize_by_pixels (wide (heard_size h)) (high (heard_size h)) ?r = (None, t)" "fits_window ww wh t"
      using resize_fits [of ww wh ?r "wide (heard_size h)" "high (heard_size h)"] h(2,3) by blast
    show ?thesis
      by (rule exI [of _ "h\<lparr>heard_outside := t, heard_element := element_of t (heard_element h)\<rparr>"])
         (use True t in \<open>simp add: terminal_listener_def fits_window_def element_of_def\<close>)
  next
    case False
    then have "terminal_listener e h = (None, h)" by (cases "rz_type e") (simp_all add: terminal_listener_def)
    then show ?thesis using h False by auto
  qed
next
  fix b :: css_box
  assume "fits ww wh (el_width b) (el_height b)"
  then show "Fin 0 \<le> el_width b \<and> Fin 0 \<le> el_height b"
    by (auto simp: fits_def num_defs num_le_def num_eq_def)
qed

section \<open>Every run of the terminal\<close>

fun terminal_admissible :: "terminal_event \<Rightarrow> bool" where
  "terminal_admissible (OnTerminal i) \<longleftrightarrow> sizing.terminal_input i"
| "terminal_admissible (OnReader c) \<longleftrightarrow> True"
| "terminal_admissible (OnWindow x y) \<longleftrightarrow> 10 \<le> x \<and> x < 2 ^ 31 \<and> 160 \<le> y \<and> y < 2 ^ 31"

text \<open>The sizes that the window has in a run.\<close>

fun window_of :: "terminal_event \<Rightarrow> (int \<times> int) list" where
  "window_of (OnWindow x y) = [(x, y)]"
| "window_of _ = []"

definition windows :: "int \<Rightarrow> int \<Rightarrow> terminal_event list \<Rightarrow> (int \<times> int) list" where
  "windows ww wh es = (ww, wh) # concat (map window_of es)"

definition within_window :: "int \<Rightarrow> int \<Rightarrow> terminal_event \<Rightarrow> bool" where
  "within_window ww wh e \<longleftrightarrow> terminal_admissible e \<and> list_all (\<lambda>(x, y). x \<le> ww \<and> y \<le> wh) (window_of e)"

lemma reader_protocol:
  assumes "sizing.protocol ww wh s" "roomy ww wh r" "fits ww wh (el_width b) (el_height b)"
  shows "sizing.protocol ww wh (s\<lparr>outside := r, element := b\<rparr>)"
proof -
  have "sizing.resize_idle ww wh s \<Longrightarrow> sizing.resize_idle ww wh (s\<lparr>outside := r, element := b\<rparr>)"
    "sizing.resize_dragging ww wh s \<Longrightarrow> sizing.resize_dragging ww wh (s\<lparr>outside := r, element := b\<rparr>)"
    using assms(2,3) by (simp_all add: sizing.state_defs)
  then show ?thesis using assms(1) by (simp add: sizing.protocol_def split: if_splits)
qed

lemma protocol_state:
  assumes "sizing.protocol ww wh s"
  shows "roomy ww wh (outside s)" "fits ww wh (el_width (element s)) (el_height (element s))" "told_sized s"
    "resize_gesture False (resize_types s) = Some (started s)"
  using assms by (auto simp: sizing.protocol_def sizing.resize_idle_def sizing.resize_dragging_def sizing.calm_state_def
      split: if_splits)

lemma terminal_step:
  assumes "within_window ww wh e" "sizing.protocol ww wh s"
  shows "sizing.protocol ww wh (snd (terminal_handler e s))"
proof (cases e)
  case (OnTerminal i)
  then show ?thesis using assms sizing.resizable_step by (simp add: within_window_def)
next
  case (OnReader c)
  note s = protocol_state [OF assms(2)]
  let ?r = "reader_sees (element s) (outside s)"
  have "fits_window ww wh ?r" using s(1,2) by (simp add: fits_window_def roomy_def windowed_def reader_sees_def)
  then have t: "fits_window ww wh (snd (reader_handler c ?r))" by (rule preservesD [OF fitting_reader])
  then have "sizing.protocol ww wh (s\<lparr>outside := snd (reader_handler c ?r),
      element := element_of (snd (reader_handler c ?r)) (element s)\<rparr>)"
    by (intro reader_protocol [OF assms(2)]) (simp_all add: fits_window_def element_of_def)
  then show ?thesis using OnReader by (simp add: run_reader_def split_beta)
next
  case (OnWindow x y)
  let ?r = "(outside s)\<lparr>win_width := num_of_int x, win_height := num_of_int y\<rparr>"
  have "roomy ww wh ?r"
    using assms(1) by (intro windowed_roomy [of x y]) (simp_all add: OnWindow within_window_def windowed_def)
  from reader_protocol [OF assms(2) this protocol_state(2) [OF assms(2)]] show ?thesis
    by (simp add: OnWindow upd_def)
qed

interpretation sized_terminal: event_loop terminal_handler "within_window ww wh" "sizing.protocol ww wh" for ww wh
  by unfold_locales (rule terminal_step)

definition creation_view :: "'e resizable \<Rightarrow> _" where
  "creation_view s = (opt_auto_hide s, opt_helper s, opt_ghost s, opt_animate s, inner_elements s)"

lemma handle_kept:
  "mouse_view (add_handle n s) = mouse_view s \<and> sizing.resize_idle ww wh (add_handle n s) = sizing.resize_idle ww wh s \<and>
   creation_view (add_handle n s) = creation_view s"
  by (simp add: add_handle_def mouse_view_def creation_view_def sizing.state_defs)

lemma handles_kept:
  "mouse_view (fold add_handle ns s) = mouse_view s \<and>
   sizing.resize_idle ww wh (fold add_handle ns s) = sizing.resize_idle ww wh s \<and>
   creation_view (fold add_handle ns s) = creation_view s"
  by (induction ns arbitrary: s) (simp_all add: handle_kept)

lemma no_wrapper: "inner_elements u = [] \<Longrightarrow> wp render_axis Q E u = Q u"
proof -
  assume "inner_elements u = []"
  then have "for_each hs (\<lambda>(name, _). render_handle name) u = (None, u)" for hs :: "(string \<times> nat) list"
    by (induction hs) (auto simp: stmt_simps seq_def render_handle_def)
  then show ?thesis by (simp add: render_axis_def wp_def stmt_simps)
qed

lemma creation_idle:
  "sizing.resize_idle ww wh (u\<lparr>handles_shown := b\<rparr>) = sizing.resize_idle ww wh u"
  "sizing.resize_idle ww wh (u\<lparr>started := False, bound := False\<rparr>) = sizing.resize_idle ww wh u"
  "sizing.resize_idle ww wh u \<Longrightarrow> sizing.resize_idle ww wh (u\<lparr>uses_helper := False\<rparr>)"
  "sizing.resize_idle ww wh (u\<lparr>added_handles := hs\<rparr>) = sizing.resize_idle ww wh u"
  "sizing.resize_idle ww wh u \<Longrightarrow>
    sizing.resize_idle ww wh (u\<lparr>resize_classes := c, keep_ratio := False, inner_elements := [], uses_helper := False\<rparr>)"
  by (simp_all add: sizing.state_defs)

lemma created_idle:
  assumes "sizing.resize_idle ww wh u" "creation_view u = (False, False, False, False, [])" "opt_aspect_ratio u = NoAspect"
    "opt_handles u = h" "h \<noteq> []"
  shows "wp (create_resizable None) (\<lambda>t. sizing.resize_idle ww wh t \<and> \<not> started t \<and> \<not> bound t) (\<lambda>_. False) u"
proof -
  let ?s = "u\<lparr>resize_classes := resize_classes u @ [''ui-resizable''], keep_ratio := False, inner_elements := [], uses_helper := False,
    added_handles := []\<rparr>"
  define t where "t = fold add_handle (handle_names h) ?s"
  have "sizing.resize_idle ww wh t" "creation_view t = (False, False, False, False, [])"
    using assms by (simp_all add: t_def handles_kept creation_idle) (simp add: creation_view_def)
  then have t: "sizing.resize_idle ww wh t" "\<not> opt_auto_hide t" "\<not> opt_helper t" "\<not> opt_ghost t" "\<not> opt_animate t"
    "inner_elements t = []" by (simp_all add: creation_view_def)
  show ?thesis
    unfolding create_resizable_def setup_handles_def mouse_init_def option.case block.simps wp_simps
    using assms(3,4,5) t by (simp add: wp_simps no_wrapper creation_idle flip: t_def)
qed

lemma new_terminal_protocol:
  assumes "roomy ww wh r" "fits ww wh (el_width b) (el_height b)"
  shows "sizing.protocol ww wh (new_terminal b layout below cursor first r)"
proof -
  let ?s = "new_resizable b layout below cursor first r"
  have "sizing.resize_idle ww wh ?s" "creation_view ?s = (False, False, False, False, [])"
    "opt_aspect_ratio ?s = NoAspect" "opt_handles ?s = ''e,s,se''"
    using assms by (simp_all add: new_resizable_def sizing.state_defs Let_def creation_view_def)
  from wp_normal [OF created_idle [OF this]] show ?thesis by (auto simp: new_terminal_def sizing.protocol_def)
qed

lemma terminal_runs:
  assumes "list_all terminal_admissible es" "windowed ww wh r" "fits ww wh (el_width b) (el_height b)"
    and "s = run_events terminal_handler es (new_terminal b layout below cursor first r)"
    and "\<And>x y. (x, y) \<in> set (windows ww wh es) \<Longrightarrow> x \<le> bw \<and> y \<le> bh"
  shows "sizing.protocol bw bh s"
proof -
  have le: "ww \<le> bw" "wh \<le> bh" using assms(5) [of ww wh] by (simp_all add: windows_def)
  have "x \<le> bw \<and> y \<le> bh" if "e \<in> set es" "(x, y) \<in> set (window_of e)" for e x y
    using assms(5) that by (auto simp: windows_def)
  then have "list_all (within_window bw bh) es"
    using assms(1) by (fastforce simp: list_all_iff within_window_def)
  then show ?thesis
    unfolding assms(4) by (rule sized_terminal.run_inv)
      (rule new_terminal_protocol [OF windowed_roomy [OF assms(2) le] fits_mono [OF assms(3) le]])
qed

section \<open>Properties\<close>


text \<open>
  C9. In every such run each gesture at a handle is a start, resizes and a stop, one is on exactly
  while the mouse drags, and every width and height that the callback is told is the one before
  the gesture or at least the minimum of 10 pixels.
\<close>

theorem resize_gestures:
  assumes "list_all terminal_admissible es" "windowed ww wh r" "fits ww wh (el_width b) (el_height b)"
    and "s = run_events terminal_handler es (new_terminal b layout below cursor first r)"
  shows "resize_gesture False (resize_types s) = Some (started s) \<and>
    list_all (\<lambda>e. (wide (rz_size e) = wide (rz_original_size e) \<or> Fin 10 \<le> wide (rz_size e)) \<and>
      (high (rz_size e) = high (rz_original_size e) \<or> Fin 10 \<le> high (rz_size e))) (resize_history s)"
proof -
  have "x \<le> 2 ^ 31 \<and> y \<le> 2 ^ 31" if xy: "(x, y) \<in> set (windows ww wh es)" for x y
  proof (cases "(x, y) = (ww, wh)")
    case True
    then show ?thesis using assms(2) by (simp add: windowed_def)
  next
    case False
    then obtain e where e: "e \<in> set es" "(x, y) \<in> set (window_of e)" using xy by (auto simp: windows_def)
    then have "terminal_admissible e" using assms(1) by (simp add: list_all_iff)
    then show ?thesis using e(2) by (cases e) auto
  qed
  from protocol_state(3,4) [OF terminal_runs [OF assms this]] show ?thesis
    by (auto simp: told_sized_def sized_def grown_def list_all_iff)
qed

section \<open>A demonstration run\<close>

text \<open>
  The corner handle dragged far out of a window of 1000 by 800 pixels while the session plays; at
  last the window shrinks.
\<close>

definition demo_frame :: css_box where
  "demo_frame = \<lparr>el_left = Fin 5, el_top = Fin 100, el_width = Fin 800, el_height = Fin 300,
     el_frame_width = Fin 0, el_frame_height = Fin 0\<rparr>"

definition mouse_at :: "int \<Rightarrow> mouse_event" where
  "mouse_at x = \<lparr>page_x = num_of_int x, page_y = num_of_int x, which = 1, pressed = 0, target = 3, in_cancel = False,
     modifier_key = False, shift_key = False\<rparr>"

definition demo_drag :: "terminal_event list" where
  "demo_drag = [OnReader (OnLoad demo_events), OnTerminal (OverHandle ''ui-resizable-se''),
     OnTerminal (ResizeMouse (MouseDown (mouse_at 100))), OnTerminal (ResizeMouse (MouseMove (mouse_at 150))),
     OnReader (OnControl ClickToEnd), OnTerminal (ResizeMouse (MouseMove (mouse_at 900000))),
     OnTerminal (ResizeMouse (MouseUp (mouse_at (-900000)))),
     OnWindow 400 300]"

definition demo_terminal :: "tr resizable" where
  "demo_terminal = run_events terminal_handler demo_drag
     (new_terminal demo_frame (\<lambda>_. \<lparr>at_left = Fin 5, at_top = Fin 100\<rparr>) (\<lambda>_. {3}) ''se-resize'' 1 demo_reader)"

lemma demo_windowed: "windowed 1000 800 demo_reader"
proof -
  have fit: "frame_view (snd (fit_terminal s)) = frame_view s" for s
    by (simp add: fit_terminal_def frame_view_def seq_def stmt_simps update_col_width_def update_col_height_def split: prod.splits)
  have "wp initialize (\<lambda>t. win_width t = Fin 1000 \<and> win_height t = Fin 800) (\<lambda>_. False)
      (new_reader ''terminal_reader'' demo_fit (Fin 1000) (Fin 800) 5000)"
    unfolding initialize_def initialize_terminal_def reset_session_def build_reader_def
    using fit wp_total [OF fit_terminal_total]
    by (simp add: wp_simps new_reader_def frame_view_def)
  from wp_normal [OF this] show ?thesis by (auto simp: demo_reader_def start_reader_def windowed_def)
qed

lemma demo_drag_admissible: "list_all terminal_admissible demo_drag"
  by (simp add: demo_drag_def mouse_at_def finite_event_def small_def)

lemma demo_frame_fits: "fits 1000 800 (el_width demo_frame) (el_height demo_frame)"
  by (simp add: fits_def demo_frame_def)


lemma resize_gestures_witness:
  "resize_gesture False (resize_types demo_terminal) = Some (started demo_terminal)"
  using resize_gestures [OF demo_drag_admissible demo_windowed demo_frame_fits demo_terminal_def] by simp

end
