(* ===== verification/UI_Options.thy ===== *)
theory UI_Options
  imports JS_Value "HOL-Library.Sublist"
begin

text \<open>
  The options of the widgets of jQuery UI (\<open>$.widget.extend\<close> and \<open>option\<close> of
  \<open>html/jquery-ui-1.13.1.custom/jquery-ui.js\<close>): trees of plain objects that are merged when a
  widget is created, and read and written through keys with dots.
\<close>

section \<open>Values\<close>

text \<open>
  Plain objects are trees; arrays, elements, functions and instances are shared by reference, and
  the number names the object. What is inherited from the language's own prototypes is left out.
\<close>

datatype optval =
    OUndef
  | ONull
  | OBool bool
  | ONum jsnum
  | OStr string
  | ORef nat
  | OObj "(string \<times> optval) list"

type_synonym props = "(string \<times> optval) list"

record js_heap =
  own_props :: "nat \<Rightarrow> props"
  callable :: "nat \<Rightarrow> bool"
  ref_text :: "nat \<Rightarrow> string"        \<comment> \<open>\<open>String(r)\<close>\<close>

fun otruthy :: "optval \<Rightarrow> bool" where
  "otruthy OUndef = False"
| "otruthy ONull = False"
| "otruthy (OBool b) = b"
| "otruthy (ONum n) = (n \<noteq> Fin 0 \<and> n \<noteq> NaN)"
| "otruthy (OStr s) = (s \<noteq> [])"
| "otruthy (ORef _) = True"
| "otruthy (OObj _) = True"

definition lookup :: "props \<Rightarrow> string \<Rightarrow> optval" where
  "lookup o' k = (case map_of o' k of None \<Rightarrow> OUndef | Some v \<Rightarrow> v)"

definition char_props :: "string \<Rightarrow> props" where
  "char_props s = map (\<lambda>i. (digits (int i), OStr [s ! i])) [0..<length s]"

text \<open>The own enumerable properties, as \<open>for ... in\<close> with \<open>hasOwnProperty\<close> finds them.\<close>

fun props_of :: "js_heap \<Rightarrow> optval \<Rightarrow> props" where
  "props_of h (OObj o') = o'"
| "props_of h (ORef r) = own_props h r"
| "props_of h (OStr s) = char_props s"
| "props_of h _ = []"

fun get_key :: "js_heap \<Rightarrow> optval \<Rightarrow> string \<Rightarrow> optval" where
  "get_key h (OStr s) k = (if k = ''length'' then ONum (num_of_nat (length s)) else lookup (char_props s) k)"
| "get_key h v k = lookup (props_of h v) k"

text \<open>\<open>cur[k] = v\<close> in strict mode: a primitive takes no property.\<close>

fun assign_key :: "js_heap \<Rightarrow> optval \<Rightarrow> string \<Rightarrow> optval \<Rightarrow> exn + (optval \<times> js_heap)" where
  "assign_key h (OObj o') k v = Inr (OObj (AList.update k v o'), h)"
| "assign_key h (ORef r) k v = Inr (ORef r, h\<lparr>own_props := (own_props h)(r := AList.update k v (own_props h r))\<rparr>)"
| "assign_key h _ k v = Inl TypeError"

section \<open>Merging\<close>

text \<open>\<open>$.widget.extend({}, o)\<close>: a copy of the plain objects, without undefined properties.\<close>

fun clone_value :: "optval \<Rightarrow> optval" and clone_onto :: "props \<Rightarrow> props \<Rightarrow> props" where
  "clone_value (OObj o') = OObj (clone_onto [] o')"
| "clone_value v = v"
| "clone_onto t [] = t"
| "clone_onto t ((k, v) # rest) = clone_onto (if v = OUndef then t else AList.update k (clone_value v) t) rest"

text \<open>\<open>$.widget.extend(t, o)\<close>, one input after the target.\<close>

fun merge_value :: "optval \<Rightarrow> optval \<Rightarrow> optval" and merge_onto :: "props \<Rightarrow> props \<Rightarrow> props" where
  "merge_value old (OObj o') = OObj (merge_onto (case old of OObj t \<Rightarrow> clone_onto [] t | _ \<Rightarrow> []) o')"
| "merge_value old v = v"
| "merge_onto t [] = t"
| "merge_onto t ((k, v) # rest) = merge_onto (if v = OUndef then t else AList.update k (merge_value (lookup t k) v) t) rest"

definition widget_extend :: "props \<Rightarrow> props list \<Rightarrow> props" where
  "widget_extend target inputs = fold (\<lambda>input t. merge_onto t input) inputs target"

section \<open>Keys with dots\<close>

definition null_if_undef :: "optval \<Rightarrow> optval" where
  "null_if_undef v = (if v = OUndef then ONull else v)"

text \<open>
  A step of the walk along the parts of a key: what is there or a new object becomes the property,
  and is where the walk goes on. It assigns also when the key is only read.
\<close>

definition enter_key :: "js_heap \<Rightarrow> optval \<Rightarrow> string \<Rightarrow> exn + (optval \<times> optval \<times> js_heap)" where
  "enter_key h cur k =
     (let next = (if otruthy (get_key h cur k) then get_key h cur k else OObj [])
      in case assign_key h cur k next of Inl e \<Rightarrow> Inl e | Inr (cur', h') \<Rightarrow> Inr (next, cur', h'))"

fun walk_get :: "js_heap \<Rightarrow> optval \<Rightarrow> string list \<Rightarrow> exn + (optval \<times> js_heap)" where
  "walk_get h cur [] = Inr (cur, h)"
| "walk_get h cur [k] = Inr (null_if_undef (get_key h cur k), h)"
| "walk_get h cur (k # ks) = (case enter_key h cur k of Inl e \<Rightarrow> Inl e | Inr (next, cur', h') \<Rightarrow> walk_get h' next ks)"

fun walk_set :: "js_heap \<Rightarrow> optval \<Rightarrow> string list \<Rightarrow> optval \<Rightarrow> exn + (optval \<times> js_heap)" where
  "walk_set h cur [] v = Inr (v, h)"
| "walk_set h cur [k] v = assign_key h cur k v"
| "walk_set h cur (k # ks) v = (case enter_key h cur k of Inl e \<Rightarrow> Inl e
     | Inr (next, cur', h') \<Rightarrow> (case walk_set h' next ks v of Inl e \<Rightarrow> Inl e
     | Inr (next', h'') \<Rightarrow> (case next of OObj _ \<Rightarrow> assign_key h'' cur' k next' | _ \<Rightarrow> Inr (cur', h''))))"

text \<open>\<open>option(key)\<close>, and the hash that \<open>option(key, value)\<close> hands to \<open>_setOptions\<close>.\<close>

definition option_get :: "js_heap \<Rightarrow> props \<Rightarrow> string \<Rightarrow> exn + (optval \<times> js_heap)" where
  "option_get h opts key = (case split_on (CHR ''.'') key of
       [] \<Rightarrow> Inl TypeError
     | k # ks \<Rightarrow> if ks = [] then Inr (null_if_undef (lookup opts k), h)
         else walk_get h (OObj (clone_onto [] (props_of h (lookup opts k)))) ks)"

definition option_hash :: "js_heap \<Rightarrow> props \<Rightarrow> string \<Rightarrow> optval \<Rightarrow> exn + (props \<times> js_heap)" where
  "option_hash h opts key v = (case split_on (CHR ''.'') key of
       [] \<Rightarrow> Inl TypeError
     | k # ks \<Rightarrow> if ks = [] then Inr ([(k, v)], h)
         else case walk_set h (OObj (clone_onto [] (props_of h (lookup opts k)))) ks v of
             Inl e \<Rightarrow> Inl e
           | Inr (x, h') \<Rightarrow> Inr ([(k, x)], h'))"

section \<open>Trees and their leaves\<close>

text \<open>No object has a property twice.\<close>

fun proper :: "optval \<Rightarrow> bool" where
  "proper (OObj o') \<longleftrightarrow> distinct (map fst o') \<and> (\<forall>(k, v) \<in> set o'. proper v)"
| "proper v \<longleftrightarrow> True"

text \<open>What a tree holds at a path, apart from objects and \<open>undefined\<close>.\<close>

fun leaf_at :: "optval \<Rightarrow> string list \<Rightarrow> optval option" where
  "leaf_at (OObj o') ks = (case ks of [] \<Rightarrow> None | k # ks' \<Rightarrow> leaf_at (lookup o' k) ks')"
| "leaf_at OUndef ks = None"
| "leaf_at v ks = (if ks = [] then Some v else None)"


lemma lookup_update [simp]: "lookup (AList.update k v o') k' = (if k' = k then v else lookup o' k')"
  by (simp add: lookup_def)

lemma lookup_Nil [simp]: "lookup [] k = OUndef"
  by (simp add: lookup_def)

lemma lookup_Cons: "lookup ((k, v) # o') k' = (if k' = k then v else lookup o' k')"
  by (simp add: lookup_def)

lemma lookup_absent: "k \<notin> fst ` set o' \<Longrightarrow> lookup o' k = OUndef"
  by (simp add: lookup_def map_of_eq_None_iff [symmetric])

lemma proper_lookup: "proper (OObj o') \<Longrightarrow> proper (lookup o' k)"
  by (auto simp: lookup_def split: option.splits dest!: map_of_SomeD)

lemma proper_Nil [simp]: "proper (OObj [])"
  and proper_Cons [simp]: "proper (OObj ((k, v) # o')) \<longleftrightarrow> k \<notin> fst ` set o' \<and> proper v \<and> proper (OObj o')"
  by auto

declare proper.simps(1) [simp del]

lemma properD: "proper (OObj o') \<Longrightarrow> distinct (map fst o')"
  by (simp add: proper.simps)

lemma keys_update: "fst ` set (AList.update k v o') = insert k (fst ` set o')"
  by (induction o') auto

lemma proper_update: "proper (OObj o') \<Longrightarrow> proper v \<Longrightarrow> proper (OObj (AList.update k v o'))"
  by (induction o') (force simp: keys_update)+

lemma clone_lookup:
  "distinct (map fst o') \<Longrightarrow>
    lookup (clone_onto t o') k = (if lookup o' k = OUndef then lookup t k else clone_value (lookup o' k))"
  by (induction o' arbitrary: t) (auto simp: lookup_Cons lookup_absent)

lemma merge_lookup:
  "distinct (map fst o') \<Longrightarrow>
    lookup (merge_onto t o') k = (if lookup o' k = OUndef then lookup t k else merge_value (lookup t k) (lookup o' k))"
  by (induction o' arbitrary: t) (auto simp: lookup_Cons lookup_absent)

lemma clone_undef [simp]: "clone_value v = OUndef \<longleftrightarrow> v = OUndef"
  by (cases v) simp_all

lemma merge_undef [simp]: "merge_value old v = OUndef \<longleftrightarrow> v = OUndef"
  by (cases v) simp_all

lemma proper_clone: "proper v \<Longrightarrow> proper (clone_value v)"
  and proper_clone_onto: "proper (OObj t) \<Longrightarrow> proper (OObj o') \<Longrightarrow> proper (OObj (clone_onto t o'))"
  by (induction v and t o' rule: clone_value_clone_onto.induct) (simp_all add: proper_update)


lemma leaf_clone: "proper v \<Longrightarrow> leaf_at (clone_value v) p = leaf_at v p"
proof (induction p arbitrary: v)
  case Nil
  then show ?case by (cases v) simp_all
next
  case (Cons k ks)
  then show ?case
    by (cases v) (simp_all add: clone_lookup properD proper_lookup)
qed

text \<open>Whether a tree says something about a path: a leaf on the way, or an object at its end.\<close>

fun covers :: "optval \<Rightarrow> string list \<Rightarrow> bool" where
  "covers OUndef ks \<longleftrightarrow> False"
| "covers (OObj o') ks \<longleftrightarrow> (case ks of [] \<Rightarrow> True | k # ks' \<Rightarrow> covers (lookup o' k) ks')"
| "covers v ks \<longleftrightarrow> True"

lemma leaf_merge:
  assumes "proper old" "proper v" "v \<noteq> OUndef"
  shows "leaf_at (merge_value old v) p = (if covers v p then leaf_at v p else leaf_at old p)"
  using assms
proof (induction p arbitrary: old v)
  case Nil
  then show ?case by (cases v) simp_all
next
  case (Cons k ks)
  show ?case
  proof (cases v)
    case (OObj o')
    define t where "t = (case old of OObj t \<Rightarrow> clone_onto [] t | _ \<Rightarrow> [])"
    have t: "proper (OObj t)" using Cons.prems(1) by (cases old) (simp_all add: t_def proper_clone_onto)
    have old: "leaf_at (lookup t k) ks = leaf_at old (k # ks)"
      using Cons.prems(1) by (cases old) (simp_all add: t_def clone_lookup properD leaf_clone proper_lookup)
    have "leaf_at (merge_value old v) (k # ks) = leaf_at (lookup (merge_onto t o') k) ks"
      by (simp add: OObj t_def)
    also have "\<dots> = (if covers (lookup o' k) ks then leaf_at (lookup o' k) ks else leaf_at (lookup t k) ks)"
      using Cons.IH [OF proper_lookup [OF t], of "lookup o' k"] Cons.prems OObj
      by (simp add: merge_lookup properD proper_lookup)
    finally show ?thesis by (simp add: OObj old)
  qed (use Cons.prems in simp_all)
qed

lemma proper_merge: "proper old \<Longrightarrow> proper v \<Longrightarrow> proper (merge_value old v)"
  and proper_merge_onto: "proper (OObj t) \<Longrightarrow> proper (OObj o') \<Longrightarrow> proper (OObj (merge_onto t o'))"
proof (induction old v and t o' rule: merge_value_merge_onto.induct)
  case (1 old o')
  then show ?case by (cases old) (simp_all add: proper_clone_onto)
qed (simp_all add: proper_update proper_lookup)

lemma leaf_merge_onto:
  "proper (OObj t) \<Longrightarrow> proper (OObj o') \<Longrightarrow>
    leaf_at (OObj (merge_onto t o')) (k # ks) = leaf_at (OObj (if covers (OObj o') (k # ks) then o' else t)) (k # ks)"
  using leaf_merge [of "lookup t k" "lookup o' k" ks]
  by (simp add: merge_lookup properD proper_lookup)

section \<open>Reading and writing along a path\<close>

text \<open>The way to the end of a path leads through objects, or through what counts as none.\<close>

fun plain_way :: "optval \<Rightarrow> string list \<Rightarrow> bool" where
  "plain_way (OObj o') (k # k' # ks) \<longleftrightarrow>
     (case lookup o' k of OObj t \<Rightarrow> plain_way (OObj t) (k' # ks) | v \<Rightarrow> \<not> otruthy v)"
| "plain_way v ks \<longleftrightarrow> True"

text \<open>The leaves of a tree after \<open>v\<close> was put at a path.\<close>

definition leaf_put :: "string list \<Rightarrow> optval \<Rightarrow> optval \<Rightarrow> string list \<Rightarrow> optval option" where
  "leaf_put ks v old p = (if prefix ks p then leaf_at v (drop (length ks) p)
     else if prefix p ks then None else leaf_at old p)"

lemma leaf_obj: "leaf_at (OObj o') [] = None" "leaf_at (OObj o') (k # ks) = leaf_at (lookup o' k) ks"
  by simp_all

lemma leaf_put_Cons: "leaf_put (k # ks) v (OObj o') p =
  (case p of [] \<Rightarrow> None | k' # p' \<Rightarrow> if k' = k then leaf_put ks v (lookup o' k) p' else leaf_at (lookup o' k') p')"
  by (cases p) (auto simp: leaf_put_def)

lemma leaf_put_plain: "\<not> otruthy w \<Longrightarrow> ks \<noteq> [] \<Longrightarrow> leaf_put ks v w p = leaf_put ks v (OObj []) p"
  by (cases w; cases p; cases ks) (auto simp: leaf_put_def)

lemma walk_set_exact:
  assumes "plain_way (OObj o') ks" "ks \<noteq> []" "proper (OObj o')" "proper v"
  shows "\<exists>t. walk_set h (OObj o') ks v = Inr (OObj t, h) \<and> proper (OObj t) \<and> (\<forall>p. leaf_at (OObj t) p = leaf_put ks v (OObj o') p)"
  using assms
proof (induction ks arbitrary: o')
  case (Cons k ks)
  show ?case
  proof (cases ks)
    case Nil
    with Cons.prems show ?thesis by (auto simp: leaf_put_Cons leaf_put_def proper_update split: list.split)
  next
    case more: (Cons k' ks')
    define w where "w = lookup o' k"
    have w: "proper w" using Cons.prems(3) by (simp add: w_def proper_lookup)
    obtain u where u: "(if otruthy w then w else OObj []) = OObj u" "plain_way (OObj u) ks"
      "leaf_put ks v w p = leaf_put ks v (OObj u) p" "proper (OObj u)" for p
    proof (cases "otruthy w")
      case True
      then obtain u where "w = OObj u" "plain_way (OObj u) ks"
        using Cons.prems(1) more by (cases w) (auto simp: w_def)
      then show ?thesis using that [of u] True w by simp
    next
      case False
      have "plain_way (OObj []) ks" by (cases ks rule: remdups_adj.cases) simp_all
      then show ?thesis using that [of "[]"] False leaf_put_plain [of w ks v] more by simp
    qed
    obtain t where t: "walk_set h (OObj u) ks v = Inr (OObj t, h)" "proper (OObj t)" "\<And>p. leaf_at (OObj t) p = leaf_put ks v (OObj u) p"
      using Cons.IH [OF u(2) _ u(4) Cons.prems(4)] more by auto
    have "enter_key h (OObj o') k = Inr (OObj u, OObj (AList.update k (OObj u) o'), h)"
      unfolding enter_key_def get_key.simps props_of.simps w_def [symmetric] u(1) by (simp add: Let_def)
    then have "walk_set h (OObj o') (k # ks) v = Inr (OObj (AList.update k (OObj t) (AList.update k (OObj u) o')), h)"
      using t(1) more by simp
    moreover have "leaf_at (OObj (AList.update k (OObj t) (AList.update k (OObj u) o'))) p = leaf_put (k # ks) v (OObj o') p" for p
      by (cases p) (simp_all add: leaf_put_Cons leaf_obj t(3) u(3) del: leaf_at.simps(1) flip: w_def)
    moreover have "proper (OObj (AList.update k (OObj t) (AList.update k (OObj u) o')))"
      using Cons.prems(3) t(2) u(4) by (simp add: proper_update)
    ultimately show ?thesis by blast
  qed
qed simp

lemma plain_way_clone: "proper (OObj o') \<Longrightarrow> plain_way (OObj o') ks \<Longrightarrow> plain_way (OObj (clone_onto [] o')) ks"
proof (induction ks arbitrary: o' rule: induct_list012)
  case (3 k k' ks)
  then show ?case
    using proper_lookup [OF "3.prems"(1), of k]
    by (cases "lookup o' k") (simp_all add: clone_lookup properD)
qed simp_all


text \<open>A leaf that is read is reached through plain objects only.\<close>

lemma walk_get_leaf: "leaf_at (OObj o') ks = Some v \<Longrightarrow> \<exists>t. walk_get h (OObj o') ks = Inr (v, h)"
proof (induction ks arbitrary: o')
  case (Cons k ks)
  show ?case
  proof (cases ks)
    case Nil
    with Cons.prems show ?thesis by (cases "lookup o' k") (auto simp: null_if_undef_def)
  next
    case (Cons k' ks')
    obtain u where u: "lookup o' k = OObj u" using Cons.prems Cons by (cases "lookup o' k") (auto split: if_splits)
    have "leaf_at (OObj u) ks = Some v" using Cons.prems u by simp
    with Cons.IH have "walk_get h (OObj u) ks = Inr (v, h)" by blast
    then show ?thesis using Cons u by (simp add: enter_key_def Let_def)
  qed
qed simp

lemma option_get_leaf:
  assumes "proper (OObj opts)" "leaf_at (OObj opts) (split_on (CHR ''.'') key) = Some v"
  shows "option_get h opts key = Inr (v, h)"
proof -
  obtain k ks where key: "split_on (CHR ''.'') key = k # ks"
    using split_on_nonempty by (metis neq_Nil_conv)
  show ?thesis
  proof (cases ks)
    case Nil
    then show ?thesis using assms(2) key by (cases "lookup opts k") (auto simp: option_get_def null_if_undef_def)
  next
    case (Cons k' ks')
    obtain u where u: "lookup opts k = OObj u"
      using assms(2) key Cons by (cases "lookup opts k") (auto split: if_splits)
    have "leaf_at (OObj (clone_onto [] u)) ks = Some v"
      using assms key u leaf_clone [of "OObj u" ks] proper_lookup [OF assms(1), of k] by simp
    from walk_get_leaf [OF this] show ?thesis using key u Cons by (auto simp: option_get_def)
  qed
qed

lemma below_plain:
  assumes "proper (OObj opts)" "plain_way (OObj opts) (k # ks)" "ks \<noteq> []"
  shows "proper (OObj (clone_onto [] (props_of h (lookup opts k))))"
    and "plain_way (OObj (clone_onto [] (props_of h (lookup opts k)))) ks"
    and "leaf_put ks v (lookup opts k) p = leaf_put ks v (OObj (clone_onto [] (props_of h (lookup opts k)))) p"
proof -
  let ?w = "lookup opts k"
  have "(\<exists>w. ?w = OObj w \<and> plain_way (OObj w) ks \<and> proper (OObj w)) \<or> \<not> otruthy ?w"
    using assms proper_lookup [OF assms(1), of k] by (cases ks; cases ?w) auto
  then consider w where "?w = OObj w" "plain_way (OObj w) ks" "proper (OObj w)" | "\<not> otruthy ?w" "props_of h ?w = []"
    by (cases ?w) (auto simp: char_props_def)
  then have "proper (OObj (clone_onto [] (props_of h ?w))) \<and> plain_way (OObj (clone_onto [] (props_of h ?w))) ks \<and>
    leaf_put ks v ?w p = leaf_put ks v (OObj (clone_onto [] (props_of h ?w))) p"
  proof cases
    case 1
    then show ?thesis using leaf_clone [of "OObj w" p] by (simp add: proper_clone_onto plain_way_clone leaf_put_def)
  next
    case 2
    then show ?thesis using leaf_put_plain [OF 2(1) assms(3)] by (cases ks rule: remdups_adj.cases) simp_all
  qed
  then show "proper (OObj (clone_onto [] (props_of h ?w)))" "plain_way (OObj (clone_onto [] (props_of h ?w))) ks"
    "leaf_put ks v ?w p = leaf_put ks v (OObj (clone_onto [] (props_of h ?w))) p" by blast+
qed

section \<open>Properties\<close>

text \<open>
  C10. The options of a new widget are the defaults of its prototypes, what \<open>_getCreateOptions\<close>
  finds and what the caller gives, merged: at every path the last of them that says something
  about it decides, and the objects on the way are merged, not replaced.
\<close>

theorem options_merge:
  assumes "proper (OObj t)" "list_all (\<lambda>o'. proper (OObj o')) inputs"
  shows "leaf_at (OObj (widget_extend t inputs)) (k # ks) =
    leaf_at (OObj (case find (\<lambda>o'. covers (OObj o') (k # ks)) (rev inputs) of Some o' \<Rightarrow> o' | None \<Rightarrow> t)) (k # ks)"
  using assms
proof (induction inputs rule: rev_induct)
  case (snoc o' inputs)
  have p: "proper (OObj (widget_extend t inputs))"
    using snoc.prems by (induction inputs rule: rev_induct) (simp_all add: widget_extend_def proper_merge_onto)
  have "widget_extend t (inputs @ [o']) = merge_onto (widget_extend t inputs) o'" by (simp add: widget_extend_def)
  then show ?case using snoc leaf_merge_onto [OF p, of o' k ks] by simp
qed (simp add: widget_extend_def)

text \<open>
  C11. Writing an option through a key with dots, on a way of plain objects or missing ones, changes
  the tree at that path only, makes the objects that are missing on the way, and can be read back
  through the same key; no other path that is not below or above it changes.
\<close>

theorem option_round_trip:
  assumes "proper (OObj opts)" "proper v" "split_on (CHR ''.'') key = k # ks" "plain_way (OObj opts) (k # ks)"
  shows "\<exists>x. option_hash h opts key v = Inr ([(k, x)], h) \<and>
    (\<forall>p. leaf_at (OObj (AList.update k x opts)) p = leaf_put (k # ks) v (OObj opts) p) \<and>
    (leaf_at v [] = Some v \<longrightarrow> option_get h (AList.update k x opts) key = Inr (v, h))"
proof -
  obtain x where x: "option_hash h opts key v = Inr ([(k, x)], h)" "proper x"
    "\<And>p. leaf_at x p = leaf_put ks v (lookup opts k) p"
  proof (cases "ks = []")
    case True
    then show ?thesis using that [of v] assms(2,3) by (simp add: option_hash_def leaf_put_def)
  next
    case False
    define u where "u = clone_onto [] (props_of h (lookup opts k))"
    have u: "proper (OObj u)" "plain_way (OObj u) ks" "leaf_put ks v (lookup opts k) p = leaf_put ks v (OObj u) p" for p
      using below_plain [OF assms(1,4) False] by (simp_all add: u_def)
    from walk_set_exact [OF u(2) False u(1) assms(2), of h] obtain t where
      "walk_set h (OObj u) ks v = Inr (OObj t, h)" "proper (OObj t)" "\<And>p. leaf_at (OObj t) p = leaf_put ks v (OObj u) p" by blast
    then show ?thesis using that [of "OObj t"] assms(3) False u(3) by (simp add: option_hash_def flip: u_def)
  qed
  have leaves: "leaf_at (OObj (AList.update k x opts)) p = leaf_put (k # ks) v (OObj opts) p" for p
    by (cases p) (simp_all add: leaf_obj leaf_put_Cons x(3) del: leaf_at.simps(1))
  have "option_get h (AList.update k x opts) key = Inr (v, h)" if "leaf_at v [] = Some v"
    using that leaves [of "k # ks"] assms(3)
    by (intro option_get_leaf) (simp_all add: proper_update assms(1) x(2) leaf_put_def)
  with x(1) leaves show ?thesis by blast
qed


text \<open>Defaults with a class, and what a page might give.\<close>

definition demo_defaults :: props where
  "demo_defaults = [(''classes'', OObj [(''ui-resizable-se'', OStr ''ui-icon'')]), (''minWidth'', ONum (Fin 10)), (''resize'', ONull)]"

definition demo_given :: props where
  "demo_given = [(''classes'', OObj [(''ui-resizable'', OStr ''box'')]), (''resize'', ORef 7), (''ghost'', OBool False)]"

definition demo_heap :: js_heap where
  "demo_heap = \<lparr>own_props = (\<lambda>r. []), callable = (\<lambda>r. r = 7), ref_text = (\<lambda>r. ''[object Object]'')\<rparr>"

lemma demo_proper: "proper (OObj demo_defaults)" "proper (OObj demo_given)"
  by (simp_all add: demo_defaults_def demo_given_def)

lemma options_merge_witness:
  "let opts = OObj (widget_extend [] [demo_defaults, demo_given]) in
   leaf_at opts [''classes'', ''ui-resizable-se''] = Some (OStr ''ui-icon'') \<and> leaf_at opts [''resize''] = Some (ORef 7)"
  using options_merge [of "[]" "[demo_defaults, demo_given]" "''classes''" "[''ui-resizable-se'']"]
    options_merge [of "[]" "[demo_defaults, demo_given]" "''resize''" "[]"] demo_proper
  by (simp add: Let_def demo_defaults_def demo_given_def lookup_def)

lemma option_round_trip_witness:
  "\<exists>x. option_hash demo_heap demo_defaults ''classes.ui-resizable-se'' (OStr ''corner'') = Inr ([(''classes'', x)], demo_heap) \<and>
    option_get demo_heap (AList.update ''classes'' x demo_defaults) ''classes.ui-resizable-se'' = Inr (OStr ''corner'', demo_heap)"
proof -
  have "split_on (CHR ''.'') ''classes.ui-resizable-se'' = [''classes'', ''ui-resizable-se'']" by simp
  from option_round_trip [OF demo_proper(1) _ this, of "OStr ''corner''" demo_heap]
  show ?thesis by (auto simp: demo_defaults_def lookup_def)
qed

end
