(* ===== verification/UI_Widget.thy ===== *)
theory UI_Widget
  imports UI_Options Event_Loop
begin

text \<open>
  An instance of a widget of jQuery UI (\<open>$.Widget.prototype\<close> in
  \<open>html/jquery-ui-1.13.1.custom/jquery-ui.js\<close>), the base of slider, mouse and resizable: its options,
  the classes it puts on elements and keeps track of, the handlers it binds, and its end.
\<close>

section \<open>State\<close>

text \<open>
  Elements are numbers, a collection of elements a list without order. Names of handlers stand for
  methods of the instance, numbers for functions that the page or a derived widget gives.
\<close>

datatype handler =
    MethodNamed string
  | UserHandler nat
  | DestroyHandler      \<comment> \<open>bound by \<open>_createWidget\<close>\<close>
  | HoverIn
  | HoverOut
  | FocusIn
  | FocusOut

record binding =
  l_element :: nat
  l_event :: string
  l_selector :: string
  l_suppress :: bool    \<comment> \<open>runs also while the widget is disabled\<close>
  l_handler :: handler

record triggered_event =
  t_type :: string
  t_target :: nat

text \<open>
  An event at an element with listeners: \<open>o_current\<close> is that element, or one below it that a
  delegated handler runs for.
\<close>

record occurrence =
  o_event :: string
  o_target :: nat
  o_bound :: nat
  o_current :: nat

record 'e widget =
  w_name :: string
  w_full_name :: string
  w_prefix :: string             \<comment> \<open>\<open>widgetEventPrefix\<close>\<close>
  w_element :: nat
  w_options :: props
  w_heap :: js_heap
  class_lookup :: "(string \<times> nat list) list"   \<comment> \<open>\<open>classesElementLookup\<close>\<close>
  w_bindings :: "nat list"
  w_hoverable :: "nat list"
  w_focusable :: "nat list"
  w_listeners :: "binding list"
  w_timers :: "(handler \<times> jsnum) list"
  dom_classes :: "nat \<Rightarrow> string list"
  has_data :: bool               \<comment> \<open>\<open>$.data(element, widgetFullName)\<close> is this instance\<close>
  w_triggered :: "triggered_event list"
  w_answer :: bool               \<comment> \<open>what \<open>_trigger\<close> returned last\<close>
  w_outside :: 'e

text \<open>
  What the widget calls: the methods and handlers of derived widgets and of the page, the matching
  of selectors, callbacks (which tell whether they returned \<open>false\<close>), and the page's own handlers
  of the triggered events (which tell whether the default was prevented).
\<close>

record 'e widget_env =
  env_method :: "string \<Rightarrow> (occurrence \<Rightarrow> 'e widget stmt) option"
  env_handler :: "nat \<Rightarrow> occurrence \<Rightarrow> 'e widget stmt"
  env_selects :: "string \<Rightarrow> nat \<Rightarrow> bool"
  env_callback :: "nat \<Rightarrow> triggered_event \<Rightarrow> 'e \<Rightarrow> (exn + bool) \<times> 'e"
  env_bubble :: "triggered_event \<Rightarrow> 'e \<Rightarrow> bool \<times> 'e"
  env_create_options :: "'e widget \<Rightarrow> props"
  env_create :: "'e widget stmt"
  env_init :: "'e widget stmt"
  env_destroy :: "'e widget stmt"

definition add_els :: "nat list \<Rightarrow> nat list \<Rightarrow> nat list" where
  "add_els xs ys = xs @ filter (\<lambda>y. y \<notin> set xs) (remdups ys)"

definition not_els :: "nat list \<Rightarrow> nat list \<Rightarrow> nat list" where
  "not_els xs ys = filter (\<lambda>x. x \<notin> set ys) xs"

section \<open>Classes\<close>

text \<open>\<open>s.match(/\S+/g) || []\<close>\<close>

fun words_from :: "string \<Rightarrow> string \<Rightarrow> string list" where
  "words_from w [] = (if w = [] then [] else [w])"
| "words_from w (c # s) = (if is_space c then (if w = [] then [] else [w]) @ words_from [] s else words_from (w @ [c]) s)"

definition words :: "string \<Rightarrow> string list" where
  "words s = words_from [] s"

fun class_text :: "js_heap \<Rightarrow> optval \<Rightarrow> string" where
  "class_text h (OStr s) = s"
| "class_text h (ONum n) = num_to_string n"
| "class_text h (OBool b) = (if b then ''true'' else ''false'')"
| "class_text h (ORef r) = ref_text h r"
| "class_text h (OObj _) = ''[object Object]''"
| "class_text h _ = []"

text \<open>The classes that the option \<open>classes\<close> adds to a key.\<close>

definition theming :: "js_heap \<Rightarrow> optval \<Rightarrow> string \<Rightarrow> string list" where
  "theming h classes k = (if otruthy (get_key h classes k) then words (class_text h (get_key h classes k)) else [])"

definition class_option :: "'e widget \<Rightarrow> optval" where
  "class_option w = (let v = lookup (w_options w) ''classes'' in if otruthy v then v else OObj [])"

definition elements_with :: "'e widget \<Rightarrow> string \<Rightarrow> nat list" where
  "elements_with w k = (case map_of (class_lookup w) k of None \<Rightarrow> [] | Some els \<Rightarrow> els)"

definition is_tracked :: "nat \<Rightarrow> 'e widget \<Rightarrow> bool" where
  "is_tracked e w \<longleftrightarrow> list_ex (\<lambda>(k, els). e \<in> set els) (class_lookup w)"

definition listen_at :: "bool \<Rightarrow> string \<Rightarrow> string \<Rightarrow> handler \<Rightarrow> nat \<Rightarrow> binding" where
  "listen_at suppress event selector hnd e =
     \<lparr>l_element = e, l_event = event, l_selector = selector, l_suppress = suppress, l_handler = hnd\<rparr>"

text \<open>An element whose classes are tracked for the first time is watched for its removal.\<close>

definition bind_remove_event :: "nat list \<Rightarrow> 'e widget stmt" where
  "bind_remove_event els = upd (\<lambda>w. let nodes = filter (\<lambda>e. \<not> is_tracked e w) els in
     w\<lparr>w_bindings := add_els (w_bindings w) nodes,
       w_listeners := w_listeners w @ map (listen_at False ''remove'' [] (MethodNamed ''_untrackClassesElement'')) nodes\<rparr>)"

definition process_class_string :: "bool \<Rightarrow> nat list \<Rightarrow> string list \<Rightarrow> 'e widget stmt" where
  "process_class_string add els ks = for_each ks (\<lambda>k. block
     [if add then bind_remove_event els else skip,
      upd (\<lambda>w. w\<lparr>class_lookup := AList.update k
        (if add then add_els (elements_with w k) els else not_els (elements_with w k) els) (class_lookup w)\<rparr>)])"

text \<open>\<open>toggleClass(names, add)\<close> on a collection\<close>

definition toggle_dom :: "bool \<Rightarrow> string list \<Rightarrow> nat list \<Rightarrow> 'e widget stmt" where
  "toggle_dom add cs els = upd (\<lambda>w. w\<lparr>dom_classes := (\<lambda>e. if e \<notin> set els then dom_classes w e
     else if add then dom_classes w e @ filter (\<lambda>c. c \<notin> set (dom_classes w e)) (remdups cs)
     else filter (\<lambda>c. c \<notin> set cs) (dom_classes w e))\<rparr>)"

text \<open>\<open>_classes\<close>, which tracks, and the \<open>toggleClass\<close> or \<open>addClass\<close> on its result.\<close>

definition apply_classes :: "optval \<Rightarrow> nat list \<Rightarrow> string \<Rightarrow> string \<Rightarrow> bool \<Rightarrow> 'e widget stmt" where
  "apply_classes classes els keys extra add = bind_val w_heap (\<lambda>h. block
     [process_class_string add els (words keys),
      process_class_string add els (words extra),
      toggle_dom add (concat (map (\<lambda>k. k # theming h classes k) (words keys)) @ words extra) els])"

definition toggle_class :: "nat list \<Rightarrow> string \<Rightarrow> string \<Rightarrow> bool \<Rightarrow> 'e widget stmt" where
  "toggle_class els keys extra add = bind_val class_option (\<lambda>classes. apply_classes classes els keys extra add)"

definition add_classes :: "nat list \<Rightarrow> string \<Rightarrow> string \<Rightarrow> 'e widget stmt" where
  "add_classes els keys extra = toggle_class els keys extra True"

definition take_classes :: "nat list \<Rightarrow> string \<Rightarrow> string \<Rightarrow> 'e widget stmt" where
  "take_classes els keys extra = toggle_class els keys extra False"

section \<open>Binding and unbinding\<close>

definition event_char :: "char \<Rightarrow> bool" where
  "event_char c \<longleftrightarrow> 97 \<le> code c \<and> code c \<le> 122 \<or> 65 \<le> code c \<and> code c \<le> 90 \<or>
     48 \<le> code c \<and> code c \<le> 57 \<or> c \<in> {CHR ''_'', CHR '':'', CHR ''-''}"

text \<open>The name of the event and the selector of a delegated one; \<open>None\<close> if the pattern does not match.\<close>

definition parse_event :: "string \<Rightarrow> (string \<times> string) option" where
  "parse_event spec = (let rest = dropWhile is_space (dropWhile event_char spec) in
     if list_ex (\<lambda>c. code c = 10 \<or> code c = 13) rest then None else Some (takeWhile event_char spec, rest))"

definition bind_handler :: "bool \<Rightarrow> nat list \<Rightarrow> string \<times> handler \<Rightarrow> 'e widget stmt" where
  "bind_handler suppress els spec = (case parse_event (fst spec) of
       None \<Rightarrow> throw TypeError
     | Some (event, selector) \<Rightarrow>
         upd (\<lambda>w. w\<lparr>w_listeners := w_listeners w @ map (listen_at suppress event selector (snd spec)) els\<rparr>))"

text \<open>\<open>_on\<close>; without elements it binds to the widget's element, and does not note it as bound.\<close>

definition on_events :: "bool \<Rightarrow> nat list option \<Rightarrow> (string \<times> handler) list \<Rightarrow> 'e widget stmt" where
  "on_events suppress els hs = (case els of
       None \<Rightarrow> bind_val w_element (\<lambda>e. for_each hs (bind_handler suppress [e]))
     | Some els \<Rightarrow> block
         [upd (\<lambda>w. w\<lparr>w_bindings := add_els (w_bindings w) els\<rparr>), for_each hs (bind_handler suppress els)])"

text \<open>An empty name, as in an empty or doubly spaced list, stands for all events.\<close>

definition off_events :: "nat list \<Rightarrow> string \<Rightarrow> 'e widget stmt" where
  "off_events els names = upd (\<lambda>w. let ns = split_on (CHR '' '') names in
     w\<lparr>w_listeners := filter (\<lambda>l. \<not> (l_element l \<in> set els \<and> ([] \<in> set ns \<or> l_event l \<in> set ns))) (w_listeners w),
       w_bindings := not_els (w_bindings w) els,
       w_focusable := not_els (w_focusable w) els,
       w_hoverable := not_els (w_hoverable w) els\<rparr>)"

definition untrack :: "nat \<Rightarrow> 'e widget stmt" where
  "untrack e = block
    [upd (\<lambda>w. w\<lparr>class_lookup := map (\<lambda>(k, els). (k, not_els els [e])) (class_lookup w)\<rparr>),
     off_events [e] []]"

definition hoverable :: "nat list \<Rightarrow> 'e widget stmt" where
  "hoverable els = block
    [upd (\<lambda>w. w\<lparr>w_hoverable := add_els (w_hoverable w) els\<rparr>),
     on_events False (Some els) [(''mouseenter'', HoverIn), (''mouseleave'', HoverOut)]]"

definition focusable :: "nat list \<Rightarrow> 'e widget stmt" where
  "focusable els = block
    [upd (\<lambda>w. w\<lparr>w_focusable := add_els (w_focusable w) els\<rparr>),
     on_events False (Some els) [(''focusin'', FocusIn), (''focusout'', FocusOut)]]"

definition set_delay_handler :: "handler \<Rightarrow> jsnum \<Rightarrow> 'e widget stmt" where
  "set_delay_handler hnd ms = upd (\<lambda>w. w\<lparr>w_timers := w_timers w @ [(hnd, if ms = NaN then Fin 0 else ms)]\<rparr>)"

section \<open>Options\<close>

definition set_option_disabled :: "optval \<Rightarrow> 'e widget stmt" where
  "set_option_disabled v = block
    [bind_val (\<lambda>w. (w_element w, w_full_name w @ ''-disabled'')) (\<lambda>(e, key). toggle_class [e] key [] (otruthy v)),
     if otruthy v then block
       [bind_val w_hoverable (\<lambda>els. take_classes els [] ''ui-state-hover''),
        bind_val w_focusable (\<lambda>els. take_classes els [] ''ui-state-focus'')]
     else skip]"

fun strict_equal :: "optval \<Rightarrow> optval \<Rightarrow> bool" where
  "strict_equal (ONum x) (ONum y) = num_eq x y"
| "strict_equal (OObj _) _ = False"
| "strict_equal v v' = (v = v')"

definition set_class_key :: "optval \<Rightarrow> string \<Rightarrow> 'e widget stmt" where
  "set_class_key value k = bind_val (\<lambda>w. (w_heap w, lookup (w_options w) ''classes'', elements_with w k)) (\<lambda>(h, old, els).
     if old = OUndef \<or> old = ONull then throw TypeError
     else if strict_equal (get_key h value k) (get_key h old k) \<or> els = [] then skip
     else block [take_classes els k [], apply_classes value els k [] True])"

definition set_option_classes :: "optval \<Rightarrow> 'e widget stmt" where
  "set_option_classes value = bind_val (\<lambda>w. map fst (props_of (w_heap w) value)) (\<lambda>ks. for_each ks (set_class_key value))"

definition set_widget_option :: "string \<Rightarrow> optval \<Rightarrow> 'e widget stmt" where
  "set_widget_option key v = block
    [if key = ''classes'' then set_option_classes v else skip,
     upd (\<lambda>w. w\<lparr>w_options := AList.update key v (w_options w)\<rparr>),
     if key = ''disabled'' then set_option_disabled v else skip]"

definition set_widget_options :: "props \<Rightarrow> 'e widget stmt" where
  "set_widget_options opts = for_each opts (\<lambda>(k, v). set_widget_option k v)"

text \<open>\<open>option(key, value)\<close>; \<open>option(hash)\<close> is \<open>set_widget_options\<close>.\<close>

definition option_set :: "string \<Rightarrow> optval \<Rightarrow> 'e widget stmt" where
  "option_set key v = bind_exp (\<lambda>w. option_hash (w_heap w) (w_options w) key v) (\<lambda>(opts, h). block
     [upd (\<lambda>w. w\<lparr>w_heap := h\<rparr>), set_widget_options opts])"

definition enable_widget :: "'e widget stmt" where
  "enable_widget = set_widget_options [(''disabled'', OBool False)]"

definition disable_widget :: "'e widget stmt" where
  "disable_widget = set_widget_options [(''disabled'', OBool True)]"

section \<open>Events\<close>

definition trigger_type :: "string \<Rightarrow> string \<Rightarrow> string" where
  "trigger_type pre ty = map lower_char (if ty = pre then ty else pre @ ty)"

text \<open>The callback is the option of that name, if it is a function; it runs after the page's handlers.\<close>

definition run_callback_option :: "'e widget_env \<Rightarrow> optval \<Rightarrow> triggered_event \<Rightarrow> bool \<Rightarrow> 'e widget stmt" where
  "run_callback_option env callback tr prevented w = (case callback of
       ORef r \<Rightarrow>
         if callable (w_heap w) r then
           (case env_callback env r tr (w_outside w) of
              (Inl e, out) \<Rightarrow> (Some e, w\<lparr>w_outside := out\<rparr>)
            | (Inr says_false, out) \<Rightarrow> (None, w\<lparr>w_outside := out, w_answer := \<not> (says_false \<or> prevented)\<rparr>))
         else (None, w\<lparr>w_answer := \<not> prevented\<rparr>)
     | _ \<Rightarrow> (None, w\<lparr>w_answer := \<not> prevented\<rparr>))"

definition trigger_event :: "'e widget_env \<Rightarrow> string \<Rightarrow> 'e widget stmt" where
  "trigger_event env ty = bind_val
     (\<lambda>w. (lookup (w_options w) ty, \<lparr>t_type = trigger_type (w_prefix w) ty, t_target = w_element w\<rparr>))
     (\<lambda>(callback, tr). block
       [upd (\<lambda>w. w\<lparr>w_triggered := w_triggered w @ [tr]\<rparr>),
        bind_val (\<lambda>w. env_bubble env tr (w_outside w)) (\<lambda>(prevented, out). block
          [upd (\<lambda>w. w\<lparr>w_outside := out\<rparr>), run_callback_option env callback tr prevented])])"

section \<open>Life\<close>

definition drop_classes :: "'e widget stmt" where
  "drop_classes = bind_val (\<lambda>w. map fst (class_lookup w)) (\<lambda>ks. for_each ks (\<lambda>k.
     bind_val (\<lambda>w. elements_with w k) (\<lambda>els. take_classes els k [])))"

definition destroy_widget :: "'e widget_env \<Rightarrow> 'e widget stmt" where
  "destroy_widget env = block
    [env_destroy env,
     drop_classes,
     upd (\<lambda>w. w\<lparr>w_listeners := filter (\<lambda>l. l_element l \<noteq> w_element w) (w_listeners w), has_data := False\<rparr>),
     upd (\<lambda>w. w\<lparr>w_listeners := filter (\<lambda>l. l_element l \<notin> set (w_bindings w)) (w_listeners w)\<rparr>)]"

definition create_widget :: "'e widget_env \<Rightarrow> props \<Rightarrow> nat \<Rightarrow> 'e widget stmt" where
  "create_widget env given e = block
    [upd (\<lambda>w. w\<lparr>w_element := e, w_bindings := [], w_hoverable := [], w_focusable := [], class_lookup := [], has_data := True\<rparr>),
     on_events True (Some [e]) [(''remove'', DestroyHandler)],
     upd (\<lambda>w. w\<lparr>w_options := widget_extend [] [w_options w, env_create_options env w, given]\<rparr>),
     env_create env,
     bind_val (\<lambda>w. lookup (w_options w) ''disabled'') (\<lambda>v. if otruthy v then set_option_disabled v else skip),
     trigger_event env ''create'',
     env_init env]"

section \<open>Handling events\<close>

definition run_handler :: "'e widget_env \<Rightarrow> handler \<Rightarrow> occurrence \<Rightarrow> 'e widget stmt" where
  "run_handler env hnd oc = (case hnd of
       MethodNamed m \<Rightarrow> if m = ''_untrackClassesElement'' then untrack (o_target oc)
         else (case env_method env m of None \<Rightarrow> throw TypeError | Some f \<Rightarrow> f oc)
     | UserHandler n \<Rightarrow> env_handler env n oc
     | DestroyHandler \<Rightarrow> guard (\<lambda>w. o_target oc = w_element w) (destroy_widget env)
     | HoverIn \<Rightarrow> add_classes [o_current oc] [] ''ui-state-hover''
     | HoverOut \<Rightarrow> take_classes [o_current oc] [] ''ui-state-hover''
     | FocusIn \<Rightarrow> add_classes [o_current oc] [] ''ui-state-focus''
     | FocusOut \<Rightarrow> take_classes [o_current oc] [] ''ui-state-focus'')"

definition handler_proxy :: "'e widget_env \<Rightarrow> occurrence \<Rightarrow> binding \<Rightarrow> 'e widget stmt" where
  "handler_proxy env oc l = guard (\<lambda>w. l_suppress l \<or> \<not> (lookup (w_options w) ''disabled'' = OBool True \<or>
       ''ui-state-disabled'' \<in> set (dom_classes w (o_current oc)))) (run_handler env (l_handler l) oc)"

text \<open>The handlers that are bound when the event arrives at the element run in the order of binding.\<close>

definition hears :: "'e widget_env \<Rightarrow> occurrence \<Rightarrow> binding \<Rightarrow> bool" where
  "hears env oc l \<longleftrightarrow> l_element l = o_bound oc \<and> l_event l = o_event oc \<and>
     (if l_selector l = [] then o_current oc = o_bound oc else env_selects env (l_selector l) (o_current oc))"

definition dispatch :: "'e widget_env \<Rightarrow> occurrence \<Rightarrow> 'e widget stmt" where
  "dispatch env oc = bind_val (\<lambda>w. filter (hears env oc) (w_listeners w)) (\<lambda>ls. for_each ls (handler_proxy env oc))"

definition fire_timer :: "'e widget_env \<Rightarrow> occurrence \<Rightarrow> 'e widget stmt" where
  "fire_timer env oc = bind_val w_timers (\<lambda>ts. case ts of [] \<Rightarrow> skip
     | (hnd, _) # rest \<Rightarrow> block [upd (\<lambda>w. w\<lparr>w_timers := rest\<rparr>), run_handler env hnd oc])"

text \<open>What a derived widget, the page and the browser do to an instance.\<close>

datatype widget_call =
    CallOption string optval
  | CallOptions props
  | CallEnable
  | CallDisable
  | CallToggleClass "nat list" string string bool
  | CallOn bool "nat list option" "(string \<times> handler) list"
  | CallOff "nat list" string
  | CallHoverable "nat list"
  | CallFocusable "nat list"
  | CallDelay handler jsnum
  | CallTrigger string
  | CallDestroy
  | Occurs occurrence
  | TimerFires occurrence

fun widget_handler :: "'e widget_env \<Rightarrow> widget_call \<Rightarrow> 'e widget stmt" where
  "widget_handler env (CallOption key v) = option_set key v"
| "widget_handler env (CallOptions opts) = set_widget_options opts"
| "widget_handler env CallEnable = enable_widget"
| "widget_handler env CallDisable = disable_widget"
| "widget_handler env (CallToggleClass els keys extra add) = toggle_class els keys extra add"
| "widget_handler env (CallOn suppress els hs) = on_events suppress els hs"
| "widget_handler env (CallOff els names) = off_events els names"
| "widget_handler env (CallHoverable els) = hoverable els"
| "widget_handler env (CallFocusable els) = focusable els"
| "widget_handler env (CallDelay hnd ms) = set_delay_handler hnd ms"
| "widget_handler env (CallTrigger ty) = trigger_event env ty"
| "widget_handler env CallDestroy = destroy_widget env"
| "widget_handler env (Occurs oc) = dispatch env oc"
| "widget_handler env (TimerFires oc) = fire_timer env oc"

end
