(* ===== verification/UI_Widget_Props.thy ===== *)
theory UI_Widget_Props
  imports UI_Widget
begin

text \<open>
  What a widget leaves behind: the classes it puts on elements are tracked and go when it is
  destroyed, its handlers go as well, and a disabled widget handles no event.
\<close>

section \<open>Words\<close>

lemma words_from_solid: "\<forall>c \<in> set s. \<not> is_space c \<Longrightarrow> words_from w s = (if w @ s = [] then [] else [w @ s])"
  by (induction s arbitrary: w) simp_all

lemma words_from_words: "x \<in> set (words_from w s) \<Longrightarrow> \<forall>c \<in> set w. \<not> is_space c \<Longrightarrow> x \<noteq> [] \<and> (\<forall>c \<in> set x. \<not> is_space c)"
proof (induction s arbitrary: w)
  case (Cons c s)
  show ?case
  proof (cases "is_space c")
    case True
    then have "x = w \<and> w \<noteq> [] \<or> x \<in> set (words_from [] s)" using Cons.prems(1) by (simp split: if_splits)
    then show ?thesis using Cons.IH [of "[]"] Cons.prems(2) by auto
  next
    case False
    then show ?thesis using Cons.IH [of "w @ [c]"] Cons.prems by simp
  qed
qed (simp split: if_splits)

lemma words_single: "x \<in> set (words s) \<Longrightarrow> words x = [x]"
  using words_from_words [of x "[]" s] words_from_solid [of x "[]"] by (simp add: words_def)

section \<open>What tracking does\<close>

text \<open>What the classes depend on, and where the watch for removals may be.\<close>

definition class_view :: "'e widget \<Rightarrow> _" where
  "class_view w = (w_options w, w_heap w)"

definition watch :: handler where
  "watch = MethodNamed ''_untrackClassesElement''"

definition watched_only :: "'e widget \<Rightarrow> bool" where
  "watched_only w \<longleftrightarrow> (\<forall>l \<in> set (w_listeners w). l_handler l = watch \<longrightarrow> l_event l = ''remove'') \<and>
     (\<forall>(hnd, ms) \<in> set (w_timers w). hnd \<noteq> watch)"

definition tracks :: "'e widget \<Rightarrow> string \<Rightarrow> nat \<Rightarrow> bool" where
  "tracks w k e \<longleftrightarrow> e \<in> set (elements_with w k)"

lemma set_add_els [simp]: "set (add_els xs ys) = set xs \<union> set ys"
  by (auto simp: add_els_def)

lemma set_not_els [simp]: "set (not_els xs ys) = set xs - set ys"
  by (auto simp: not_els_def)

lemma elements_with_update: "elements_with (w\<lparr>class_lookup := AList.update k els (class_lookup w)\<rparr>) k' =
  (if k' = k then els else elements_with w k')"
  by (simp add: elements_with_def)

lemma elements_with_cong: "class_lookup w = class_lookup t \<Longrightarrow> elements_with w k = elements_with t k"
  by (simp add: elements_with_def)

lemma bound_remove: "\<exists>u. bind_remove_event els w = (None, u) \<and> class_view u = class_view w \<and> dom_classes u = dom_classes w \<and>
    w_element u = w_element w \<and> class_lookup u = class_lookup w \<and> (watched_only w \<longrightarrow> watched_only u)"
proof (intro exI conjI)
  let ?nodes = "filter (\<lambda>e. \<not> is_tracked e w) els"
  let ?u = "w\<lparr>w_bindings := add_els (w_bindings w) ?nodes,
       w_listeners := w_listeners w @ map (listen_at False ''remove'' [] (MethodNamed ''_untrackClassesElement'')) ?nodes\<rparr>"
  show "bind_remove_event els w = (None, ?u)" by (simp add: bind_remove_event_def upd_def Let_def)
  show "watched_only w \<longrightarrow> watched_only ?u" by (simp add: watched_only_def listen_at_def ball_Un)
qed (simp_all add: class_view_def)

text \<open>The result of putting classes on elements or taking them off.\<close>

definition classed :: "bool \<Rightarrow> nat list \<Rightarrow> string list \<Rightarrow> string list \<Rightarrow> 'e widget \<Rightarrow> 'e widget \<Rightarrow> bool" where
  "classed add els ks cs w t \<longleftrightarrow> class_view t = class_view w \<and> w_element t = w_element w \<and> (watched_only w \<longrightarrow> watched_only t) \<and>
     (\<forall>k e. tracks t k e \<longleftrightarrow> (if k \<in> set ks \<and> e \<in> set els then add else tracks w k e)) \<and>
     (\<forall>e. set (dom_classes t e) = (if e \<notin> set els then set (dom_classes w e)
        else if add then set (dom_classes w e) \<union> set cs else set (dom_classes w e) - set cs))"

lemma process_classed: "\<exists>t. process_class_string add els ks w = (None, t) \<and> classed add els ks [] w t"
proof (induction ks arbitrary: w)
  case Nil
  then show ?case by (simp add: process_class_string_def skip_def classed_def)
next
  case (Cons k ks)
  obtain u where u: "(if add then bind_remove_event els else skip) w = (None, u)" "class_view u = class_view w"
    "dom_classes u = dom_classes w" "w_element u = w_element w" "class_lookup u = class_lookup w" "watched_only w \<longrightarrow> watched_only u"
  proof (cases add)
    case True
    obtain u where "bind_remove_event els w = (None, u) \<and> class_view u = class_view w \<and> dom_classes u = dom_classes w \<and>
        w_element u = w_element w \<and> class_lookup u = class_lookup w \<and> (watched_only w \<longrightarrow> watched_only u)"
      using bound_remove by (rule exE)
    then show ?thesis using that [of u] True by simp
  qed (use that [of w] in \<open>simp add: skip_def\<close>)
  define track where "track = (\<lambda>w :: 'a widget. w\<lparr>class_lookup := AList.update k
        (if add then add_els (elements_with w k) els else not_els (elements_with w k) els) (class_lookup w)\<rparr>)"
  define v where "v = track u"
  have v: "class_view v = class_view w" "dom_classes v = dom_classes w" "w_element v = w_element w" "watched_only w \<longrightarrow> watched_only v"
  proof -
    have "class_view v = class_view u" "dom_classes v = dom_classes u" "w_element v = w_element u"
      by (simp_all add: v_def track_def class_view_def)
    then show "class_view v = class_view w" "dom_classes v = dom_classes w" "w_element v = w_element w" using u(2-4) by simp_all
    have "watched_only v = watched_only u" by (simp add: v_def track_def watched_only_def)
    then show "watched_only w \<longrightarrow> watched_only v" using u(6) by simp
  qed
  have tracked: "tracks v k' e \<longleftrightarrow> (if k' = k \<and> e \<in> set els then add else tracks w k' e)" for k' e
    using u(5) by (simp add: v_def track_def tracks_def elements_with_def)
  obtain t where t: "process_class_string add els ks v = (None, t)" "classed add els ks [] v t" using Cons.IH by blast
  have "process_class_string add els (k # ks) w = process_class_string add els ks v"
    by (simp add: process_class_string_def seq_assoc seq_upd v_def track_def
      seq_None [of "if add then bind_remove_event els else skip" w u, OF u(1)] del: if_image_distrib)
  then have "process_class_string add els (k # ks) w = (None, t)" using t(1) by simp
  moreover have "classed add els (k # ks) [] w t"
    using t(2) v by (simp add: classed_def tracked)
  ultimately show ?case by blast
qed

lemma apply_classed: "\<exists>t. apply_classes classes els keys extra add w = (None, t) \<and>
  classed add els (words keys @ words extra)
    (concat (map (\<lambda>k. k # theming (w_heap w) classes k) (words keys)) @ words extra) w t"
proof -
  obtain u where u: "process_class_string add els (words keys) w = (None, u)" "classed add els (words keys) [] w u"
    using process_classed by blast
  obtain v where v: "process_class_string add els (words extra) u = (None, v)" "classed add els (words extra) [] u v"
    using process_classed by blast
  let ?cs = "concat (map (\<lambda>k. k # theming (w_heap w) classes k) (words keys)) @ words extra"
  obtain t where t: "toggle_dom add ?cs els v = (None, t)" and dom: "dom_classes t = (\<lambda>e. if e \<notin> set els then dom_classes v e
     else if add then dom_classes v e @ filter (\<lambda>c. c \<notin> set (dom_classes v e)) (remdups ?cs)
     else filter (\<lambda>c. c \<notin> set ?cs) (dom_classes v e))"
    and rest: "class_view t = class_view v" "w_element t = w_element v" "watched_only v \<longrightarrow> watched_only t"
      "class_lookup t = class_lookup v"
    by (rule that, unfold toggle_dom_def upd_def, rule refl) (simp_all add: class_view_def watched_only_def)
  have names: "set (dom_classes t e) = (if e \<notin> set els then set (dom_classes v e)
        else if add then set (dom_classes v e) \<union> set ?cs else set (dom_classes v e) - set ?cs)" for e
    by (auto simp: dom)
  have "apply_classes classes els keys extra add w = (None, t)"
    using t by (simp add: apply_classes_def bind_val_def seq_None [of "process_class_string add els (words keys)" w u, OF u(1)]
      seq_None [of "process_class_string add els (words extra)" u v, OF v(1)])
  moreover have "classed add els (words keys @ words extra) ?cs w t"
    using u(2) v(2) rest by (simp add: classed_def names tracks_def elements_with_cong [OF rest(4)])
  ultimately show ?thesis by blast
qed


lemma toggle_classed: "\<exists>t. toggle_class els keys extra add w = (None, t) \<and>
  classed add els (words keys @ words extra)
    (concat (map (\<lambda>k. k # theming (w_heap w) (class_option w) k) (words keys)) @ words extra) w t"
  unfolding toggle_class_def bind_val_def by (rule apply_classed)

section \<open>The classes of an element\<close>

text \<open>
  The class option maps keys to text. Every class of the element \<open>e\<close> was there before or is due to
  a key that is tracked for it: the key itself, or what the option adds to it.
\<close>

definition themes :: "'e widget \<Rightarrow> string \<Rightarrow> string list" where
  "themes w k = theming (w_heap w) (class_option w) k"

definition plain_classes :: "string set \<Rightarrow> 'e widget \<Rightarrow> bool" where
  "plain_classes K w \<longleftrightarrow> (\<exists>o'. lookup (w_options w) ''classes'' = OObj o' \<and> distinct (map fst o')) \<and> (\<forall>k. themes w k \<noteq> [] \<longrightarrow> k \<in> K)"

definition due :: "'e widget \<Rightarrow> (string \<Rightarrow> string list) \<Rightarrow> nat \<Rightarrow> string \<Rightarrow> bool" where
  "due w th e c \<longleftrightarrow> (\<exists>k. tracks w k e \<and> (c = k \<or> c \<in> set (th k)))"

definition single_keys :: "'e widget \<Rightarrow> bool" where
  "single_keys w \<longleftrightarrow> (\<forall>k e. tracks w k e \<longrightarrow> words k = [k])"

definition owned :: "string set \<Rightarrow> nat \<Rightarrow> string set \<Rightarrow> 'e widget \<Rightarrow> bool" where
  "owned base e K w \<longleftrightarrow> plain_classes K w \<and> single_keys w \<and> watched_only w \<and>
     (\<forall>c \<in> set (dom_classes w e). c \<in> base \<or> due w (themes w) e c)"

lemma classed_keys: "classed add els ks cs w t \<Longrightarrow> (\<And>k. k \<in> set ks \<Longrightarrow> words k = [k]) \<Longrightarrow> single_keys w \<Longrightarrow> single_keys t"
  by (simp add: classed_def single_keys_def split: if_splits) blast

lemma classed_themes: "classed add els ks cs w t \<Longrightarrow> themes t k = themes w k \<and> (plain_classes K w \<longrightarrow> plain_classes K t)"
  by (simp add: classed_def class_view_def themes_def plain_classes_def class_option_def)

lemma add_due:
  assumes t: "classed True els ks cs w t"
    and cs: "\<And>c. c \<in> set cs \<Longrightarrow> \<exists>k \<in> set ks. c = k \<or> c \<in> set (th k)"
    and w: "\<forall>c \<in> set (dom_classes w e). c \<in> base \<or> due w th e c"
  shows "\<forall>c \<in> set (dom_classes t e). c \<in> base \<or> due t th e c"
proof
  fix c assume c: "c \<in> set (dom_classes t e)"
  show "c \<in> base \<or> due t th e c"
  proof (cases "c \<in> set (dom_classes w e)")
    case True
    then have "c \<in> base \<or> due w th e c" using w by blast
    moreover have "due w th e c \<Longrightarrow> due t th e c"
      using t by (auto simp: due_def classed_def)
    ultimately show ?thesis by blast
  next
    case False
    then have "e \<in> set els" "c \<in> set cs" using c t by (auto simp: classed_def split: if_splits)
    then show ?thesis using cs [of c] t by (auto simp: due_def classed_def)
  qed
qed

lemma remove_due:
  assumes t: "classed False els ks cs w t"
    and ks: "\<And>k. k \<in> set ks \<Longrightarrow> k \<in> set cs \<and> set (th k) \<subseteq> set cs"
    and w: "\<forall>c \<in> set (dom_classes w e). c \<in> base \<or> due w th e c"
  shows "\<forall>c \<in> set (dom_classes t e). c \<in> base \<or> due t th e c"
proof
  fix c assume c: "c \<in> set (dom_classes t e)"
  then have cw: "c \<in> set (dom_classes w e)" "e \<in> set els \<longrightarrow> c \<notin> set cs" using t by (auto simp: classed_def split: if_splits)
  show "c \<in> base \<or> due t th e c"
  proof (cases "c \<in> base")
    case False
    then obtain k where k: "tracks w k e" "c = k \<or> c \<in> set (th k)" using w cw(1) by (auto simp: due_def)
    have "tracks t k e" using t k cw(2) ks [of k] by (auto simp: classed_def)
    then show ?thesis using k(2) by (auto simp: due_def)
  qed simp
qed


section \<open>Every operation keeps them\<close>

text \<open>The names of the classes that the widget itself uses without a key carry no option.\<close>

definition free_names :: "string set \<Rightarrow> bool" where
  "free_names K \<longleftrightarrow> ''ui-state-hover'' \<notin> K \<and> ''ui-state-focus'' \<notin> K"

lemma own_words [simp]: "words ''ui-state-hover'' = [''ui-state-hover'']" "words ''ui-state-focus'' = [''ui-state-focus'']"
  "words [] = []"
  by code_simp+

lemma toggle_owned:
  assumes "set (words extra) \<inter> K = {}" "owned base e K w"
  shows "owned base e K (snd (toggle_class els keys extra add w))"
proof -
  obtain t where t: "toggle_class els keys extra add w = (None, t)"
    "classed add els (words keys @ words extra) (concat (map (\<lambda>k. k # themes w k) (words keys)) @ words extra) w t"
    using toggle_classed [of els keys extra add w] unfolding themes_def by blast
  have th: "themes t = themes w" using classed_themes [OF t(2)] by (simp add: fun_eq_iff)
  have due: "\<forall>c \<in> set (dom_classes w e). c \<in> base \<or> due w (themes w) e c" using assms(2) by (simp add: owned_def)
  have "\<forall>c \<in> set (dom_classes t e). c \<in> base \<or> due t (themes w) e c"
  proof (cases add)
    case True
    have "classed True els (words keys @ words extra) (concat (map (\<lambda>k. k # themes w k) (words keys)) @ words extra) w t"
      using t(2) True by simp
    then show ?thesis by (rule add_due) (use due in auto)
  next
    case False
    have none: "themes w k = []" if "k \<in> set (words extra)" for k
      using assms that by (auto simp: owned_def plain_classes_def)
    have "classed False els (words keys @ words extra) (concat (map (\<lambda>k. k # themes w k) (words keys)) @ words extra) w t"
      using t(2) False by simp
    then show ?thesis by (rule remove_due) (use due none in auto)
  qed
  moreover have "single_keys t"
    by (rule classed_keys [OF t(2)]) (use assms(2) words_single in \<open>auto simp: owned_def\<close>)
  ultimately show ?thesis
    using assms(2) t classed_themes [OF t(2)] by (simp add: owned_def th classed_def)
qed

lemma owned_toggle [pres_intro]: "set (words extra) \<inter> K = {} \<Longrightarrow> preserves (owned base e K) (toggle_class els keys extra add)"
  by (rule preservesI) (rule toggle_owned)

text \<open>The option \<open>classes\<close> is text, so it does not depend on the objects that are shared.\<close>

lemma class_text_cong: "ref_text h = ref_text h' \<Longrightarrow> class_text h v = class_text h' v"
  by (cases v) simp_all

lemma theming_heap: "ref_text h = ref_text h' \<Longrightarrow> theming h (OObj o') k = theming h' (OObj o') k"
  by (simp add: theming_def class_text_cong [of h h'])

lemma owned_cong:
  assumes "owned base e K w" "class_lookup t = class_lookup w" "dom_classes t = dom_classes w"
    "lookup (w_options t) ''classes'' = lookup (w_options w) ''classes''" "ref_text (w_heap t) = ref_text (w_heap w)" "watched_only t"
  shows "owned base e K t"
proof -
  obtain o' where o: "lookup (w_options w) ''classes'' = OObj o'" using assms(1) by (auto simp: owned_def plain_classes_def)
  have th: "themes t = themes w"
    using theming_heap [OF assms(5)] by (simp add: fun_eq_iff themes_def class_option_def assms(4) o)
  show ?thesis
    using assms(1,6) by (simp add: owned_def plain_classes_def single_keys_def due_def tracks_def th assms(3,4)
        elements_with_cong [OF assms(2)])
qed

lemma owned_upd:
  assumes "\<And>w. class_lookup (f w) = class_lookup w" "\<And>w. dom_classes (f w) = dom_classes w" "\<And>w. w_options (f w) = w_options w"
    "\<And>w. w_heap (f w) = w_heap w" "\<And>w. watched_only w \<Longrightarrow> watched_only (f w)"
  shows "preserves (owned base e K) (upd f)"
  by (rule preserves_upd) (rule owned_cong, use assms in \<open>auto simp: owned_def\<close>)

lemma assign_key_ref: "assign_key h cur k v = Inr (c, h') \<Longrightarrow> ref_text h' = ref_text h"
  by (cases cur) auto

lemma enter_key_ref: "enter_key h cur k = Inr (n, c, h') \<Longrightarrow> ref_text h' = ref_text h"
  by (auto simp: enter_key_def Let_def split: sum.splits if_splits dest: assign_key_ref)

lemma walk_set_ref: "walk_set h cur ks v = Inr (c, h') \<Longrightarrow> ref_text h' = ref_text h"
proof (induction h cur ks v arbitrary: c h' rule: walk_set.induct)
  case (3 h cur k k' ks v)
  then show ?case
    by (auto split: sum.splits optval.splits dest!: enter_key_ref assign_key_ref)
qed (auto dest: assign_key_ref)

lemma option_hash_ref:
  assumes "option_hash h opts key v = Inr (os, h')" "split_on (CHR ''.'') key = k # ks"
  shows "ref_text h' = ref_text h \<and> (\<exists>x. os = [(k, x)])"
  using assms by (auto simp: option_hash_def split: if_splits sum.splits dest: walk_set_ref)


subsection \<open>Changing the option of the classes\<close>

text \<open>While \<open>_setOptionClasses\<close> runs, the keys done have the new classes, the others the old ones.\<close>

definition blend :: "string set \<Rightarrow> (string \<Rightarrow> string list) \<Rightarrow> (string \<Rightarrow> string list) \<Rightarrow> string \<Rightarrow> string list" where
  "blend D new old k = (if k \<in> D then new k else old k)"

definition blended :: "string set \<Rightarrow> nat \<Rightarrow> string set \<Rightarrow> optval \<Rightarrow> 'e widget \<Rightarrow> bool" where
  "blended base e D value w \<longleftrightarrow> (\<exists>o'. lookup (w_options w) ''classes'' = OObj o') \<and> single_keys w \<and> watched_only w \<and>
     (\<forall>c \<in> set (dom_classes w e). c \<in> base \<or> due w (blend D (theming (w_heap w) value) (themes w)) e c)"

lemma strict_equal_eq: "strict_equal v v' \<Longrightarrow> v = v'"
  by (induction v v' rule: strict_equal.induct) (auto simp: num_eq_def)

lemma due_blend:
  assumes "due w (blend D new old) e c" "\<not> tracks w k e \<or> new k = old k"
  shows "due w (blend (insert k D) new old) e c"
proof -
  obtain k' where k': "tracks w k' e" "c = k' \<or> c \<in> set (blend D new old k')" using assms(1) unfolding due_def by blast
  have "blend (insert k D) new old k' = blend D new old k'" using assms(2) k'(1) by (auto simp: blend_def)
  then show ?thesis using k' unfolding due_def by metis
qed

lemma classed_view: "classed add els ks cs w t \<Longrightarrow>
    w_options t = w_options w \<and> w_heap t = w_heap w \<and> themes t = themes w \<and> (watched_only w \<longrightarrow> watched_only t)"
  by (simp add: classed_def class_view_def fun_eq_iff themes_def class_option_def)

lemma class_key_step:
  assumes w: "blended base e D value w" and k: "k \<notin> D"
  shows "\<exists>t. set_class_key value k w = (None, t) \<and> blended base e (insert k D) value t \<and> class_view t = class_view w"
proof -
  let ?h = "w_heap w" and ?old = "lookup (w_options w) ''classes''" and ?els = "elements_with w k"
  let ?new = "theming ?h value" and ?th = "themes w"
  obtain o' where old: "?old = OObj o'" using w by (auto simp: blended_def)
  have th: "?th = theming ?h ?old" by (simp add: fun_eq_iff themes_def class_option_def old)
  have due: "\<forall>c \<in> set (dom_classes w e). c \<in> base \<or> due w (blend D ?new ?th) e c" using w by (simp add: blended_def)
  show ?thesis
  proof (cases "strict_equal (get_key ?h value k) (get_key ?h ?old k) \<or> ?els = []")
    case True
    then have "\<not> tracks w k e \<or> ?new k = ?th k"
      using strict_equal_eq [of "get_key ?h value k" "get_key ?h ?old k"] by (auto simp: th theming_def tracks_def)
    with due due_blend [of w D ?new ?th e _ k] have "blended base e (insert k D) value w"
      using w unfolding blended_def by metis
    moreover have "set_class_key value k w = (None, w)"
      using True by (simp add: set_class_key_def bind_val_def skip_def old)
    ultimately show ?thesis by blast
  next
    case False
    then obtain e' where "tracks w k e'" by (cases ?els) (auto simp: tracks_def)
    then have single: "words k = [k]" using w unfolding blended_def single_keys_def by blast
    obtain u where u: "toggle_class ?els k [] False w = (None, u)" "classed False ?els [k] (k # ?th k) w u"
      using toggle_classed [of ?els k "[]" False w] by (auto simp: single themes_def)
    note uv = classed_view [OF u(2)]
    obtain t where t: "apply_classes value ?els k [] True u = (None, t)" "classed True ?els [k] (k # ?new k) u t"
      using apply_classed [of "value" ?els k "[]" True u] uv by (auto simp: single)
    note tv = classed_view [OF t(2)]
    have "\<forall>c \<in> set (dom_classes u e). c \<in> base \<or> due u (blend D ?new ?th) e c"
      by (rule remove_due [OF u(2) _ due]) (use k in \<open>auto simp: blend_def\<close>)
    moreover have "\<not> tracks u k e" using u(2) by (auto simp: classed_def tracks_def)
    ultimately have "\<forall>c \<in> set (dom_classes u e). c \<in> base \<or> due u (blend (insert k D) ?new ?th) e c"
      using due_blend by blast
    then have "\<forall>c \<in> set (dom_classes t e). c \<in> base \<or> due t (blend (insert k D) ?new ?th) e c"
      by (intro add_due [OF t(2)]) (auto simp: blend_def)
    moreover have "single_keys t"
    proof (rule classed_keys [OF t(2)])
      show "single_keys u" by (rule classed_keys [OF u(2)]) (use w single in \<open>simp_all add: blended_def\<close>)
    qed (use single in simp)
    moreover have "set_class_key value k w = (None, t)"
      using False by (simp add: set_class_key_def bind_val_def old take_classes_def t(1)
          seq_None [of "toggle_class ?els k [] False" w u, OF u(1)])
    ultimately show ?thesis
      using w tv uv by (intro exI [of _ t]) (simp add: blended_def class_view_def)
  qed
qed

lemma class_keys_loop:
  "blended base e D value w \<Longrightarrow> distinct ks \<Longrightarrow> set ks \<inter> D = {} \<Longrightarrow>
    \<exists>t. for_each ks (set_class_key value) w = (None, t) \<and> blended base e (D \<union> set ks) value t \<and> class_view t = class_view w"
proof (induction ks arbitrary: D w)
  case Nil
  then show ?case by (simp add: skip_def)
next
  case (Cons k ks)
  obtain u where u: "set_class_key value k w = (None, u)" "blended base e (insert k D) value u" "class_view u = class_view w"
    using class_key_step [OF Cons.prems(1), of k] Cons.prems(3) by auto
  obtain t where t: "for_each ks (set_class_key value) u = (None, t)" "blended base e (insert k D \<union> set ks) value t"
    "class_view t = class_view u"
    using Cons.IH [OF u(2)] Cons.prems(2,3) by auto
  then show ?case using u(3) by (intro exI [of _ t]) (simp add: seq_None [of "set_class_key value k" w u, OF u(1)])
qed


text \<open>A new value that names every key the old one had leaves nothing of the old classes.\<close>

lemma set_classes_owned:
  assumes w: "owned base e K w" and n: "distinct (map fst n)"
    and new: "\<And>k. theming (w_heap w) (OObj n) k \<noteq> [] \<Longrightarrow> k \<in> K"
    and all_keys: "\<And>k. k \<notin> fst ` set n \<Longrightarrow> themes w k = []"
  shows "owned base e K (snd (set_widget_option ''classes'' (OObj n) w))"
proof -
  have "blended base e {} (OObj n) w"
    using w by (auto simp: owned_def plain_classes_def blended_def blend_def due_def)
  from class_keys_loop [OF this n] obtain t where t: "for_each (map fst n) (set_class_key (OObj n)) w = (None, t)"
    "blended base e (set (map fst n)) (OObj n) t" "class_view t = class_view w" by auto
  define u where "u = t\<lparr>w_options := AList.update ''classes'' (OObj n) (w_options t)\<rparr>"
  have run: "set_widget_option ''classes'' (OObj n) w = (None, u)"
  proof -
    have "set_option_classes (OObj n) w = (None, t)" using t(1) by (simp add: set_option_classes_def bind_val_def)
    then show ?thesis
      by (simp add: set_widget_option_def u_def upd_def seq_None [of "set_option_classes (OObj n)" w t])
  qed
  have h: "w_heap u = w_heap w" "class_option u = OObj n" "w_heap t = w_heap w" "themes t = themes w"
    using t(3) by (simp_all add: u_def class_view_def class_option_def fun_eq_iff themes_def)
  have none: "theming (w_heap w) (OObj n) k = []" if "k \<notin> fst ` set n" for k
    using that by (simp add: theming_def lookup_absent)
  have blend: "blend (fst ` set n) (theming (w_heap w) (OObj n)) (themes w) = themes u"
    using none all_keys by (auto simp: blend_def fun_eq_iff themes_def h)
  have "tracks u k x = tracks t k x" for k x by (simp add: u_def tracks_def elements_with_def)
  moreover have "watched_only u = watched_only t" "dom_classes u = dom_classes t" by (simp_all add: u_def watched_only_def)
  moreover have "themes u k = theming (w_heap w) (OObj n) k" for k by (simp add: themes_def h)
  moreover have "lookup (w_options u) ''classes'' = OObj n" by (simp add: u_def)
  ultimately show ?thesis
    using t(2) new n by (simp add: run owned_def blended_def plain_classes_def single_keys_def due_def h blend)
qed

lemma theming_clone: "distinct (map fst o') \<Longrightarrow> theming h (OObj (clone_onto [] o')) k = theming h (OObj o') k"
proof -
  assume "distinct (map fst o')"
  then have "lookup (clone_onto [] o') k = clone_value (lookup o' k)" by (simp add: clone_lookup)
  moreover have "otruthy (clone_value v) = otruthy v" "class_text h (clone_value v) = class_text h v" for v by (cases v; simp)+
  ultimately show ?thesis by (simp add: theming_def)
qed

lemma distinct_clone: "distinct (map fst t) \<Longrightarrow> distinct (map fst (clone_onto t o'))"
  by (induction o' arbitrary: t) (auto simp: distinct_update)

lemma option_classes_owned:
  assumes w: "owned base e K w" and key: "split_on (CHR ''.'') key = [''classes'', c]" and c: "c \<in> K"
  shows "owned base e K (snd (option_set key v w))"
proof -
  let ?h = "w_heap w"
  obtain o' where o: "lookup (w_options w) ''classes'' = OObj o'" "distinct (map fst o')"
    and K: "\<And>k. themes w k \<noteq> [] \<Longrightarrow> k \<in> K" using w by (auto simp: owned_def plain_classes_def)
  define n where "n = AList.update c v (clone_onto [] o')"
  have hash: "option_hash ?h (w_options w) key v = Inr ([(''classes'', OObj n)], ?h)"
    using key o(1) by (simp add: option_hash_def n_def)
  have th: "themes w k = theming ?h (OObj o') k" for k by (simp add: themes_def class_option_def o(1))
  have new: "theming ?h (OObj n) k = theming ?h (OObj o') k" if "k \<noteq> c" for k
  proof -
    have "theming ?h (OObj n) k = theming ?h (OObj (clone_onto [] o')) k" using that by (simp add: theming_def n_def)
    then show ?thesis using theming_clone [OF o(2)] by simp
  qed
  have "owned base e K (snd (set_widget_option ''classes'' (OObj n) w))"
  proof (rule set_classes_owned [OF w])
    show "distinct (map fst n)" using distinct_clone [of "[]" o'] by (simp add: n_def distinct_update)
    show "k \<in> K" if "theming ?h (OObj n) k \<noteq> []" for k
      using that new [of k] c K [of k] by (cases "k = c") (simp_all add: th)
    show "themes w k = []" if "k \<notin> fst ` set n" for k
    proof -
      have "k \<noteq> c" "lookup (clone_onto [] o') k = OUndef" using that by (auto simp: n_def keys_update lookup_absent)
      then show ?thesis using theming_clone [OF o(2), of ?h k] by (simp add: th theming_def)
    qed
  qed
  then show ?thesis by (simp add: option_set_def bind_exp_def hash seq_upd set_widget_options_def)
qed


subsection \<open>The other operations\<close>

lemma preserves_for_each_set: "(\<And>x. x \<in> set xs \<Longrightarrow> preserves P (b x)) \<Longrightarrow> preserves P (for_each xs b)"
  by (induction xs) (auto intro: pres_intro)

lemmas owned_intro = pres_intro pres_cases preserves_for_each_set

lemma owned_disabled: "free_names K \<Longrightarrow> preserves (owned base e K) (set_option_disabled v)"
  unfolding set_option_disabled_def take_classes_def
  by (intro owned_intro) (simp_all add: free_names_def)

lemma owned_option: "free_names K \<Longrightarrow> key \<noteq> ''classes'' \<Longrightarrow> preserves (owned base e K) (set_widget_option key v)"
  unfolding set_widget_option_def
proof (intro pres_intro)
  assume K: "free_names K" "key \<noteq> ''classes''"
  show "preserves (owned base e K) (upd (\<lambda>w. w\<lparr>w_options := AList.update key v (w_options w)\<rparr>))"
    by (rule preserves_upd, rule owned_cong) (use K(2) in \<open>simp_all add: owned_def watched_only_def\<close>)
  show "preserves (owned base e K) (if key = ''disabled'' then set_option_disabled v else skip)"
    by (auto intro: owned_disabled [OF K(1)] pres_intro)
qed (simp add: pres_intro)

lemma owned_options: "free_names K \<Longrightarrow> ''classes'' \<notin> fst ` set opts \<Longrightarrow> preserves (owned base e K) (set_widget_options opts)"
  unfolding set_widget_options_def
  by (rule preserves_for_each_set) (force intro: owned_option split: prod.split)

text \<open>The option as a whole, for one that names the same keys.\<close>

fun whole_classes :: "string set \<Rightarrow> optval \<Rightarrow> bool" where
  "whole_classes K (OObj n) \<longleftrightarrow> distinct (map fst n) \<and> fst ` set n = K"
| "whole_classes K _ \<longleftrightarrow> False"

lemma whole_owned:
  assumes "owned base e K w" "whole_classes K v"
  shows "owned base e K (snd (set_widget_option ''classes'' v w))"
proof (cases v)
  case (OObj n)
  then have n: "distinct (map fst n)" "fst ` set n = K" using assms(2) by simp_all
  show ?thesis unfolding OObj
  proof (rule set_classes_owned [OF assms(1) n(1)])
    show "k \<in> K" if "theming (w_heap w) (OObj n) k \<noteq> []" for k
      using that n(2) lookup_absent [of k n] by (cases "k \<in> fst ` set n") (simp_all add: theming_def)
    show "themes w k = []" if "k \<notin> fst ` set n" for k
      using that n(2) assms(1) by (auto simp: owned_def plain_classes_def)
  qed
qed (use assms(2) in simp_all)

lemma owned_options_whole:
  assumes "free_names K" "\<forall>(k, v) \<in> set opts. k = ''classes'' \<longrightarrow> whole_classes K v"
  shows "preserves (owned base e K) (set_widget_options opts)"
  unfolding set_widget_options_def
proof (rule preserves_for_each_set)
  fix x assume x: "x \<in> set opts"
  obtain k v where kv: "x = (k, v)" by (cases x)
  have "preserves (owned base e K) (set_widget_option k v)"
  proof (cases "k = ''classes''")
    case True
    then have "whole_classes K v" using assms(2) x kv by blast
    then show ?thesis unfolding True by (intro preservesI whole_owned)
  next
    case False
    then show ?thesis by (rule owned_option [OF assms(1)])
  qed
  then show "preserves (owned base e K) (case x of (k, v) \<Rightarrow> set_widget_option k v)" by (simp add: kv)
qed

lemma option_whole_owned:
  assumes "free_names K" "owned base e K w" "whole_classes K v"
  shows "owned base e K (snd (option_set ''classes'' v w))"
proof -
  have "split_on (CHR ''.'') ''classes'' = [''classes'']" by code_simp
  then have "option_set ''classes'' v w = set_widget_options [(''classes'', v)] w"
    by (simp add: option_set_def bind_exp_def option_hash_def seq_upd)
  then show ?thesis using preservesD [OF owned_options_whole [OF assms(1), of "[(''classes'', v)]"] assms(2)] assms(3) by simp
qed

lemma option_owned:
  assumes "free_names K" "owned base e K w" "hd (split_on (CHR ''.'') key) \<noteq> ''classes''"
  shows "owned base e K (snd (option_set key v (w :: 'a widget)))"
proof (cases "option_hash (w_heap w) (w_options w) key v")
  case (Inl x)
  then show ?thesis using assms(2) by (simp add: option_set_def bind_exp_def)
next
  case (Inr r)
  obtain os h where r: "r = (os, h)" by (cases r)
  obtain k ks where key: "split_on (CHR ''.'') key = k # ks" using split_on_nonempty by (metis neq_Nil_conv)
  obtain x where h: "ref_text h = ref_text (w_heap w)" "os = [(k, x)]" using option_hash_ref [OF Inr [unfolded r] key] by auto
  have "owned base e K (w\<lparr>w_heap := h\<rparr>)"
    by (rule owned_cong [OF assms(2)]) (use assms(2) h in \<open>simp_all add: owned_def watched_only_def\<close>)
  moreover have "preserves (owned base e K :: 'a widget \<Rightarrow> bool) (set_widget_options os)"
    by (rule owned_options [OF assms(1)]) (use assms(3) key h(2) in simp)
  ultimately show ?thesis using Inr r by (simp add: option_set_def bind_exp_def seq_upd preservesD)
qed

text \<open>Only \<open>_classes\<close> binds the watch for removals.\<close>

definition no_watch :: "(string \<times> handler) list \<Rightarrow> bool" where
  "no_watch hs \<longleftrightarrow> watch \<notin> snd ` set hs"

lemma owned_bind_handler: "snd spec \<noteq> watch \<Longrightarrow> preserves (owned base e K) (bind_handler suppress els spec)"
  unfolding bind_handler_def
proof (intro owned_intro)
  fix event selector
  assume h: "snd spec \<noteq> watch"
  show "preserves (owned base e K) (upd (\<lambda>w. w\<lparr>w_listeners := w_listeners w @ map (listen_at suppress event selector (snd spec)) els\<rparr>))"
    by (rule owned_upd) (use h in \<open>simp_all add: watched_only_def listen_at_def ball_Un\<close>)
qed

lemma owned_on:
  assumes "no_watch hs"
  shows "preserves (owned base e K) (on_events suppress els hs)"
proof -
  have loop: "preserves (owned base e K) (for_each hs (bind_handler suppress els'))" for els'
    by (rule preserves_for_each_set, rule owned_bind_handler) (use assms in \<open>force simp: no_watch_def\<close>)
  have bind: "preserves (owned base e K) (upd (\<lambda>w. w\<lparr>w_bindings := add_els (w_bindings w) els'\<rparr>))" for els'
    by (rule owned_upd) (simp_all add: watched_only_def)
  show ?thesis
    by (cases els) (simp_all add: on_events_def preserves_bind_val preserves_seq loop bind)
qed

lemma owned_off: "preserves (owned base e K) (off_events els names)"
  unfolding off_events_def by (rule owned_upd) (simp_all add: watched_only_def Let_def)

lemma owned_hover: "preserves (owned base e K) (hoverable els)" "preserves (owned base e K) (focusable els)"
  unfolding hoverable_def focusable_def
  by (intro owned_intro owned_on owned_upd; simp add: no_watch_def watch_def watched_only_def)+

lemma owned_delay: "hnd \<noteq> watch \<Longrightarrow> preserves (owned base e K) (set_delay_handler hnd ms)"
  unfolding set_delay_handler_def by (rule owned_upd) (simp_all add: watched_only_def)

lemma owned_trigger: "preserves (owned base e K) (trigger_event env ty)"
proof -
  have run: "preserves (owned base e K) (run_callback_option env callback tr prevented)" for callback tr prevented
  proof (rule preservesI)
    fix w :: "'a widget" assume w: "owned base e K w"
    have "owned base e K (w\<lparr>w_outside := out\<rparr>)" "owned base e K (w\<lparr>w_outside := out, w_answer := b\<rparr>)" "owned base e K (w\<lparr>w_answer := b\<rparr>)"
      for out b by (rule owned_cong [OF w]; use w in \<open>simp add: owned_def watched_only_def\<close>)+
    then show "owned base e K (snd (run_callback_option env callback tr prevented w))"
      using w by (simp add: run_callback_option_def split: optval.split prod.split sum.split)
  qed
  show ?thesis unfolding trigger_event_def
    by (intro owned_intro run owned_upd; simp add: watched_only_def)
qed

lemma owned_untrack: "x \<noteq> e \<Longrightarrow> preserves (owned base e K) (untrack x)"
  unfolding untrack_def
proof (intro pres_intro owned_off preserves_upd)
  fix w :: "'a widget"
  let ?t = "w\<lparr>class_lookup := map (\<lambda>(k, els). (k, not_els els [x])) (class_lookup w)\<rparr>"
  assume x: "x \<noteq> e" and w: "owned base e K w"
  have tracks: "tracks ?t k y \<longleftrightarrow> tracks w k y \<and> y \<noteq> x" for k y
  proof -
    have "map_of (map (\<lambda>(k, els). (k, not_els els [x])) (class_lookup w)) k = map_option (\<lambda>els. not_els els [x]) (map_of (class_lookup w) k)"
      by (simp add: map_of_map)
    then show ?thesis by (cases "map_of (class_lookup w) k") (simp_all add: tracks_def elements_with_def)
  qed
  have "themes ?t = themes w" by (simp add: fun_eq_iff themes_def class_option_def)
  then show "owned base e K ?t"
    using w x by (auto simp: owned_def plain_classes_def single_keys_def watched_only_def due_def tracks)
qed

lemma owned_destroy:
  assumes "preserves (owned base e K) (env_destroy env)"
  shows "preserves (owned base e K) (destroy_widget env)"
  unfolding destroy_widget_def drop_classes_def take_classes_def
  by (intro owned_intro assms owned_upd) (auto simp: watched_only_def)


text \<open>What derived widgets and pages run keeps the bookkeeping: it uses the same operations.\<close>

definition tidy_env :: "string set \<Rightarrow> nat \<Rightarrow> string set \<Rightarrow> 'e widget_env \<Rightarrow> bool" where
  "tidy_env base e K env \<longleftrightarrow> preserves (owned base e K) (env_create env) \<and> preserves (owned base e K) (env_init env) \<and>
     preserves (owned base e K) (env_destroy env) \<and>
     (\<forall>m f oc. env_method env m = Some f \<longrightarrow> preserves (owned base e K) (f oc)) \<and>
     (\<forall>n oc. preserves (owned base e K) (env_handler env n oc))"

lemma owned_handler:
  assumes "tidy_env base e K env" "free_names K" "hnd = watch \<longrightarrow> o_target oc \<noteq> e"
  shows "preserves (owned base e K) (run_handler env hnd oc)"
proof (cases hnd)
  case (MethodNamed m)
  then show ?thesis
    using assms owned_untrack [of "o_target oc" e base K]
    by (cases "env_method env m") (auto simp: run_handler_def watch_def tidy_env_def intro: pres_intro)
next
  case (UserHandler n)
  then show ?thesis using assms by (simp add: run_handler_def tidy_env_def)
next
  case DestroyHandler
  then show ?thesis using assms by (simp add: run_handler_def tidy_env_def owned_destroy preserves_guard)
qed (use assms(2) in \<open>simp_all add: run_handler_def add_classes_def take_classes_def owned_toggle free_names_def\<close>)

lemma owned_dispatch:
  assumes "tidy_env base e K env" "free_names K" "o_event oc = ''remove'' \<longrightarrow> o_target oc \<noteq> e"
  shows "preserves (owned base e K) (dispatch env oc)"
proof (rule preservesI)
  fix w :: "'a widget" assume w: "owned base e K w"
  have "preserves (owned base e K) (for_each (filter (hears env oc) (w_listeners w)) (handler_proxy env oc))"
  proof (rule preserves_for_each_set)
    fix l assume "l \<in> set (filter (hears env oc) (w_listeners w))"
    then have "l_handler l = watch \<longrightarrow> o_target oc \<noteq> e" using w assms(3) by (auto simp: owned_def watched_only_def hears_def)
    then show "preserves (owned base e K) (handler_proxy env oc l)"
      unfolding handler_proxy_def by (intro preserves_guard owned_handler assms(1,2))
  qed
  then show "owned base e K (snd (dispatch env oc w))" using w by (simp add: dispatch_def bind_val_def preservesD)
qed

lemma owned_timer:
  assumes "tidy_env base e K env" "free_names K"
  shows "preserves (owned base e K) (fire_timer env oc)"
proof (rule preservesI)
  fix w :: "'a widget" assume w: "owned base e K w"
  show "owned base e K (snd (fire_timer env oc w))"
  proof (cases "w_timers w")
    case Nil
    then show ?thesis using w by (simp add: fire_timer_def bind_val_def skip_def)
  next
    case (Cons t ts)
    obtain hnd ms where t: "t = (hnd, ms)" by (cases t)
    have "owned base e K (w\<lparr>w_timers := ts\<rparr>)"
      by (rule owned_cong [OF w]) (use w Cons in \<open>simp_all add: owned_def watched_only_def\<close>)
    moreover have "hnd \<noteq> watch" using w Cons t by (simp add: owned_def watched_only_def)
    ultimately show ?thesis
      using preservesD [OF owned_handler [OF assms]] Cons t by (simp add: fire_timer_def bind_val_def seq_upd)
  qed
qed

text \<open>
  The calls in question: classes without a key carry no option, the option \<open>classes\<close> changes key by
  key, or for an object that names all of the keys (what becomes of keys that are left out is below),
  the watch for removals is the widget's own, and the element is not removed from the page.
\<close>

fun tidy_call :: "nat \<Rightarrow> string set \<Rightarrow> widget_call \<Rightarrow> bool" where
  "tidy_call e K (CallOption key v) \<longleftrightarrow> hd (split_on (CHR ''.'') key) \<noteq> ''classes'' \<or>
     (\<exists>c \<in> K. split_on (CHR ''.'') key = [''classes'', c]) \<or> key = ''classes'' \<and> whole_classes K v"
| "tidy_call e K (CallOptions opts) \<longleftrightarrow> (\<forall>(k, v) \<in> set opts. k = ''classes'' \<longrightarrow> whole_classes K v)"
| "tidy_call e K (CallToggleClass els keys extra add) \<longleftrightarrow> set (words extra) \<inter> K = {}"
| "tidy_call e K (CallOn suppress els hs) \<longleftrightarrow> no_watch hs"
| "tidy_call e K (CallDelay hnd ms) \<longleftrightarrow> hnd \<noteq> watch"
| "tidy_call e K (Occurs oc) \<longleftrightarrow> (o_event oc = ''remove'' \<longrightarrow> o_target oc \<noteq> e)"
| "tidy_call e K _ \<longleftrightarrow> True"

lemma owned_step:
  assumes "tidy_env base e K env" "free_names K" "tidy_call e K c" "owned base e K w"
  shows "owned base e K (snd (widget_handler env c w))"
proof (cases c)
  case (CallOption key v)
  then show ?thesis
    using assms(3,4) option_owned [OF assms(2,4)] option_classes_owned [OF assms(4)] option_whole_owned [OF assms(2,4)] by auto
next
  case (CallOptions opts)
  then show ?thesis using preservesD [OF owned_options_whole [OF assms(2)] assms(4)] assms(3) by simp
next
  case CallEnable
  then show ?thesis using assms(2,4) by (simp add: enable_widget_def preservesD [OF owned_options])
next
  case CallDisable
  then show ?thesis using assms(2,4) by (simp add: disable_widget_def preservesD [OF owned_options])
next
  case CallDestroy
  then show ?thesis using assms(1,4) by (simp add: tidy_env_def preservesD [OF owned_destroy])
qed (use assms preservesD [OF owned_options [OF assms(2)]] preservesD [OF owned_toggle] preservesD [OF owned_on]
    preservesD [OF owned_off] preservesD [OF owned_hover(1)] preservesD [OF owned_hover(2)] preservesD [OF owned_delay]
    preservesD [OF owned_trigger] preservesD [OF owned_dispatch [OF assms(1,2)]] preservesD [OF owned_timer [OF assms(1,2)]]
    in \<open>simp_all\<close>)

section \<open>Destruction\<close>

lemma drop_loop:
  "single_keys w \<Longrightarrow> \<exists>t. for_each ks (\<lambda>k. bind_val (\<lambda>w. elements_with w k) (\<lambda>els. take_classes els k [])) w = (None, t) \<and>
    single_keys t \<and> (\<forall>k x. tracks t k x \<longrightarrow> tracks w k x \<and> k \<notin> set ks)"
proof (induction ks arbitrary: w)
  case (Cons k ks)
  let ?drop = "\<lambda>k. bind_val (\<lambda>w. elements_with w k) (\<lambda>els. take_classes els k [])"
  obtain u where u: "take_classes (elements_with w k) k [] w = (None, u)"
    "classed False (elements_with w k) (words k @ words []) (concat (map (\<lambda>k. k # theming (w_heap w) (class_option w) k) (words k)) @ words []) w u"
    using toggle_classed [of "elements_with w k" k "[]" False w] unfolding take_classes_def by blast
  have gone: "tracks u k' x \<Longrightarrow> tracks w k' x \<and> k' \<noteq> k" for k' x
    using u(2) Cons.prems by (auto simp: classed_def tracks_def single_keys_def split: if_splits)
  then have "single_keys u" using Cons.prems by (auto simp: single_keys_def)
  then obtain t where t: "for_each ks ?drop u = (None, t)" "single_keys t" "\<And>k x. tracks t k x \<Longrightarrow> tracks u k x \<and> k \<notin> set ks"
    using Cons.IH by blast
  have "?drop k w = (None, u)" using u(1) by (simp add: bind_val_def)
  then have "for_each (k # ks) ?drop w = (None, t)" using t(1) by (simp add: seq_None [of "?drop k" w u])
  then show ?case using t(2,3) gone by (intro exI [of _ t]) auto
qed (simp add: skip_def)

lemma tracked_key: "tracks w k x \<Longrightarrow> k \<in> fst ` set (class_lookup w)"
  using map_of_SomeD by (cases "map_of (class_lookup w) k") (force simp: tracks_def elements_with_def)+

lemma destroyed:
  assumes env: "tidy_env base e K env" "total (env_destroy env)" and w: "owned base e K w"
  shows "\<exists>t. destroy_widget env w = (None, t) \<and> owned base e K t \<and> (\<forall>k x. \<not> tracks t k x)"
proof -
  obtain u where u: "env_destroy env w = (None, u)"
    using env(2) that [of "snd (env_destroy env w)"] by (simp add: total_def prod_eq_iff)
  have ou: "owned base e K u" using env(1) w u preservesD [of "owned base e K" "env_destroy env" w] by (simp add: tidy_env_def)
  then obtain v where v: "drop_classes u = (None, v)" "\<And>k x. tracks v k x \<Longrightarrow> tracks u k x \<and> k \<notin> fst ` set (class_lookup u)"
    using drop_loop [of u "map fst (class_lookup u)"] by (auto simp: owned_def drop_classes_def bind_val_def)
  have none: "\<not> tracks v k x" for k x
    using v(2) [of k x] tracked_key [of u k x] by blast
  let ?done = "\<lambda>w. w\<lparr>w_listeners := filter (\<lambda>l. l_element l \<noteq> w_element w) (w_listeners w), has_data := False\<rparr>"
  let ?unbind = "\<lambda>w. w\<lparr>w_listeners := filter (\<lambda>l. l_element l \<notin> set (w_bindings w)) (w_listeners w)\<rparr>"
  have run: "destroy_widget env w = (None, ?unbind (?done v))"
    by (simp add: destroy_widget_def seq_None [of "env_destroy env" w u, OF u] seq_None [of drop_classes u v, OF v(1)] seq_upd)
      (simp add: upd_def)
  have "tracks (?unbind (?done v)) k x = tracks v k x" for k x by (simp add: tracks_def elements_with_def)
  moreover have "owned base e K (?unbind (?done v))"
    using preservesD [OF owned_destroy [of base e K env] w] env(1) by (simp add: tidy_env_def run)
  ultimately show ?thesis using run none by blast
qed


text \<open>A widget that has just been created.\<close>

definition fresh_widget :: "string set \<Rightarrow> 'e widget_env \<Rightarrow> props \<Rightarrow> props \<Rightarrow> 'e widget \<Rightarrow> bool" where
  "fresh_widget K env found given w \<longleftrightarrow> w_listeners w = [] \<and> w_timers w = [] \<and> (\<forall>v. env_create_options env v = found) \<and>
     (\<exists>o'. lookup (widget_extend [] [w_options w, found, given]) ''classes'' = OObj o' \<and> distinct (map fst o') \<and>
       (\<forall>k. theming (w_heap w) (OObj o') k \<noteq> [] \<longrightarrow> k \<in> K))"

lemma remove_event: "parse_event ''remove'' = Some (''remove'', [])"
  by code_simp

lemma create_owned:
  assumes "tidy_env (set (dom_classes w e)) e K env" "free_names K" "fresh_widget K env found given w"
  shows "owned (set (dom_classes w e)) e K (snd (create_widget env given x w))"
proof -
  let ?P = "owned (set (dom_classes w e)) e K"
  let ?start = "\<lambda>w. w\<lparr>w_element := x, w_bindings := [], w_hoverable := [], w_focusable := [], class_lookup := [], has_data := True\<rparr>"
  let ?bound = "\<lambda>w. w\<lparr>w_bindings := [x], w_listeners := [listen_at True ''remove'' [] DestroyHandler x]\<rparr>"
  let ?opts = "\<lambda>w. w\<lparr>w_options := widget_extend [] [w_options w, found, given]\<rparr>"
  have "on_events True (Some [x]) [(''remove'', DestroyHandler)] (?start w) = (None, ?bound (?start w))"
    using assms(3) by (simp add: on_events_def bind_handler_def remove_event seq_upd fresh_widget_def add_els_def)
      (simp add: upd_def)
  then have run: "create_widget env given x w = seq (block [env_create env,
     bind_val (\<lambda>w. lookup (w_options w) ''disabled'') (\<lambda>v. if otruthy v then set_option_disabled v else skip),
     trigger_event env ''create'', env_init env]) skip (?opts (?bound (?start w)))"
    using assms(3) by (simp add: create_widget_def seq_upd fresh_widget_def
        seq_None [of "on_events True (Some [x]) [(''remove'', DestroyHandler)]" "?start w"])
  have "?P (?opts (?bound (?start w)))"
    using assms(3) by (auto simp: owned_def fresh_widget_def plain_classes_def single_keys_def tracks_def elements_with_def
        watched_only_def listen_at_def watch_def themes_def class_option_def)
  moreover have "preserves ?P (block [env_create env,
     bind_val (\<lambda>w. lookup (w_options w) ''disabled'') (\<lambda>v. if otruthy v then set_option_disabled v else skip),
     trigger_event env ''create'', env_init env])"
    using assms(1) by (intro pres_intro pres_cases owned_disabled owned_trigger assms(2)) (simp_all add: tidy_env_def)
  ultimately show ?thesis by (simp add: run preservesD)
qed

lemma widget_loop:
  assumes "tidy_env base e K env" "free_names K"
  shows "event_loop (widget_handler env) (tidy_call e K) (owned base e K)"
  by unfold_locales (rule owned_step [OF assms])

lemma total_toggle: "total (toggle_class els keys extra add)"
proof -
  have "fst (toggle_class els keys extra add w) = None" for w :: "'a widget"
    using toggle_classed [of els keys extra add w] by auto
  then show ?thesis by (simp add: total_def)
qed

lemma total_drop: "total drop_classes"
  unfolding drop_classes_def take_classes_def by (intro total_intro total_toggle)

lemma total_ends: "total m \<Longrightarrow> \<exists>t. m s = (None, t)"
  by (cases "m s") (auto simp: total_def dest: spec [of _ s])

section \<open>Handlers\<close>

text \<open>Every handler is bound to the widget's element, or to one that is noted as bound.\<close>

definition noted :: "'e widget \<Rightarrow> bool" where
  "noted w \<longleftrightarrow> (\<forall>l \<in> set (w_listeners w). l_element l = w_element w \<or> l_element l \<in> set (w_bindings w))"

definition binding_view :: "'e widget \<Rightarrow> _" where
  "binding_view w = (w_listeners w, w_bindings w, w_element w)"

lemma noted_view: "binding_view t = binding_view w \<Longrightarrow> noted w \<Longrightarrow> noted t"
  by (simp add: noted_def binding_view_def)

lemma noted_upd: "(\<And>w. binding_view (f w) = binding_view w) \<Longrightarrow> preserves noted (upd f)"
  by (rule preserves_upd) (rule noted_view)

lemma noted_remove: "preserves noted (bind_remove_event els)"
  unfolding bind_remove_event_def
  by (rule preserves_upd) (auto simp: noted_def Let_def listen_at_def)

lemma noted_apply: "preserves noted (apply_classes classes els keys extra add)"
  unfolding apply_classes_def process_class_string_def toggle_dom_def
  by (intro owned_intro noted_remove noted_upd; simp add: binding_view_def)+

lemma noted_toggle [pres_intro]: "preserves noted (toggle_class els keys extra add)"
  unfolding toggle_class_def by (intro pres_intro noted_apply)

lemmas noted_intro = owned_intro noted_toggle

lemma noted_options: "preserves noted (set_widget_options opts)"
  unfolding set_widget_options_def set_widget_option_def set_option_classes_def set_class_key_def set_option_disabled_def
    take_classes_def
  by (intro noted_intro noted_apply noted_upd; simp add: binding_view_def)+

lemma drop_keeps: "keeps binding_view drop_classes"
  unfolding drop_classes_def take_classes_def toggle_class_def apply_classes_def process_class_string_def toggle_dom_def if_False
  by (intro frame_intro keeps_upd; simp add: binding_view_def)

definition noted_at :: "nat list \<Rightarrow> 'e widget \<Rightarrow> bool" where
  "noted_at els w \<longleftrightarrow> noted w \<and> (\<forall>e \<in> set els. e = w_element w \<or> e \<in> set (w_bindings w))"

lemma noted_bind: "preserves (noted_at els) (for_each hs (bind_handler suppress els))"
  unfolding bind_handler_def
  by (intro noted_intro preserves_upd) (auto simp: noted_at_def noted_def listen_at_def)

lemma noted_on: "preserves noted (on_events suppress els hs)"
proof (rule preservesI)
  fix w :: "'a widget" assume w: "noted w"
  have at: "noted (snd (for_each hs (bind_handler suppress els') v))" if "noted_at els' v" for els' and v :: "'a widget"
    using preservesD [OF noted_bind that] by (simp add: noted_at_def)
  show "noted (snd (on_events suppress els hs w))"
  proof (cases els)
    case None
    then show ?thesis using at [of "[w_element w]" w] w by (simp add: on_events_def bind_val_def noted_at_def)
  next
    case (Some els')
    have "noted_at els' (w\<lparr>w_bindings := add_els (w_bindings w) els'\<rparr>)" using w by (auto simp: noted_at_def noted_def)
    then show ?thesis using at Some by (simp add: on_events_def seq_upd)
  qed
qed

lemma noted_off: "[] \<in> set (split_on (CHR '' '') names) \<Longrightarrow> preserves noted (off_events els names)"
  unfolding off_events_def by (rule preserves_upd) (auto simp: noted_def Let_def)

lemma noted_untrack: "preserves noted (untrack x)"
  unfolding untrack_def by (intro pres_intro noted_off noted_upd) (simp_all add: binding_view_def)

lemma noted_parts:
  "preserves noted (option_set key v)" "preserves noted (hoverable els)" "preserves noted (focusable els)"
  "preserves noted (set_delay_handler hnd ms)" "preserves noted enable_widget" "preserves noted disable_widget"
  unfolding option_set_def hoverable_def focusable_def set_delay_handler_def enable_widget_def disable_widget_def
  by (intro noted_intro noted_options noted_on noted_upd; simp add: binding_view_def)+

lemma noted_trigger: "preserves noted (trigger_event env ty)"
proof -
  have "preserves noted (run_callback_option env callback tr prevented)" for callback tr prevented
    by (rule preservesI, rule noted_view)
      (auto simp: run_callback_option_def binding_view_def split: optval.split prod.split sum.split)
  then show ?thesis unfolding trigger_event_def
    by (intro noted_intro noted_upd; simp add: binding_view_def)
qed

definition noting_env :: "'e widget_env \<Rightarrow> bool" where
  "noting_env env \<longleftrightarrow> preserves noted (env_create env) \<and> preserves noted (env_init env) \<and> preserves noted (env_destroy env) \<and>
     (\<forall>m f oc. env_method env m = Some f \<longrightarrow> preserves noted (f oc)) \<and> (\<forall>n oc. preserves noted (env_handler env n oc))"

lemma noted_drop: "preserves noted drop_classes"
  unfolding drop_classes_def take_classes_def by (intro noted_intro)

lemma noted_destroy: "noting_env env \<Longrightarrow> preserves noted (destroy_widget env)"
  unfolding destroy_widget_def
  by (intro pres_intro noted_drop preserves_upd) (auto simp: noting_env_def noted_def)

lemma noted_handler: "noting_env env \<Longrightarrow> preserves noted (run_handler env hnd oc)"
  by (cases hnd) (auto simp: run_handler_def noting_env_def add_classes_def take_classes_def
      intro!: noted_intro noted_untrack noted_destroy split: option.split)

text \<open>No handler is unbound by the name of its event.\<close>

fun noting_call :: "widget_call \<Rightarrow> bool" where
  "noting_call (CallOff els names) \<longleftrightarrow> [] \<in> set (split_on (CHR '' '') names)"
| "noting_call _ \<longleftrightarrow> True"

lemma noted_step:
  assumes "noting_env env" "noting_call c"
  shows "preserves noted (widget_handler env c)"
proof -
  have "preserves noted (handler_proxy env oc l)" for oc l
    unfolding handler_proxy_def by (intro pres_intro noted_handler assms(1))
  then have "preserves noted (dispatch env oc)" "preserves noted (fire_timer env oc)" for oc
    unfolding dispatch_def fire_timer_def
    by (intro noted_intro noted_upd noted_handler assms(1); simp add: binding_view_def)+
  then show ?thesis
    using assms noted_parts noted_options noted_on noted_off noted_trigger noted_destroy by (cases c) (simp_all add: pres_intro)
qed

lemma create_noted: "noting_env env \<Longrightarrow> w_listeners w = [] \<Longrightarrow> noted (snd (create_widget env given x w))"
proof -
  assume env: "noting_env env" and w: "w_listeners w = []"
  let ?w = "w\<lparr>w_element := x, w_bindings := [], w_hoverable := [], w_focusable := [], class_lookup := [], has_data := True\<rparr>"
  have "preserves noted (block
    [on_events True (Some [x]) [(''remove'', DestroyHandler)],
     upd (\<lambda>w. w\<lparr>w_options := widget_extend [] [w_options w, env_create_options env w, given]\<rparr>),
     env_create env,
     bind_val (\<lambda>w. lookup (w_options w) ''disabled'') (\<lambda>v. if otruthy v then set_option_disabled v else skip),
     trigger_event env ''create'', env_init env])"
    unfolding set_option_disabled_def take_classes_def
    using env by (intro noted_intro noted_on noted_trigger noted_upd) (simp_all add: noting_env_def binding_view_def)
  from preservesD [OF this, of ?w] show ?thesis using w by (simp add: create_widget_def seq_upd noted_def)
qed

section \<open>Disabled\<close>

text \<open>A disabled widget hears only what was bound to be heard all the same.\<close>

lemma disabled_is_silent:
  assumes "lookup (w_options w) ''disabled'' = OBool True" "\<forall>l \<in> set (w_listeners w). hears env oc l \<longrightarrow> \<not> l_suppress l"
  shows "dispatch env oc w = (None, w)"
proof -
  have "for_each ls (handler_proxy env oc) w = (None, w)" if "\<forall>l \<in> set ls. \<not> l_suppress l" for ls
    using that
  proof (induction ls)
    case (Cons l ls)
    have "handler_proxy env oc l w = (None, w)"
      using Cons.prems assms(1) by (simp add: handler_proxy_def guard_def ite_def skip_def)
    then show ?case using Cons by (simp add: seq_None [of "handler_proxy env oc l" w w])
  qed (simp add: skip_def)
  then show ?thesis using assms(2) by (simp add: dispatch_def bind_val_def)
qed

section \<open>Properties\<close>

text \<open>
  C12. An element that stays on the page while a widget lives ends up, when the widget is destroyed,
  with no class that it did not have before: the classes of keys, the ones the option \<open>classes\<close> adds
  to them, those of hovering and focus and of the disabled state all go. In between anything may
  happen, but the option \<open>classes\<close> is changed key by key or for an object with all of the keys, no
  class with an entry there is added without its key, and what derived widgets run keeps the
  books by these operations (\<open>tidy_call\<close>, \<open>tidy_env\<close>).
\<close>

theorem destroy_restores_classes:
  assumes "tidy_env (set (dom_classes w0 e)) e K env" "total (env_destroy env)" "free_names K"
    and "fresh_widget K env found given w0" "list_all (tidy_call e K) calls"
    and "w = run_events (widget_handler env) calls (snd (create_widget env given x w0))"
    and "t = snd (destroy_widget env w)"
  shows "set (dom_classes t e) \<subseteq> set (dom_classes w0 e) \<and> (\<forall>k. elements_with t k = [])"
proof -
  have "owned (set (dom_classes w0 e)) e K w"
    unfolding assms(6) by (rule event_loop.run_inv [OF widget_loop [OF assms(1,3)] assms(5) create_owned [OF assms(1,3,4)]])
  from destroyed [OF assms(1,2) this] have "owned (set (dom_classes w0 e)) e K t" "\<And>k y. \<not> tracks t k y"
    unfolding assms(7) by auto
  moreover have "elements_with t k = []" for k
    using calculation(2) [of k] by (cases "elements_with t k") (auto simp: tracks_def)
  ultimately show ?thesis by (auto simp: owned_def due_def)
qed


text \<open>
  C13. When a widget is destroyed no handler that it ever bound is left, on whatever element, as
  long as nothing was unbound by the name of an event.
\<close>

theorem destroy_unbinds:
  assumes "noting_env env" "total (env_destroy env)" "w_listeners w0 = []" "list_all noting_call calls"
    and "w = run_events (widget_handler env) calls (snd (create_widget env given x w0))"
  shows "w_listeners (snd (destroy_widget env w)) = []"
proof -
  have loop: "event_loop (widget_handler env) noting_call noted"
    by unfold_locales (rule preservesD [OF noted_step [OF assms(1)]])
  have "noted w" unfolding assms(5) by (rule event_loop.run_inv [OF loop assms(4) create_noted [OF assms(1,3)]])
  moreover obtain u where u: "env_destroy env w = (None, u)" using total_ends [OF assms(2)] by blast
  moreover have "preserves noted (env_destroy env)" using assms(1) by (simp add: noting_env_def)
  ultimately have "noted u" using preservesD [of noted "env_destroy env" w] by simp
  obtain v where v: "drop_classes u = (None, v)" using total_ends [OF total_drop] by blast
  have "noted v" using preservesD [OF noted_drop \<open>noted u\<close>] v by simp
  then show ?thesis
    by (simp add: destroy_widget_def seq_None [of "env_destroy env" w u, OF u] seq_None [of drop_classes u v, OF v] seq_upd)
      (auto simp: upd_def noted_def filter_empty_conv)
qed

text \<open>
  Unbinding one event of an element by its name makes the widget forget that it has bound
  anything there: its other handlers at that element survive the widget.
\<close>

theorem off_by_name_leaks:
  assumes "l \<in> set (w_listeners w)" "l_element l \<noteq> w_element w" "l_event l \<notin> set (split_on (CHR '' '') names)"
    and "[] \<notin> set (split_on (CHR '' '') names)" "env_destroy env = skip"
  shows "l \<in> set (w_listeners (snd (destroy_widget env (snd (off_events [l_element l] names w)))))"
proof -
  define u where "u = snd (off_events [l_element l] names w)"
  have u: "l \<in> set (w_listeners u)" "l_element l \<notin> set (w_bindings u)" "l_element l \<noteq> w_element u"
    using assms(1-4) by (simp_all add: u_def off_events_def upd_def Let_def)
  obtain v where v: "drop_classes u = (None, v)" using total_ends [OF total_drop] by blast
  have "binding_view v = binding_view u" using keepsD [OF drop_keeps, of u] v by simp
  then have "l \<in> set (w_listeners v)" "l_element l \<notin> set (w_bindings v)" "l_element l \<noteq> w_element v"
    using u by (simp_all add: binding_view_def)
  then show ?thesis unfolding u_def [symmetric]
    by (simp add: destroy_widget_def assms(5) seq_None [of drop_classes u v, OF v] seq_upd) (simp add: upd_def)
qed


section \<open>A demonstration widget\<close>

definition quiet_env :: "unit widget_env" where
  "quiet_env = \<lparr>env_method = (\<lambda>_. None), env_handler = (\<lambda>_ _. skip), env_selects = (\<lambda>_ _. False),
     env_callback = (\<lambda>_ _ u. (Inr False, u)), env_bubble = (\<lambda>_ u. (False, u)), env_create_options = (\<lambda>_. []),
     env_create = skip, env_init = skip, env_destroy = skip\<rparr>"

definition demo_widget :: "unit widget" where
  "demo_widget = \<lparr>w_name = ''resizable'', w_full_name = ''ui-resizable'', w_prefix = ''resize'', w_element = 0,
     w_options = [(''classes'', OObj [(''ui-resizable-se'', OStr ''ui-icon'')]), (''disabled'', OBool False)],
     w_heap = \<lparr>own_props = (\<lambda>_. []), callable = (\<lambda>_. True), ref_text = (\<lambda>_. [])\<rparr>,
     class_lookup = [], w_bindings = [], w_hoverable = [], w_focusable = [], w_listeners = [], w_timers = [],
     dom_classes = (\<lambda>_. [''terminal-box'']), has_data = False, w_triggered = [], w_answer = False, w_outside = ()\<rparr>"

definition demo_calls :: "widget_call list" where
  "demo_calls = [CallToggleClass [1] ''ui-resizable'' [] True, CallOption ''classes.ui-resizable'' (OStr ''corner''),
     CallOptions [(''classes'', OObj [(''ui-resizable'', OStr ''round''), (''ui-resizable-se'', OStr [])])],
     CallHoverable [1], Occurs \<lparr>o_event = ''mouseenter'', o_target = 1, o_bound = 1, o_current = 1\<rparr>, CallDisable]"

definition demo_keys :: "string set" where
  "demo_keys = {''ui-resizable'', ''ui-resizable-se''}"

lemma quiet_tidy: "tidy_env base e K quiet_env" "noting_env quiet_env" "total (env_destroy quiet_env)"
  by (simp_all add: tidy_env_def noting_env_def quiet_env_def preserves_skip total_skip)

lemma demo_fresh: "fresh_widget demo_keys quiet_env [] [] demo_widget" "free_names demo_keys"
  "list_all (tidy_call 1 demo_keys) demo_calls" "list_all noting_call demo_calls"
proof -
  have "lookup (widget_extend [] [w_options demo_widget, [], []]) ''classes'' = OObj [(''ui-resizable-se'', OStr ''ui-icon'')]"
    by (simp add: widget_extend_def demo_widget_def lookup_def)
  then show "fresh_widget demo_keys quiet_env [] [] demo_widget"
    by (simp add: fresh_widget_def quiet_env_def demo_keys_def theming_def lookup_def) (simp add: demo_widget_def)
  show "list_all (tidy_call 1 demo_keys) demo_calls" by (simp add: demo_calls_def demo_keys_def)
qed (simp_all add: free_names_def demo_keys_def demo_calls_def)

lemma destroy_restores_classes_witness:
  "set (dom_classes (snd (destroy_widget quiet_env
     (run_events (widget_handler quiet_env) demo_calls (snd (create_widget quiet_env [] 1 demo_widget))))) 1) \<subseteq> {''terminal-box''}"
proof -
  have dom: "dom_classes demo_widget e = [''terminal-box'']" for e by (simp add: demo_widget_def)
  show ?thesis
    using destroy_restores_classes [OF quiet_tidy(1,3) demo_fresh(2,1,3) refl refl, of 1] by (simp add: dom)
qed

text \<open>
  Of a new value of the option only the keys in it are looked at: what the old one added for a key
  that is left out stays on the element for good.
\<close>

lemma left_out_key_leaves_class:
  "''ui-icon'' \<in> set (dom_classes (snd (destroy_widget quiet_env (run_events (widget_handler quiet_env)
     [CallToggleClass [1] ''ui-resizable-se'' [] True, CallOptions [(''classes'', OObj [])]]
     (snd (create_widget quiet_env [] 1 demo_widget))))) 1)"
  by code_simp

lemma destroy_unbinds_witness:
  "w_listeners (snd (destroy_widget quiet_env
     (run_events (widget_handler quiet_env) demo_calls (snd (create_widget quiet_env [] 1 demo_widget))))) = []"
  by (rule destroy_unbinds [OF quiet_tidy(2,3) _ demo_fresh(4) refl]) (simp add: demo_widget_def)

lemma off_by_name_leaks_witness:
  "let l = listen_at False ''keydown'' [] (UserHandler 1) 2 in
   l \<in> set (w_listeners (snd (destroy_widget quiet_env (snd (off_events [2] ''click''
     (demo_widget\<lparr>w_listeners := [l], w_bindings := [2]\<rparr>))))))"
  using off_by_name_leaks [of "listen_at False ''keydown'' [] (UserHandler 1) 2"
      "demo_widget\<lparr>w_listeners := [listen_at False ''keydown'' [] (UserHandler 1) 2], w_bindings := [2]\<rparr>" "''click''" quiet_env]
  by (simp add: listen_at_def demo_widget_def quiet_env_def Let_def)

end
