(* ===== verification/UI_Factory.thy ===== *)
theory UI_Factory
  imports UI_Options Event_Loop
begin

text \<open>
  The widget factory of jQuery UI (\<open>$.widget\<close> and \<open>$.widget.bridge\<close> in
  \<open>html/jquery-ui-1.13.1.custom/jquery-ui.js\<close>): prototypes that inherit and override, the methods
  \<open>_super\<close>, the constructors and what happens when one is defined again, and the plugin through which
  a page calls the methods of its widgets.
\<close>

section \<open>Methods\<close>

text \<open>
  The body of a method: statements on the state of the instance, calls of the instance's methods,
  and calls of the method it overrides. Arguments and results are part of the state. Bodies
  that catch what a call of a method throws, or leave a callback that uses \<open>_super\<close> later, are not modelled.
\<close>

datatype 's method_body =
    Act "'s stmt"
  | Then "'s method_body" "'s method_body"
  | Test "'s \<Rightarrow> bool" "'s method_body" "'s method_body"
  | Call string
  | Super

text \<open>A prototype has the functions given to \<open>$.widget\<close>; a chain has the most derived one first.\<close>

type_synonym 's proto = "(string \<times> 's method_body) list"

fun find_method :: "'s proto list \<Rightarrow> string \<Rightarrow> ('s method_body \<times> 's proto list) option" where
  "find_method [] m = None"
| "find_method (p # base) m = (case map_of p m of Some c \<Rightarrow> Some (c, base) | None \<Rightarrow> find_method base m)"

text \<open>
  What \<open>this._super\<close> is at the moment: the method of that name of the bases. The wrapper around each
  method sets it, and puts the old one back when the method returns; when it throws it does not.
  The methods of \<open>$.Widget\<close> have no wrapper; none of them uses \<open>_super\<close>, so the model wraps them too.
\<close>

type_synonym 's super_slot = "('s proto list \<times> string) option"

definition proxied :: "'s proto list \<Rightarrow> string \<Rightarrow> ('s super_slot \<times> 's) stmt \<Rightarrow> ('s super_slot \<times> 's) stmt" where
  "proxied base m body o' = (case body (Some (base, m), snd o') of
     (None, _, t) \<Rightarrow> (None, fst o', t)
   | (Some e, slot, t) \<Rightarrow> (Some e, slot, t))"

text \<open>The number bounds the depth of the calls; beyond it the browser throws.\<close>

fun exec :: "nat \<Rightarrow> 's proto list \<Rightarrow> 's method_body \<Rightarrow> ('s super_slot \<times> 's) stmt" where
  "exec n chain (Act m) o' = (case m (snd o') of (x, t) \<Rightarrow> (x, fst o', t))"
| "exec n chain (Then a b) o' = seq (exec n chain a) (exec n chain b) o'"
| "exec n chain (Test c a b) o' = (if c (snd o') then exec n chain a o' else exec n chain b o')"
| "exec 0 chain (Call m) o' = (Some RangeError, o')"
| "exec (Suc n) chain (Call m) o' = (case find_method chain m of
     None \<Rightarrow> (Some TypeError, o')
   | Some (c, base) \<Rightarrow> proxied base m (exec n chain c) o')"
| "exec 0 chain Super o' = (Some RangeError, o')"
| "exec (Suc n) chain Super o' = (case fst o' of
     None \<Rightarrow> (Some TypeError, o')
   | Some (bases, m) \<Rightarrow> (case find_method bases m of
       None \<Rightarrow> (Some TypeError, o')
     | Some (c, base) \<Rightarrow> proxied base m (exec n chain c) o'))"

text \<open>
  The meaning one expects: in a method that was found at some level of the chain, \<open>_super\<close> is the
  method of the same name of the bases of that level, at any time.
\<close>

fun exec_lexical :: "nat \<Rightarrow> 's proto list \<Rightarrow> 's super_slot \<Rightarrow> 's method_body \<Rightarrow> 's stmt" where
  "exec_lexical n chain here (Act m) s = m s"
| "exec_lexical n chain here (Then a b) s = seq (exec_lexical n chain here a) (exec_lexical n chain here b) s"
| "exec_lexical n chain here (Test c a b) s = (if c s then exec_lexical n chain here a s else exec_lexical n chain here b s)"
| "exec_lexical 0 chain here (Call m) s = (Some RangeError, s)"
| "exec_lexical (Suc n) chain here (Call m) s = (case find_method chain m of
     None \<Rightarrow> (Some TypeError, s)
   | Some (c, base) \<Rightarrow> exec_lexical n chain (Some (base, m)) c s)"
| "exec_lexical 0 chain here Super s = (Some RangeError, s)"
| "exec_lexical (Suc n) chain here Super s = (case here of
     None \<Rightarrow> (Some TypeError, s)
   | Some (bases, m) \<Rightarrow> (case find_method bases m of
       None \<Rightarrow> (Some TypeError, s)
     | Some (c, base) \<Rightarrow> exec_lexical n chain (Some (base, m)) c s))"

lemma exec_agrees:
  "exec n chain c o' = (x, slot, t) \<Longrightarrow>
    exec_lexical n chain (fst o') c (snd o') = (x, t) \<and> (x = None \<longrightarrow> slot = fst o')"
proof (induction n chain c o' arbitrary: x slot t rule: exec.induct)
  case (2 n chain a b o')
  obtain xa sa ta where a: "exec n chain a o' = (xa, sa, ta)" by (cases "exec n chain a o'") auto
  note ia = "2.IH"(1) [OF a]
  show ?case
  proof (cases xa)
    case None
    then have "exec n chain b (sa, ta) = (x, slot, t)" using "2.prems" a by (simp add: seq_def)
    from "2.IH"(2) [OF this] show ?thesis using ia None by (simp add: seq_def)
  next
    case (Some e)
    then show ?thesis using "2.prems" a ia by (auto simp: seq_def)
  qed
next
  case (5 n chain m o')
  show ?case
  proof (cases "find_method chain m")
    case (Some r)
    obtain c base where r: "r = (c, base)" by (cases r)
    obtain xb sb tb where b: "exec n chain c (Some (base, m), snd o') = (xb, sb, tb)"
      by (cases "exec n chain c (Some (base, m), snd o')") auto
    from "5.IH" [OF Some r [symmetric] b] show ?thesis
      using "5.prems" Some r b by (auto simp: proxied_def split: option.splits)
  qed (use "5.prems" in auto)
next
  case (7 n chain o')
  show ?case
  proof (cases "fst o'")
    case here: (Some h)
    obtain bases m where h: "h = (bases, m)" by (cases h)
    show ?thesis
    proof (cases "find_method bases m")
      case (Some r)
      obtain c base where r: "r = (c, base)" by (cases r)
      obtain xb sb tb where b: "exec n chain c (Some (base, m), snd o') = (xb, sb, tb)"
        by (cases "exec n chain c (Some (base, m), snd o')") auto
      from "7.IH" [OF here h [symmetric] Some r [symmetric] b] show ?thesis
        using "7.prems" here h Some r b by (auto simp: proxied_def split: option.splits)
    qed (use "7.prems" here h in auto)
  qed (use "7.prems" in auto)
qed (auto split: prod.splits if_splits)


section \<open>Constructors\<close>

text \<open>
  Constructors are numbered in the order of their creation; number 0 is \<open>$.Widget\<close>. The options of
  a constructor are merged when it is defined, its chain of prototypes is fixed then as well; the
  list of children is deleted when a constructor is replaced.
\<close>

record 's widget_proto =
  pr_methods :: "'s proto"
  pr_options :: props
  pr_prefix :: "string option"

record 's ctor =
  ct_space :: string
  ct_name :: string
  ct_base :: nat
  ct_proto :: "'s widget_proto"          \<comment> \<open>\<open>_proto\<close>\<close>
  ct_chain :: "'s proto list"
  ct_options :: props
  ct_prefix :: string
  ct_children :: "nat list option"       \<comment> \<open>\<open>_childConstructors\<close>\<close>

record 's registry =
  ctors :: "'s ctor list"
  named :: "((string \<times> string) \<times> nat) list"   \<comment> \<open>\<open>$[namespace][name]\<close>\<close>
  bridged :: "(string \<times> nat) list"              \<comment> \<open>\<open>$.fn[name]\<close>\<close>

definition ctor_key :: "'s ctor \<Rightarrow> string \<times> string" where
  "ctor_key c = (ct_space c, ct_name c)"

definition children_of :: "nat \<Rightarrow> 's registry \<Rightarrow> nat list" where
  "children_of e r = (case ct_children (ctors r ! e) of None \<Rightarrow> [] | Some cs \<Rightarrow> cs)"

definition event_prefix :: "bool \<Rightarrow> string \<Rightarrow> string \<Rightarrow> 's widget_proto \<Rightarrow> string" where
  "event_prefix redefined inherited nm proto = (case pr_prefix proto of
       Some p \<Rightarrow> p
     | None \<Rightarrow> if redefined \<and> inherited \<noteq> [] then inherited else nm)"

definition add_ctor :: "string \<Rightarrow> string \<Rightarrow> nat \<Rightarrow> 's widget_proto \<Rightarrow> bool \<Rightarrow> 's registry \<Rightarrow> 's registry" where
  "add_ctor sp nm base proto redefined r =
     (let b = ctors r ! base in
      r\<lparr>ctors := ctors r @ [\<lparr>ct_space = sp, ct_name = nm, ct_base = base, ct_proto = proto,
          ct_chain = pr_methods proto # ct_chain b,
          ct_options = widget_extend (widget_extend [] [ct_options b]) [pr_options proto],
          ct_prefix = event_prefix redefined (ct_prefix b) nm proto, ct_children = Some []\<rparr>],
        named := AList.update (sp, nm) (length (ctors r)) (named r)\<rparr>)"

definition set_children :: "nat \<Rightarrow> nat list option \<Rightarrow> 's registry \<Rightarrow> 's registry" where
  "set_children e cs r = r\<lparr>ctors := (ctors r)[e := (ctors r ! e)\<lparr>ct_children := cs\<rparr>]\<rparr>"

text \<open>A constructor that was replaced has no list of children any more: it takes none.\<close>

definition adopt :: "nat \<Rightarrow> nat \<Rightarrow> 's registry stmt" where
  "adopt base i = bind_val (\<lambda>r. ct_children (ctors r ! base)) (\<lambda>cs. case cs of
       None \<Rightarrow> throw TypeError
     | Some cs \<Rightarrow> upd (set_children base (Some (cs @ [i]))))"

text \<open>\<open>$.widget\<close>; the number bounds how deep redefinitions nest.\<close>

fun define_widget :: "nat \<Rightarrow> string \<Rightarrow> string \<Rightarrow> nat \<Rightarrow> 's widget_proto \<Rightarrow> 's registry stmt" where
  "define_widget 0 sp nm base proto = throw RangeError"
| "define_widget (Suc n) sp nm base proto = bind_val (\<lambda>r. (length (ctors r), map_of (named r) (sp, nm))) (\<lambda>(i, existing). block
     [upd (add_ctor sp nm base proto (existing \<noteq> None)),
      (case existing of
         Some e \<Rightarrow> block
           [bind_val (children_of e) (\<lambda>cs. for_each cs (\<lambda>c. bind_val (\<lambda>r. ctors r ! c) (\<lambda>child.
              define_widget n (ct_space child) (ct_name child) i (ct_proto child)))),
            upd (set_children e None)]
       | None \<Rightarrow> adopt base i),
      upd (\<lambda>r. r\<lparr>bridged := AList.update nm i (bridged r)\<rparr>)])"

declare define_widget.simps(2) [simp del]

section \<open>The plugin\<close>

text \<open>
  What a method of an instance returns, and what the plugin returns to the page. An instance is of
  any type; a method name stands for a function of the instance or for nothing that can be called.
\<close>

datatype 'v method_result =
    NoValue
  | TheInstance
  | Elements "nat list"   \<comment> \<open>a jQuery object\<close>
  | AValue 'v

datatype ('i, 'v) plugin_result =
    TheCollection
  | Undefined
  | Instance 'i
  | Stacked "nat list"
  | Value 'v

type_synonym ('i, 'v) methods = "string \<Rightarrow> ('i \<Rightarrow> exn option \<times> 'i \<times> 'v method_result) option"

fun bridge_method :: "('i, 'v) methods \<Rightarrow> string \<Rightarrow> nat list \<Rightarrow> (nat \<Rightarrow> 'i option) \<Rightarrow>
    (exn + ('i, 'v) plugin_result) \<times> (nat \<Rightarrow> 'i option)" where
  "bridge_method methods m [] data = (Inr TheCollection, data)"
| "bridge_method methods m (e # es) data =
     (case data e of
        None \<Rightarrow> if m = ''instance'' then (Inr Undefined, data) else (Inl PluginError, data)
      | Some i \<Rightarrow>
          if m = ''instance'' then (Inr (Instance i), data)
          else (case (if take 1 m = ''_'' then None else methods m) of
              None \<Rightarrow> (Inl PluginError, data)
            | Some f \<Rightarrow> (case f i of
                  (Some x, i', _) \<Rightarrow> (Inl x, data(e \<mapsto> i'))
                | (None, i', NoValue) \<Rightarrow> bridge_method methods m es (data(e \<mapsto> i'))
                | (None, i', TheInstance) \<Rightarrow> bridge_method methods m es (data(e \<mapsto> i'))
                | (None, i', Elements ns) \<Rightarrow> (Inr (Stacked ns), data(e \<mapsto> i'))
                | (None, i', AValue v) \<Rightarrow> (Inr (Value v), data(e \<mapsto> i')))))"

definition bridge_call :: "('i, 'v) methods \<Rightarrow> string \<Rightarrow> nat list \<Rightarrow> (nat \<Rightarrow> 'i option) \<Rightarrow>
    (exn + ('i, 'v) plugin_result) \<times> (nat \<Rightarrow> 'i option)" where
  "bridge_call methods m els data =
     (if els = [] \<and> m = ''instance'' then (Inr Undefined, data) else bridge_method methods m els data)"

text \<open>With options instead of a name: instances take the options, the other elements get an
  instance, which is their data already while it is created.\<close>

fun bridge_options :: "(props \<Rightarrow> 'i stmt) \<Rightarrow> 'i stmt \<Rightarrow> (props \<Rightarrow> nat \<Rightarrow> exn option \<times> 'i) \<Rightarrow> props \<Rightarrow> nat list \<Rightarrow> (nat \<Rightarrow> 'i option) stmt" where
  "bridge_options set_opts init create opts [] data = (None, data)"
| "bridge_options set_opts init create opts (e # es) data =
     (case data e of
        Some i \<Rightarrow> (case seq (set_opts opts) init i of
            (Some x, i') \<Rightarrow> (Some x, data(e \<mapsto> i'))
          | (None, i') \<Rightarrow> bridge_options set_opts init create opts es (data(e \<mapsto> i')))
      | None \<Rightarrow> (case create opts e of
            (Some x, i) \<Rightarrow> (Some x, data(e \<mapsto> i))
          | (None, i) \<Rightarrow> bridge_options set_opts init create opts es (data(e \<mapsto> i))))"

definition bridge_init :: "(props \<Rightarrow> 'i stmt) \<Rightarrow> 'i stmt \<Rightarrow> (props \<Rightarrow> nat \<Rightarrow> exn option \<times> 'i) \<Rightarrow> props \<Rightarrow> props list \<Rightarrow> nat list \<Rightarrow> (nat \<Rightarrow> 'i option) stmt" where
  "bridge_init set_opts init create opts others els =
     bridge_options set_opts init create (if others = [] then opts else widget_extend opts others) els"


section \<open>Defining a widget again\<close>

text \<open>What a new constructor leaves of the others.\<close>

definition same_ctor :: "'s ctor \<Rightarrow> 's ctor \<Rightarrow> bool" where
  "same_ctor c d \<longleftrightarrow> ctor_key d = ctor_key c \<and> ct_base d = ct_base c \<and> ct_proto d = ct_proto c \<and> ct_chain d = ct_chain c"

lemma same_ctor_refl [simp]: "same_ctor c c"
  by (simp add: same_ctor_def)

lemma same_ctor_trans: "same_ctor c d \<Longrightarrow> same_ctor d f \<Longrightarrow> same_ctor c f"
  by (simp add: same_ctor_def)

definition adds :: "'s registry \<Rightarrow> 's registry \<Rightarrow> bool" where
  "adds r t \<longleftrightarrow> length (ctors r) \<le> length (ctors t) \<and> (\<forall>j < length (ctors r). same_ctor (ctors r ! j) (ctors t ! j))"

lemma adds_refl: "adds r r" and adds_trans: "adds r s \<Longrightarrow> adds s t \<Longrightarrow> adds r t"
  by (auto simp: adds_def intro: same_ctor_trans)

lemma seq_bind_val: "seq (bind_val f k) m s = seq (k (f s)) m s"
  by (simp add: seq_def bind_val_def)

lemma redefine_leaf:
  assumes "map_of (named r) (sp, nm) = Some c" "c < length (ctors r)" "children_of c r = []"
  shows "\<exists>t. define_widget (Suc n) sp nm base proto r = (None, t) \<and> adds r t \<and>
    length (ctors t) = Suc (length (ctors r)) \<and>
    (\<forall>j < length (ctors r). j \<noteq> c \<longrightarrow> ctors t ! j = ctors r ! j) \<and>
    named t = AList.update (sp, nm) (length (ctors r)) (named r) \<and>
    ct_base (ctors t ! length (ctors r)) = base \<and> ct_proto (ctors t ! length (ctors r)) = proto \<and>
    ct_chain (ctors t ! length (ctors r)) = pr_methods proto # ct_chain (ctors r ! base)"
proof -
  let ?r = "add_ctor sp nm base proto True r"
  let ?t = "(set_children c None ?r)\<lparr>bridged := AList.update nm (length (ctors r)) (bridged (set_children c None ?r))\<rparr>"
  have old: "ctors ?r ! j = ctors r ! j" if "j < length (ctors r)" for j
    using that by (simp add: add_ctor_def Let_def nth_append)
  have none: "children_of c ?r = []" using assms(2,3) old [of c] by (simp add: children_of_def)
  have "define_widget (Suc n) sp nm base proto r = (None, ?t)"
    using assms(1) none by (simp add: define_widget.simps(2) bind_val_def seq_upd seq_assoc seq_bind_val) (simp add: upd_def)
  moreover have "adds r ?t"
    using assms(2) old by (auto simp: adds_def set_children_def nth_list_update same_ctor_def ctor_key_def add_ctor_def Let_def nth_append)
  moreover have "length (ctors ?t) = Suc (length (ctors r))" "named ?t = AList.update (sp, nm) (length (ctors r)) (named r)"
    "\<forall>j < length (ctors r). j \<noteq> c \<longrightarrow> ctors ?t ! j = ctors r ! j"
    "ct_base (ctors ?t ! length (ctors r)) = base" "ct_proto (ctors ?t ! length (ctors r)) = proto"
    "ct_chain (ctors ?t ! length (ctors r)) = pr_methods proto # ct_chain (ctors r ! base)"
    using assms(2) by (simp_all add: set_children_def add_ctor_def Let_def nth_append nth_list_update)
  ultimately show ?thesis by blast
qed

text \<open>The constructor that a child's name stands for, when it has been redefined on a new base.\<close>

definition rebased :: "nat \<Rightarrow> 's registry \<Rightarrow> 's registry \<Rightarrow> nat \<Rightarrow> bool" where
  "rebased i r t c \<longleftrightarrow> (\<exists>j. map_of (named t) (ctor_key (ctors r ! c)) = Some j \<and> length (ctors r) \<le> j \<and> j < length (ctors t) \<and>
     ct_base (ctors t ! j) = i \<and> ct_proto (ctors t ! j) = ct_proto (ctors r ! c) \<and>
     ct_chain (ctors t ! j) = pr_methods (ct_proto (ctors r ! c)) # ct_chain (ctors t ! i))"

definition childless :: "nat \<Rightarrow> 's registry \<Rightarrow> bool" where
  "childless c r \<longleftrightarrow> c < length (ctors r) \<and> children_of c r = [] \<and> map_of (named r) (ctor_key (ctors r ! c)) = Some c"

lemma redefine_children:
  assumes "\<forall>c \<in> set cs. childless c r" "distinct (map (\<lambda>c. ctor_key (ctors r ! c)) cs)" "i < length (ctors r)" "i \<notin> set cs"
  shows "\<exists>t. for_each cs (\<lambda>c. bind_val (\<lambda>r. ctors r ! c) (\<lambda>child.
      define_widget (Suc n) (ct_space child) (ct_name child) i (ct_proto child))) r = (None, t) \<and>
    adds r t \<and> ctors t ! i = ctors r ! i \<and> (\<forall>c \<in> set cs. rebased i r t c) \<and>
    (\<forall>k. k \<notin> (\<lambda>c. ctor_key (ctors r ! c)) ` set cs \<longrightarrow> map_of (named t) k = map_of (named r) k)"
  using assms
proof (induction cs arbitrary: r)
  case Nil
  then show ?case by (simp add: skip_def adds_refl)
next
  case (Cons c cs)
  let ?body = "\<lambda>c. bind_val (\<lambda>r. ctors r ! c) (\<lambda>child. define_widget (Suc n) (ct_space child) (ct_name child) i (ct_proto child))"
  have c: "c < length (ctors r)" "children_of c r = []" "map_of (named r) (ct_space (ctors r ! c), ct_name (ctors r ! c)) = Some c"
    using Cons.prems(1) by (simp_all add: childless_def ctor_key_def)
  obtain u where u: "define_widget (Suc n) (ct_space (ctors r ! c)) (ct_name (ctors r ! c)) i (ct_proto (ctors r ! c)) r = (None, u)"
    "adds r u" "length (ctors u) = Suc (length (ctors r))" "\<And>j. j < length (ctors r) \<Longrightarrow> j \<noteq> c \<Longrightarrow> ctors u ! j = ctors r ! j"
    "named u = AList.update (ctor_key (ctors r ! c)) (length (ctors r)) (named r)"
    "ct_base (ctors u ! length (ctors r)) = i" "ct_proto (ctors u ! length (ctors r)) = ct_proto (ctors r ! c)"
    "ct_chain (ctors u ! length (ctors r)) = pr_methods (ct_proto (ctors r ! c)) # ct_chain (ctors r ! i)"
    using redefine_leaf [OF c(3,1,2), of n i "ct_proto (ctors r ! c)"] by (auto simp: ctor_key_def)
  have key: "ctor_key (ctors u ! d) = ctor_key (ctors r ! d)" "ct_proto (ctors u ! d) = ct_proto (ctors r ! d)" if "d < length (ctors r)" for d
    using u(2) that by (simp_all add: adds_def same_ctor_def)
  have small: "d < length (ctors r)" "d \<noteq> c" "ctor_key (ctors r ! d) \<noteq> ctor_key (ctors r ! c)" if "d \<in> set cs" for d
  proof -
    have "ctor_key (ctors r ! c) \<notin> (\<lambda>c. ctor_key (ctors r ! c)) ` set cs" using Cons.prems(2) by simp
    then show ne: "ctor_key (ctors r ! d) \<noteq> ctor_key (ctors r ! c)" using that by (metis imageI)
    then show "d \<noteq> c" by blast
    show "d < length (ctors r)" using Cons.prems(1) that by (simp add: childless_def)
  qed
  have images: "(\<lambda>c. ctor_key (ctors u ! c)) ` set cs = (\<lambda>c. ctor_key (ctors r ! c)) ` set cs"
    using key(1) small(1) by (intro image_cong) simp_all
  have less: "childless d u" if "d \<in> set cs" for d
  proof -
    have "ctors u ! d = ctors r ! d" using u(4) small that by blast
    moreover have "childless d r" using Cons.prems(1) that by simp
    ultimately show ?thesis using small [OF that] u(3,5) by (simp add: childless_def children_of_def)
  qed
  have maps: "map (\<lambda>c. ctor_key (ctors u ! c)) cs = map (\<lambda>c. ctor_key (ctors r ! c)) cs"
    using key(1) small(1) by simp
  obtain t where t: "for_each cs ?body u = (None, t)" "adds u t" "ctors t ! i = ctors u ! i" "\<And>d. d \<in> set cs \<Longrightarrow> rebased i u t d"
    "\<And>k. k \<notin> (\<lambda>c. ctor_key (ctors u ! c)) ` set cs \<Longrightarrow> map_of (named t) k = map_of (named u) k"
    using Cons.IH [of u] less Cons.prems(2,3,4) maps u(3) by auto
  have i: "ctors u ! i = ctors r ! i" using u(4) Cons.prems(3,4) by simp
  have "rebased i r t c"
  proof -
    let ?j = "length (ctors r)"
    have "ctor_key (ctors r ! c) \<notin> (\<lambda>c. ctor_key (ctors u ! c)) ` set cs" using Cons.prems(2) by (simp add: images)
    then have "map_of (named t) (ctor_key (ctors r ! c)) = Some ?j" using t(5) u(5) by simp
    moreover have "same_ctor (ctors u ! ?j) (ctors t ! ?j)" "?j < length (ctors t)" using t(2) u(3) by (simp_all add: adds_def)
    ultimately show ?thesis using u(6-8) t(3) i by (auto simp: rebased_def same_ctor_def)
  qed
  moreover have "rebased i r t d" if d: "d \<in> set cs" for d
  proof -
    obtain j where "map_of (named t) (ctor_key (ctors r ! d)) = Some j" "length (ctors u) \<le> j" "j < length (ctors t)"
      "ct_base (ctors t ! j) = i" "ct_proto (ctors t ! j) = ct_proto (ctors r ! d)"
      "ct_chain (ctors t ! j) = pr_methods (ct_proto (ctors r ! d)) # ct_chain (ctors t ! i)"
      using t(4) [OF d] key [OF small(1) [OF d]] unfolding rebased_def by metis
    then show ?thesis unfolding rebased_def by (intro exI [of _ j]) (simp add: u(3))
  qed
  moreover have "map_of (named t) k = map_of (named r) k" if "k \<notin> (\<lambda>c. ctor_key (ctors r ! c)) ` set (c # cs)" for k
  proof -
    have "k \<notin> (\<lambda>c. ctor_key (ctors u ! c)) ` set cs" using that by (simp add: images)
    then show ?thesis using t(5) that u(5) by simp
  qed
  moreover have "for_each (c # cs) ?body r = (None, t)"
    using t(1) by (simp add: seq_None [of "?body c" r u] bind_val_def u(1))
  ultimately show ?case using t(2,3) u(2) i by (intro exI [of _ t]) (auto intro: adds_trans)
qed


lemma define_again:
  assumes e: "map_of (named r) (sp, nm) = Some e" "e < length (ctors r)"
    and cs: "\<forall>c \<in> set (children_of e r). childless c r \<and> c \<noteq> e" "distinct (map (\<lambda>c. ctor_key (ctors r ! c)) (children_of e r))"
    and keys: "\<forall>c \<in> set (children_of e r). ctor_key (ctors r ! c) \<noteq> (sp, nm)"
  shows "\<exists>t. define_widget (Suc (Suc n)) sp nm base proto r = (None, t) \<and> adds r t \<and> length (ctors r) < length (ctors t) \<and>
    map_of (named t) (sp, nm) = Some (length (ctors r)) \<and> children_of (length (ctors r)) t = [] \<and>
    (\<forall>c \<in> set (children_of e r). rebased (length (ctors r)) r t c)"
proof -
  let ?i = "length (ctors r)" and ?r = "add_ctor sp nm base proto True r"
  have old: "ctors ?r ! j = ctors r ! j" if "j < ?i" for j
    using that by (simp add: add_ctor_def Let_def nth_append)
  have len: "length (ctors ?r) = Suc ?i" "named ?r = AList.update (sp, nm) ?i (named r)" "children_of ?i ?r = []"
    by (simp_all add: add_ctor_def Let_def nth_append children_of_def)
  have same: "children_of e ?r = children_of e r" using old e(2) by (simp add: children_of_def)
  have "childless c ?r" if "c \<in> set (children_of e r)" for c
  proof -
    have "childless c r" using cs(1) that by simp
    then show ?thesis using old [of c] keys that len by (simp add: childless_def children_of_def)
  qed
  then have less: "\<forall>c \<in> set (children_of e r). childless c ?r" by simp
  have "map (\<lambda>c. ctor_key (ctors ?r ! c)) (children_of e r) = map (\<lambda>c. ctor_key (ctors r ! c)) (children_of e r)"
    using cs(1) old by (simp add: childless_def)
  then have dis: "distinct (map (\<lambda>c. ctor_key (ctors ?r ! c)) (children_of e r))" using cs(2) by (simp only:)
  have new: "?i \<notin> set (children_of e r)" "?i < length (ctors ?r)" using cs(1) len(1) by (auto simp: childless_def)
  from redefine_children [OF less dis new(2,1), of n] obtain u where
    u: "for_each (children_of e r) (\<lambda>c. bind_val (\<lambda>r. ctors r ! c) (\<lambda>child.
      define_widget (Suc n) (ct_space child) (ct_name child) ?i (ct_proto child))) ?r = (None, u)"
    "adds ?r u" "ctors u ! ?i = ctors ?r ! ?i" "\<forall>c \<in> set (children_of e r). rebased ?i ?r u c"
    "\<forall>k. k \<notin> (\<lambda>c. ctor_key (ctors ?r ! c)) ` set (children_of e r) \<longrightarrow> map_of (named u) k = map_of (named ?r) k"
    by (elim exE conjE)
  let ?loop = "for_each (children_of e r) (\<lambda>c. bind_val (\<lambda>r. ctors r ! c) (\<lambda>child.
      define_widget (Suc n) (ct_space child) (ct_name child) ?i (ct_proto child)))"
  let ?u = "set_children e None u"
  let ?t = "?u\<lparr>bridged := AList.update nm ?i (bridged ?u)\<rparr>"
  have run: "define_widget (Suc (Suc n)) sp nm base proto r = (None, ?t)"
    using e(1) by (simp add: define_widget.simps(2) [of "Suc n" sp nm] bind_val_def [of "\<lambda>r. (length (ctors r), map_of (named r) (sp, nm))"]
        seq_upd seq_assoc seq_bind_val same seq_None [of ?loop ?r u, OF u(1)]) (simp add: upd_def)
  have all: "same_ctor (ctors u ! j) (ctors ?t ! j)" for j
    by (cases "j = e"; cases "e < length (ctors u)") (simp_all add: set_children_def same_ctor_def ctor_key_def list_update_beyond)
  have ei: "?i \<noteq> e" using e(2) by simp
  have "ctors ?t ! ?i = ctors ?r ! ?i" using u(3) ei by (simp add: set_children_def)
  then have kids: "children_of ?i ?t = []" using len(3) by (simp add: children_of_def)
  have "(sp, nm) \<notin> (\<lambda>c. ctor_key (ctors ?r ! c)) ` set (children_of e r)"
    using keys old cs(1) by (force simp: childless_def)
  then have "map_of (named u) (sp, nm) = Some ?i" using u(5) len(2) by simp
  then have name: "map_of (named ?t) (sp, nm) = Some ?i" by (simp add: set_children_def)
  have more_ctors: "length (ctors ?t) = length (ctors u)" "named ?t = named u" by (simp_all add: set_children_def)
  have "adds r u" unfolding adds_def
  proof (intro conjI allI impI)
    fix j assume j: "j < ?i"
    then have "same_ctor (ctors ?r ! j) (ctors u ! j)" using u(2) len(1) by (simp add: adds_def)
    then show "same_ctor (ctors r ! j) (ctors u ! j)" using old [OF j] by simp
  qed (use u(2) len(1) in \<open>simp add: adds_def\<close>)
  then have "adds r ?t" using more_ctors all by (auto simp: adds_def intro: same_ctor_trans)
  moreover have "?i < length (ctors ?t)" using u(2) len(1) more_ctors by (simp add: adds_def)
  moreover have "rebased ?i r ?t c" if c: "c \<in> set (children_of e r)" for c
  proof -
    have old_c: "ctors ?r ! c = ctors r ! c" using old cs(1) c by (simp add: childless_def)
    from u(4) c have "rebased ?i ?r u c" by (rule bspec)
    then obtain j where j: "map_of (named u) (ctor_key (ctors r ! c)) = Some j" "Suc ?i \<le> j" "j < length (ctors u)"
      "ct_base (ctors u ! j) = ?i" "ct_proto (ctors u ! j) = ct_proto (ctors r ! c)"
      "ct_chain (ctors u ! j) = pr_methods (ct_proto (ctors r ! c)) # ct_chain (ctors u ! ?i)"
      unfolding rebased_def old_c len(1) by (elim exE conjE)
    show ?thesis unfolding rebased_def
      using j all [of j] all [of ?i] more_ctors by (intro exI [of _ j]) (simp add: same_ctor_def)
  qed
  ultimately show ?thesis using run name kids by blast
qed


section \<open>Methods of the plugin\<close>

lemma bridge_runs:
  assumes "m \<noteq> ''instance''" "take 1 m \<noteq> ''_''" "methods m = Some f"
    and "\<forall>i. fst (f i) = None \<and> (snd (snd (f i)) = NoValue \<or> snd (snd (f i)) = TheInstance)"
  shows "list_all (\<lambda>e. data e \<noteq> None) els \<Longrightarrow> distinct els \<Longrightarrow> bridge_method methods m els data =
    (Inr TheCollection, \<lambda>e. if e \<in> set els then map_option (\<lambda>i. fst (snd (f i))) (data e) else data e)"
proof (induction els arbitrary: data)
  case Nil
  then show ?case by simp
next
  case (Cons e es)
  obtain i where i: "data e = Some i" using Cons.prems(1) by auto
  obtain x i' v where f: "f i = (x, i', v)" by (cases "f i") auto
  have v: "x = None" "v = NoValue \<or> v = TheInstance" using assms(4) f by (metis fst_conv snd_conv)+
  let ?data = "data(e \<mapsto> i')"
  have all: "list_all (\<lambda>e. ?data e \<noteq> None) es" using Cons.prems(1) by (auto simp: list_all_iff)
  have "bridge_method methods m (e # es) data = bridge_method methods m es ?data"
    using v assms(1-3) i f by auto
  also have "\<dots> = (Inr TheCollection, \<lambda>d. if d \<in> set es then map_option (\<lambda>i. fst (snd (f i))) (?data d) else ?data d)"
    by (rule Cons.IH [OF all]) (use Cons.prems(2) in simp)
  also have "\<dots> = (Inr TheCollection, \<lambda>d. if d \<in> set (e # es) then map_option (\<lambda>i. fst (snd (f i))) (data d) else data d)"
    using Cons.prems(2) i f by (auto simp: fun_eq_iff)
  finally show ?case .
qed

text \<open>A widget whose \<open>refresh\<close> calls another method before it calls the one it overrides.\<close>

definition wrote :: "nat \<Rightarrow> (nat list) method_body" where
  "wrote k = Act (\<lambda>s. (None, s @ [k]))"

definition demo_chain :: "(nat list) proto list" where
  "demo_chain =
     [[(''refresh'', Then (wrote 1) (Then (Call ''resize'') Super)), (''resize'', Then (wrote 2) Super)],
      [(''refresh'', wrote 4), (''resize'', wrote 3)]]"

text \<open>\<open>$.Widget\<close>, a widget on it and a widget on that one.\<close>

definition demo_proto :: "nat \<Rightarrow> (nat list) widget_proto" where
  "demo_proto k = \<lparr>pr_methods = [(''refresh'', wrote k)], pr_options = [], pr_prefix = None\<rparr>"

definition demo_ctor :: "string \<Rightarrow> nat \<Rightarrow> nat \<Rightarrow> nat list \<Rightarrow> (nat list) ctor" where
  "demo_ctor nm base k cs = \<lparr>ct_space = ''ui'', ct_name = nm, ct_base = base, ct_proto = demo_proto k, ct_chain = [],
     ct_options = [], ct_prefix = nm, ct_children = Some cs\<rparr>"

definition demo_registry :: "(nat list) registry" where
  "demo_registry = \<lparr>ctors = [demo_ctor ''widget'' 0 0 [1], demo_ctor ''base'' 0 1 [2], demo_ctor ''child'' 1 2 []],
     named = [((''ui'', ''child''), 2), ((''ui'', ''base''), 1)], bridged = [(''child'', 2), (''base'', 1)]\<rparr>"

definition demo_again :: "exn option \<times> (nat list) registry" where
  "demo_again = define_widget 4 ''ui'' ''base'' 0 (demo_proto 3) demo_registry"

definition demo_once_more :: "(nat list) registry \<Rightarrow> exn option \<times> (nat list) registry" where
  "demo_once_more = define_widget 4 ''ui'' ''base'' 0 (demo_proto 4)"

definition data_demo :: "nat \<Rightarrow> nat option" where
  "data_demo e = Some e"

section \<open>Properties\<close>

text \<open>
  C14. In any method of any widget, however methods call each other, override and throw, \<open>_super\<close> is
  the method of the same name of the bases of the prototype that the method came from: the
  property that the wrappers set and put back implements lexical scope. What a call does never
  depends on what the property held before.
\<close>

theorem super_is_lexical:
  "fst (exec n chain c (slot, s)) = fst (exec_lexical n chain slot c s) \<and>
   snd (snd (exec n chain c (slot, s))) = snd (exec_lexical n chain slot c s) \<and>
   (fst (exec n chain c (slot, s)) = None \<longrightarrow> fst (snd (exec n chain c (slot, s))) = slot) \<and>
   snd (snd (exec n chain (Call m) (slot, s))) = snd (snd (exec n chain (Call m) (slot', s)))"
proof -
  obtain x sl t where run: "exec n chain c (slot, s) = (x, sl, t)" by (cases "exec n chain c (slot, s)") auto
  obtain y sl' t' where call: "exec n chain (Call m) (slot, s) = (y, sl', t')" by (cases "exec n chain (Call m) (slot, s)") auto
  obtain z sl'' t'' where call': "exec n chain (Call m) (slot', s) = (z, sl'', t'')" by (cases "exec n chain (Call m) (slot', s)") auto
  have "exec_lexical n chain slot (Call m) s = exec_lexical n chain slot' (Call m) s" by (cases n) simp_all
  then show ?thesis using exec_agrees [OF run] exec_agrees [OF call] exec_agrees [OF call'] run call call' by simp
qed

lemma super_is_lexical_witness:
  "snd (snd (exec 5 demo_chain (Call ''refresh'') (None, []))) = [1, 2, 3, 4 :: nat] \<and>
   fst (snd (exec 5 demo_chain (Call ''refresh'') (Some ([], ''x''), []))) = Some ([], ''x'')"
proof -
  have "exec_lexical 5 demo_chain None (Call ''refresh'') [] = (None, [1, 2, 3, 4])"
    "exec_lexical 5 demo_chain (Some ([], ''x'')) (Call ''refresh'') [] = (None, [1, 2, 3, 4])"
    by (simp_all add: demo_chain_def wrote_def numeral_eq_Suc seq_def)
  then show ?thesis
    using super_is_lexical [of 5 demo_chain "Call ''refresh''" None "[]"]
      super_is_lexical [of 5 demo_chain "Call ''refresh''" "Some ([], ''x'')" "[]"] by simp
qed

text \<open>
  Defining a widget again replaces it under its name, and defines each of its children again
  with the methods it had, on the new base. But the new constructor does not learn of these
  children: when the widget is defined once more, they stay with the version in between.
\<close>

theorem redefinition_moves_children_once:
  assumes e: "map_of (named r) (sp, nm) = Some e" "e < length (ctors r)"
    and cs: "\<forall>c \<in> set (children_of e r). childless c r \<and> c \<noteq> e" "distinct (map (\<lambda>c. ctor_key (ctors r ! c)) (children_of e r))"
    and keys: "\<forall>c \<in> set (children_of e r). ctor_key (ctors r ! c) \<noteq> (sp, nm)"
    and t: "define_widget (Suc (Suc n)) sp nm base proto r = (x, t)" and u: "define_widget (Suc (Suc n)) sp nm base' proto' t = (y, u)"
    and c: "c \<in> set (children_of e r)"
  shows "x = None \<and> y = None \<and> (\<exists>i i' j. i \<noteq> i' \<and>
    map_of (named t) (sp, nm) = Some i \<and> map_of (named t) (ctor_key (ctors r ! c)) = Some j \<and>
    ct_base (ctors t ! j) = i \<and> ct_proto (ctors t ! j) = ct_proto (ctors r ! c) \<and>
    ct_chain (ctors t ! j) = pr_methods (ct_proto (ctors r ! c)) # ct_chain (ctors t ! i) \<and>
    map_of (named u) (sp, nm) = Some i' \<and> map_of (named u) (ctor_key (ctors r ! c)) = Some j \<and> ct_base (ctors u ! j) = i)"
proof -
  let ?i = "length (ctors r)" and ?k = "ctor_key (ctors r ! c)"
  have t': "x = None" "adds r t" "?i < length (ctors t)" "map_of (named t) (sp, nm) = Some ?i" "children_of ?i t = []"
    "rebased ?i r t c"
    using define_again [OF e cs keys, of n base proto] t c by auto
  obtain j where j: "map_of (named t) ?k = Some j" "j < length (ctors t)" "ct_base (ctors t ! j) = ?i"
    "ct_proto (ctors t ! j) = ct_proto (ctors r ! c)" "ct_chain (ctors t ! j) = pr_methods (ct_proto (ctors r ! c)) # ct_chain (ctors t ! ?i)"
    using t'(6) unfolding rebased_def by blast
  have u': "y = None" "adds t u" "named u = AList.update (sp, nm) (length (ctors t)) (named t)"
    using redefine_leaf [OF t'(4,3,5), of "Suc n" base' proto'] u by auto
  have "ct_base (ctors u ! j) = ?i" using u'(2) j(2,3) by (simp add: adds_def same_ctor_def)
  moreover have "map_of (named u) ?k = Some j" "map_of (named u) (sp, nm) = Some (length (ctors t))"
    using keys c j(1) by (simp_all add: u'(3))
  ultimately show ?thesis using t'(1,3,4) u'(1) j by (intro conjI exI [of _ ?i] exI [of _ "length (ctors t)"] exI [of _ j]) simp_all
qed

lemma redefinition_moves_children_once_witness:
  "fst demo_again = None \<and> fst (demo_once_more (snd demo_again)) = None \<and> (\<exists>i i' j. i \<noteq> i' \<and>
     map_of (named (snd (demo_once_more (snd demo_again)))) (''ui'', ''base'') = Some i' \<and>
     map_of (named (snd (demo_once_more (snd demo_again)))) (''ui'', ''child'') = Some j \<and>
     ct_base (ctors (snd (demo_once_more (snd demo_again))) ! j) = i)"
proof -
  have "define_widget (Suc (Suc 2)) ''ui'' ''base'' 0 (demo_proto 3) demo_registry = (fst demo_again, snd demo_again)"
    "define_widget (Suc (Suc 2)) ''ui'' ''base'' 0 (demo_proto 4) (snd demo_again) =
      (fst (demo_once_more (snd demo_again)), snd (demo_once_more (snd demo_again)))"
    by (simp_all add: demo_again_def demo_once_more_def numeral_eq_Suc)
  note run = this
  have "map_of (named demo_registry) (''ui'', ''base'') = Some 1" "1 < length (ctors demo_registry)"
    "\<forall>c \<in> set (children_of 1 demo_registry). childless c demo_registry \<and> c \<noteq> 1"
    "distinct (map (\<lambda>c. ctor_key (ctors demo_registry ! c)) (children_of 1 demo_registry))"
    "\<forall>c \<in> set (children_of 1 demo_registry). ctor_key (ctors demo_registry ! c) \<noteq> (''ui'', ''base'')"
    "2 \<in> set (children_of 1 demo_registry)" "ctor_key (ctors demo_registry ! 2) = (''ui'', ''child'')"
    by (simp_all add: demo_registry_def demo_ctor_def children_of_def childless_def ctor_key_def)
  then show ?thesis using redefinition_moves_children_once [OF _ _ _ _ _ run, of 1 2] by auto
qed

text \<open>
  A page cannot call what is private or not there: the plugin throws at the first element, and
  no instance is touched. A method that returns nothing or its instance runs on every element of
  the collection, in order, and the collection is returned.
\<close>

theorem plugin_calls:
  assumes "m \<noteq> ''instance''" "list_all (\<lambda>e. data e \<noteq> None) els" "els \<noteq> []" "distinct els"
  shows "(take 1 m = ''_'' \<or> methods m = None \<longrightarrow> bridge_call methods m els data = (Inl PluginError, data)) \<and>
    (take 1 m \<noteq> ''_'' \<and> methods m = Some f \<and> (\<forall>i. fst (f i) = None \<and> (snd (snd (f i)) = NoValue \<or> snd (snd (f i)) = TheInstance)) \<longrightarrow>
      bridge_call methods m els data = (Inr TheCollection, \<lambda>e. if e \<in> set els then map_option (\<lambda>i. fst (snd (f i))) (data e) else data e))"
proof (intro conjI impI)
  obtain e es where els: "els = e # es" using assms(3) by (cases els) auto
  assume "take 1 m = ''_'' \<or> methods m = None"
  then show "bridge_call methods m els data = (Inl PluginError, data)"
    using assms(1,2) by (auto simp: bridge_call_def els)
next
  assume "take 1 m \<noteq> ''_'' \<and> methods m = Some f \<and> (\<forall>i. fst (f i) = None \<and> (snd (snd (f i)) = NoValue \<or> snd (snd (f i)) = TheInstance))"
  then show "bridge_call methods m els data =
      (Inr TheCollection, \<lambda>e. if e \<in> set els then map_option (\<lambda>i. fst (snd (f i))) (data e) else data e)"
    using assms bridge_runs [of m methods f data els] by (simp add: bridge_call_def)
qed

lemma plugin_calls_witness:
  "bridge_call (\<lambda>m. Some (\<lambda>i. (None, i + 5, (NoValue :: nat method_result)))) ''refresh'' [2, 1] data_demo =
     (Inr TheCollection, \<lambda>e. if e = 2 \<or> e = 1 then Some (e + 5) else Some e) \<and>
   bridge_call (\<lambda>m. Some (\<lambda>i. (None, i + 5, (NoValue :: nat method_result)))) ''_destroy'' [2, 1] data_demo = (Inl PluginError, data_demo)"
proof -
  have "(\<lambda>e. if e = 2 \<or> e = Suc 0 then map_option (\<lambda>i. fst (snd (None, i + 5, NoValue :: nat method_result))) (data_demo e) else data_demo e)
    = (\<lambda>e. if e = 2 \<or> e = 1 then Some (e + 5) else Some e)"
    by (simp add: fun_eq_iff data_demo_def)
  then show ?thesis
    using plugin_calls [of "''refresh''" data_demo "[2, 1]" "\<lambda>m. Some (\<lambda>i. (None, i + 5, NoValue :: nat method_result))" "\<lambda>i. (None, i + 5, NoValue)"]
      plugin_calls [of "''_destroy''" data_demo "[2, 1]" "\<lambda>m. Some (\<lambda>i. (None, i + 5, NoValue :: nat method_result))" "\<lambda>i. (None, i + 5, NoValue)"]
    by (simp add: data_demo_def [of 2] data_demo_def [of "Suc 0"])
qed

end
