(* ===== verification/UI_Position.thy ===== *)
theory UI_Position
  imports JS_Text
begin

text \<open>
  The placement of an element beside another one (\<open>$.fn.position\<close> and \<open>$.ui.position\<close> of
  \<open>html/jquery-ui-1.13.1.custom/jquery-ui.js\<close>): the options \<open>my\<close>, \<open>at\<close> and \<open>collision\<close>, the place they
  give, and what becomes of it when the element would stick out of its container. Sizes and
  places that the browser measures are arguments.
\<close>

section \<open>Measurements\<close>

record spot =
  px_left :: jsnum
  px_top :: jsnum

text \<open>What the option \<open>of\<close> can be, with its size and its place or scroll position.\<close>

datatype pos_target =
    TheDocument jsnum jsnum
  | TheWindow jsnum jsnum spot
  | AnEvent spot
  | AnElement jsnum jsnum spot

definition spot_zero :: spot where
  "spot_zero = \<lparr>px_left = Fin 0, px_top = Fin 0\<rparr>"

fun get_dimensions :: "pos_target \<Rightarrow> jsnum \<times> jsnum \<times> spot" where
  "get_dimensions (TheDocument w h) = (w, h, spot_zero)"
| "get_dimensions (TheWindow w h scroll) = (w, h, scroll)"
| "get_dimensions (AnEvent page) = (Fin 0, Fin 0, page)"
| "get_dimensions (AnElement w h offset) = (w, h, offset)"

text \<open>The container: the window, the document or an element.\<close>

record within_info =
  is_window :: bool
  is_document :: bool
  within_offset :: spot
  within_scroll :: spot
  within_width :: jsnum
  within_height :: jsnum
  overflow_x :: string
  overflow_y :: string
  scroll_width :: jsnum
  scroll_height :: jsnum

definition get_within_info :: "within_info \<Rightarrow> within_info" where
  "get_within_info w = (if is_window w \<or> is_document w then w\<lparr>within_offset := spot_zero\<rparr> else w)"

text \<open>The inner width of a box without and with scroll bars, and its client width.\<close>

definition scrollbar_width :: "jsnum \<Rightarrow> jsnum \<Rightarrow> jsnum \<Rightarrow> jsnum" where
  "scrollbar_width w1 w2 client = w1 - (if num_eq w1 w2 then client else w2)"

definition get_scroll_info :: "jsnum \<Rightarrow> within_info \<Rightarrow> jsnum \<times> jsnum" where
  "get_scroll_info bar w =
     (let page = is_window w \<or> is_document w;
          ox = (if page then [] else overflow_x w);
          oy = (if page then [] else overflow_y w);
          has_x = (ox = ''scroll'' \<or> ox = ''auto'' \<and> within_width w < scroll_width w);
          has_y = (oy = ''scroll'' \<or> oy = ''auto'' \<and> within_height w < scroll_height w)
      in (if has_y then bar else Fin 0, if has_x then bar else Fin 0))"

section \<open>The options \<open>my\<close> and \<open>at\<close>\<close>

definition horizontal_word :: "string \<Rightarrow> bool" where
  "horizontal_word s \<longleftrightarrow> contains ''left'' s \<or> contains ''center'' s \<or> contains ''right'' s"

definition vertical_word :: "string \<Rightarrow> bool" where
  "vertical_word s \<longleftrightarrow> contains ''top'' s \<or> contains ''center'' s \<or> contains ''bottom'' s"

text \<open>The character class \<open>\w\<close>, and what \<open>/^\w+/\<close> matches.\<close>

definition word_char :: "char \<Rightarrow> bool" where
  "word_char c \<longleftrightarrow> is_digit c \<or> 65 \<le> code c \<and> code c \<le> 90 \<or> 97 \<le> code c \<and> code c \<le> 122 \<or> c = CHR ''_''"

definition leading_word :: "string \<Rightarrow> exn + string" where
  "leading_word s = (if takeWhile word_char s = [] then Inl TypeError else Inr (takeWhile word_char s))"

text \<open>The first match of \<open>/[\+\-]\d+(\.[\d]+)?%?/\<close>.\<close>

definition match_offset :: "string \<Rightarrow> string option" where
  "match_offset s = (case s of
       c # t \<Rightarrow>
         if (c = CHR ''+'' \<or> c = CHR ''-'') \<and> takeWhile is_digit t \<noteq> [] then
           (let ip = takeWhile is_digit t; r = dropWhile is_digit t;
                fp = (case r of d # u \<Rightarrow> if d = CHR ''.'' \<and> takeWhile is_digit u \<noteq> [] then d # takeWhile is_digit u else [] | [] \<Rightarrow> []);
                r' = drop (length fp) r
            in Some (c # ip @ fp @ (if take 1 r' = ''%'' then ''%'' else [])))
         else None
     | [] \<Rightarrow> None)"

fun find_offset :: "string \<Rightarrow> string option" where
  "find_offset [] = None"
| "find_offset (c # s) = (case match_offset (c # s) of Some m \<Rightarrow> Some m | None \<Rightarrow> find_offset s)"

text \<open>The two words of an option, with \<open>center\<close> for what is missing or not valid, and their offsets.\<close>

definition two_words :: "string \<Rightarrow> string \<times> string" where
  "two_words s =
     (let ws = split_on (CHR '' '') s;
          pos = (if length ws = 1 then
              (if horizontal_word (ws ! 0) then ws @ [''center'']
               else if vertical_word (ws ! 0) then ''center'' # ws
               else [''center'', ''center''])
            else ws)
      in (if horizontal_word (pos ! 0) then pos ! 0 else ''center'',
          if vertical_word (pos ! 1) then pos ! 1 else ''center''))"

record alignment =
  word_x :: string
  word_y :: string
  offset_x :: "string option"
  offset_y :: "string option"

definition parse_alignment :: "string \<Rightarrow> exn + alignment" where
  "parse_alignment s = (case two_words s of (h, v) \<Rightarrow>
     (case leading_word h of Inl e \<Rightarrow> Inl e
      | Inr wx \<Rightarrow> (case leading_word v of Inl e \<Rightarrow> Inl e
      | Inr wy \<Rightarrow> Inr \<lparr>word_x = wx, word_y = wy, offset_x = find_offset h, offset_y = find_offset v\<rparr>)))"

definition offset_px :: "string option \<Rightarrow> jsnum \<Rightarrow> jsnum" where
  "offset_px t whole = (case t of
       None \<Rightarrow> Fin 0 * Fin 1
     | Some s \<Rightarrow> parse_float s * (if slice_last s 1 = ''%'' then whole div Fin 100 else Fin 1))"

definition get_offsets :: "alignment \<Rightarrow> jsnum \<Rightarrow> jsnum \<Rightarrow> jsnum \<times> jsnum" where
  "get_offsets a w h = (offset_px (offset_x a) w, offset_px (offset_y a) h)"

section \<open>Collisions\<close>

record collision =
  target_width :: jsnum
  target_height :: jsnum
  elem_width :: jsnum
  elem_height :: jsnum
  margin_left :: jsnum
  margin_top :: jsnum
  collision_width :: jsnum
  collision_height :: jsnum
  offset_left :: jsnum
  offset_top :: jsnum
  my_x :: string
  my_y :: string
  at_x :: string
  at_y :: string
  container :: within_info

definition left_edge :: "within_info \<Rightarrow> jsnum" where
  "left_edge w = (if is_window w then px_left (within_scroll w) else px_left (within_offset w))"

definition top_edge :: "within_info \<Rightarrow> jsnum" where
  "top_edge w = (if is_window w then px_top (within_scroll w) else px_top (within_offset w))"

definition fit_left :: "collision \<Rightarrow> spot \<Rightarrow> spot" where
  "fit_left d p =
     (let w = container d;
          from = left_edge w;
          outer = within_width w;
          pos = px_left p - margin_left d;
          over_left = from - pos;
          over_right = pos + collision_width d - outer - from
      in p\<lparr>px_left :=
        if outer < collision_width d then
          if Fin 0 < over_left \<and> over_right \<le> Fin 0 then
            px_left p + (over_left - (px_left p + over_left + collision_width d - outer - from))
          else if Fin 0 < over_right \<and> over_left \<le> Fin 0 then from
          else if over_right < over_left then from + outer - collision_width d
          else from
        else if Fin 0 < over_left then px_left p + over_left
        else if Fin 0 < over_right then px_left p - over_right
        else math_max (px_left p - pos) (px_left p)\<rparr>)"

definition fit_top :: "collision \<Rightarrow> spot \<Rightarrow> spot" where
  "fit_top d p =
     (let w = container d;
          from = top_edge w;
          outer = within_height w;
          pos = px_top p - margin_top d;
          over_top = from - pos;
          over_bottom = pos + collision_height d - outer - from
      in p\<lparr>px_top :=
        if outer < collision_height d then
          if Fin 0 < over_top \<and> over_bottom \<le> Fin 0 then
            px_top p + (over_top - (px_top p + over_top + collision_height d - outer - from))
          else if Fin 0 < over_bottom \<and> over_top \<le> Fin 0 then from
          else if over_bottom < over_top then from + outer - collision_height d
          else from
        else if Fin 0 < over_top then px_top p + over_top
        else if Fin 0 < over_bottom then px_top p - over_bottom
        else math_max (px_top p - pos) (px_top p)\<rparr>)"

definition flip_left :: "collision \<Rightarrow> spot \<Rightarrow> spot" where
  "flip_left d p =
     (let w = container d;
          from = px_left (within_offset w) + px_left (within_scroll w);
          outer = within_width w;
          start = left_edge w;
          pos = px_left p - margin_left d;
          over_left = pos - start;
          over_right = pos + collision_width d - outer - start;
          my = (if my_x d = ''left'' then - elem_width d else if my_x d = ''right'' then elem_width d else Fin 0);
          at' = (if at_x d = ''left'' then target_width d else if at_x d = ''right'' then - target_width d else Fin 0);
          offset = Fin (- 2) * offset_left d
      in if over_left < Fin 0 then
           (let new_over_right = px_left p + my + at' + offset + collision_width d - outer - from
            in if new_over_right < Fin 0 \<or> new_over_right < math_abs over_left
               then p\<lparr>px_left := px_left p + (my + at' + offset)\<rparr> else p)
         else if Fin 0 < over_right then
           (let new_over_left = px_left p - margin_left d + my + at' + offset - start
            in if Fin 0 < new_over_left \<or> math_abs new_over_left < over_right
               then p\<lparr>px_left := px_left p + (my + at' + offset)\<rparr> else p)
         else p)"

definition flip_top :: "collision \<Rightarrow> spot \<Rightarrow> spot" where
  "flip_top d p =
     (let w = container d;
          from = px_top (within_offset w) + px_top (within_scroll w);
          outer = within_height w;
          start = top_edge w;
          pos = px_top p - margin_top d;
          over_top = pos - start;
          over_bottom = pos + collision_height d - outer - start;
          my = (if my_y d = ''top'' then - elem_height d else if my_y d = ''bottom'' then elem_height d else Fin 0);
          at' = (if at_y d = ''top'' then target_height d else if at_y d = ''bottom'' then - target_height d else Fin 0);
          offset = Fin (- 2) * offset_top d
      in if over_top < Fin 0 then
           (let new_over_bottom = px_top p + my + at' + offset + collision_height d - outer - from
            in if new_over_bottom < Fin 0 \<or> new_over_bottom < math_abs over_top
               then p\<lparr>px_top := px_top p + (my + at' + offset)\<rparr> else p)
         else if Fin 0 < over_bottom then
           (let new_over_top = px_top p - margin_top d + my + at' + offset - start
            in if Fin 0 < new_over_top \<or> math_abs new_over_top < over_bottom
               then p\<lparr>px_top := px_top p + (my + at' + offset)\<rparr> else p)
         else p)"

definition flipfit_left :: "collision \<Rightarrow> spot \<Rightarrow> spot" where
  "flipfit_left d p = fit_left d (flip_left d p)"

definition flipfit_top :: "collision \<Rightarrow> spot \<Rightarrow> spot" where
  "flipfit_top d p = fit_top d (flip_top d p)"

text \<open>A name that is none of the three leaves the place alone, such as \<open>none\<close>.\<close>

definition collide_left :: "string \<Rightarrow> collision \<Rightarrow> spot \<Rightarrow> spot" where
  "collide_left how d p = (if how = ''fit'' then fit_left d p else if how = ''flip'' then flip_left d p
     else if how = ''flipfit'' then flipfit_left d p else p)"

definition collide_top :: "string \<Rightarrow> collision \<Rightarrow> spot \<Rightarrow> spot" where
  "collide_top how d p = (if how = ''fit'' then fit_top d p else if how = ''flip'' then flip_top d p
     else if how = ''flipfit'' then flipfit_top d p else p)"

section \<open>Placing\<close>

text \<open>An element to be placed: its outer size and the margins that \<open>$.css\<close> gives.\<close>

record placed =
  outer_w :: jsnum
  outer_h :: jsnum
  css_margin_left :: string
  css_margin_top :: string
  css_margin_right :: string
  css_margin_bottom :: string

record pos_options =
  opt_my :: string
  opt_at :: string
  opt_collision :: string
  opt_target :: "pos_target option"    \<comment> \<open>what \<open>of\<close> selects first\<close>
  opt_within :: within_info

text \<open>\<open>parseInt(s, 10) || 0\<close>\<close>

definition parse_css :: "string \<Rightarrow> jsnum" where
  "parse_css s = (if parse_int10 s = NaN then Fin 0 else parse_int10 s)"

definition split_collision :: "string \<Rightarrow> string \<times> string" where
  "split_collision s = (let c = split_on (CHR '' '') (if s = [] then ''flip'' else s)
     in (c ! 0, if length c = 1 then c ! 0 else c ! 1))"

definition base_position :: "alignment \<Rightarrow> jsnum \<Rightarrow> jsnum \<Rightarrow> spot \<Rightarrow> spot" where
  "base_position at' w h p =
     (let l = (if word_x at' = ''right'' then px_left p + w else if word_x at' = ''center'' then px_left p + w div Fin 2 else px_left p);
          t = (if word_y at' = ''bottom'' then px_top p + h else if word_y at' = ''center'' then px_top p + h div Fin 2 else px_top p);
          (x, y) = get_offsets at' w h
      in \<lparr>px_left = l + x, px_top = t + y\<rparr>)"

definition own_position :: "alignment \<Rightarrow> jsnum \<Rightarrow> jsnum \<Rightarrow> spot \<Rightarrow> spot" where
  "own_position my w h p =
     (let l = (if word_x my = ''right'' then px_left p - w else if word_x my = ''center'' then px_left p - w div Fin 2 else px_left p);
          t = (if word_y my = ''bottom'' then px_top p - h else if word_y my = ''center'' then px_top p - h div Fin 2 else px_top p);
          (x, y) = get_offsets my w h
      in \<lparr>px_left = l + x, px_top = t + y\<rparr>)"

definition collision_of :: "alignment \<Rightarrow> alignment \<Rightarrow> jsnum \<Rightarrow> jsnum \<Rightarrow> jsnum \<times> jsnum \<Rightarrow> within_info \<Rightarrow> placed \<Rightarrow> collision" where
  "collision_of my at' tw th bars w e =
     (let (ax, ay) = get_offsets at' tw th; (mx, my') = get_offsets my (outer_w e) (outer_h e) in
      \<lparr>target_width = tw, target_height = th, elem_width = outer_w e, elem_height = outer_h e,
       margin_left = parse_css (css_margin_left e), margin_top = parse_css (css_margin_top e),
       collision_width = outer_w e + parse_css (css_margin_left e) + parse_css (css_margin_right e) + fst bars,
       collision_height = outer_h e + parse_css (css_margin_top e) + parse_css (css_margin_bottom e) + snd bars,
       offset_left = ax + mx, offset_top = ay + my',
       my_x = word_x my, my_y = word_y my, at_x = word_x at', at_y = word_y at', container = w\<rparr>)"

text \<open>What a callback \<open>using\<close> is told about where the element lies.\<close>

definition feedback :: "jsnum \<Rightarrow> jsnum \<Rightarrow> spot \<Rightarrow> placed \<Rightarrow> spot \<Rightarrow> string \<times> string \<times> string" where
  "feedback tw th target e p =
     (let l = px_left target - px_left p; r = l + tw - outer_w e;
          t = px_top target - px_top p; b = t + th - outer_h e;
          h = (if tw < outer_w e \<and> math_abs (l + r) < tw then ''center''
               else if r < Fin 0 then ''left'' else if Fin 0 < l then ''right'' else ''center'');
          v = (if th < outer_h e \<and> math_abs (t + b) < th then ''middle''
               else if b < Fin 0 then ''top'' else if Fin 0 < t then ''bottom'' else ''middle'')
      in (h, v, if math_max (math_abs t) (math_abs b) < math_max (math_abs l) (math_abs r) then ''horizontal'' else ''vertical''))"

definition place_element :: "alignment \<Rightarrow> alignment \<Rightarrow> string \<times> string \<Rightarrow> jsnum \<Rightarrow> jsnum \<Rightarrow> spot \<Rightarrow> jsnum \<times> jsnum \<Rightarrow> within_info \<Rightarrow> placed \<Rightarrow> spot" where
  "place_element my at' how tw th target bars w e =
     (let p = own_position my (outer_w e) (outer_h e) (base_position at' tw th target);
          d = collision_of my at' tw th bars w e
      in collide_top (snd how) d (collide_left (fst how) d p))"

text \<open>\<open>position\<close> on a collection: where each element goes, and what \<open>using\<close> is told.\<close>

definition position_call :: "jsnum \<Rightarrow> pos_options \<Rightarrow> placed list \<Rightarrow> exn + (spot \<times> string \<times> string \<times> string) list" where
  "position_call bar opts els = (case opt_target opts of
       None \<Rightarrow> Inl TypeError
     | Some target \<Rightarrow>
         (let w = get_within_info (opt_within opts); bars = get_scroll_info bar w;
              (tw, th, start) = get_dimensions target;
              at' = (case target of AnEvent _ \<Rightarrow> ''left top'' | _ \<Rightarrow> opt_at opts)
          in case parse_alignment (opt_my opts) of Inl e \<Rightarrow> Inl e
           | Inr my \<Rightarrow> (case parse_alignment at' of Inl e \<Rightarrow> Inl e
           | Inr at' \<Rightarrow> Inr (map (\<lambda>e. let p = place_element my at' (split_collision (opt_collision opts)) tw th start bars w e
               in (p, feedback tw th start e p)) els))))"

end
