(* ===== verification/UI_Position_Props.thy ===== *)
theory UI_Position_Props
  imports UI_Position
begin

text \<open>
  Where an element ends up: inside of its container if it fits and the collision is \<open>fit\<close>; with
  \<open>flip\<close> at the mirrored place if it sticks out, and less there. The vertical axis follows from the
  horizontal one by turning the picture.
\<close>

section \<open>Exact arithmetic\<close>

text \<open>
  Browsers measure in fractions of a pixel whose denominator is a small power of two. On such
  numbers, below a billion, the arithmetic of doubles is exact.
\<close>

definition grid :: "rat \<Rightarrow> bool" where
  "grid q \<longleftrightarrow> (\<exists>n::int. q * 1024 = of_int n)"

lemma grid_closed [simp]: "grid a \<Longrightarrow> grid b \<Longrightarrow> grid (a + b)" "grid a \<Longrightarrow> grid b \<Longrightarrow> grid (a - b)" "grid a \<Longrightarrow> grid (- a)"
proof -
  show "grid (a + b)" if "grid a" "grid b"
    using that unfolding grid_def by (metis distrib_right of_int_add)
  show "grid (a - b)" if "grid a" "grid b"
    using that unfolding grid_def by (metis left_diff_distrib of_int_diff)
  show "grid (- a)" if "grid a"
    using that unfolding grid_def by (metis mult_minus_left of_int_minus)
qed

lemma grid_int [simp]: "grid (of_int n)" "grid 0" "grid (numeral k)"
proof -
  have "\<exists>i::int. of_int n * 1024 = (of_int i :: rat)" for n :: int by (rule exI [of _ "n * 1024"]) simp
  then show "grid (of_int n)" for n :: int by (simp only: grid_def)
  from this [of 0] this [of "numeral k"] show "grid 0" "grid (numeral k)" by simp_all
qed

lemma grid_twice [simp]: "grid a \<Longrightarrow> grid (2 * a)"
  using grid_closed(1) [of a a] by (simp only: mult_2)

lemma fl_grid:
  assumes "grid q" "\<bar>q\<bar> < 2 ^ 42"
  shows "fl q = q"
proof (cases "q = 0")
  case False
  obtain n :: int where n: "q * 1024 = of_int n" using assms(1) grid_def by blast
  define e where "e = max (ilog2 \<bar>q\<bar> - 52) (- 1074)"
  have "2 powi ilog2 \<bar>q\<bar> \<le> \<bar>q\<bar>" using False by (intro ilog2_lower) simp
  also have "\<dots> < 2 powi 42" using assms(2) by simp
  finally have "ilog2 \<bar>q\<bar> < 42"
    by (meson linorder_not_less one_le_numeral power_int_increasing)
  then have "e \<le> - 10" by (simp add: e_def)
  then have "e = - 10 - int (nat (- 10 - e))" by simp
  then obtain k where k: "e = - 10 - int k" by blast
  have p: "(2::rat) powi e = 1 / (1024 * 2 ^ k)"
  proof -
    have "e = - int (10 + k)" using k by simp
    then have "(2::rat) powi e = inverse (2 ^ (10 + k))" by (simp only: power_int_minus power_int_of_nat)
    also have "(2::rat) ^ (10 + k) = 1024 * 2 ^ k" by (simp add: power_add)
    finally show ?thesis by (simp only: inverse_eq_divide)
  qed
  have "q / 2 powi e = q * 1024 * 2 ^ k" unfolding p by simp
  then have "q / 2 powi e = of_int (n * 2 ^ k)" by (simp only: n of_int_mult of_int_power of_int_numeral)
  then have "of_int (rne (q / 2 powi e)) * 2 powi e = (q / 2 powi e) * 2 powi e" by (simp only: rne_of_int)
  also have "\<dots> = q" by simp
  finally show ?thesis using False by (simp add: fl_def e_def Let_def)
qed simp

lemma mk_grid: "grid q \<Longrightarrow> \<bar>q\<bar> < 2 ^ 42 \<Longrightarrow> mk q = Fin q"
proof -
  assume q: "grid q" "\<bar>q\<bar> < 2 ^ 42"
  have big: "(2::rat) ^ 42 < 2 ^ 1024" by (rule power_strict_increasing) simp_all
  have "q < 2 ^ 42" "- q < 2 ^ 42" using q(2) by (simp_all only: abs_less_iff)
  then have "q < 2 ^ 1024" "- q < 2 ^ 1024" using big by (blast intro: less_trans)+
  then have "\<not> 2 ^ 1024 \<le> q" "\<not> q \<le> - (2 ^ 1024)" by (simp_all only: not_le minus_less_iff)
  then show ?thesis by (simp only: mk_def Let_def fl_grid [OF q] if_False)
qed

lemma grid_arith:
  "grid a \<Longrightarrow> grid b \<Longrightarrow> a + b < 2 ^ 42 \<Longrightarrow> - (2 ^ 42) < a + b \<Longrightarrow> Fin a + Fin b = Fin (a + b)"
  "grid a \<Longrightarrow> grid b \<Longrightarrow> a - b < 2 ^ 42 \<Longrightarrow> - (2 ^ 42) < a - b \<Longrightarrow> Fin a - Fin b = Fin (a - b)"
  "- Fin a = Fin (- a)" "Fin a < Fin b \<longleftrightarrow> a < b" "Fin a \<le> Fin b \<longleftrightarrow> a \<le> b"
  by (auto simp: num_defs num_le_def num_eq_def mk_grid abs_less_iff)

definition small :: "rat \<Rightarrow> rat \<Rightarrow> bool" where
  "small B q \<longleftrightarrow> grid q \<and> \<bar>q\<bar> \<le> B"

lemma small_grid [simp]: "small B q \<Longrightarrow> grid q"
  by (simp add: small_def)

lemma small_bounds: "small B q \<Longrightarrow> q \<le> B" and small_bounds': "small B q \<Longrightarrow> - B \<le> q"
  by (simp_all add: small_def abs_le_iff)

section \<open>Fitting\<close>

lemma fit_left_place:
  assumes "px_left p = Fin x" "margin_left d = Fin m" "collision_width d = Fin c"
    and "within_width (container d) = Fin b" "left_edge (container d) = Fin a"
    and "small (2 ^ 36) x" "small (2 ^ 36) m" "small (2 ^ 36) c" "small (2 ^ 36) b" "small (2 ^ 36) a" "c \<le> b"
  shows "fit_left d p = p\<lparr>px_left := Fin (if x - m < a then a + m else if a + b - c < x - m then a + b - c + m else max m x)\<rparr>"
proof -
  note B = assms(6-10) [THEN small_bounds] assms(6-10) [THEN small_bounds']
  note G = assms(6-10) [THEN small_grid]
  have "Fin x - Fin m = Fin (x - m)" using B G by (simp add: grid_arith)
  moreover have "Fin a - Fin (x - m) = Fin (a - (x - m))" using B G by (simp add: grid_arith)
  moreover have "Fin (x - m) + Fin c = Fin (x - m + c)" using B G by (simp add: grid_arith)
  moreover have "Fin (x - m + c) - Fin b = Fin (x - m + c - b)" using B G by (simp add: grid_arith)
  moreover have "Fin (x - m + c - b) - Fin a = Fin (x - m + c - b - a)" using B G by (simp add: grid_arith)
  moreover have "Fin x + Fin (a - (x - m)) = Fin (a + m)" using B G by (simp add: grid_arith)
  moreover have "Fin x - Fin (x - m + c - b - a) = Fin (a + b - c + m)" using B G by (simp add: grid_arith)
  moreover have "Fin x - Fin (x - m) = Fin m" using B G by (simp add: grid_arith)
  ultimately show ?thesis using assms(11)
    by (simp add: fit_left_def Let_def assms(1-5) grid_arith(4,5) math_max_def max_def)
qed

text \<open>A measure in pixels, no larger than the bound.\<close>

definition px :: "rat \<Rightarrow> jsnum \<Rightarrow> bool" where
  "px B x \<longleftrightarrow> (\<exists>q. x = Fin q \<and> small B q)"

lemma px_add: "px A x \<Longrightarrow> px B y \<Longrightarrow> A + B < 2 ^ 42 \<Longrightarrow> px (A + B) (x + y)"
proof -
  assume "px A x" "px B y" and AB: "A + B < 2 ^ 42"
  then obtain a b where q: "x = Fin a" "small A a" "y = Fin b" "small B b" by (auto simp: px_def)
  note B = q(2,4) [THEN small_bounds] q(2,4) [THEN small_bounds']
  have "x + y = Fin (a + b)" unfolding q by (intro grid_arith) (use B AB q in simp_all)
  then show ?thesis using q(2,4) B by (simp add: px_def small_def abs_le_iff)
qed

lemma px_neg: "px B x \<Longrightarrow> px B (- x)"
  by (auto simp: px_def small_def grid_arith)

lemma num_minus: "(x::jsnum) - y = x + - y"
  by (simp add: num_defs)

lemma px_sub: "px A x \<Longrightarrow> px B y \<Longrightarrow> A + B < 2 ^ 42 \<Longrightarrow> px (A + B) (x - y)"
  unfolding num_minus by (intro px_add px_neg)

lemma px_mono: "px A x \<Longrightarrow> A \<le> B \<Longrightarrow> px B x"
  by (auto simp: px_def small_def)

lemma px_zero: "0 \<le> B \<Longrightarrow> px B (Fin 0)"
  by (simp add: px_def small_def)

lemma fit_left_inside:
  assumes "px (2 ^ 36) (px_left p)" "px (2 ^ 36) (margin_left d)" "px (2 ^ 36) (collision_width d)"
    and "px (2 ^ 36) (within_width (container d))" "px (2 ^ 36) (left_edge (container d))"
    and "collision_width d \<le> within_width (container d)" "Fin 0 \<le> left_edge (container d)"
  shows "left_edge (container d) \<le> px_left (fit_left d p) - margin_left d \<and>
    px_left (fit_left d p) - margin_left d + collision_width d \<le> left_edge (container d) + within_width (container d)"
proof -
  obtain x m c b a where q: "px_left p = Fin x" "margin_left d = Fin m" "collision_width d = Fin c"
    "within_width (container d) = Fin b" "left_edge (container d) = Fin a"
    "small (2 ^ 36) x" "small (2 ^ 36) m" "small (2 ^ 36) c" "small (2 ^ 36) b" "small (2 ^ 36) a"
    using assms(1-5) unfolding px_def by blast
  note B = q(6-10) [THEN small_bounds] q(6-10) [THEN small_bounds']
  note G = q(6-10) [THEN small_grid]
  have cb: "c \<le> b" "0 \<le> a" using assms(6,7) by (simp_all add: q grid_arith)
  let ?x = "if x - m < a then a + m else if a + b - c < x - m then a + b - c + m else max m x"
  have pos: "?x - m = (if x - m < a then a else if a + b - c < x - m then a + b - c else x - m)" using cb by auto
  define y where "y = ?x"
  have G': "grid y" using G by (simp add: y_def max_def)
  have B': "y < 2 ^ 39" "- (2 ^ 39) < y" using B by (simp_all add: y_def max_def)
  have in_it: "a \<le> y - m" "y - m + c \<le> a + b" unfolding y_def pos using cb by simp_all
  have "Fin y - Fin m = Fin (y - m)" using B B' G G' by (simp add: grid_arith)
  moreover have "Fin (y - m) + Fin c = Fin (y - m + c)" using B B' G G' by (simp add: grid_arith)
  moreover have "Fin a + Fin b = Fin (a + b)" using B G by (simp add: grid_arith)
  moreover have "px_left (fit_left d p) = Fin y" by (simp add: fit_left_place [OF q cb(1)] y_def)
  ultimately show ?thesis using in_it by (simp add: q(2-5) grid_arith(4,5))
qed

section \<open>Turning left and top\<close>

text \<open>What is done for the top is what is done for the left of a picture with its axes exchanged.\<close>

definition turn_spot :: "spot \<Rightarrow> spot" where
  "turn_spot p = \<lparr>px_left = px_top p, px_top = px_left p\<rparr>"

definition turn_word :: "string \<Rightarrow> string" where
  "turn_word w = (if w = ''top'' then ''left'' else if w = ''bottom'' then ''right'' else ''center'')"

definition turn :: "collision \<Rightarrow> collision" where
  "turn d = \<lparr>target_width = target_height d, target_height = target_width d, elem_width = elem_height d,
     elem_height = elem_width d, margin_left = margin_top d, margin_top = margin_left d,
     collision_width = collision_height d, collision_height = collision_width d,
     offset_left = offset_top d, offset_top = offset_left d, my_x = turn_word (my_y d), my_y = turn_word (my_x d),
     at_x = turn_word (at_y d), at_y = turn_word (at_x d),
     container = (container d)\<lparr>within_offset := turn_spot (within_offset (container d)),
       within_scroll := turn_spot (within_scroll (container d)), within_width := within_height (container d),
       within_height := within_width (container d)\<rparr>\<rparr>"

lemma turn_spot_twice [simp]: "turn_spot (turn_spot p) = p" "px_left (turn_spot p) = px_top p" "px_top (turn_spot p) = px_left p"
  by (simp_all add: turn_spot_def)

lemma turn_fields [simp]: "collision_width (turn d) = collision_height d" "margin_left (turn d) = margin_top d"
  "within_width (container (turn d)) = within_height (container d)" "left_edge (container (turn d)) = top_edge (container d)"
  "target_width (turn d) = target_height d" "elem_width (turn d) = elem_height d" "offset_left (turn d) = offset_top d"
  "my_x (turn d) = turn_word (my_y d)" "at_x (turn d) = turn_word (at_y d)"
  by (simp_all add: turn_def left_edge_def top_edge_def)

lemma fit_turned: "fit_top d p = turn_spot (fit_left (turn d) (turn_spot p))"
  by (simp add: fit_left_def fit_top_def Let_def turn_spot_def)

lemma turn_word_eq [simp]: "turn_word w = ''left'' \<longleftrightarrow> w = ''top''" "turn_word w = ''right'' \<longleftrightarrow> w = ''bottom''"
  by (simp_all add: turn_word_def)

lemma turn_container: "px_left (within_offset (container (turn d))) = px_top (within_offset (container d))"
  "px_left (within_scroll (container (turn d))) = px_top (within_scroll (container d))"
  by (simp_all add: turn_def)

lemma turn_update: "turn_spot p\<lparr>px_left := x\<rparr> = turn_spot (p\<lparr>px_top := x\<rparr>)"
  by (simp add: turn_spot_def)

lemma flip_turned: "flip_top d p = turn_spot (flip_left (turn d) (turn_spot p))"
  unfolding flip_left_def flip_top_def Let_def turn_fields turn_container turn_spot_twice turn_word_eq turn_update
    if_distrib [of turn_spot] by (rule refl)

lemma other_axis [simp]: "px_top (fit_left d p) = px_top p" "px_left (fit_top d p) = px_left p"
  "px_top (flip_left d p) = px_top p" "px_left (flip_top d p) = px_left p"
  by (simp_all add: fit_left_def fit_top_def flip_left_def flip_top_def Let_def)

lemma fit_top_inside:
  assumes "px (2 ^ 36) (px_top p)" "px (2 ^ 36) (margin_top d)" "px (2 ^ 36) (collision_height d)"
    and "px (2 ^ 36) (within_height (container d))" "px (2 ^ 36) (top_edge (container d))"
    and "collision_height d \<le> within_height (container d)" "Fin 0 \<le> top_edge (container d)"
  shows "top_edge (container d) \<le> px_top (fit_top d p) - margin_top d \<and>
    px_top (fit_top d p) - margin_top d + collision_height d \<le> top_edge (container d) + within_height (container d)"
  using fit_left_inside [of "turn_spot p" "turn d"] assms by (simp add: fit_turned)

section \<open>Flipping\<close>

text \<open>How far a flip moves the element.\<close>

definition flip_shift :: "collision \<Rightarrow> jsnum" where
  "flip_shift d = (if my_x d = ''left'' then - elem_width d else if my_x d = ''right'' then elem_width d else Fin 0) +
     (if at_x d = ''left'' then target_width d else if at_x d = ''right'' then - target_width d else Fin 0) +
     Fin (- 2) * offset_left d"

lemma flip_left_cases:
  "flip_left d p = p \<or> flip_left d p = p\<lparr>px_left := px_left p + flip_shift d\<rparr>"
  unfolding flip_left_def flip_shift_def Let_def by (simp split: if_split)






lemma px_double: "px B x \<Longrightarrow> B < 2 ^ 40 \<Longrightarrow> px (2 * B) (Fin (- 2) * x)"
proof -
  assume "px B x" and B: "B < 2 ^ 40"
  then obtain q where q: "x = Fin q" "small B q" by (auto simp: px_def)
  then have "\<bar>- 2 * q\<bar> < 2 ^ 42" "grid (- 2 * q)" using B small_bounds [OF q(2)] small_bounds' [OF q(2)]
    by (simp_all add: abs_less_iff)
  then have "Fin (- 2) * x = Fin (- 2 * q)" using mk_grid [of "- 2 * q"] by (simp add: q num_defs)
  then show ?thesis using q(2) small_bounds [OF q(2)] small_bounds' [OF q(2)] by (simp add: px_def small_def abs_le_iff)
qed

lemma flip_px:
  assumes "px (2 ^ 34) (px_left p)" "px (2 ^ 32) (elem_width d)" "px (2 ^ 32) (target_width d)" "px (2 ^ 32) (offset_left d)"
  shows "px (2 ^ 36) (px_left (flip_left d p))"
proof -
  have "px (2 ^ 32) (if my_x d = ''left'' then - elem_width d else if my_x d = ''right'' then elem_width d else Fin 0)"
    "px (2 ^ 32) (if at_x d = ''left'' then target_width d else if at_x d = ''right'' then - target_width d else Fin 0)"
    using assms by (simp_all add: px_neg px_zero)
  then have "px (2 ^ 32 + 2 ^ 32 + 2 * 2 ^ 32) (flip_shift d)"
    unfolding flip_shift_def by (intro px_add px_double assms(4)) simp_all
  then have "px (2 ^ 34 + (2 ^ 32 + 2 ^ 32 + 2 * 2 ^ 32)) (px_left p + flip_shift d)"
    by (intro px_add assms(1)) simp_all
  then have "px (2 ^ 36) (px_left p + flip_shift d)" by (rule px_mono) simp
  moreover have "px (2 ^ 36) (px_left p)" using assms(1) by (rule px_mono) simp
  ultimately show ?thesis using flip_left_cases [of d p] by auto
qed


section \<open>Mirrored options\<close>













lemma neg_neg [simp]: "- (- x) = (x :: jsnum)"
  by (cases x) (simp_all add: num_defs)


text \<open>One axis of a place: the far end, the middle or the near end of a size, and an offset.\<close>

definition coord :: "bool \<Rightarrow> bool \<Rightarrow> jsnum \<Rightarrow> jsnum \<Rightarrow> jsnum \<Rightarrow> jsnum" where
  "coord far mid w off x = (if far then x + w else if mid then x + w div Fin 2 else x) + off"

definition coord_back :: "bool \<Rightarrow> bool \<Rightarrow> jsnum \<Rightarrow> jsnum \<Rightarrow> jsnum \<Rightarrow> jsnum" where
  "coord_back far mid w off x = (if far then x - w else if mid then x - w div Fin 2 else x) + off"

lemma base_coord: "px_left (base_position at' w h p) = coord (word_x at' = ''right'') (word_x at' = ''center'') w (offset_px (offset_x at') w) (px_left p)"
    "px_top (base_position at' w h p) = coord (word_y at' = ''bottom'') (word_y at' = ''center'') h (offset_px (offset_y at') h) (px_top p)"
  and own_coord: "px_left (own_position my w h p) = coord_back (word_x my = ''right'') (word_x my = ''center'') w (offset_px (offset_x my) w) (px_left p)"
    "px_top (own_position my w h p) = coord_back (word_y my = ''bottom'') (word_y my = ''center'') h (offset_px (offset_y my) h) (px_top p)"
  by (simp_all add: base_position_def own_position_def get_offsets_def coord_def coord_back_def)

lemma half: "small (2 ^ 30) w \<Longrightarrow> Fin (2 * w) div Fin 2 = Fin w"
  by (simp add: num_defs mk_grid small_def)


section \<open>Placing an element\<close>

text \<open>
  All that is measured is a multiple of \<open>1/512\<close> of a pixel below \<open>2 ^ 30\<close> pixels, and so are the offsets that
  the options give.
\<close>

definition measured :: "alignment \<Rightarrow> alignment \<Rightarrow> jsnum \<Rightarrow> jsnum \<Rightarrow> spot \<Rightarrow> jsnum \<times> jsnum \<Rightarrow> within_info \<Rightarrow> placed \<Rightarrow> bool" where
  "measured my at' tw th target bars w e \<longleftrightarrow>
     list_all (\<lambda>x. \<exists>q. x = Fin (2 * q) \<and> small (2 ^ 30) q) [tw, th, outer_w e, outer_h e] \<and>
     list_all (px (2 ^ 30)) [px_left target, px_top target, fst bars, snd bars,
       parse_css (css_margin_left e), parse_css (css_margin_top e), parse_css (css_margin_right e), parse_css (css_margin_bottom e),
       within_width w, within_height w, px_left (within_offset w), px_top (within_offset w),
       px_left (within_scroll w), px_top (within_scroll w),
       offset_px (offset_x at') tw, offset_px (offset_y at') th,
       offset_px (offset_x my) (outer_w e), offset_px (offset_y my) (outer_h e)]"

lemma double_px: "x = Fin (2 * q) \<Longrightarrow> small (2 ^ 30) q \<Longrightarrow> px (2 ^ 31) x"
  using small_bounds [of "2 ^ 30" q] small_bounds' [of "2 ^ 30" q] by (simp add: px_def small_def abs_le_iff)

lemma coord_px:
  assumes "w = Fin (2 * q)" "small (2 ^ 30) q" "px (2 ^ 30) off" "px B x" "B \<le> 2 ^ 33"
  shows "px (B + 2 ^ 32) (coord far mid w off x)" "px (B + 2 ^ 32) (coord_back far mid w off x)"
proof -
  have w: "px (2 ^ 31) w" "px (2 ^ 31) (w div Fin 2)" "px (2 ^ 31) (Fin 0)"
    using double_px [OF assms(1,2)] half [OF assms(2)] assms(1,2) px_mono [of "2 ^ 30" "Fin q" "2 ^ 31"] px_zero [of "2 ^ 31"]
    by (auto simp: px_def)
  have x: "px (B + 2 ^ 31) x" using assms(4) by (rule px_mono) simp
  have "px (B + 2 ^ 31) (if far then x + w else if mid then x + w div Fin 2 else x)"
    "px (B + 2 ^ 31) (if far then x - w else if mid then x - w div Fin 2 else x)"
    using px_add [OF assms(4) w(1)] px_add [OF assms(4) w(2)] px_sub [OF assms(4) w(1)] px_sub [OF assms(4) w(2)] x assms(5) by auto
  then have "px (B + 2 ^ 31 + 2 ^ 30) (coord far mid w off x)" "px (B + 2 ^ 31 + 2 ^ 30) (coord_back far mid w off x)"
    unfolding coord_def coord_back_def by (intro px_add assms(3); use assms(5) in simp)+
  then show "px (B + 2 ^ 32) (coord far mid w off x)" "px (B + 2 ^ 32) (coord_back far mid w off x)"
    by (auto elim!: px_mono)
qed

lemma measured_place:
  assumes m: "measured my at' tw th target bars w e"
    and p: "p = own_position my (outer_w e) (outer_h e) (base_position at' tw th target)"
  shows "px (2 ^ 34) (px_left p)" "px (2 ^ 34) (px_top p)"
proof -
  obtain a b c d where q: "tw = Fin (2 * a)" "small (2 ^ 30) a" "th = Fin (2 * b)" "small (2 ^ 30) b"
    "outer_w e = Fin (2 * c)" "small (2 ^ 30) c" "outer_h e = Fin (2 * d)" "small (2 ^ 30) d"
    using m by (auto simp: measured_def)
  have "px (2 ^ 30 + 2 ^ 32 + 2 ^ 32) (px_left p)"
    unfolding p base_coord own_coord by (intro coord_px [OF q(5,6)] coord_px [OF q(1,2)]; use m in \<open>simp add: measured_def\<close>)
  then show "px (2 ^ 34) (px_left p)" by (rule px_mono) simp
  have "px (2 ^ 30 + 2 ^ 32 + 2 ^ 32) (px_top p)"
    unfolding p base_coord own_coord by (intro coord_px [OF q(7,8)] coord_px [OF q(3,4)]; use m in \<open>simp add: measured_def\<close>)
  then show "px (2 ^ 34) (px_top p)" by (rule px_mono) simp
qed

lemma measured_collision:
  assumes m: "measured my at' tw th target bars w e" and d: "d = collision_of my at' tw th bars w e"
  shows "list_all (px (2 ^ 32)) [margin_left d, margin_top d, within_width (container d), within_height (container d),
      left_edge (container d), top_edge (container d), elem_width d, elem_height d, target_width d, target_height d,
      offset_left d, offset_top d]"
    "px (2 ^ 36) (collision_width d)" "px (2 ^ 36) (collision_height d)"
proof -
  have sizes: "px (2 ^ 31) x" if "x \<in> {tw, th, outer_w e, outer_h e}" for x
    using m that double_px by (auto simp: measured_def)
  have smalls: "px (2 ^ 32) x" if "px (2 ^ 30) x \<or> px (2 ^ 31) x" for x
    using that px_mono [of "2 ^ 30" x "2 ^ 32"] px_mono [of "2 ^ 31" x "2 ^ 32"] by auto
  have "px (2 ^ 30) (offset_px (offset_x at') tw)" "px (2 ^ 30) (offset_px (offset_x my) (outer_w e))"
    "px (2 ^ 30) (offset_px (offset_y at') th)" "px (2 ^ 30) (offset_px (offset_y my) (outer_h e))"
    using m by (simp_all add: measured_def)
  then have "px (2 ^ 30 + 2 ^ 30) (offset_px (offset_x at') tw + offset_px (offset_x my) (outer_w e))"
    "px (2 ^ 30 + 2 ^ 30) (offset_px (offset_y at') th + offset_px (offset_y my) (outer_h e))"
    by (intro px_add; simp)+
  then have "px (2 ^ 32) (offset_left d)" "px (2 ^ 32) (offset_top d)"
    by (auto simp: d collision_of_def get_offsets_def elim!: px_mono)
  then show "list_all (px (2 ^ 32)) [margin_left d, margin_top d, within_width (container d), within_height (container d),
      left_edge (container d), top_edge (container d), elem_width d, elem_height d, target_width d, target_height d,
      offset_left d, offset_top d]"
    using m sizes smalls by (simp add: d collision_of_def get_offsets_def measured_def left_edge_def top_edge_def)
  have "px (2 ^ 30) (parse_css (css_margin_left e))" "px (2 ^ 30) (parse_css (css_margin_right e))"
    "px (2 ^ 30) (parse_css (css_margin_top e))" "px (2 ^ 30) (parse_css (css_margin_bottom e))"
    "px (2 ^ 30) (fst bars)" "px (2 ^ 30) (snd bars)"
    using m by (simp_all add: measured_def)
  then have "px (2 ^ 31 + 2 ^ 30 + 2 ^ 30 + 2 ^ 30) (outer_w e + parse_css (css_margin_left e) + parse_css (css_margin_right e) + fst bars)"
    "px (2 ^ 31 + 2 ^ 30 + 2 ^ 30 + 2 ^ 30) (outer_h e + parse_css (css_margin_top e) + parse_css (css_margin_bottom e) + snd bars)"
    using sizes by (intro px_add; simp)+
  then show "px (2 ^ 36) (collision_width d)" "px (2 ^ 36) (collision_height d)"
    by (auto simp: d collision_of_def get_offsets_def elim!: px_mono)
qed

section \<open>Properties\<close>

text \<open>
  C26. With the collision \<open>fit\<close> or \<open>flipfit\<close> an element that fits into its container ends up inside of it,
  margins and scroll bars counted, wherever the options would have put it; the container is one
  that does not begin before the page.
\<close>

theorem fit_stays_inside:
  assumes m: "measured my at' tw th target bars w e" and how: "set [how, how'] \<subseteq> {''fit'', ''flipfit''}"
    and d: "d = collision_of my at' tw th bars w e" and p: "p = place_element my at' (how, how') tw th target bars w e"
    and fits: "collision_width d \<le> within_width w" "collision_height d \<le> within_height w"
    and edge: "Fin 0 \<le> left_edge w" "Fin 0 \<le> top_edge w"
  shows "left_edge w \<le> px_left p - margin_left d \<and> px_left p - margin_left d + collision_width d \<le> left_edge w + within_width w \<and>
    top_edge w \<le> px_top p - margin_top d \<and> px_top p - margin_top d + collision_height d \<le> top_edge w + within_height w"
proof -
  define o' where "o' = own_position my (outer_w e) (outer_h e) (base_position at' tw th target)"
  note start = measured_place [OF m o'_def] and c = measured_collision [OF m d]
  have w: "container d = w" by (simp add: d collision_of_def get_offsets_def)
  have big: "px (2 ^ 36) x" if "px (2 ^ 32) x \<or> px (2 ^ 34) x" for x
    using that px_mono [of "2 ^ 32" x "2 ^ 36"] px_mono [of "2 ^ 34" x "2 ^ 36"] by auto
  have left: "left_edge w \<le> px_left (fit_left d q) - margin_left d \<and>
      px_left (fit_left d q) - margin_left d + collision_width d \<le> left_edge w + within_width w" if "px (2 ^ 36) (px_left q)" for q
    using fit_left_inside [of q d, OF that] c fits(1) edge(1) big by (simp add: w)
  have top: "top_edge w \<le> px_top (fit_top d q) - margin_top d \<and>
      px_top (fit_top d q) - margin_top d + collision_height d \<le> top_edge w + within_height w" if "px (2 ^ 36) (px_top q)" for q
    using fit_top_inside [of q d, OF that] c fits(2) edge(2) big by (simp add: w)
  have flip: "px (2 ^ 36) (px_left (flip_left d o'))" using flip_px start(1) c(1) by simp
  have "px (2 ^ 34) (px_top q) \<Longrightarrow> px (2 ^ 36) (px_top (flip_top d q))" for q
    using flip_px [of "turn_spot q" "turn d"] c(1) by (simp add: flip_turned)
  then have flip': "px (2 ^ 36) (px_top (flip_top d q))" if "px_top q = px_top o'" for q using that start(2) by simp
  define q where "q = collide_left how d o'"
  have q: "px_top q = px_top o'" by (simp add: q_def collide_left_def flipfit_left_def)
  have pl: "px_left p = px_left q" "px_top p = px_top (collide_top how' d q)"
    by (simp_all add: p place_element_def o'_def [symmetric] d [symmetric] q_def [symmetric] collide_top_def flipfit_top_def)
  have "px_left q = px_left (fit_left d o') \<or> px_left q = px_left (fit_left d (flip_left d o'))"
    using how by (auto simp: q_def collide_left_def flipfit_left_def)
  moreover have "px_top (collide_top how' d q) = px_top (fit_top d q) \<or> px_top (collide_top how' d q) = px_top (fit_top d (flip_top d q))"
    using how by (auto simp: collide_top_def flipfit_top_def)
  ultimately show ?thesis unfolding pl using left [OF flip] left [of o'] top [of q] top [OF flip' [OF q]] big start q by auto
qed





text \<open>
  When the container begins before the page, fitting moves an element that lies inside of it: its
  margin box goes to the start of the page, be it still inside there or not.
\<close>

theorem fit_moves_what_fits:
  assumes "px_left p = Fin x" "margin_left d = Fin m" "collision_width d = Fin c"
    and "within_width (container d) = Fin b" "left_edge (container d) = Fin a"
    and "small (2 ^ 36) x" "small (2 ^ 36) m" "small (2 ^ 36) c" "small (2 ^ 36) b" "small (2 ^ 36) a"
    and inside: "a \<le> x - m" "x - m + c \<le> a + b" and "x - m < 0"
  shows "px_left (fit_left d p) = Fin m \<and> (a + b < c \<longrightarrow> left_edge (container d) + within_width (container d) < px_left (fit_left d p) - margin_left d + collision_width d)"
proof -
  note B = assms(6-10) [THEN small_bounds] assms(6-10) [THEN small_bounds']
  note G = assms(6-10) [THEN small_grid]
  have "fit_left d p = p\<lparr>px_left := Fin m\<rparr>"
    using fit_left_place [OF assms(1-10)] inside assms(13) by (simp add: max_def)
  then show ?thesis using B G by (simp add: assms(2-5) grid_arith)
qed

text \<open>A box of 30 by 20 pixels, a window of 100 by 80 pixels, a panel that begins before the page.\<close>

definition demo_box :: placed where
  "demo_box = \<lparr>outer_w = Fin 30, outer_h = Fin 20, css_margin_left = ''2px'', css_margin_top = ''0px'',
     css_margin_right = ''2px'', css_margin_bottom = ''0px''\<rparr>"

definition demo_window :: within_info where
  "demo_window = \<lparr>is_window = True, is_document = False, within_offset = spot_zero, within_scroll = spot_zero,
     within_width = Fin 100, within_height = Fin 80, overflow_x = [], overflow_y = [], scroll_width = Fin 100, scroll_height = Fin 80\<rparr>"

definition demo_my :: alignment where
  "demo_my = \<lparr>word_x = ''left'', word_y = ''top'', offset_x = Some ''+5'', offset_y = None\<rparr>"

definition demo_at :: alignment where
  "demo_at = \<lparr>word_x = ''right'', word_y = ''bottom'', offset_x = None, offset_y = None\<rparr>"

definition demo_panel :: collision where
  "demo_panel = (collision_of demo_my demo_at (Fin 10) (Fin 10) (Fin 0, Fin 0)
     (demo_window\<lparr>is_window := False, within_offset := \<lparr>px_left = Fin (- 80), px_top = Fin 0\<rparr>\<rparr>) demo_box)"


lemma demo_css: "parse_css ''2px'' = Fin 2" "parse_css ''0px'' = Fin 0" "parse_float ''+5'' = Fin 5"
  using mk_of_int [of 2] mk_of_int [of 5]
  by (simp_all add: parse_css_def parse_int10_def parse_float_def read_decimal_def read_exponent_def split_sign_def is_space_def is_digit_def
      int_of_digits_def signed_def code_def Let_def)

lemma small_numerals: "(numeral k :: rat) \<le> 1073741824 \<Longrightarrow> small 1073741824 (numeral k)" "small 1073741824 0"
  by (simp_all add: small_def)

lemma even_size: "(numeral k :: rat) \<le> 1073741824 \<Longrightarrow> \<exists>q. Fin (numeral (Num.Bit0 k)) = Fin (2 * q) \<and> small 1073741824 q"
  by (rule exI [of _ "numeral k"]) (simp add: small_numerals)

lemma demo_measured: "measured demo_my demo_at (Fin 10) (Fin 10) \<lparr>px_left = Fin 80, px_top = Fin 60\<rparr> (Fin 0, Fin 0) demo_window demo_box"
proof -
  have "Fin 5 * Fin 1 = Fin 5" "Fin 0 * Fin 1 = Fin 0" using mk_grid [of 5] by (simp_all add: times_jsnum_def)
  then show ?thesis
    unfolding measured_def demo_my_def demo_at_def demo_window_def demo_box_def spot_zero_def
    by (simp add: demo_css offset_px_def px_def small_numerals slice_last_def even_size)
qed

lemma demo_sums: "Fin 30 + Fin 2 = Fin 32" "Fin 32 + Fin 2 = Fin 34" "Fin 34 + Fin 0 = Fin 34" "Fin 20 + Fin 0 = Fin 20"
  "Fin (- 80) + Fin 100 = Fin 20" "Fin 2 - Fin 2 = Fin 0" "Fin 0 + Fin 34 = Fin 34"
  by (simp_all add: grid_arith)

lemma fit_stays_inside_witness:
  "let p = place_element demo_my demo_at (''fit'', ''flipfit'') (Fin 10) (Fin 10) \<lparr>px_left = Fin 80, px_top = Fin 60\<rparr> (Fin 0, Fin 0) demo_window demo_box
   in Fin 0 \<le> px_left p - Fin 2 \<and> px_left p - Fin 2 + Fin 34 \<le> Fin 0 + Fin 100"
proof -
  let ?d = "collision_of demo_my demo_at (Fin 10) (Fin 10) (Fin 0, Fin 0) demo_window demo_box"
  have d: "collision_width ?d = Fin 34" "collision_height ?d = Fin 20" "margin_left ?d = Fin 2"
    by (simp_all add: collision_of_def get_offsets_def demo_box_def demo_css demo_sums)
  have w: "within_width demo_window = Fin 100" "within_height demo_window = Fin 80" "left_edge demo_window = Fin 0" "top_edge demo_window = Fin 0"
    by (simp_all add: demo_window_def left_edge_def top_edge_def spot_zero_def)
  show ?thesis
    using fit_stays_inside [OF demo_measured, of "''fit''" "''flipfit''", OF _ refl refl] by (simp add: d w grid_arith(5) Let_def)
qed


lemma fit_moves_what_fits_witness:
  "px_left (fit_left demo_panel \<lparr>px_left = Fin (- 40), px_top = Fin 0\<rparr>) = Fin 2 \<and>
   Fin (- 80) + Fin 100 < px_left (fit_left demo_panel \<lparr>px_left = Fin (- 40), px_top = Fin 0\<rparr>) - Fin 2 + Fin 34"
proof -
  have d: "collision_width demo_panel = Fin 34" "margin_left demo_panel = Fin 2"
    "within_width (container demo_panel) = Fin 100" "left_edge (container demo_panel) = Fin (- 80)"
    by (simp_all add: demo_panel_def collision_of_def get_offsets_def demo_box_def demo_css demo_sums demo_window_def left_edge_def)
  have small: "small (2 ^ 36) (- 40)" "small (2 ^ 36) 2" "small (2 ^ 36) 34" "small (2 ^ 36) 100" "small (2 ^ 36) (- 80)"
    by (simp_all add: small_def)
  show ?thesis
    using fit_moves_what_fits [of "\<lparr>px_left = Fin (- 40), px_top = Fin 0\<rparr>", OF _ d(2,1,3,4) small] by (simp add: d demo_sums grid_arith(4))
qed

end
