(* ===== verification/JS_Calendar.thy ===== *)
theory JS_Calendar
  imports JS_Date
begin

text \<open>
  The calendar of the language: the day number of a year, month and day, that it is the inverse of
  \<open>civil\<close>, and the length of the months.
\<close>

section \<open>Days from years, months and days\<close>

definition day_of :: "int \<Rightarrow> int \<Rightarrow> int \<Rightarrow> int" where
  "day_of y m d =
     (let y' = (if m \<le> 2 then y - 1 else y);
          yoe = y' mod 400;
          doy = (153 * ((m + 9) mod 12) + 2) div 5 + d - 1
      in y' div 400 * 146097 + (yoe * 365 + yoe div 4 - yoe div 100 + doy) - 719468)"

definition leap_year :: "int \<Rightarrow> bool" where
  "leap_year y \<longleftrightarrow> y mod 4 = 0 \<and> (y mod 100 \<noteq> 0 \<or> y mod 400 = 0)"

definition month_days :: "int \<Rightarrow> int \<Rightarrow> int" where
  "month_days y m = (if m = 2 then (if leap_year y then 29 else 28) else if m \<in> {4, 6, 9, 11} then 30 else 31)"

section \<open>Years of an era\<close>

text \<open>
  A year of an era of 400 years that begin in March: \<open>a\<close> centuries, \<open>b\<close> times four years and \<open>c\<close> years.
  Only the last of four years has a day 365, but not the last of a century, unless it is the fourth.
\<close>

definition era_year :: "int \<Rightarrow> int \<Rightarrow> int \<Rightarrow> int \<Rightarrow> bool" where
  "era_year a b c doy \<longleftrightarrow> 0 \<le> a \<and> a \<le> 3 \<and> 0 \<le> b \<and> b \<le> 24 \<and> 0 \<le> c \<and> c \<le> 3 \<and> 0 \<le> doy \<and> doy \<le> 365 \<and>
     (doy = 365 \<longrightarrow> c = 3 \<and> (b = 24 \<longrightarrow> a = 3))"

lemma era_parts:
  assumes "era_year a b c doy"
  shows "(100 * a + 4 * b + c) div 4 = 25 * a + b" "(100 * a + 4 * b + c) div 100 = a"
  using assms unfolding era_year_def
  by (intro int_div_pos_eq [of _ _ _ c] int_div_pos_eq [of _ _ _ "4 * b + c"]; simp)+

lemma era_of_year:
  assumes "era_year a b c doy" and doe: "doe = 36524 * a + 1461 * b + 365 * c + doy"
  shows "(doe - doe div 1460 + doe div 36524 - doe div 146096) div 365 = 100 * a + 4 * b + c" "0 \<le> doe" "doe < 146097"
proof -
  note a = assms(1) [unfolded era_year_def]
  let ?r = "24 * a + b + 365 * c + doy"
  define e where "e = (if ?r < 1460 then 0 else 1 :: int)"
  have "doe div 1460 = 25 * a + b + e"
    by (rule int_div_pos_eq [of _ _ _ "?r - 1460 * e"]) (use a in \<open>auto simp: doe e_def\<close>)
  moreover have "doe div 36524 - doe div 146096 = a"
  proof (cases "doe = 146096")
    case True
    then have "a = 3" using a doe by linarith
    then show ?thesis using True by simp
  next
    case False
    have less: "1461 * b + 365 * c + doy < 36524"
    proof (rule ccontr)
      assume "\<not> 1461 * b + 365 * c + doy < 36524"
      then have "b = 24" "c = 3" "doy = 365" using a by linarith+
      then have "a = 3" using a by simp
      then show False using False doe \<open>b = 24\<close> \<open>c = 3\<close> \<open>doy = 365\<close> by simp
    qed
    have "doe div 36524 = a"
      by (rule int_div_pos_eq [of _ _ _ "1461 * b + 365 * c + doy"]) (use a less in \<open>simp_all add: doe\<close>)
    moreover have "doe div 146096 = 0" using a less doe by (intro div_pos_pos_trivial) linarith+
    ultimately show ?thesis by simp
  qed
  moreover have "0 \<le> doy - e" "doy - e \<le> 364" using a by (auto simp: e_def)
  ultimately show "(doe - doe div 1460 + doe div 36524 - doe div 146096) div 365 = 100 * a + 4 * b + c"
    by (intro int_div_pos_eq [of _ _ _ "doy - e"]) (auto simp: doe)
  show "0 \<le> doe" using a doe by simp
  show "doe < 146097" using a doe by linarith
qed

lemma year_of_era:
  assumes "0 \<le> doe" "doe < 146097"
  obtains a b c doy where "era_year a b c doy" "doe = 36524 * a + 1461 * b + 365 * c + doy"
proof -
  define a where "a = (if doe = 146096 then 3 else doe div 36524)"
  define x where "x = doe - 36524 * a"
  define b where "b = x div 1461"
  define c where "c = (if x mod 1461 = 1460 then 3 else x mod 1461 div 365)"
  define doy where "doy = x mod 1461 - 365 * c"
  have a: "0 \<le> a" "a \<le> 3" using assms by (auto simp: a_def)
  have x: "0 \<le> x" "x \<le> 36524" "x = 36524 \<longrightarrow> a = 3"
    using assms by (auto simp: x_def a_def)
  have b: "0 \<le> b" "b \<le> 24" using x by (auto simp: b_def)
  have xb: "x = 1461 * b + x mod 1461" by (simp add: b_def)
  have m: "0 \<le> x mod 1461" "x mod 1461 < 1461" by simp_all
  have c: "0 \<le> c" "c \<le> 3" using m by (auto simp: c_def)
  have doy: "0 \<le> doy" "doy \<le> 365" "doy = 365 \<longrightarrow> x mod 1461 = 1460"
    using m by (auto simp: doy_def c_def split: if_splits)
  have "b = 24 \<and> x mod 1461 = 1460 \<longrightarrow> x = 36524" using xb by linarith
  then have "era_year a b c doy" using a b c doy x(3) by (auto simp: era_year_def c_def)
  moreover have "doe = 36524 * a + 1461 * b + 365 * c + doy" using xb by (simp add: doy_def x_def)
  ultimately show ?thesis using that by blast
qed

section \<open>Months\<close>

lemma month_cases:
  assumes "1 \<le> m" "m \<le> (12::int)"
  obtains "m = 1" | "m = 2" | "m = 3" | "m = 4" | "m = 5" | "m = 6" | "m = 7" | "m = 8" | "m = 9" | "m = 10" | "m = 11" | "m = 12"
proof -
  have "m = 1 \<or> m = 2 \<or> m = 3 \<or> m = 4 \<or> m = 5 \<or> m = 6 \<or> m = 7 \<or> m = 8 \<or> m = 9 \<or> m = 10 \<or> m = 11 \<or> m = 12"
    using assms by presburger
  then show ?thesis using that by blast
qed

text \<open>The month of a day of the year that begins in March.\<close>

lemma month_of_day:
  assumes "1 \<le> m" "m \<le> 12" "1 \<le> d" "d \<le> (if m = 2 then 29 else month_days 1 m)" "doy = (153 * ((m + 9) mod 12) + 2) div 5 + d - 1"
  shows "(5 * doy + 2) div 153 = (m + 9) mod 12" "0 \<le> doy" "doy \<le> 365"
  using assms by (cases rule: month_cases [OF assms(1,2)]; simp add: month_days_def)+

text \<open>The year that begins in March has a leap day at its end if the next year is a leap year.\<close>

definition march_day :: "int \<Rightarrow> int \<Rightarrow> int" where
  "march_day m d = (153 * ((m + 9) mod 12) + 2) div 5 + d - 1"

lemma march_day_bounds:
  assumes "1 \<le> m" "m \<le> 12" "1 \<le> d" "d \<le> month_days y m"
  shows "(5 * march_day m d + 2) div 153 = (m + 9) mod 12" "0 \<le> march_day m d" "march_day m d \<le> 365"
    "march_day m d = 365 \<longrightarrow> m = 2 \<and> leap_year y" "march_day m d - (153 * ((m + 9) mod 12) + 2) div 5 + 1 = d"
  using assms by (cases rule: month_cases [OF assms(1,2)]; auto simp: month_days_def march_day_def split: if_splits)+

lemma march_day_inverse:
  assumes "0 \<le> doy" "doy \<le> 365" "mp = (5 * doy + 2) div 153" "m = (if mp < 10 then mp + 3 else mp - 9)"
    and "d = doy - (153 * mp + 2) div 5 + 1"
  shows "march_day m d = doy" "1 \<le> m" "m \<le> 12" "1 \<le> d" "m \<noteq> 2 \<Longrightarrow> d \<le> month_days y m" "m = 2 \<Longrightarrow> d \<le> 29" "m = 2 \<Longrightarrow> doy \<noteq> 365 \<Longrightarrow> d \<le> 28"
proof -
  have mp: "0 \<le> mp" "mp \<le> 11" using assms(1-3) by auto
  then have "mp = 0 \<or> mp = 1 \<or> mp = 2 \<or> mp = 3 \<or> mp = 4 \<or> mp = 5 \<or> mp = 6 \<or> mp = 7 \<or> mp = 8 \<or> mp = 9 \<or> mp = 10 \<or> mp = 11"
    by presburger
  moreover have "153 * mp \<le> 5 * doy + 2" "5 * doy + 2 < 153 * mp + 153" using assms(3) by linarith+
  ultimately have "march_day m d = doy \<and> 1 \<le> m \<and> m \<le> 12 \<and> 1 \<le> d \<and> (m \<noteq> 2 \<longrightarrow> d \<le> month_days y m) \<and> (m = 2 \<longrightarrow> d \<le> 29) \<and> (m = 2 \<longrightarrow> doy \<noteq> 365 \<longrightarrow> d \<le> 28)"
    using assms(1,2) unfolding assms(4,5) by (elim disjE) (simp_all add: march_day_def month_days_def)
  then show "march_day m d = doy" "1 \<le> m" "m \<le> 12" "1 \<le> d" "m \<noteq> 2 \<Longrightarrow> d \<le> month_days y m" "m = 2 \<Longrightarrow> d \<le> 29" "m = 2 \<Longrightarrow> doy \<noteq> 365 \<Longrightarrow> d \<le> 28"
    by blast+
qed

lemma leap_era: "era_year a b c 0 \<Longrightarrow> leap_year (100 * a + 4 * b + c + 1 + 400 * k) \<longleftrightarrow> c = 3 \<and> (b = 24 \<longrightarrow> a = 3)"
proof -
  assume "era_year a b c 0"
  note a = this [unfolded era_year_def]
  let ?y = "100 * a + 4 * b + c + 1 + 400 * k"
  have 4: "?y mod 4 = 0 \<longleftrightarrow> c = 3"
  proof -
    have "?y = c + 1 + 4 * (25 * a + b + 100 * k)" by simp
    then have "?y mod 4 = (c + 1) mod 4" by (metis mod_mult_self2)
    moreover have "c = 0 \<or> c = 1 \<or> c = 2 \<or> c = 3" using a by linarith
    ultimately show ?thesis by (elim disjE) simp_all
  qed
  have 100: "?y mod 100 = 0 \<longleftrightarrow> b = 24 \<and> c = 3"
  proof -
    have "?y = 4 * b + c + 1 + 100 * (a + 4 * k)" by simp
    then have "?y mod 100 = (4 * b + c + 1) mod 100" by (metis mod_mult_self2)
    also have "\<dots> = (if 4 * b + c + 1 = 100 then 0 else 4 * b + c + 1)" using a by auto
    finally show ?thesis using a by auto
  qed
  have 400: "?y mod 400 = 0 \<longleftrightarrow> a = 3 \<and> b = 24 \<and> c = 3"
  proof -
    have "?y mod 400 = (100 * a + 4 * b + c + 1) mod 400" by (metis mod_mult_self2)
    define x where x_def: "x = 100 * a + 4 * b + c + 1"
    have le: "0 \<le> a" "a \<le> 3" "0 \<le> b" "b \<le> 24" "0 \<le> c" "c \<le> 3" using a by simp_all
    have all: "x = 400 \<Longrightarrow> a = 3 \<and> b = 24 \<and> c = 3"
    proof -
      assume "x = 400"
      then have "a = 3" using le x_def by linarith
      moreover have "c = 3" using le \<open>x = 400\<close> x_def calculation by linarith
      ultimately show ?thesis using \<open>x = 400\<close> x_def by simp
    qed
    have "0 < x" "x \<le> 400" using le x_def by linarith+
    moreover have "x = 400 \<longleftrightarrow> a = 3 \<and> b = 24 \<and> c = 3" using all by (intro iffI) (simp_all add: x_def)
    ultimately have "x mod 400 = 0 \<longleftrightarrow> a = 3 \<and> b = 24 \<and> c = 3" by (cases "x = 400") simp_all
    then show ?thesis using \<open>?y mod 400 = (100 * a + 4 * b + c + 1) mod 400\<close> by (simp only: x_def)
  qed
  show ?thesis unfolding leap_year_def 4 100 400 by auto
qed

section \<open>Both ways\<close>

text \<open>A day has one year, month and day of the month, and they give it back.\<close>

lemma day_of_civil:
  assumes "civil n = (y, m, d)"
  shows "day_of y m d = n" "1 \<le> m" "m \<le> 12" "1 \<le> d" "d \<le> month_days y m"
proof -
  define era where "era = (n + 719468) div 146097"
  define doe where "doe = (n + 719468) mod 146097"
  have "0 \<le> doe" "doe < 146097" by (simp_all add: doe_def)
  from year_of_era [OF this] obtain a b c doy where
    e: "era_year a b c doy" and doe: "doe = 36524 * a + 1461 * b + 365 * c + doy" by blast
  define yoe where "yoe = 100 * a + 4 * b + c"
  note yoe = era_of_year(1) [OF e doe, folded yoe_def] era_parts [OF e, folded yoe_def]
  have sub: "doe - (365 * yoe + yoe div 4 - yoe div 100) = doy" unfolding yoe(2,3) by (simp add: doe yoe_def)
  define mp where "mp = (5 * doy + 2) div 153"
  have "civil n = (yoe + era * 400 + (if (if mp < 10 then mp + 3 else mp - 9) \<le> 2 then 1 else 0),
      (if mp < 10 then mp + 3 else mp - 9), doy - (153 * mp + 2) div 5 + 1)"
    by (simp only: civil_def Let_def era_def [symmetric] doe_def [symmetric] yoe(1) sub mp_def)
  then have c: "m = (if mp < 10 then mp + 3 else mp - 9)" "d = doy - (153 * mp + 2) div 5 + 1"
    "y = yoe + era * 400 + (if m \<le> 2 then 1 else 0)"
    unfolding assms prod.inject by blast+
  have doy: "0 \<le> doy" "doy \<le> 365" "doy = 365 \<longrightarrow> c = 3 \<and> (b = 24 \<longrightarrow> a = 3)" and r: "0 \<le> yoe" "yoe < 400"
    using e by (auto simp: era_year_def yoe_def)
  note M = march_day_inverse [OF doy(1,2) mp_def c(1,2)]
  show "1 \<le> m" "m \<le> 12" "1 \<le> d" by (rule M)+
  have y': "(if m \<le> 2 then y - 1 else y) = era * 400 + yoe" by (simp add: c(3))
  have "(era * 400 + yoe) div 400 = era" "(era * 400 + yoe) mod 400 = yoe" using r by simp_all
  then have "day_of y m d = era * 146097 + (yoe * 365 + yoe div 4 - yoe div 100 + march_day m d) - 719468"
    unfolding day_of_def Let_def y' march_day_def by simp
  also have "\<dots> = era * 146097 + doe - 719468" unfolding yoe(2,3) M(1) by (simp add: doe yoe_def)
  also have "\<dots> = n" by (simp add: era_def doe_def)
  finally show "day_of y m d = n" .
  show "d \<le> month_days y m"
  proof (cases "m = 2")
    case True
    have "era_year a b c 0" using e by (simp add: era_year_def)
    note leap = leap_era [OF this, of era]
    have "y = 100 * a + 4 * b + c + 1 + 400 * era" using True c(3) by (simp add: yoe_def)
    from leap [folded this] have "leap_year y \<longleftrightarrow> c = 3 \<and> (b = 24 \<longrightarrow> a = 3)" .
    then show ?thesis using M(6,7) True doy(3) by (auto simp: month_days_def)
  qed (use M(5) in simp)
qed

lemma civil_day_of:
  assumes "1 \<le> m" "m \<le> 12" "1 \<le> d" "d \<le> month_days y m"
  shows "civil (day_of y m d) = (y, m, d)"
proof -
  define y' where "y' = (if m \<le> 2 then y - 1 else y)"
  define era where "era = y' div 400"
  define yoe where "yoe = y' mod 400"
  define doy where "doy = march_day m d"
  define a where "a = yoe div 100"
  define b where "b = yoe mod 100 div 4"
  define c where "c = yoe mod 4"
  have r: "0 \<le> yoe" "yoe < 400" by (simp_all add: yoe_def)
  have m100: "yoe mod 100 mod 4 = c" unfolding c_def by (rule mod_mod_cancel) simp
  have yoe: "yoe = 100 * a + 4 * b + c"
    unfolding a_def b_def using mult_div_mod_eq [of 100 yoe] mult_div_mod_eq [of 4 "yoe mod 100"] m100 by linarith
  have abc: "0 \<le> a" "a \<le> 3" "0 \<le> b" "b \<le> 24" "0 \<le> c" "c \<le> 3"
    using r by (auto simp: a_def b_def c_def)
  note D = march_day_bounds [OF assms, folded doy_def]
  have y'_eq: "y' = 100 * a + 4 * b + c + 400 * era" unfolding era_def using yoe [unfolded yoe_def] mult_div_mod_eq [of 400 y'] by linarith
  have "doy = 365 \<longrightarrow> c = 3 \<and> (b = 24 \<longrightarrow> a = 3)"
  proof
    assume "doy = 365"
    then have "m = 2" "leap_year y" using D(4) by simp_all
    then have "leap_year (100 * a + 4 * b + c + 1 + 400 * era)" using y'_eq by (simp add: y'_def algebra_simps)
    then show "c = 3 \<and> (b = 24 \<longrightarrow> a = 3)" using leap_era [of a b c era] abc by (simp add: era_year_def)
  qed
  then have e: "era_year a b c doy" using abc D(2,3) by (simp add: era_year_def)
  define doe where "doe = 36524 * a + 1461 * b + 365 * c + doy"
  note E = era_of_year [OF e doe_def] and P = era_parts [OF e]
  have n: "day_of y m d + 719468 = era * 146097 + doe"
    unfolding day_of_def Let_def y'_def [symmetric] era_def [symmetric] yoe_def [symmetric]
    using P by (simp add: yoe doe_def doy_def march_day_def)
  have ed: "(day_of y m d + 719468) div 146097 = era" "(day_of y m d + 719468) mod 146097 = doe"
    unfolding n using E(2,3) by simp_all
  have doy: "doe - (365 * yoe + yoe div 4 - yoe div 100) = doy" unfolding yoe P by (simp add: doe_def)
  define mp where "mp = (m + 9) mod 12"
  have month: "(if mp < 10 then mp + 3 else mp - 9) = m"
    unfolding mp_def by (cases rule: month_cases [OF assms(1,2)]) simp_all
  have "yoe + era * 400 + (if m \<le> 2 then 1 else 0) = y" using y'_eq by (simp add: yoe y'_def split: if_splits)
  moreover have "civil (day_of y m d) = (yoe + era * 400 + (if m \<le> 2 then 1 else 0), m, doy - (153 * mp + 2) div 5 + 1)"
    by (simp only: civil_def Let_def ed E(1) [folded yoe] doy D(1) mp_def [symmetric] month)
  moreover have "doy - (153 * mp + 2) div 5 + 1 = d" unfolding mp_def by (rule D(5))
  ultimately show ?thesis by (simp only:)
qed

end
