(* ===== verification/UI_Dates.thy ===== *)
theory UI_Dates
  imports JS_Calendar
begin

text \<open>
  The dates of the date picker of jQuery UI (\<open>Datepicker\<close> in
  \<open>html/jquery-ui-1.13.1.custom/jquery-ui.js\<close>): printing and parsing by a format, the week of a
  year, dates given as offsets, and the date that a picker has selected within its limits. A date
  object is its local time in milliseconds; the zone of the browser is a constant number of
  milliseconds \<open>tz\<close> that the local time is ahead.
\<close>

section \<open>Date objects\<close>

type_synonym jsdate = int

text \<open>\<open>new Date(y, m, d)\<close> and \<open>setFullYear\<close>: months and days out of range carry over; a year
  below 100 is one of the last century for the former.\<close>

definition make_day :: "int \<Rightarrow> int \<Rightarrow> int \<Rightarrow> int" where
  "make_day y m d = day_of (y + m div 12) (m mod 12 + 1) 1 + d - 1"

definition new_date :: "int \<Rightarrow> int \<Rightarrow> int \<Rightarrow> jsdate" where
  "new_date y m d = make_day (if 0 \<le> y \<and> y \<le> 99 then 1900 + y else y) m d * 86400000"

definition date_day :: "jsdate \<Rightarrow> int" where
  "date_day t = t div 86400000"

definition full_year :: "jsdate \<Rightarrow> int" where
  "full_year t = fst (civil (date_day t))"

definition get_month :: "jsdate \<Rightarrow> int" where
  "get_month t = fst (snd (civil (date_day t))) - 1"

definition get_date :: "jsdate \<Rightarrow> int" where
  "get_date t = snd (snd (civil (date_day t)))"

definition get_day :: "jsdate \<Rightarrow> int" where
  "get_day t = (date_day t + 4) mod 7"

definition get_hours :: "jsdate \<Rightarrow> int" where
  "get_hours t = t mod 86400000 div 3600000"

definition get_time :: "int \<Rightarrow> jsdate \<Rightarrow> int" where
  "get_time tz t = t - tz"

definition set_hours :: "jsdate \<Rightarrow> int \<Rightarrow> jsdate" where
  "set_hours t h = date_day t * 86400000 + h * 3600000 + t mod 3600000"

definition set_date :: "jsdate \<Rightarrow> int \<Rightarrow> jsdate" where
  "set_date t d = make_day (full_year t) (get_month t) d * 86400000 + t mod 86400000"

definition set_month :: "jsdate \<Rightarrow> int \<Rightarrow> jsdate" where
  "set_month t m = make_day (full_year t) m (get_date t) * 86400000 + t mod 86400000"

definition midnight :: "jsdate \<Rightarrow> jsdate" where
  "midnight t = date_day t * 86400000"

text \<open>\<open>_daylightSavingAdjust\<close>\<close>

definition daylight_saving_adjust :: "jsdate \<Rightarrow> jsdate" where
  "daylight_saving_adjust t = set_hours t (if 12 < get_hours t then get_hours t + 2 else 0)"

definition days_in_month :: "int \<Rightarrow> int \<Rightarrow> int" where
  "days_in_month y m = 32 - get_date (daylight_saving_adjust (new_date y m 32))"

definition first_day_of_month :: "int \<Rightarrow> int \<Rightarrow> int" where
  "first_day_of_month y m = get_day (new_date y m 1)"

text \<open>\<open>Math.round\<close> of a difference of times in days\<close>

definition round_days :: "int \<Rightarrow> int" where
  "round_days ms = (2 * ms + 86400000) div 172800000"

definition iso8601_week :: "jsdate \<Rightarrow> int" where
  "iso8601_week t =
     (let thursday = set_date t (get_date t + 4 - (if get_day t = 0 then 7 else get_day t));
          january = set_date (set_month thursday 0) 1
      in round_days (thursday - january) div 7 + 1)"

section \<open>Settings\<close>

text \<open>What a caller may give, and the names of the days and months that are used then.\<close>

record date_settings =
  given_cutoff :: "(jsnum + string) option"
  given_days_short :: "string list option"
  given_days :: "string list option"
  given_months_short :: "string list option"
  given_months :: "string list option"

record date_names =
  days_short :: "string list"
  days_long :: "string list"
  months_short :: "string list"
  months_long :: "string list"

definition default_names :: date_names where
  "default_names = \<lparr>
     days_short = [''Sun'', ''Mon'', ''Tue'', ''Wed'', ''Thu'', ''Fri'', ''Sat''],
     days_long = [''Sunday'', ''Monday'', ''Tuesday'', ''Wednesday'', ''Thursday'', ''Friday'', ''Saturday''],
     months_short = [''Jan'', ''Feb'', ''Mar'', ''Apr'', ''May'', ''Jun'', ''Jul'', ''Aug'', ''Sep'', ''Oct'', ''Nov'', ''Dec''],
     months_long = [''January'', ''February'', ''March'', ''April'', ''May'', ''June'', ''July'', ''August'', ''September'',
       ''October'', ''November'', ''December'']\<rparr>"

definition given_or :: "'a option \<Rightarrow> 'a \<Rightarrow> 'a" where
  "given_or g d = (case g of None \<Rightarrow> d | Some x \<Rightarrow> x)"

definition names_of :: "date_settings \<Rightarrow> date_names" where
  "names_of s = \<lparr>days_short = given_or (given_days_short s) (days_short default_names),
     days_long = given_or (given_days s) (days_long default_names),
     months_short = given_or (given_months_short s) (months_short default_names),
     months_long = given_or (given_months s) (months_long default_names)\<rparr>"

text \<open>The last short year of this century; zero and the empty string count as not given.\<close>

definition short_year_cutoff :: "int \<Rightarrow> date_settings \<Rightarrow> jsnum" where
  "short_year_cutoff this_year s =
     (let c = (case given_cutoff s of
          Some (Inl n) \<Rightarrow> if n = Fin 0 \<or> n = NaN then Inr ''+10'' else Inl n
        | Some (Inr t) \<Rightarrow> if t = [] then Inr ''+10'' else Inr t
        | None \<Rightarrow> Inr ''+10'')
      in case c of Inl n \<Rightarrow> n | Inr t \<Rightarrow> num_of_int (this_year mod 100) + parse_int10 t)"

section \<open>Printing\<close>

definition look_ahead :: "char \<Rightarrow> string \<Rightarrow> bool \<times> string" where
  "look_ahead c fs = (case fs of [] \<Rightarrow> (False, []) | f # r \<Rightarrow> if f = c then (True, r) else (False, fs))"

lemma look_ahead_length [simp]: "length (snd (look_ahead c fs)) < Suc (length fs)"
  by (cases fs) (auto simp: look_ahead_def)

definition zero_pad :: "nat \<Rightarrow> string \<Rightarrow> string" where
  "zero_pad n s = replicate (n - length s) (CHR ''0'') @ s"

definition format_number :: "bool \<Rightarrow> int \<Rightarrow> nat \<Rightarrow> string" where
  "format_number doubled v len = (if doubled then zero_pad len (string_of_int v) else string_of_int v)"

definition name_at :: "string list \<Rightarrow> int \<Rightarrow> string" where
  "name_at ns i = (if 0 \<le> i \<and> nat i < length ns then ns ! nat i else ''undefined'')"

text \<open>The remainder takes the sign of the year.\<close>

definition year_in_century :: "int \<Rightarrow> int" where
  "year_in_century y = (if y < 0 then - ((- y) mod 100) else y mod 100)"

definition ticks_to_1970 :: jsnum where
  "ticks_to_1970 = num_of_int (((1970 - 1) * 365 + 1970 div 4 - 1970 div 100 + 1970 div 400) * 24 * 60 * 60 * 10000000)"

definition day_of_year :: "jsdate \<Rightarrow> int" where
  "day_of_year t = round_days (new_date (full_year t) (get_month t) (get_date t) - new_date (full_year t) 0 0)"

text \<open>What a letter of the format prints, doubled or not; the others stand for themselves.\<close>

definition format_field :: "int \<Rightarrow> date_names \<Rightarrow> jsdate \<Rightarrow> char \<Rightarrow> bool \<Rightarrow> string" where
  "format_field tz ns t f doubled =
     (if f = CHR ''d'' then format_number doubled (get_date t) 2
      else if f = CHR ''D'' then name_at (if doubled then days_long ns else days_short ns) (get_day t)
      else if f = CHR ''o'' then format_number doubled (day_of_year t) 3
      else if f = CHR ''m'' then format_number doubled (get_month t + 1) 2
      else if f = CHR ''M'' then name_at (if doubled then months_long ns else months_short ns) (get_month t)
      else if doubled then string_of_int (full_year t)
      else (if year_in_century (full_year t) < 10 then ''0'' else []) @ string_of_int (year_in_century (full_year t)))"

definition field_letter :: "char \<Rightarrow> bool" where
  "field_letter f \<longleftrightarrow> f \<in> {CHR ''d'', CHR ''D'', CHR ''o'', CHR ''m'', CHR ''M'', CHR ''y''}"

definition quote_char :: char where
  "quote_char = chr 39"

function format_from :: "int \<Rightarrow> date_names \<Rightarrow> jsdate \<Rightarrow> bool \<Rightarrow> string \<Rightarrow> string" where
  "format_from tz ns t lit [] = []"
| "format_from tz ns t lit (f # fs) =
     (if lit then
        (if f = quote_char then
           (case look_ahead quote_char fs of (True, r) \<Rightarrow> quote_char # format_from tz ns t True r
            | (False, r) \<Rightarrow> format_from tz ns t False r)
         else f # format_from tz ns t True fs)
      else if field_letter f then
        (case look_ahead f fs of (doubled, r) \<Rightarrow> format_field tz ns t f doubled @ format_from tz ns t False r)
      else if f = CHR ''@'' then string_of_int (get_time tz t) @ format_from tz ns t False fs
      else if f = CHR ''!'' then num_to_string (num_of_int (get_time tz t) * Fin 10000 + ticks_to_1970) @ format_from tz ns t False fs
      else if f = quote_char then
        (case look_ahead quote_char fs of (True, r) \<Rightarrow> quote_char # format_from tz ns t False r
         | (False, r) \<Rightarrow> format_from tz ns t True r)
      else f # format_from tz ns t False fs)"
  by pat_completeness auto
termination
  by (relation "measure (\<lambda>(tz, ns, t, lit, fs). length fs)") (auto simp: look_ahead_def split: list.splits if_splits)

declare format_from.simps(2) [simp del]

definition format_date :: "int \<Rightarrow> string \<Rightarrow> jsdate option \<Rightarrow> date_settings \<Rightarrow> string" where
  "format_date tz fmt date s = (case date of None \<Rightarrow> [] | Some t \<Rightarrow> format_from tz (names_of s) t False fmt)"

section \<open>Parsing\<close>

text \<open>What has been read of a date: \<open>-1\<close> for nothing yet, \<open>None\<close> for \<open>NaN\<close>, which an invalid date gives.\<close>

record date_fields =
  fld_year :: "int option"
  fld_month :: "int option"
  fld_day :: "int option"
  fld_doy :: int

definition no_fields :: date_fields where
  "no_fields = \<lparr>fld_year = Some (- 1), fld_month = Some (- 1), fld_day = Some (- 1), fld_doy = - 1\<rparr>"

text \<open>A reader of the value takes the position and the text from there on, and fails with a message.\<close>

definition number_size :: "char \<Rightarrow> bool \<Rightarrow> nat" where
  "number_size f doubled = (if f = CHR ''@'' then 14 else if f = CHR ''!'' then 20
     else if f = CHR ''y'' \<and> doubled then 4 else if f = CHR ''o'' then 3 else 2)"

definition read_number :: "char \<Rightarrow> bool \<Rightarrow> nat \<Rightarrow> string \<Rightarrow> string + (int \<times> nat \<times> string)" where
  "read_number f doubled pos v =
     (let size = number_size f doubled; least = (if f = CHR ''y'' then size else 1);
          ds = take size (takeWhile is_digit v)
      in if length ds < least then Inl (''Missing number at position '' @ digits (int pos))
         else Inr (int_of_digits ds, pos + length ds, drop (length ds) v))"

definition lower :: "string \<Rightarrow> string" where
  "lower s = map lower_char s"

text \<open>Longer names first; the first one that the value goes on with, whatever the case of its letters.\<close>

definition read_name :: "string list \<Rightarrow> nat \<Rightarrow> string \<Rightarrow> string + (int \<times> nat \<times> string)" where
  "read_name ns pos v =
     (case find (\<lambda>(i, n). lower (take (length n) v) = lower n) (sort_key (\<lambda>(i, n). - int (length n)) (enumerate 0 ns)) of
        Some (i, n) \<Rightarrow> Inr (int i + 1, pos + length n, drop (length n) v)
      | None \<Rightarrow> Inl (''Unknown name at position '' @ digits (int pos)))"

definition read_literal :: "char \<Rightarrow> nat \<Rightarrow> string \<Rightarrow> string + (nat \<times> string)" where
  "read_literal f pos v = (case v of
       c # r \<Rightarrow> if c = f then Inr (pos + 1, r) else Inl (''Unexpected literal at position '' @ digits (int pos))
     | [] \<Rightarrow> Inl (''Unexpected literal at position '' @ digits (int pos)))"

text \<open>\<open>new Date(n)\<close> of a number of milliseconds, which is invalid beyond \<open>8.64e15\<close>.\<close>

definition fields_of_time :: "int \<Rightarrow> jsnum \<Rightarrow> date_fields \<Rightarrow> date_fields" where
  "fields_of_time tz n fd =
     (case n of
        Fin q \<Rightarrow>
          if \<bar>q\<bar> \<le> 8640000000000000 then
            (let t = trunc q + tz in fd\<lparr>fld_year := Some (full_year t), fld_month := Some (get_month t + 1), fld_day := Some (get_date t)\<rparr>)
          else fd\<lparr>fld_year := None, fld_month := None, fld_day := None\<rparr>
      | _ \<Rightarrow> fd\<lparr>fld_year := None, fld_month := None, fld_day := None\<rparr>)"

text \<open>What a letter of the format reads.\<close>

definition parse_field :: "date_names \<Rightarrow> char \<Rightarrow> bool \<Rightarrow> nat \<Rightarrow> string \<Rightarrow> date_fields \<Rightarrow> string + (date_fields \<times> nat \<times> string)" where
  "parse_field ns f doubled pos v fd =
     (if f = CHR ''D'' then
        map_sum id (\<lambda>(n, r). (fd, r)) (read_name (if doubled then days_long ns else days_short ns) pos v)
      else if f = CHR ''M'' then
        map_sum id (\<lambda>(n, r). (fd\<lparr>fld_month := Some n\<rparr>, r)) (read_name (if doubled then months_long ns else months_short ns) pos v)
      else map_sum id (\<lambda>(n, r).
        (if f = CHR ''d'' then fd\<lparr>fld_day := Some n\<rparr> else if f = CHR ''o'' then fd\<lparr>fld_doy := n\<rparr>
         else if f = CHR ''m'' then fd\<lparr>fld_month := Some n\<rparr> else fd\<lparr>fld_year := Some n\<rparr>, r))
        (read_number f doubled pos v))"

function parse_from :: "int \<Rightarrow> date_names \<Rightarrow> bool \<Rightarrow> string \<Rightarrow> nat \<Rightarrow> string \<Rightarrow> date_fields \<Rightarrow> string + (date_fields \<times> nat \<times> string)" where
  "parse_from tz ns lit [] pos v fd = Inr (fd, pos, v)"
| "parse_from tz ns lit (f # fs) pos v fd =
     (if lit then
        (if f = quote_char then
           (case look_ahead quote_char fs of
              (True, r) \<Rightarrow> (case read_literal quote_char pos v of Inl e \<Rightarrow> Inl e | Inr (pos', v') \<Rightarrow> parse_from tz ns True r pos' v' fd)
            | (False, r) \<Rightarrow> parse_from tz ns False r pos v fd)
         else (case read_literal f pos v of Inl e \<Rightarrow> Inl e | Inr (pos', v') \<Rightarrow> parse_from tz ns True fs pos' v' fd))
      else if field_letter f then
        (case look_ahead f fs of (doubled, r) \<Rightarrow>
           (case parse_field ns f doubled pos v fd of Inl e \<Rightarrow> Inl e | Inr (fd', pos', v') \<Rightarrow> parse_from tz ns False r pos' v' fd'))
      else if f = CHR ''@'' \<or> f = CHR ''!'' then
        (case look_ahead f fs of (doubled, r) \<Rightarrow>
           (case read_number f doubled pos v of Inl e \<Rightarrow> Inl e
            | Inr (n, pos', v') \<Rightarrow> parse_from tz ns False r pos' v'
                (fields_of_time tz (if f = CHR ''@'' then num_of_int n else (mk (of_int n) - ticks_to_1970) div Fin 10000) fd)))
      else if f = quote_char then
        (case look_ahead quote_char fs of
           (True, r) \<Rightarrow> (case read_literal quote_char pos v of Inl e \<Rightarrow> Inl e | Inr (pos', v') \<Rightarrow> parse_from tz ns False r pos' v' fd)
         | (False, r) \<Rightarrow> parse_from tz ns True r pos v fd)
      else (case read_literal f pos v of Inl e \<Rightarrow> Inl e | Inr (pos', v') \<Rightarrow> parse_from tz ns False fs pos' v' fd))"
  by pat_completeness auto
termination
  by (relation "measure (\<lambda>(tz, ns, lit, fs, pos, v, fd). length fs)") (auto simp: look_ahead_def split: list.splits if_splits)

declare parse_from.simps(2) [simp del]

text \<open>The century of a short year.\<close>

definition complete_year :: "int \<Rightarrow> jsnum \<Rightarrow> int option \<Rightarrow> int option" where
  "complete_year this_year cutoff y = (case y of
       None \<Rightarrow> None
     | Some y \<Rightarrow> Some (if y = - 1 then this_year
         else if y < 100 then y + (this_year - this_year mod 100 + (if num_of_int y \<le> cutoff then 0 else - 100))
         else y))"

text \<open>The month and day of a day of the year.\<close>

lemma days_in_month_pos: "0 < days_in_month y m"
proof -
  obtain a b c where "civil (date_day (daylight_saving_adjust (new_date y m 32))) = (a, b, c)" by (metis prod_cases3)
  moreover from day_of_civil [OF this] have "c \<le> 31" by (auto simp: month_days_def split: if_splits)
  ultimately show ?thesis by (simp add: days_in_month_def get_date_def)
qed

function doy_loop :: "int \<Rightarrow> int \<Rightarrow> int \<Rightarrow> int \<times> int" where
  "doy_loop y month day = (if day \<le> days_in_month y (month - 1) then (month, day)
     else doy_loop y (month + 1) (day - days_in_month y (month - 1)))"
  by pat_completeness auto
termination
proof (relation "measure (\<lambda>(y, month, day). nat day)")
  fix y month day :: int
  assume "\<not> day \<le> days_in_month y (month - 1)"
  then show "((y, month + 1, day - days_in_month y (month - 1)), (y, month, day)) \<in> measure (\<lambda>(y, month, day). nat day)"
    using days_in_month_pos [of y "month - 1"] by simp
qed simp

declare doy_loop.simps [simp del]

text \<open>
  With a day of the year and an invalid date in the same value the loop compares with \<open>NaN\<close> for ever.
\<close>

datatype parsed_date =
    NoDate
  | ADate jsdate
  | Fails string
  | RunsForever

definition check_date :: "int option \<Rightarrow> int option \<Rightarrow> int option \<Rightarrow> parsed_date" where
  "check_date year month day = (case (year, month, day) of
       (Some y, Some m, Some d) \<Rightarrow>
         (let t = daylight_saving_adjust (new_date y (m - 1) d)
          in if full_year t = y \<and> get_month t + 1 = m \<and> get_date t = d then ADate t else Fails ''Invalid date'')
     | _ \<Rightarrow> Fails ''Invalid date'')"

definition finish_parse :: "int \<Rightarrow> jsnum \<Rightarrow> date_fields \<Rightarrow> string \<Rightarrow> parsed_date" where
  "finish_parse this_year cutoff fd extra =
     (if extra \<noteq> [] \<and> \<not> is_space (hd extra) then Fails (''Extra/unparsed characters found in date: '' @ extra)
      else (let year = complete_year this_year cutoff (fld_year fd) in
        if - 1 < fld_doy fd then
          (case year of None \<Rightarrow> RunsForever
           | Some y \<Rightarrow> (case doy_loop y 1 (fld_doy fd) of (m, d) \<Rightarrow> check_date year (Some m) (Some d)))
        else check_date year (fld_month fd) (fld_day fd)))"

text \<open>\<open>parseDate\<close>; \<open>None\<close> stands for \<open>null\<close> and \<open>undefined\<close>.\<close>

definition parse_date :: "int \<Rightarrow> int \<Rightarrow> string option \<Rightarrow> string option \<Rightarrow> date_settings \<Rightarrow> parsed_date" where
  "parse_date tz this_year fmt val s = (case (fmt, val) of
       (Some f, Some v) \<Rightarrow>
         if v = [] then NoDate
         else (case parse_from tz (names_of s) False f 0 v no_fields of
             Inl e \<Rightarrow> Fails e
           | Inr (fd, _, extra) \<Rightarrow> finish_parse this_year (short_year_cutoff this_year s) fd extra)
     | _ \<Rightarrow> Fails ''Invalid arguments'')"

section \<open>Characters of a format\<close>

text \<open>The characters that the input accepts, or \<open>None\<close> for any.\<close>

function possible_from :: "bool \<Rightarrow> string \<Rightarrow> string option" where
  "possible_from lit [] = Some []"
| "possible_from lit (f # fs) =
     (if lit then
        (if f = quote_char then
           (case look_ahead quote_char fs of (True, r) \<Rightarrow> map_option ((#) quote_char) (possible_from True r)
            | (False, r) \<Rightarrow> possible_from False r)
         else map_option ((#) f) (possible_from True fs))
      else if f \<in> {CHR ''d'', CHR ''m'', CHR ''y'', CHR ''@''} then map_option ((@) ''0123456789'') (possible_from False fs)
      else if f = CHR ''D'' \<or> f = CHR ''M'' then None
      else if f = quote_char then
        (case look_ahead quote_char fs of (True, r) \<Rightarrow> map_option ((#) quote_char) (possible_from False r)
         | (False, r) \<Rightarrow> possible_from True r)
      else map_option ((#) f) (possible_from False fs))"
  by pat_completeness auto
termination
  by (relation "measure (\<lambda>(lit, fs). length fs)") (auto simp: look_ahead_def split: list.splits if_splits)

declare possible_from.simps(2) [simp del]

definition possible_chars :: "string \<Rightarrow> string option" where
  "possible_chars fmt = possible_from False fmt"

end
