(* ===== verification/UI_Dates_Props.thy ===== *)
theory UI_Dates_Props
  imports UI_Dates JS_Rounding
begin

text \<open>
  What holds of the dates of the date picker: the fields of a date, the lengths of months, the
  weeks of a year, and that a date that is printed by a format can be read back by it.
\<close>

section \<open>The calendar\<close>

definition year_days :: "int \<Rightarrow> int" where
  "year_days y = 365 * y + y div 4 - y div 100 + y div 400"

lemma day_of_march: "day_of y m d = year_days (if m \<le> 2 then y - 1 else y) + march_day m d - 719468"
proof -
  define x where "x = (if m \<le> 2 then y - 1 else y)"
  define e where "e = x div 400"
  define r where "r = x mod 400"
  have x: "x = r + 400 * e" by (simp add: e_def r_def)
  have "x div 4 = (r + 4 * (100 * e)) div 4" "x div 100 = (r + 100 * (4 * e)) div 100" by (simp_all add: x)
  then have "x div 4 = r div 4 + 100 * e" "x div 100 = r div 100 + 4 * e" by simp_all
  then show ?thesis
    unfolding day_of_def Let_def x_def [symmetric] e_def [symmetric] r_def [symmetric] year_days_def march_day_def by (simp add: x)
qed

lemma div_step: "0 < k \<Longrightarrow> (x + 1) div k = x div k + (if (x + 1) mod k = 0 then 1 else (0::int))"
proof -
  assume k: "0 < k"
  define q where "q = (x + 1) div k"
  define r where "r = (x + 1) mod k"
  have "k * ((x + 1) div k) + (x + 1) mod k = x + 1" by (rule mult_div_mod_eq)
  then have x: "k * q + r = x + 1" unfolding q_def r_def .
  have r: "0 \<le> r" "r < k" using k by (simp_all add: r_def)
  have "x div k = (if r = 0 then q - 1 else q)"
  proof (cases "r = 0")
    case True
    have "k * (q - 1) = k * q - k" by (simp add: right_diff_distrib)
    then have "x = k * (q - 1) + (k - 1)" using x True by linarith
    then show ?thesis using True k int_div_pos_eq [of x k "q - 1" "k - 1"] by simp
  next
    case False
    have "x = k * q + (r - 1)" using x by linarith
    then show ?thesis using False r int_div_pos_eq [of x k q "r - 1"] by simp
  qed
  then show ?thesis unfolding r_def [symmetric] q_def [symmetric] by simp
qed

lemma year_days_step: "year_days (y + 1) = year_days y + (if leap_year (y + 1) then 366 else 365)"
proof -
  define x where "x = y + 1"
  have imp: "x mod 100 = 0 \<Longrightarrow> x mod 4 = 0" "x mod 400 = 0 \<Longrightarrow> x mod 100 = 0"
    using mod_mod_cancel [of 4 100 x] mod_mod_cancel [of 100 400 x] by simp_all
  have "x div 4 = y div 4 + (if x mod 4 = 0 then 1 else 0)" "x div 100 = y div 100 + (if x mod 100 = 0 then 1 else 0)"
    "x div 400 = y div 400 + (if x mod 400 = 0 then 1 else 0)"
    unfolding x_def by (rule div_step; simp)+
  moreover have "year_days x = 365 * x + x div 4 - x div 100 + x div 400" "year_days y = 365 * y + y div 4 - y div 100 + y div 400"
    by (simp_all only: year_days_def)
  ultimately have "year_days x = year_days y + 365 + (if x mod 4 = 0 then 1 else 0) - (if x mod 100 = 0 then 1 else 0) + (if x mod 400 = 0 then 1 else 0)"
    using x_def by linarith
  then show ?thesis unfolding leap_year_def x_def [symmetric] using imp
    by (cases "x mod 4 = 0"; cases "x mod 100 = 0"; cases "x mod 400 = 0") simp_all
qed

lemma next_month:
  assumes "1 \<le> m" "m \<le> 12"
  shows "day_of (y + m div 12) (m mod 12 + 1) 1 = day_of y m 1 + month_days y m"
proof (cases "m = 2")
  case True
  have "day_of y 2 1 = year_days (y - 1) + 337 - 719468" "day_of y 3 1 = year_days y - 719468"
    by (simp_all add: day_of_march march_day_def)
  moreover have "year_days y = year_days (y - 1) + (if leap_year y then 366 else 365)"
    using year_days_step [of "y - 1"] by (simp only: diff_add_cancel)
  ultimately show ?thesis using True by (simp add: month_days_def)
next
  case False
  then show ?thesis
    by (cases rule: month_cases [OF assms]; hypsubst; simp add: day_of_march march_day_def month_days_def)
qed

lemma day_of_linear: "day_of y m d = day_of y m 1 + d - 1"
  by (simp add: day_of_march march_day_def)

lemma month_days_bounds: "1 \<le> m \<Longrightarrow> m \<le> 12 \<Longrightarrow> 28 \<le> month_days y m \<and> month_days y m \<le> 31"
  by (auto simp: month_days_def)

lemma make_day_month: "1 \<le> m \<Longrightarrow> m \<le> 12 \<Longrightarrow> make_day y (m - 1) d = day_of y m d"
  by (simp add: make_day_def day_of_march march_day_def)

lemma date_of_days [simp]: "date_day (n * 86400000) = n"
  by (simp add: date_day_def)

lemma adjust_midnight [simp]: "daylight_saving_adjust (n * 86400000) = n * 86400000"
  by (simp add: daylight_saving_adjust_def get_hours_def set_hours_def)

lemma new_date_days: "\<exists>n. new_date y m d = n * 86400000"
  by (auto simp: new_date_def)

lemma adjust_new_date [simp]: "daylight_saving_adjust (new_date y m d) = new_date y m d"
  by (simp add: new_date_def)

lemma new_date_fields:
  assumes "100 \<le> y" "1 \<le> m" "m \<le> 12" "1 \<le> d" "d \<le> month_days y m"
  shows "new_date y (m - 1) d = day_of y m d * 86400000" "full_year (new_date y (m - 1) d) = y"
    "get_month (new_date y (m - 1) d) = m - 1" "get_date (new_date y (m - 1) d) = d"
  using assms by (simp_all add: new_date_def make_day_month full_year_def get_month_def get_date_def civil_day_of)

lemma days_in_month_length:
  assumes "100 \<le> y" "1 \<le> m" "m \<le> 12"
  shows "days_in_month y (m - 1) = month_days y m"
proof -
  note b = month_days_bounds [OF assms(2,3), of y]
  let ?y = "y + m div 12" and ?m = "m mod 12 + 1" and ?d = "32 - month_days y m"
  have m: "1 \<le> ?m" "?m \<le> 12" using pos_mod_sign [of 12 m] pos_mod_bound [of 12 m] by linarith+
  have "day_of y m 1 + 31 = day_of ?y ?m ?d"
    unfolding day_of_linear [of ?y ?m ?d] next_month [OF assms(2,3)] by simp
  moreover have "?d \<le> month_days ?y ?m" using b month_days_bounds [OF m, of ?y] by linarith
  ultimately have "civil (day_of y m 1 + 31) = (?y, ?m, ?d)" using civil_day_of [OF m, of ?d ?y] b by simp
  moreover have "make_day y (m - 1) 32 = day_of y m 1 + 31"
    unfolding make_day_month [OF assms(2,3)] day_of_linear [of y m 32] by simp
  then have "date_day (daylight_saving_adjust (new_date y (m - 1) 32)) = day_of y m 1 + 31"
    using assms(1) by (simp only: adjust_new_date) (simp add: new_date_def date_day_def)
  ultimately show ?thesis by (simp add: days_in_month_def get_date_def)
qed

lemma civil_fields: "civil (date_day t) = (full_year t, get_month t + 1, get_date t)"
  by (simp add: full_year_def get_month_def get_date_def)

lemma field_bounds: "1 \<le> get_month t + 1" "get_month t + 1 \<le> 12" "1 \<le> get_date t" "get_date t \<le> month_days (full_year t) (get_month t + 1)"
    "day_of (full_year t) (get_month t + 1) (get_date t) = date_day t"
  using day_of_civil [OF civil_fields [of t]] by simp_all

lemma doy_loop_finds:
  assumes "100 \<le> y" "1 \<le> d" "d \<le> month_days y m" "m \<le> 12"
  shows "1 \<le> k \<Longrightarrow> k \<le> m \<Longrightarrow> doy_loop y k (day_of y m d - day_of y k 1 + 1) = (m, d)"
proof (induction "nat (m - k)" arbitrary: k)
  case 0
  then have "k = m" by simp
  moreover have "day_of y m d - day_of y m 1 + 1 = d" by (simp add: day_of_march march_day_def)
  ultimately show ?case using days_in_month_length [of y m] assms 0 by (subst doy_loop.simps) simp
next
  case (Suc n)
  then have k: "k < m" "k < 12" using assms(4) by simp_all
  have step: "day_of y (k + 1) 1 = day_of y k 1 + month_days y k"
    using next_month [of k y] Suc.prems k by simp
  have "day_of y (k + 1) 1 \<le> day_of y m d"
  proof -
    have "day_of y j 1 \<le> day_of y (j + 1) 1" if "1 \<le> j" "j < 12" for j
      using next_month [of j y] month_days_bounds [of j y] that by simp
    then have "day_of y (k + 1) 1 \<le> day_of y (k + 1 + int i) 1" if "k + 1 + int i \<le> 12" for i
      using that
    proof (induction i)
      case (Suc i)
      have "day_of y (k + 1 + int i) 1 \<le> day_of y (k + 1 + int i + 1) 1" using Suc.prems \<open>1 \<le> k\<close>
        by (intro \<open>\<And>j. 1 \<le> j \<Longrightarrow> j < 12 \<Longrightarrow> day_of y j 1 \<le> day_of y (j + 1) 1\<close>) simp_all
      then show ?case using Suc by (simp add: add.assoc)
    qed simp
    from this [of "nat (m - k - 1)"] have "day_of y (k + 1) 1 \<le> day_of y m 1" using k assms(4) by simp
    also have "\<dots> \<le> day_of y m d" using assms(2) by (simp add: day_of_march march_day_def)
    finally show ?thesis .
  qed
  then have "\<not> day_of y m d - day_of y k 1 + 1 \<le> days_in_month y (k - 1)"
    using days_in_month_length [of y k] assms(1) Suc.prems k step by simp
  moreover have "doy_loop y (k + 1) (day_of y m d - day_of y (k + 1) 1 + 1) = (m, d)"
    by (rule Suc.hyps(1)) (use Suc.hyps(2) Suc.prems k in simp_all)
  ultimately show ?case using days_in_month_length [of y k] assms(1) Suc.prems k step
    by (subst doy_loop.simps) (simp add: algebra_simps)
qed

lemma day_of_year_eq:
  assumes "100 \<le> full_year t"
  shows "day_of_year t = date_day t - day_of (full_year t) 1 1 + 1"
proof -
  define y where "y = full_year t"
  note b = field_bounds [of t, folded y_def]
  have y: "\<not> (0 \<le> y \<and> y \<le> 99)" using assms y_def by simp
  have a: "new_date y (get_month t) (get_date t) = date_day t * 86400000"
    using new_date_fields(1) [OF _ b(1-4)] b(5) assms by (simp add: y_def)
  have c: "new_date y 0 0 = (day_of y 1 1 - 1) * 86400000" using y by (simp only: new_date_def make_day_def if_False) simp
  have "day_of_year t = round_days ((date_day t - day_of y 1 1 + 1) * 86400000)"
    unfolding day_of_year_def y_def [symmetric] a c by (simp add: algebra_simps)
  also have "\<dots> = date_day t - day_of y 1 1 + 1"
    unfolding round_days_def by (rule int_div_pos_eq [of _ _ _ 86400000]) simp_all
  finally show ?thesis by (simp add: y_def)
qed

lemma day_of_year_bounds:
  assumes "100 \<le> full_year t"
  shows "1 \<le> day_of_year t" "day_of_year t \<le> 366"
proof -
  define y where "y = full_year t"
  note b = field_bounds [of t, folded y_def]
  define m where "m = get_month t + 1"
  define d where "d = get_date t"
  have "year_days y = year_days (y - 1) + (if leap_year y then 366 else 365)"
    using year_days_step [of "y - 1"] by (simp only: diff_add_cancel)
  then have "1 \<le> day_of y m d - day_of y 1 1 + 1 \<and> day_of y m d - day_of y 1 1 + 1 \<le> 366"
    using b(3,4) [folded m_def d_def]
    by (cases rule: month_cases [OF b(1,2)])
      (simp_all add: m_def [symmetric] day_of_march march_day_def month_days_def split: if_splits)
  then show "1 \<le> day_of_year t" "day_of_year t \<le> 366"
    using b(5) day_of_year_eq [OF assms] by (simp_all add: y_def m_def d_def)
qed

section \<open>Formats as tokens\<close>

text \<open>A format is a list of fields, single or doubled, and of characters that stand for themselves.\<close>

datatype fmt_token =
    Field char bool
  | Char char
  | Stamp char                      \<comment> \<open>a number of milliseconds or ticks\<close>

text \<open>The token that a format goes on with, whether literal text follows, and the rest.\<close>

definition next_token :: "bool \<Rightarrow> char \<Rightarrow> string \<Rightarrow> fmt_token list \<times> bool \<times> string" where
  "next_token lit f fs =
     (if f = quote_char then
        (case look_ahead quote_char fs of (True, r) \<Rightarrow> ([Char quote_char], lit, r) | (False, r) \<Rightarrow> ([], \<not> lit, r))
      else if lit then ([Char f], True, fs)
      else if field_letter f then (case look_ahead f fs of (doubled, r) \<Rightarrow> ([Field f doubled], False, r))
      else if f = CHR ''@'' \<or> f = CHR ''!'' then ([Stamp f], False, fs)
      else ([Char f], False, fs))"

lemma next_token_length: "next_token lit f fs = (ks, lit', r) \<Longrightarrow> length r \<le> length fs"
  by (cases fs) (auto simp: next_token_def look_ahead_def split: if_splits prod.splits bool.splits)

function tokens :: "bool \<Rightarrow> string \<Rightarrow> fmt_token list" where
  "tokens lit [] = []"
| "tokens lit (f # fs) = (case next_token lit f fs of (ks, lit', r) \<Rightarrow> ks @ tokens lit' r)"
  by pat_completeness auto
termination
  by (relation "measure (\<lambda>(lit, fs). length fs)") (auto dest: next_token_length [OF sym])

fun print_token :: "int \<Rightarrow> date_names \<Rightarrow> jsdate \<Rightarrow> fmt_token \<Rightarrow> string" where
  "print_token tz ns t (Field f doubled) = format_field tz ns t f doubled"
| "print_token tz ns t (Char c) = [c]"
| "print_token tz ns t (Stamp f) = []"

fun read_tokens :: "date_names \<Rightarrow> fmt_token list \<Rightarrow> nat \<Rightarrow> string \<Rightarrow> date_fields \<Rightarrow> string + (date_fields \<times> nat \<times> string)" where
  "read_tokens ns [] pos v fd = Inr (fd, pos, v)"
| "read_tokens ns (Field f doubled # ts) pos v fd =
     (case parse_field ns f doubled pos v fd of Inl e \<Rightarrow> Inl e | Inr (fd', pos', v') \<Rightarrow> read_tokens ns ts pos' v' fd')"
| "read_tokens ns (Char c # ts) pos v fd =
     (case read_literal c pos v of Inl e \<Rightarrow> Inl e | Inr (pos', v') \<Rightarrow> read_tokens ns ts pos' v' fd)"
| "read_tokens ns (Stamp f # ts) pos v fd = Inr (fd, pos, v)"

definition no_stamp :: "fmt_token list \<Rightarrow> bool" where
  "no_stamp ts \<longleftrightarrow> list_all (\<lambda>k. case k of Stamp _ \<Rightarrow> False | _ \<Rightarrow> True) ts"

lemma no_stamp_simps [simp]: "no_stamp []" "no_stamp (Field f b # ts) = no_stamp ts" "no_stamp (Char c # ts) = no_stamp ts" "\<not> no_stamp (Stamp f # ts)"
  by (simp_all add: no_stamp_def)

lemma no_stamp_append [simp]: "no_stamp (a @ b) \<longleftrightarrow> no_stamp a \<and> no_stamp b"
  by (simp add: no_stamp_def)

lemma quote_char_neq: "code c \<noteq> 39 \<Longrightarrow> quote_char \<noteq> c"
  by (auto simp: quote_char_def)

lemma letter_simps [simp]: "\<not> field_letter quote_char" "\<not> field_letter (CHR ''@'')" "\<not> field_letter (CHR ''!'')"
    "quote_char \<noteq> CHR ''@''" "quote_char \<noteq> CHR ''!''"
  by (simp_all add: field_letter_def quote_char_neq code_def)

lemma format_step: "next_token lit f fs = (ks, lit', r) \<Longrightarrow> no_stamp ks \<Longrightarrow>
    format_from tz ns t lit (f # fs) = concat (map (print_token tz ns t) ks) @ format_from tz ns t lit' r"
  by (cases lit; cases "f = quote_char"; cases "field_letter f"; cases "f = CHR ''@'' \<or> f = CHR ''!''")
    (auto simp: format_from.simps(2) next_token_def split: prod.splits bool.splits)

lemma format_tokens: "no_stamp (tokens lit fs) \<Longrightarrow> format_from tz ns t lit fs = concat (map (print_token tz ns t) (tokens lit fs))"
proof (induction lit fs rule: tokens.induct)
  case (2 lit f fs)
  obtain ks lit' r where k: "next_token lit f fs = (ks, lit', r)" by (metis prod_cases3)
  then have "no_stamp ks" "no_stamp (tokens lit' r)" using 2(2) by simp_all
  then show ?case using 2(1) [OF k [symmetric] refl] k by (simp add: format_step [OF k])
qed simp

lemma parse_step: "next_token lit f fs = (ks, lit', r) \<Longrightarrow> no_stamp ks \<Longrightarrow>
    parse_from tz ns lit (f # fs) pos v fd =
      (case read_tokens ns ks pos v fd of Inl e \<Rightarrow> Inl e | Inr (fd', pos', v') \<Rightarrow> parse_from tz ns lit' r pos' v' fd')"
  by (cases lit; cases "f = quote_char"; cases "field_letter f"; cases "f = CHR ''@'' \<or> f = CHR ''!''")
    (auto simp: parse_from.simps(2) next_token_def split: prod.splits bool.splits sum.splits)

lemma read_tokens_append: "no_stamp ks \<Longrightarrow> read_tokens ns (ks @ ts) pos v fd =
    (case read_tokens ns ks pos v fd of Inl e \<Rightarrow> Inl e | Inr (fd', pos', v') \<Rightarrow> read_tokens ns ts pos' v' fd')"
  by (induction ns ks pos v fd rule: read_tokens.induct) (auto split: sum.splits prod.splits)

lemma parse_tokens: "no_stamp (tokens lit fs) \<Longrightarrow> parse_from tz ns lit fs pos v fd = read_tokens ns (tokens lit fs) pos v fd"
proof (induction lit fs arbitrary: pos v fd rule: tokens.induct)
  case (2 lit f fs)
  obtain ks lit' r where k: "next_token lit f fs = (ks, lit', r)" by (metis prod_cases3)
  then have n: "no_stamp ks" "no_stamp (tokens lit' r)" using 2(2) by simp_all
  then show ?case using 2(1) [OF k [symmetric] refl] k
    by (auto simp: parse_step [OF k] read_tokens_append split: sum.splits prod.splits)
qed simp

section \<open>Reading what was printed\<close>

definition no_digit_first :: "string \<Rightarrow> bool" where
  "no_digit_first s \<longleftrightarrow> (case s of [] \<Rightarrow> True | c # _ \<Rightarrow> \<not> is_digit c)"

lemma read_number_exact:
  assumes "\<forall>c \<in> set ds. is_digit c" "length ds \<le> number_size f b" "ds \<noteq> []" "f = CHR ''y'' \<longrightarrow> length ds = number_size f b"
    and "length ds = number_size f b \<or> no_digit_first rest"
  shows "read_number f b pos (ds @ rest) = Inr (int_of_digits ds, pos + length ds, rest)"
proof -
  have t: "take (number_size f b) (takeWhile is_digit (ds @ rest)) = ds"
  proof (cases "length ds = number_size f b")
    case True
    then show ?thesis using assms(1) by simp
  next
    case False
    then have "takeWhile is_digit rest = []" using assms(5) by (cases rest) (simp_all add: no_digit_first_def)
    then show ?thesis using assms(1,2) by simp
  qed
  have "1 \<le> length ds" using assms(3) by (cases ds) simp_all
  then show ?thesis using assms(3,4) unfolding read_number_def Let_def t by (cases "f = CHR ''y''") simp_all
qed

declare int_of_digits_zeros [simp]

lemma format_number_digits:
  assumes "0 \<le> n"
  shows "\<forall>c \<in> set (format_number b n k). is_digit c" "int_of_digits (format_number b n k) = n" "format_number b n k \<noteq> []"
  using assms digits_are_digits [OF assms]
  by (auto simp: format_number_def zero_pad_def string_of_int_def is_digit_def code_def)

lemma digits_length: "0 \<le> n \<Longrightarrow> n < 10 ^ Suc k \<Longrightarrow> length (digits n) \<le> Suc k"
proof (induction k arbitrary: n)
  case 0
  then show ?case by (subst digits.simps) simp
next
  case (Suc k)
  have "n div 10 < 10 ^ Suc k" using Suc.prems by simp
  then have "length (digits (n div 10)) \<le> Suc k" using Suc by simp
  then show ?case by (subst digits.simps) simp
qed

lemma format_number_length:
  assumes "0 \<le> n" "n < 10 ^ Suc k"
  shows "length (format_number b n (Suc k)) \<le> Suc k" "b \<Longrightarrow> length (format_number b n (Suc k)) = Suc k"
  using digits_length [OF assms] assms(1) by (simp_all add: format_number_def zero_pad_def string_of_int_def)

lemma read_format_number:
  assumes "0 \<le> n" "n < 10 ^ Suc k" "number_size f b = Suc k" "f \<noteq> CHR ''y''" "b \<or> no_digit_first rest"
  shows "read_number f b pos (format_number b n (Suc k) @ rest) = Inr (n, pos + length (format_number b n (Suc k)), rest)"
proof -
  let ?s = "format_number b n (Suc k)"
  note D = format_number_digits [OF assms(1), of b "Suc k"] and L = format_number_length [OF assms(1,2), of b]
  have "length ?s \<le> number_size f b" using L(1) by (simp only: assms(3))
  moreover have "length ?s = number_size f b \<or> no_digit_first rest" using L(2) assms(3,5) by metis
  moreover have "f = CHR ''y'' \<longrightarrow> length ?s = number_size f b" using assms(4) by blast
  ultimately have "read_number f b pos (?s @ rest) = Inr (int_of_digits ?s, pos + length ?s, rest)"
    using D(1,3) by (intro read_number_exact)
  then show ?thesis by (simp only: D(2))
qed

subsection \<open>Names\<close>

text \<open>No name is the beginning of another one, whatever the case of the letters, or starts with a digit.\<close>

definition good_names :: "nat \<Rightarrow> string list \<Rightarrow> bool" where
  "good_names k ns \<longleftrightarrow> length ns = k \<and> list_all no_digit_first ns \<and>
     list_all (\<lambda>i. list_all (\<lambda>j. i \<noteq> j \<longrightarrow> \<not> prefix (lower (ns ! j)) (lower (ns ! i))) [0..<k]) [0..<k]"

lemma good_names_prefix: "good_names k ns \<Longrightarrow> i < k \<Longrightarrow> j < k \<Longrightarrow> prefix (lower (ns ! j)) (lower (ns ! i)) \<Longrightarrow> i = j"
  unfolding good_names_def list_all_iff set_upt by (meson atLeastLessThan_iff le0)

lemma find_unique:
  assumes "x \<in> set xs" "P x" "\<And>y. y \<in> set xs \<Longrightarrow> P y \<Longrightarrow> y = x"
  shows "find P xs = Some x"
proof -
  have "find P xs \<noteq> None" using assms(1,2) by (auto simp: find_None_iff)
  then obtain y where y: "find P xs = Some y" by blast
  then have "y \<in> set xs" "P y" by (auto simp: find_Some_iff)
  then show ?thesis using assms(3) y by blast
qed

lemma lower_take: "lower (take n s) = take n (lower s)"
  by (simp add: lower_def take_map)

lemma lower_length [simp]: "length (lower s) = length s"
  by (simp add: lower_def)

lemma read_name_finds:
  assumes "good_names k ns" "i < k"
  shows "read_name ns pos (ns ! i @ rest) = Inr (int i + 1, pos + length (ns ! i), rest)"
proof -
  let ?v = "ns ! i @ rest"
  let ?P = "\<lambda>(j, n). lower (take (length n) ?v) = lower n"
  let ?xs = "sort_key (\<lambda>(j, n). - int (length n)) (enumerate 0 ns)"
  have pre: "lower (take (length n) ?v) = lower n \<longleftrightarrow> prefix (lower n) (lower ?v)" for n
  proof
    assume "lower (take (length n) ?v) = lower n"
    then show "prefix (lower n) (lower ?v)" unfolding lower_take using take_is_prefix by metis
  next
    assume "prefix (lower n) (lower ?v)"
    then obtain z where "lower ?v = lower n @ z" by (auto elim: prefixE)
    then show "lower (take (length n) ?v) = lower n" unfolding lower_take by simp
  qed
  have "find ?P ?xs = Some (i, ns ! i)"
  proof (rule find_unique)
    show "(i, ns ! i) \<in> set ?xs" using assms by (simp add: in_set_enumerate_eq good_names_def)
    show "?P (i, ns ! i)" by simp
    fix y
    assume y: "y \<in> set ?xs" "?P y"
    have "y \<in> set (enumerate 0 ns)" using y(1) by (simp only: set_sort)
    then have "fst y < k \<and> snd y = ns ! fst y" using assms(1) by (simp add: in_set_enumerate_eq good_names_def)
    then obtain j where j: "y = (j, ns ! j)" "j < k" by (metis prod.collapse)
    have "prefix (lower (ns ! j)) (lower ?v)" using y(2) pre j(1) by simp
    moreover have "prefix (lower (ns ! i)) (lower ?v)" by (simp add: lower_def)
    ultimately have "prefix (lower (ns ! j)) (lower (ns ! i)) \<or> prefix (lower (ns ! i)) (lower (ns ! j))"
      using prefix_same_cases by blast
    then have "i = j" using good_names_prefix [OF assms(1)] assms(2) j(2) by blast
    then show "y = (i, ns ! i)" using j(1) by simp
  qed
  then show ?thesis by (simp add: read_name_def)
qed

subsection \<open>A list of tokens\<close>

fun no_digit_token :: "fmt_token list \<Rightarrow> bool" where
  "no_digit_token [] \<longleftrightarrow> True"
| "no_digit_token (Field f _ # _) \<longleftrightarrow> f = CHR ''D'' \<or> f = CHR ''M''"
| "no_digit_token (Char c # _) \<longleftrightarrow> \<not> is_digit c"
| "no_digit_token (Stamp _ # _) \<longleftrightarrow> False"

text \<open>
  A format whose fields end where the reader says: a single number is not followed by a digit, and the year
  has four digits.
\<close>

fun clear_tokens :: "fmt_token list \<Rightarrow> bool" where
  "clear_tokens [] \<longleftrightarrow> True"
| "clear_tokens (Field f doubled # ts) \<longleftrightarrow> field_letter f \<and> (doubled \<or> f = CHR ''D'' \<or> f = CHR ''M'' \<or> (f \<noteq> CHR ''y'' \<and> no_digit_token ts)) \<and> clear_tokens ts"
| "clear_tokens (Char c # ts) \<longleftrightarrow> clear_tokens ts"
| "clear_tokens (Stamp _ # ts) \<longleftrightarrow> False"

lemma clear_no_stamp: "clear_tokens ts \<Longrightarrow> no_stamp ts"
  by (induction ts rule: clear_tokens.induct) simp_all

text \<open>The names that a picker prints can be told apart.\<close>

definition all_good :: "date_names \<Rightarrow> bool" where
  "all_good ns \<longleftrightarrow> good_names 7 (days_short ns) \<and> good_names 7 (days_long ns) \<and> good_names 12 (months_short ns) \<and> good_names 12 (months_long ns)"

text \<open>What the reader notes for a field of the date.\<close>

fun note_field :: "jsdate \<Rightarrow> fmt_token \<Rightarrow> date_fields \<Rightarrow> date_fields" where
  "note_field t (Field f _) fd =
     (if f = CHR ''d'' then fd\<lparr>fld_day := Some (get_date t)\<rparr>
      else if f = CHR ''o'' then fd\<lparr>fld_doy := day_of_year t\<rparr>
      else if f = CHR ''m'' \<or> f = CHR ''M'' then fd\<lparr>fld_month := Some (get_month t + 1)\<rparr>
      else if f = CHR ''y'' then fd\<lparr>fld_year := Some (full_year t)\<rparr> else fd)"
| "note_field t _ fd = fd"

lemma get_day_bounds: "0 \<le> get_day t" "get_day t < 7"
  by (simp_all add: get_day_def)

lemma name_at_index: "0 \<le> i \<Longrightarrow> nat i < length ns \<Longrightarrow> name_at ns i = ns ! nat i"
  by (simp add: name_at_def)

lemma read_name_at:
  assumes "good_names k ns" "0 \<le> i" "i < int k"
  shows "read_name ns pos (name_at ns i @ rest) = Inr (i + 1, pos + length (name_at ns i), rest)"
  using read_name_finds [OF assms(1), of "nat i" pos rest] assms
  by (simp add: name_at_index good_names_def nat_less_iff)

lemma parse_format_field:
  assumes "all_good ns" "1000 \<le> full_year t" "full_year t \<le> 9999" "field_letter f"
    and "doubled \<or> f = CHR ''D'' \<or> f = CHR ''M'' \<or> (f \<noteq> CHR ''y'' \<and> no_digit_first rest)"
  shows "\<exists>pos'. parse_field ns f doubled pos (format_field tz ns t f doubled @ rest) fd = Inr (note_field t (Field f doubled) fd, pos', rest)"
proof -
  note b = field_bounds [of t]
  have date: "0 \<le> get_date t" "get_date t < 10 ^ Suc 1" using b(3,4) month_days_bounds [OF b(1,2), of "full_year t"] by simp_all
  have month: "0 \<le> get_month t + 1" "get_month t + 1 < 10 ^ Suc 1" "0 \<le> get_month t" "get_month t < 12" using b(1,2) by simp_all
  have doy: "0 \<le> day_of_year t" "day_of_year t < 10 ^ Suc 2" using day_of_year_bounds [of t] assms(2) by simp_all
  have "f = CHR ''d'' \<or> f = CHR ''D'' \<or> f = CHR ''o'' \<or> f = CHR ''m'' \<or> f = CHR ''M'' \<or> f = CHR ''y''"
    using assms(4) by (auto simp: field_letter_def)
  then consider "f = CHR ''d''" | "f = CHR ''D''" | "f = CHR ''o''" | "f = CHR ''m''" | "f = CHR ''M''" | "f = CHR ''y''" by blast
  then show ?thesis
  proof cases
    case 1
    then show ?thesis using read_format_number [OF date, of f doubled rest pos] assms(5)
      by (simp add: parse_field_def format_field_def number_size_def numeral_2_eq_2)
  next
    case 2
    then show ?thesis using read_name_at [of 7 _ "get_day t"] get_day_bounds [of t] assms(1)
      by (simp add: parse_field_def format_field_def all_good_def)
  next
    case 3
    then show ?thesis using read_format_number [OF doy, of f doubled rest pos] assms(5)
      by (simp add: parse_field_def format_field_def number_size_def numeral_3_eq_3)
  next
    case 4
    then show ?thesis using read_format_number [OF month(1,2), of f doubled rest pos] assms(5)
      by (simp add: parse_field_def format_field_def number_size_def numeral_2_eq_2)
  next
    case 5
    then show ?thesis using read_name_at [of 12 _ "get_month t"] month(3,4) assms(1)
      by (simp add: parse_field_def format_field_def all_good_def)
  next
    case 6
    have y: "length (digits (full_year t)) = 4" using assms(2,3) by (simp add: digits_four)
    have "read_number f True pos (digits (full_year t) @ rest) = Inr (int_of_digits (digits (full_year t)), pos + length (digits (full_year t)), rest)"
      using assms(2) y 6 digits_are_digits [of "full_year t"] by (intro read_number_exact) (simp_all add: number_size_def)
    then show ?thesis using 6 assms(2,5) by (simp add: parse_field_def format_field_def string_of_int_def)
  qed
qed

lemma no_digit_append: "a \<noteq> [] \<Longrightarrow> no_digit_first a \<Longrightarrow> no_digit_first (a @ s)"
  by (cases a) (simp_all add: no_digit_first_def)

lemma good_name_first:
  assumes "good_names k ns" "1 < k" "0 \<le> i" "i < int k"
  shows "name_at ns i \<noteq> [] \<and> no_digit_first (name_at ns i)"
proof -
  have n: "nat i < length ns" "name_at ns i = ns ! nat i" "nat i < k"
    using assms by (simp_all add: good_names_def name_at_index nat_less_iff)
  define j where "j = (if nat i = 0 then 1 else 0 :: nat)"
  have j: "j < k" "nat i \<noteq> j" using assms(2) by (simp_all add: j_def)
  have "ns ! nat i \<noteq> []"
  proof
    assume "ns ! nat i = []"
    then have "prefix (lower (ns ! nat i)) (lower (ns ! j))" by (simp add: lower_def)
    then show False using good_names_prefix [OF assms(1) j(1) n(3)] j(2) by simp
  qed
  moreover have "no_digit_first (ns ! nat i)" using assms(1) n(1) by (simp add: good_names_def list_all_iff)
  ultimately show ?thesis using n(2) by simp
qed

lemma no_digit_tokens:
  assumes "all_good ns" "no_digit_token ts"
  shows "no_digit_first (concat (map (print_token tz ns t) ts))"
proof (cases ts rule: no_digit_token.cases)
  case (2 f b r)
  have "0 \<le> get_month t" "get_month t < 12" using field_bounds(1,2) [of t] by simp_all
  moreover note get_day_bounds [of t]
  ultimately have "format_field tz ns t f b \<noteq> [] \<and> no_digit_first (format_field tz ns t f b)"
    using assms 2 good_name_first [of 7 _ "get_day t"] good_name_first [of 12 _ "get_month t"]
    by (auto simp: format_field_def all_good_def)
  then show ?thesis using 2 by (simp add: no_digit_append)
next
  case (3 c r)
  then show ?thesis using assms(2) by (simp add: no_digit_first_def)
qed (use assms(2) in \<open>simp_all add: no_digit_first_def\<close>)

lemma read_printed:
  assumes "all_good ns" "1000 \<le> full_year t" "full_year t \<le> 9999" "clear_tokens ts"
  shows "\<exists>pos'. read_tokens ns ts pos (concat (map (print_token tz ns t) ts)) fd = Inr (fold (note_field t) ts fd, pos', [])"
  using assms(4)
proof (induction ts arbitrary: pos fd rule: clear_tokens.induct)
  case (2 f doubled ts)
  let ?rest = "concat (map (print_token tz ns t) ts)"
  have "doubled \<or> f = CHR ''D'' \<or> f = CHR ''M'' \<or> (f \<noteq> CHR ''y'' \<and> no_digit_first ?rest)"
    using 2(2) no_digit_tokens [OF assms(1)] by auto
  then obtain pos' where "parse_field ns f doubled pos (format_field tz ns t f doubled @ ?rest) fd = Inr (note_field t (Field f doubled) fd, pos', ?rest)"
    using parse_format_field [OF assms(1-3), of f doubled ?rest pos tz fd] 2(2) by auto
  then show ?case using 2(1) [of pos' "note_field t (Field f doubled) fd"] 2(2) by simp
next
  case (3 c ts)
  then show ?case by (simp add: read_literal_def)
qed simp_all

lemma noted_fields:
  "fld_year (fold (note_field t) ts fd) = (if \<exists>b. Field (CHR ''y'') b \<in> set ts then Some (full_year t) else fld_year fd)"
  "fld_month (fold (note_field t) ts fd) = (if \<exists>f b. Field f b \<in> set ts \<and> (f = CHR ''m'' \<or> f = CHR ''M'') then Some (get_month t + 1) else fld_month fd)"
  "fld_day (fold (note_field t) ts fd) = (if \<exists>b. Field (CHR ''d'') b \<in> set ts then Some (get_date t) else fld_day fd)"
  "fld_doy (fold (note_field t) ts fd) = (if \<exists>b. Field (CHR ''o'') b \<in> set ts then day_of_year t else fld_doy fd)"
proof (induction ts arbitrary: fd)
  case (Cons k ts)
  {
    case 1
    show ?case using Cons(1) by (cases k) auto
  next
    case 2
    show ?case using Cons(2) by (cases k) auto
  next
    case 3
    show ?case using Cons(3) by (cases k) auto
  next
    case 4
    show ?case using Cons(4) by (cases k) auto
  }
qed simp_all

text \<open>The format says the year and the day, by its number in the year or by the month and its number there.\<close>

definition names_a_day :: "fmt_token list \<Rightarrow> bool" where
  "names_a_day ts \<longleftrightarrow> list_ex (\<lambda>k. k = Field (CHR ''y'') True) ts \<and>
     (list_ex (\<lambda>k. k \<in> {Field (CHR ''o'') False, Field (CHR ''o'') True}) ts \<or>
      list_ex (\<lambda>k. k \<in> {Field (CHR ''d'') False, Field (CHR ''d'') True}) ts \<and>
      list_ex (\<lambda>k. k \<in> {Field (CHR ''m'') False, Field (CHR ''m'') True, Field (CHR ''M'') False, Field (CHR ''M'') True}) ts)"

lemma check_date_ok:
  assumes "100 \<le> full_year t" "midnight t = t"
  shows "check_date (Some (full_year t)) (Some (get_month t + 1)) (Some (get_date t)) = ADate t"
proof -
  note b = field_bounds [of t]
  note n = new_date_fields [OF assms(1) b(1-4)]
  have "new_date (full_year t) (get_month t) (get_date t) = t"
    using n(1) b(5) assms(2) by (simp add: midnight_def)
  moreover from this have "daylight_saving_adjust t = t" using adjust_new_date [of "full_year t" "get_month t" "get_date t"] by simp
  ultimately show ?thesis by (simp add: check_date_def Let_def)
qed

lemma doy_loop_day:
  assumes "100 \<le> full_year t"
  shows "doy_loop (full_year t) 1 (day_of_year t) = (get_month t + 1, get_date t)"
  using doy_loop_finds [OF assms field_bounds(3,4) [of t] field_bounds(2), of 1] field_bounds(1,5) [of t] day_of_year_eq [OF assms]
  by simp

text \<open>
  C35. A date of the years 1000 to 9999 that is printed by a format is read back by it as the same day, at
  midnight. The format has the year in four digits and names a day (by month and day or by the day
  of the year), has no time stamp in it and no field of varying length before a digit, and the names
  of days and months are distinguishable.
\<close>

theorem date_round_trip:
  assumes "1000 \<le> full_year t" "full_year t \<le> 9999" "midnight t = t"
    and "clear_tokens (tokens False fmt)" "names_a_day (tokens False fmt)" "all_good (names_of s)"
  shows "parse_date tz this_year (Some fmt) (Some (format_date tz fmt (Some t) s)) s = ADate t"
proof -
  let ?ts = "tokens False fmt" and ?ns = "names_of s"
  let ?v = "concat (map (print_token tz ?ns t) ?ts)" and ?fd = "fold (note_field t) ?ts no_fields"
  have stamp: "no_stamp ?ts" by (rule clear_no_stamp [OF assms(4)])
  have v: "format_date tz fmt (Some t) s = ?v" by (simp add: format_date_def format_tokens [OF stamp])
  have year: "Field (CHR ''y'') True \<in> set ?ts" using assms(5) by (auto simp: names_a_day_def list_ex_iff)
  then have "string_of_int (full_year t) = print_token tz ?ns t (Field (CHR ''y'') True)" by (simp add: format_field_def)
  then have "?v \<noteq> []" using year by (force simp: string_of_int_def)
  obtain pos' where p: "parse_from tz ?ns False fmt 0 ?v no_fields = Inr (?fd, pos', [])"
    using read_printed [OF assms(6,1,2,4), of 0 tz no_fields] parse_tokens [OF stamp] by metis
  have y: "fld_year ?fd = Some (full_year t)" using year by (auto simp: noted_fields)
  then have c: "complete_year this_year (short_year_cutoff this_year s) (fld_year ?fd) = Some (full_year t)"
    using assms(1) by (simp add: complete_year_def)
  have "finish_parse this_year (short_year_cutoff this_year s) ?fd [] = ADate t"
  proof (cases "\<exists>b. Field (CHR ''o'') b \<in> set ?ts")
    case True
    then have "fld_doy ?fd = day_of_year t" by (simp add: noted_fields)
    then show ?thesis using day_of_year_bounds(1) [of t] assms(1,3) doy_loop_day [of t] check_date_ok [of t]
      by (simp add: finish_parse_def c Let_def)
  next
    case False
    then have "fld_doy ?fd = -1" by (simp add: noted_fields no_fields_def)
    moreover have "fld_day ?fd = Some (get_date t)" "fld_month ?fd = Some (get_month t + 1)"
      using False assms(5) by (auto simp: noted_fields names_a_day_def list_ex_iff)
    ultimately show ?thesis using assms(1,3) check_date_ok [of t] by (simp add: finish_parse_def c Let_def)
  qed
  then show ?thesis using \<open>?v \<noteq> []\<close> by (simp add: parse_date_def v p)
qed

definition no_settings :: date_settings where
  "no_settings = \<lparr>given_cutoff = None, given_days_short = None, given_days = None, given_months_short = None, given_months = None\<rparr>"

lemma good_names_lower:
  assumes "map lower ns = ls" "length ls = k" "list_all no_digit_first ns"
    and "list_all (\<lambda>(i, x). list_all (\<lambda>(j, y). i = j \<or> \<not> prefix y x) (enumerate 0 ls)) (enumerate 0 ls)"
  shows "good_names k ns"
proof -
  have l: "length ns = k" "\<And>i. i < k \<Longrightarrow> lower (ns ! i) = ls ! i" unfolding assms(1) [symmetric] assms(2) [symmetric] by simp_all
  have "\<not> prefix (ls ! j) (ls ! i)" if "i < k" "j < k" "i \<noteq> j" for i j
  proof -
    have "(i, ls ! i) \<in> set (enumerate 0 ls)" "(j, ls ! j) \<in> set (enumerate 0 ls)"
      using assms(2) that by (simp_all add: in_set_enumerate_eq)
    then show ?thesis using assms(4) that(3) unfolding list_all_iff by blast
  qed
  then show ?thesis using l assms(3) by (simp add: good_names_def list_all_iff)
qed

lemma default_names_good: "all_good default_names"
proof -
  have "good_names 7 (days_short default_names)"
    by (rule good_names_lower [of _ "[''sun'', ''mon'', ''tue'', ''wed'', ''thu'', ''fri'', ''sat'']"]) code_simp+
  moreover have "good_names 7 (days_long default_names)"
    by (rule good_names_lower [of _ "[''sunday'', ''monday'', ''tuesday'', ''wednesday'', ''thursday'', ''friday'', ''saturday'']"]) code_simp+
  moreover have "good_names 12 (months_short default_names)"
    by (rule good_names_lower [of _ "[''jan'', ''feb'', ''mar'', ''apr'', ''may'', ''jun'', ''jul'', ''aug'', ''sep'', ''oct'', ''nov'', ''dec'']"]) code_simp+
  moreover have "good_names 12 (months_long default_names)"
    by (rule good_names_lower [of _ "[''january'', ''february'', ''march'', ''april'', ''may'', ''june'', ''july'', ''august'', ''september'',
       ''october'', ''november'', ''december'']"]) code_simp+
  ultimately show ?thesis by (simp add: all_good_def)
qed

lemma names_of_none [simp]: "names_of no_settings = default_names"
  by (simp add: names_of_def no_settings_def given_or_def)

lemma date_round_trip_witness:
  "parse_date 0 2022 (Some ''DD, d MM yy'') (Some (format_date 0 ''DD, d MM yy'' (Some (19000 * 86400000)) no_settings)) no_settings = ADate (19000 * 86400000)"
proof -
  have "full_year (19000 * 86400000) = 2022" by code_simp
  moreover have "midnight (19000 * 86400000) = 19000 * 86400000" by code_simp
  moreover have "clear_tokens (tokens False ''DD, d MM yy'')" "names_a_day (tokens False ''DD, d MM yy'')" by code_simp+
  ultimately show ?thesis by (intro date_round_trip) (simp_all add: default_names_good)
qed

section \<open>Weeks\<close>

text \<open>The Monday of a day, and of the week with 4 January, which is the first one of its year.\<close>

definition monday :: "int \<Rightarrow> int" where
  "monday n = n - (n + 3) mod 7"

definition week_start :: "int \<Rightarrow> int" where
  "week_start y = monday (day_of y 1 4)"

lemma monday_bounds: "monday n \<le> n" "n \<le> monday n + 6" "\<exists>k. monday n = 7 * k + 4"
proof -
  show "monday n \<le> n" "n \<le> monday n + 6"
    using pos_mod_sign [of 7 "n + 3"] pos_mod_bound [of 7 "n + 3"] unfolding monday_def by linarith+
  define q where "q = (n + 3) div 7"
  define r where "r = (n + 3) mod 7"
  have "7 * q + r = n + 3" unfolding q_def r_def by (rule mult_div_mod_eq)
  then have "monday n = 7 * (q - 1) + 4" unfolding monday_def r_def [symmetric] by (simp add: algebra_simps)
  then show "\<exists>k. monday n = 7 * k + 4" by blast
qed

lemma monday_before: "monday m \<le> n \<Longrightarrow> monday m \<le> monday n"
proof -
  assume le: "monday m \<le> n"
  obtain j k where "monday m = 7 * j + 4" "monday n = 7 * k + 4" using monday_bounds(3) by metis
  moreover from this have "j \<le> k" using le monday_bounds(2) [of n] by linarith
  ultimately show ?thesis by simp
qed

lemma monday_after: "n < monday m \<Longrightarrow> monday n \<le> monday m - 7"
proof -
  assume less: "n < monday m"
  obtain j k where "monday m = 7 * j + 4" "monday n = 7 * k + 4" using monday_bounds(3) by metis
  moreover from this have "k \<le> j - 1" using less monday_bounds(1) [of n] by linarith
  ultimately show ?thesis by simp
qed

lemma new_year_day: "day_of y 1 d = year_days (y - 1) + 305 + d - 719468"
  by (simp add: day_of_march march_day_def)

lemma year_days_mono: "y \<le> y' \<Longrightarrow> year_days y \<le> year_days y'"
proof (induction "nat (y' - y)" arbitrary: y')
  case (Suc n)
  then have "year_days y \<le> year_days (y' - 1)" by simp
  also have "\<dots> \<le> year_days y'" using year_days_step [of "y' - 1"] by (simp only: diff_add_cancel) simp
  finally show ?case .
qed simp

lemma month_in_year:
  assumes "1 \<le> m" "m \<le> 12" "1 \<le> d" "d \<le> month_days y m"
  shows "day_of y 1 1 \<le> day_of y m d" "day_of y m d < day_of (y + 1) 1 1"
proof -
  have step: "year_days y = year_days (y - 1) + (if leap_year y then 366 else 365)"
    using year_days_step [of "y - 1"] by (simp only: diff_add_cancel)
  show "day_of y 1 1 \<le> day_of y m d"
    using assms(3) step by (cases rule: month_cases [OF assms(1,2)]) (simp_all add: day_of_march march_day_def split: if_splits)
  show "day_of y m d < day_of (y + 1) 1 1"
    using assms(3,4) step
    by (cases rule: month_cases [OF assms(1,2)]) (simp_all add: day_of_march march_day_def month_days_def split: if_splits)
qed

lemma year_starts_before: "civil n = (y, md) \<Longrightarrow> day_of y 1 1 \<le> n \<and> n < day_of (y + 1) 1 1"
  using day_of_civil [of n y "fst md" "snd md"] month_in_year [of "fst md" "snd md" y] by simp

lemma year_of_day:
  assumes "day_of y 1 1 \<le> n" "n < day_of (y + 1) 1 1"
  shows "fst (civil n) = y"
proof -
  obtain z md where c: "civil n = (z, md)" by (cases "civil n")
  note year_starts_before [OF c]
  then have "year_days (z - 1) < year_days y" "year_days (y - 1) < year_days z" using assms by (simp_all add: new_year_day)
  then have "z - 1 < y" "y - 1 < z" using year_days_mono by (meson not_le)+
  then show ?thesis using c by simp
qed

lemma date_day_add: "date_day (n * 86400000 + t mod 86400000) = n"
  unfolding date_day_def by (rule int_div_pos_eq [of _ _ _ "t mod 86400000"]) simp_all

lemma set_date_day: "set_date t d = (date_day t - get_date t + d) * 86400000 + t mod 86400000"
proof -
  note b = field_bounds [of t]
  have "make_day (full_year t) (get_month t) d = day_of (full_year t) (get_month t + 1) d"
    using make_day_month [of "get_month t + 1"] b(1,2) by simp
  also have "\<dots> = date_day t - get_date t + d"
    using b(5) day_of_linear [of "full_year t" "get_month t + 1" d] day_of_linear [of "full_year t" "get_month t + 1" "get_date t"] by simp
  finally show ?thesis by (simp add: set_date_def)
qed

lemma iso_week_thursday:
  assumes "thursday = monday (date_day t) + 3"
  shows "iso8601_week t = (thursday - day_of (fst (civil thursday)) 1 1) div 7 + 1"
proof -
  define n where "n = date_day t"
  define r where "r = t mod 86400000"
  define w where "w = thursday * 86400000 + r"
  define y where "y = fst (civil thursday)"
  have dow: "(if get_day t = 0 then 7 else get_day t) = (n + 3) mod 7 + 1"
  proof -
    have "(n + 4) mod 7 = ((n + 3) mod 7 + 1) mod 7" using mod_add_left_eq [of "n + 3" 7 1] by (simp add: add.commute)
    moreover have "0 \<le> (n + 3) mod 7" "(n + 3) mod 7 < 7" by simp_all
    ultimately show ?thesis unfolding get_day_def n_def [symmetric] by (cases "(n + 3) mod 7 = 6") auto
  qed
  have w: "set_date t (get_date t + 4 - (if get_day t = 0 then 7 else get_day t)) = w"
    unfolding set_date_day dow w_def r_def assms monday_def n_def by simp
  have wd: "date_day w = thursday" "w mod 86400000 = r"
    unfolding w_def r_def by (simp_all add: date_day_add)
  have wy: "full_year w = y" by (simp add: full_year_def wd y_def)
  have bw: "1 \<le> get_date w" "get_date w \<le> 31"
    using field_bounds(3,4) [of w] month_days_bounds [OF field_bounds(1,2) [of w], of "full_year w"] by linarith+
  have jan: "set_month w 0 = day_of y 1 (get_date w) * 86400000 + r"
    unfolding set_month_def wy wd using make_day_month [of 1 y] by simp
  define j where "j = day_of y 1 (get_date w) * 86400000 + r"
  have jd: "date_day j = day_of y 1 (get_date w)" "j mod 86400000 = r"
    unfolding j_def r_def by (simp_all add: date_day_add)
  have "civil (date_day j) = (y, 1, get_date w)" unfolding jd using bw by (intro civil_day_of) (simp_all add: month_days_def)
  then have "get_date j = get_date w" by (simp add: get_date_def)
  then have first: "set_date j 1 = day_of y 1 1 * 86400000 + r"
    unfolding set_date_day jd using day_of_linear [of y 1 "get_date w"] by simp
  have "round_days (w - set_date j 1) = thursday - day_of y 1 1"
    unfolding round_days_def first w_def by (rule int_div_pos_eq [of _ _ _ 86400000]) simp_all
  then show ?thesis unfolding iso8601_week_def Let_def w jan [folded j_def] y_def [symmetric] by simp
qed

text \<open>
  C36. The weeks of a year are those of ISO 8601: they begin on Monday, the first one is the one with
  4 January, and a day before it belongs to the last week of the year before.
\<close>

theorem iso_week_counts_mondays:
  assumes "week_start y \<le> date_day t" "date_day t < week_start (y + 1)"
  shows "iso8601_week t = (date_day t - week_start y) div 7 + 1 \<and> 1 \<le> iso8601_week t \<and> iso8601_week t \<le> 53"
proof -
  define n where "n = date_day t"
  define th where "th = monday n + 3"
  define j where "j = day_of y 1 1"
  define j' where "j' = day_of (y + 1) 1 1"
  note mb = monday_bounds [of n]
  have four: "day_of y 1 4 = j + 3" "day_of (y + 1) 1 4 = j' + 3" by (simp_all add: j_def j'_def new_year_day)
  note w = monday_bounds(1,2) [of "j + 3"] and w' = monday_bounds(1,2) [of "j' + 3"]
  have ws: "week_start y = monday (j + 3)" "week_start (y + 1) = monday (j' + 3)" by (simp_all only: week_start_def four)
  have lo: "monday (j + 3) \<le> monday n" using assms(1) by (intro monday_before) (simp add: ws n_def)
  have hi: "monday n \<le> monday (j' + 3) - 7" using assms(2) by (intro monday_after) (simp add: ws n_def)
  have year: "fst (civil th) = y"
    by (rule year_of_day) (use lo hi w w' in \<open>simp_all add: th_def j_def [symmetric] j'_def [symmetric]\<close>)
  obtain a b c where ab: "monday n = 7 * a + 4" "monday (j + 3) = 7 * b + 4" and c: "monday (j' + 3) = 7 * c + 4" using monday_bounds(3) by metis
  have "iso8601_week t = (th - j) div 7 + 1"
    using iso_week_thursday [of th t] year by (simp add: th_def n_def j_def)
  also have "(th - j) div 7 = a - b"
    by (rule int_div_pos_eq [of _ _ _ "monday (j + 3) + 3 - j"]) (use ab w in \<open>simp_all add: th_def\<close>)
  also have "a - b = (n - monday (j + 3)) div 7"
    by (rule int_div_pos_eq [of _ _ _ "n - monday n", symmetric]) (use ab mb in simp_all)
  finally have eq: "iso8601_week t = (n - monday (j + 3)) div 7 + 1" .
  have "j' \<le> j + 366"
    using year_days_step [of "y - 1"] by (simp add: j_def j'_def new_year_day)
  then have "7 * c + 4 \<le> 7 * b + 4 + 372" unfolding ab(2) [symmetric] c [symmetric] using w(2) w'(1) by linarith
  then have "c \<le> b + 53" by linarith
  then have "n - monday (j + 3) < 7 * 53" using assms(2) by (simp add: n_def ws ab c)
  then have "(n - monday (j + 3)) div 7 < 53" by linarith
  moreover have "0 \<le> (n - monday (j + 3)) div 7" using assms(1) by (simp add: n_def ws)
  ultimately show ?thesis using eq by (simp add: n_def ws)
qed

text \<open>1 January 2021 was a Friday: it is in week 53 of the year before.\<close>

lemma iso_week_counts_mondays_witness: "iso8601_week (18628 * 86400000) = 53"
proof -
  have "week_start 2020 = 18260" "week_start (2020 + 1) = 18631" "date_day (18628 * 86400000) = 18628" by code_simp+
  then show ?thesis using iso_week_counts_mondays [of 2020 "18628 * 86400000"] by simp
qed

end
