(* ===== verification/UI_Picker.thy ===== *)
theory UI_Picker
  imports UI_Dates_Props
begin

text \<open>
  A date picker of jQuery UI (\<open>Datepicker\<close> in \<open>html/jquery-ui-1.13.1.custom/jquery-ui.js\<close>): its
  settings, the date it has selected, the month it shows and the date in its input, what it has drawn,
  and its limits, which may be dates or offsets from today.
\<close>

section \<open>State\<close>

text \<open>A date as an option: nothing or the empty string, a date object, a number of days, a text.\<close>

datatype date_option =
    NotGiven
  | DateGiven jsdate
  | InvalidDate
  | DaysGiven jsnum
  | TextGiven string

text \<open>What is drawn: for each day whether it is of another month, at a weekend, can be chosen, and so on.\<close>

record day_cell =
  cell_date :: jsdate
  other_month :: bool
  weekend :: bool
  cell_over :: bool                 \<comment> \<open>\<open>_dayOverClass\<close>\<close>
  unselectable :: bool
  cell_current :: bool
  cell_today :: bool

record month_view =
  view_year :: int
  view_month :: int
  month_choices :: "int list option" \<comment> \<open>the options of the list of months, if it is one\<close>
  year_choices :: "int list option"
  view_weeks :: "(int option \<times> day_cell list) list"

record calendar =
  prev_enabled :: bool
  next_enabled :: bool
  today_button :: bool
  months_shown :: "month_view list list"

text \<open>What the listeners are told.\<close>

datatype picker_note =
    MonthChanged int int            \<comment> \<open>\<open>onChangeMonthYear\<close>\<close>
  | DateSelected string             \<comment> \<open>\<open>onSelect\<close>\<close>
  | InputChanged                    \<comment> \<open>the event \<open>change\<close> of the input\<close>

record picker =
  dp_format :: string               \<comment> \<open>\<open>dateFormat\<close>\<close>
  dp_settings :: date_settings
  dp_default :: date_option         \<comment> \<open>\<open>defaultDate\<close>\<close>
  dp_min :: date_option
  dp_max :: date_option
  dp_year_range :: string
  dp_months :: "int \<times> int"         \<comment> \<open>\<open>numberOfMonths\<close> as rows and columns\<close>
  dp_current_pos :: int             \<comment> \<open>\<open>showCurrentAtPos\<close>\<close>
  dp_step :: int                    \<comment> \<open>\<open>stepMonths\<close>\<close>
  dp_big_step :: int
  dp_first_day :: int
  dp_goto_current :: bool           \<comment> \<open>\<open>gotoCurrent\<close>\<close>
  dp_rtl :: bool
  dp_select_other :: bool           \<comment> \<open>\<open>selectOtherMonths\<close>\<close>
  dp_show_other :: bool
  dp_change_month :: bool
  dp_change_year :: bool
  dp_button_panel :: bool
  dp_show_week :: bool
  dp_week :: "jsdate \<Rightarrow> int"         \<comment> \<open>\<open>calculateWeek\<close>\<close>
  dp_selectable :: "jsdate \<Rightarrow> bool"  \<comment> \<open>\<open>beforeShowDay\<close>\<close>
  dp_constrain :: bool
  dp_on_select :: bool
  dp_alt_format :: "string option"  \<comment> \<open>\<open>altFormat\<close>, if there is an alternate field\<close>
  dp_disabled :: bool
  dp_inline :: bool
  dp_input :: "string option"       \<comment> \<open>the text of the input, if there is one\<close>
  dp_alt :: string                  \<comment> \<open>the text of the alternate field\<close>
  dp_last :: "string option"        \<comment> \<open>\<open>lastVal\<close>\<close>
  dp_last_input :: bool             \<comment> \<open>\<open>_lastInput\<close> is the input of the picker\<close>
  dp_showing :: bool
  dp_key_event :: bool
  selected_day :: int
  selected_month :: int
  selected_year :: int
  draw_month :: int
  draw_year :: int
  current_day :: int
  current_month :: int
  current_year :: int
  dp_view :: "calendar option"
  dp_told :: "picker_note list"
  dp_now :: jsdate                  \<comment> \<open>\<open>new Date()\<close>\<close>
  dp_zone :: int

definition get_format_config :: "picker \<Rightarrow> date_settings" where
  "get_format_config p = (dp_settings p)\<lparr>given_cutoff := Some (Inl
     (case given_or (given_cutoff (dp_settings p)) (Inr ''+10'') of
        Inl n \<Rightarrow> n
      | Inr t \<Rightarrow> num_of_int (full_year (dp_now p) mod 100) + parse_int10 t))\<rparr>"

section \<open>Dates given as options\<close>

text \<open>\<open>_getDate\<close>\<close>

definition current_date :: "picker \<Rightarrow> jsdate option" where
  "current_date p = (if current_year p = 0 \<or> dp_input p = Some [] then None
     else Some (daylight_saving_adjust (new_date (current_year p) (current_month p) (current_day p))))"

text \<open>The matches of \<open>/([+\-]?[0-9]+)\s*(d|D|w|W|m|M|y|Y)?/g\<close>: numbers with a unit, days if there is none.\<close>

definition read_offset :: "string \<Rightarrow> (int \<times> char \<times> string) option" where
  "read_offset s = (let (neg, t) = split_sign s; ds = takeWhile is_digit t; r = dropWhile is_space (dropWhile is_digit t) in
     if ds = [] then None
     else Some (let n = (if neg then - int_of_digits ds else int_of_digits ds) in
       (case r of
          u # rest \<Rightarrow> if u \<in> set ''dDwWmMyY'' then (n, lower_char u, rest) else (n, CHR ''d'', r)
        | [] \<Rightarrow> (n, CHR ''d'', []))))"

lemma read_offset_length: "read_offset (c # s) = Some (n, u, r) \<Longrightarrow> length r \<le> length s"
proof -
  assume a: "read_offset (c # s) = Some (n, u, r)"
  obtain neg t where t: "split_sign (c # s) = (neg, t)" by (cases "split_sign (c # s)")
  have "takeWhile is_digit t \<noteq> []" using a t by (auto simp: read_offset_def Let_def)
  moreover have "t = s \<or> t = c # s" using t by (auto simp: split_sign_def split: if_splits)
  ultimately have "length (dropWhile is_digit t) \<le> length s"
    by (cases t) (auto simp: length_dropWhile_le le_SucI intro: order_trans [OF length_dropWhile_le] split: if_splits)
  then have w: "length (dropWhile is_space (dropWhile is_digit t)) \<le> length s"
    using length_dropWhile_le order_trans by blast
  define w where "w = dropWhile is_space (dropWhile is_digit t)"
  have "r = w \<or> r = tl w"
    using a t by (cases w) (auto simp: read_offset_def Let_def w_def [symmetric] split: if_splits)
  then show ?thesis using w by (auto simp: w_def [symmetric])
qed

function scan_offsets :: "string \<Rightarrow> (int \<times> char) list" where
  "scan_offsets [] = []"
| "scan_offsets (c # s) = (case read_offset (c # s) of
       None \<Rightarrow> scan_offsets s
     | Some (n, u, r) \<Rightarrow> (n, u) # scan_offsets r)"
  by pat_completeness auto
termination
  by (relation "measure length") (auto dest: read_offset_length)

text \<open>A month or year further the day is no later than the last one of its month.\<close>

definition apply_offset :: "int \<times> char \<Rightarrow> int \<times> int \<times> int \<Rightarrow> int \<times> int \<times> int" where
  "apply_offset off ymd = (case (off, ymd) of ((n, u), (y, m, d)) \<Rightarrow>
     if u = CHR ''d'' then (y, m, d + n)
     else if u = CHR ''w'' then (y, m, d + n * 7)
     else if u = CHR ''m'' then (y, m + n, min d (days_in_month y (m + n)))
     else (y + n, m, min d (days_in_month (y + n) m)))"

definition offset_string :: "picker \<Rightarrow> string \<Rightarrow> exn + jsdate option" where
  "offset_string p s = (case parse_date (dp_zone p) (full_year (dp_now p)) (Some (dp_format p)) (Some s) (get_format_config p) of
       ADate t \<Rightarrow> Inr (Some t)
     | NoDate \<Rightarrow> Inr None
     | RunsForever \<Rightarrow> Inl Unresponsive
     | Fails _ \<Rightarrow>
         (let t = (if take 1 (lower s) = ''c'' then given_or (current_date p) (dp_now p) else dp_now p);
              (y, m, d) = fold apply_offset (scan_offsets s) (full_year t, get_month t, get_date t)
          in Inr (Some (new_date y m d))))"

definition offset_numeric :: "picker \<Rightarrow> rat \<Rightarrow> jsdate" where
  "offset_numeric p q = set_date (dp_now p) (trunc (of_int (get_date (dp_now p)) + q))"

text \<open>Beyond \<open>8.64e15\<close> milliseconds from 1970 a date is invalid.\<close>

definition valid_time :: "int \<Rightarrow> jsdate \<Rightarrow> bool" where
  "valid_time tz t \<longleftrightarrow> \<bar>get_time tz t\<bar> \<le> 8640000000000000"

definition determine_date :: "picker \<Rightarrow> date_option \<Rightarrow> jsdate option \<Rightarrow> exn + jsdate option" where
  "determine_date p opt otherwise =
     (case (case opt of
          NotGiven \<Rightarrow> Inr otherwise
        | TextGiven s \<Rightarrow> if s = [] then Inr otherwise else offset_string p s
        | DaysGiven n \<Rightarrow> (case n of Fin q \<Rightarrow> Inr (Some (offset_numeric p q)) | _ \<Rightarrow> Inr otherwise)
        | DateGiven t \<Rightarrow> Inr (Some t)
        | InvalidDate \<Rightarrow> Inr otherwise) of
        Inl e \<Rightarrow> Inl e
      | Inr new \<Rightarrow>
          (let new' = (case new of Some t \<Rightarrow> if valid_time (dp_zone p) t then new else otherwise | None \<Rightarrow> None)
           in Inr (map_option (\<lambda>t. daylight_saving_adjust (midnight t)) new')))"

definition restrict_min_max :: "picker \<Rightarrow> jsdate \<Rightarrow> exn + jsdate" where
  "restrict_min_max p t = (case determine_date p (dp_min p) None of Inl e \<Rightarrow> Inl e
     | Inr lo \<Rightarrow> (case determine_date p (dp_max p) None of Inl e \<Rightarrow> Inl e
     | Inr hi \<Rightarrow>
         (let new = (case lo of Some l \<Rightarrow> if t < l then l else t | None \<Rightarrow> t)
          in Inr (case hi of Some h \<Rightarrow> if h < new then h else new | None \<Rightarrow> new))))"

text \<open>\<open>new Date()\<close> is the default, so there is always a date.\<close>

definition restricted_date :: "picker \<Rightarrow> date_option \<Rightarrow> exn + jsdate" where
  "restricted_date p opt = (case determine_date p opt (Some (dp_now p)) of Inl e \<Rightarrow> Inl e
     | Inr None \<Rightarrow> Inl TypeError
     | Inr (Some t) \<Rightarrow> restrict_min_max p t)"

definition default_date :: "picker \<Rightarrow> exn + jsdate" where
  "default_date p = restricted_date p (dp_default p)"

section \<open>What may be shown\<close>

definition year_limit :: "picker \<Rightarrow> string \<Rightarrow> jsnum" where
  "year_limit p s = (if list_ex (\<lambda>c. c = CHR ''+'' \<or> c = CHR ''-'') s
     then parse_int10 s + num_of_int (full_year (dp_now p)) else parse_int10 s)"

text \<open>A limit of zero or \<open>NaN\<close> is none; a range without a colon throws.\<close>

definition is_in_range :: "picker \<Rightarrow> jsdate \<Rightarrow> exn + bool" where
  "is_in_range p t = (case determine_date p (dp_min p) None of Inl e \<Rightarrow> Inl e
     | Inr lo \<Rightarrow> (case determine_date p (dp_max p) None of Inl e \<Rightarrow> Inl e
     | Inr hi \<Rightarrow>
         (let dates = (case lo of Some l \<Rightarrow> l \<le> t | None \<Rightarrow> True) \<and> (case hi of Some h \<Rightarrow> t \<le> h | None \<Rightarrow> True);
              below = (\<lambda>n. n = Fin 0 \<or> n = NaN \<or> n \<le> num_of_int (full_year t));
              above = (\<lambda>n. n = Fin 0 \<or> n = NaN \<or> num_of_int (full_year t) \<le> n)
          in if dp_year_range p = [] then Inr dates
             else (case split_on (CHR '':'') (dp_year_range p) of
                 a # b # _ \<Rightarrow> Inr (dates \<and> below (year_limit p a) \<and> above (year_limit p b))
               | _ \<Rightarrow> Inl TypeError))))"

definition can_adjust_month :: "picker \<Rightarrow> int \<Rightarrow> int \<Rightarrow> int \<Rightarrow> exn + bool" where
  "can_adjust_month p offset year month =
     (let t = daylight_saving_adjust (new_date year (month + (if offset < 0 then offset else fst (dp_months p) * snd (dp_months p))) 1);
          t' = (if offset < 0 then set_date t (days_in_month (full_year t) (get_month t)) else t)
      in is_in_range p t')"

end
