(* ===== verification/UI_Calendar.thy ===== *)
theory UI_Calendar
  imports UI_Picker
begin

text \<open>
  What a date picker of jQuery UI draws (\<open>_generateHTML\<close>, \<open>_generateMonthYearHeader\<close> and
  \<open>_updateDatepicker\<close> in \<open>html/jquery-ui-1.13.1.custom/jquery-ui.js\<close>): the month to begin with, the
  buttons, the lists of months and years, and the weeks of each month, as data instead of HTML.
\<close>

section \<open>The month to begin with\<close>

text \<open>The last month that is drawn first, given the limits.\<close>

definition max_draw :: "picker \<Rightarrow> jsdate option \<Rightarrow> jsdate \<Rightarrow> jsdate" where
  "max_draw p lo h =
     (let mx = daylight_saving_adjust (new_date (full_year h) (get_month h - fst (dp_months p) * snd (dp_months p) + 1) (get_date h))
      in case lo of Some l \<Rightarrow> if mx < l then l else mx | None \<Rightarrow> mx)"

text \<open>A month that begins after a date is no earlier than its year.\<close>

lemma begins_after_year:
  assumes "y < 0" "t < new_date y m 1"
  shows "12 * full_year t \<le> 12 * y + m"
proof -
  define y' where "y' = y + m div 12"
  define m' where "m' = m mod 12 + 1"
  have m': "1 \<le> m'" "m' \<le> 12" using pos_mod_sign [of 12 m] pos_mod_bound [of 12 m] unfolding m'_def by linarith+
  have "t < day_of y' m' 1 * 86400000" using assms by (simp add: new_date_def make_day_def y'_def m'_def)
  then have day: "date_day t < day_of y' m' 1" unfolding date_day_def by linarith
  have "full_year t \<le> y'"
  proof (rule ccontr)
    assume "\<not> full_year t \<le> y'"
    then have "day_of (y' + 1) 1 1 \<le> day_of (full_year t) 1 1" using year_days_mono [of y' "full_year t - 1"] by (simp add: new_year_day)
    moreover have "day_of (full_year t) 1 1 \<le> date_day t"
      using civil_fields [of t] year_starts_before by metis
    moreover have "day_of y' m' 1 < day_of (y' + 1) 1 1"
      using m' month_days_bounds [OF m', of y'] by (intro month_in_year) auto
    ultimately show False using day by linarith
  qed
  then have "12 * full_year t \<le> 12 * y + 12 * (m div 12)" by (simp add: y'_def)
  moreover have "12 * (m div 12) \<le> m" using mult_div_mod_eq [of 12 m] pos_mod_sign [of 12 m] by linarith
  ultimately show ?thesis by linarith
qed

function clamp_draw :: "jsdate \<Rightarrow> int \<Rightarrow> int \<Rightarrow> int \<times> int" where
  "clamp_draw mx y m =
     (if mx < daylight_saving_adjust (new_date y m 1) then
        (if m - 1 < 0 then clamp_draw mx (y - 1) 11 else clamp_draw mx y (m - 1))
      else (y, m))"
  by pat_completeness auto
termination
proof (relation "measure (\<lambda>(mx, y, m). nat (12 * y + (if m < 0 then 12 else m) + 12 * \<bar>full_year mx\<bar> + 12))")
  fix mx y m :: int
  assume "mx < daylight_saving_adjust (new_date y m 1)"
  then have c: "mx < new_date y m 1" by simp
  have "0 < 12 * y + (if m < 0 then 12 else m) + 12 * \<bar>full_year mx\<bar> + 12"
  proof (cases "y < 0")
    case True
    then show ?thesis using begins_after_year [OF True c] abs_ge_minus_self [of "full_year mx"] by (cases "m < 0"; simp; linarith)
  next
    case False
    then show ?thesis using abs_ge_zero [of "full_year mx"] by (cases "m < 0"; simp; linarith)
  qed
  then show "m - 1 < 0 \<Longrightarrow> ((mx, y - 1, 11), (mx, y, m)) \<in> measure (\<lambda>(mx, y, m). nat (12 * y + (if m < 0 then 12 else m) + 12 * \<bar>full_year mx\<bar> + 12))"
    and "\<not> m - 1 < 0 \<Longrightarrow> ((mx, y, m - 1), (mx, y, m)) \<in> measure (\<lambda>(mx, y, m). nat (12 * y + (if m < 0 then 12 else m) + 12 * \<bar>full_year mx\<bar> + 12))"
    by auto
qed simp

declare clamp_draw.simps [simp del]

definition drawn_month :: "picker \<Rightarrow> jsdate option \<Rightarrow> jsdate option \<Rightarrow> int \<times> int" where
  "drawn_month p lo hi =
     (let m = draw_month p - dp_current_pos p;
          (y', m') = (if m < 0 then (draw_year p - 1, m + 12) else (draw_year p, m))
      in case hi of Some h \<Rightarrow> clamp_draw (max_draw p lo h) y' m' | None \<Rightarrow> (y', m'))"

section \<open>The lists of months and years\<close>

definition list_of_months :: "picker \<Rightarrow> jsdate option \<Rightarrow> jsdate option \<Rightarrow> int \<Rightarrow> bool \<Rightarrow> int list option" where
  "list_of_months p lo hi y secondary =
     (if secondary \<or> \<not> dp_change_month p then None
      else Some (filter (\<lambda>m. (case lo of Some l \<Rightarrow> full_year l = y \<longrightarrow> get_month l \<le> m | None \<Rightarrow> True) \<and>
          (case hi of Some h \<Rightarrow> full_year h = y \<longrightarrow> m \<le> get_month h | None \<Rightarrow> True)) [0..11]))"

text \<open>\<open>parseInt\<close> of a year; one beyond \<open>2 ^ 53\<close> is not rounded.\<close>

definition read_year :: "string \<Rightarrow> int option" where
  "read_year s = (let (neg, t) = split_sign (dropWhile is_space s); ds = takeWhile is_digit t
     in if ds = [] then None else Some (if neg then - int_of_digits ds else int_of_digits ds))"

fun matches_c_offset :: "string \<Rightarrow> bool" where
  "matches_c_offset (c # d # s) \<longleftrightarrow> c = CHR ''c'' \<and> (d = CHR ''+'' \<or> d = CHR ''-'') \<or> matches_c_offset (d # s)"
| "matches_c_offset _ \<longleftrightarrow> False"

definition determine_year :: "int \<Rightarrow> int \<Rightarrow> string \<Rightarrow> int" where
  "determine_year drawn this s =
     (case (if matches_c_offset s then map_option ((+) drawn) (read_year (drop 1 s))
        else if list_ex (\<lambda>c. c = CHR ''+'' \<or> c = CHR ''-'') s then map_option ((+) this) (read_year s)
        else read_year s) of Some y \<Rightarrow> y | None \<Rightarrow> this)"

definition list_of_years :: "picker \<Rightarrow> jsdate option \<Rightarrow> jsdate option \<Rightarrow> int \<Rightarrow> bool \<Rightarrow> int list option" where
  "list_of_years p lo hi drawn secondary =
     (if secondary \<or> \<not> dp_change_year p then None
      else
        (let this = full_year (dp_now p);
             (a, b) = (case split_on (CHR '':'') (dp_year_range p) of a # b # _ \<Rightarrow> (a, b) | [a] \<Rightarrow> (a, []) | [] \<Rightarrow> ([], []));
             first = determine_year drawn this a;
             last = max first (determine_year drawn this b);
             first' = (case lo of Some l \<Rightarrow> max first (full_year l) | None \<Rightarrow> first);
             last' = (case hi of Some h \<Rightarrow> min last (full_year h) | None \<Rightarrow> last)
         in Some [first'..last']))"

section \<open>Days and weeks\<close>

text \<open>The remainder takes the sign of the dividend.\<close>

definition js_rem :: "int \<Rightarrow> int \<Rightarrow> int" where
  "js_rem a b = (if a < 0 then - ((- a) mod b) else a mod b)"

record drawing =
  dr_lo :: "jsdate option"
  dr_hi :: "jsdate option"
  dr_today :: jsdate
  dr_current :: jsdate
  dr_default :: jsdate

definition draw_cell :: "picker \<Rightarrow> drawing \<Rightarrow> int \<Rightarrow> jsdate \<Rightarrow> int \<Rightarrow> jsdate \<Rightarrow> day_cell" where
  "draw_cell p d month selected dow t =
     (let other = (get_month t \<noteq> month) in \<lparr>
        cell_date = t,
        other_month = other,
        weekend = (5 \<le> js_rem (dow + dp_first_day p + 6) 7),
        cell_over = (t = selected \<and> month = selected_month p \<and> dp_key_event p \<or> dr_default d = t \<and> dr_default d = selected),
        unselectable = (other \<and> \<not> dp_select_other p \<or> \<not> dp_selectable p t \<or>
          (case dr_lo d of Some l \<Rightarrow> t < l | None \<Rightarrow> False) \<or> (case dr_hi d of Some h \<Rightarrow> h < t | None \<Rightarrow> False)),
        cell_current = ((\<not> other \<or> dp_show_other p) \<and> t = dr_current d),
        cell_today = ((\<not> other \<or> dp_show_other p) \<and> t = dr_today d)\<rparr>)"

definition next_day :: "jsdate \<Rightarrow> jsdate" where
  "next_day t = daylight_saving_adjust (set_date t (get_date t + 1))"

text \<open>The days of a week from a column on, and the date after them.\<close>

fun draw_days :: "picker \<Rightarrow> drawing \<Rightarrow> int \<Rightarrow> jsdate \<Rightarrow> int list \<Rightarrow> jsdate \<Rightarrow> day_cell list \<times> jsdate" where
  "draw_days p d month selected [] t = ([], t)"
| "draw_days p d month selected (dow # ds) t =
     (let (cs, t') = draw_days p d month selected ds (next_day t) in (draw_cell p d month selected dow t # cs, t'))"

fun draw_weeks :: "picker \<Rightarrow> drawing \<Rightarrow> int \<Rightarrow> jsdate \<Rightarrow> nat \<Rightarrow> jsdate \<Rightarrow> (int option \<times> day_cell list) list" where
  "draw_weeks p d month selected 0 t = []"
| "draw_weeks p d month selected (Suc n) t =
     (let (cs, t') = draw_days p d month selected [0..6] t
      in (if dp_show_week p then Some (dp_week p t) else None, cs) # draw_weeks p d month selected n t')"

definition lead_days :: "picker \<Rightarrow> int \<Rightarrow> int \<Rightarrow> int" where
  "lead_days p y m = js_rem (first_day_of_month y m - dp_first_day p + 7) 7"

definition week_rows :: "picker \<Rightarrow> int \<Rightarrow> int \<Rightarrow> int" where
  "week_rows p y m = (lead_days p y m + days_in_month y m + 6) div 7"

definition multi_month :: "picker \<Rightarrow> bool" where
  "multi_month p \<longleftrightarrow> dp_months p \<noteq> (1, 1)"

text \<open>
  A month: the selected day of the picker is clipped to it if it is the selected month. In a row of
  months none has fewer weeks than those before it.
\<close>

definition draw_one :: "picker \<Rightarrow> drawing \<Rightarrow> bool \<Rightarrow> int \<Rightarrow> int \<Rightarrow> int \<Rightarrow> int \<Rightarrow> month_view \<times> int \<times> int" where
  "draw_one p d secondary max_rows y m day =
     (let selected = daylight_saving_adjust (new_date y m day);
          len = days_in_month y m;
          day' = (if y = selected_year p \<and> m = selected_month p then min day len else day);
          rows = (if multi_month p then max max_rows (week_rows p y m) else week_rows p y m);
          start = daylight_saving_adjust (new_date y m (1 - lead_days p y m))
      in (\<lparr>view_year = y, view_month = m,
            month_choices = list_of_months p (dr_lo d) (dr_hi d) y secondary,
            year_choices = list_of_years p (dr_lo d) (dr_hi d) y secondary,
            view_weeks = draw_weeks p d m selected (nat rows) start\<rparr>, rows, day'))"

definition following_month :: "int \<times> int \<Rightarrow> int \<times> int" where
  "following_month ym = (if 11 < snd ym + 1 then (fst ym + 1, 0) else (fst ym, snd ym + 1))"

text \<open>The columns of a row, then the rows; the first month of all is not secondary.\<close>

fun draw_columns :: "picker \<Rightarrow> drawing \<Rightarrow> nat \<Rightarrow> bool \<Rightarrow> int \<Rightarrow> int \<times> int \<Rightarrow> int \<Rightarrow> month_view list \<times> (int \<times> int) \<times> int" where
  "draw_columns p d 0 secondary max_rows ym day = ([], ym, day)"
| "draw_columns p d (Suc n) secondary max_rows ym day =
     (let (v, rows, day') = draw_one p d secondary max_rows (fst ym) (snd ym) day;
          (vs, r) = draw_columns p d n True rows (following_month ym) day'
      in (v # vs, r))"

fun draw_rows :: "picker \<Rightarrow> drawing \<Rightarrow> nat \<Rightarrow> bool \<Rightarrow> int \<times> int \<Rightarrow> int \<Rightarrow> month_view list list \<times> int" where
  "draw_rows p d 0 secondary ym day = ([], day)"
| "draw_rows p d (Suc n) secondary ym day =
     (let (vs, ym', day') = draw_columns p d (nat (snd (dp_months p))) secondary 4 ym day;
          (vss, day'') = draw_rows p d n True ym' day'
      in (vs # vss, day''))"

section \<open>The calendar\<close>

text \<open>A date that is not current is drawn as 9 October 9999.\<close>

definition drawn_current :: "picker \<Rightarrow> jsdate" where
  "drawn_current p = daylight_saving_adjust (if current_day p = 0 then new_date 9999 9 9
     else new_date (current_year p) (current_month p) (current_day p))"

definition drawn_today :: "picker \<Rightarrow> jsdate" where
  "drawn_today p = daylight_saving_adjust (new_date (full_year (dp_now p)) (get_month (dp_now p)) (get_date (dp_now p)))"

definition goto_date :: "picker \<Rightarrow> jsdate" where
  "goto_date p = (if dp_goto_current p \<and> current_day p \<noteq> 0 then drawn_current p else drawn_today p)"

text \<open>The calendar and the selected day after it is drawn\<close>

definition generate_calendar :: "picker \<Rightarrow> jsdate option \<Rightarrow> jsdate option \<Rightarrow> exn + (calendar \<times> int)" where
  "generate_calendar p lo hi =
     (case can_adjust_month p (- 1) (draw_year p) (draw_month p) of Inl e \<Rightarrow> Inl e | Inr prev \<Rightarrow>
     (case can_adjust_month p 1 (draw_year p) (draw_month p) of Inl e \<Rightarrow> Inl e | Inr nxt \<Rightarrow>
     (case (if dp_button_panel p then is_in_range p (goto_date p) else Inr False) of Inl e \<Rightarrow> Inl e | Inr today \<Rightarrow>
     (case default_date p of Inl e \<Rightarrow> Inl e | Inr def \<Rightarrow>
       (let d = \<lparr>dr_lo = lo, dr_hi = hi, dr_today = drawn_today p, dr_current = drawn_current p, dr_default = def\<rparr>;
            (vss, day) = draw_rows p d (nat (fst (dp_months p))) False (draw_year p, draw_month p) (selected_day p)
        in Inr (\<lparr>prev_enabled = prev, next_enabled = nxt, today_button = today, months_shown = vss\<rparr>, day))))))"

definition update_datepicker :: "picker stmt" where
  "update_datepicker = block
    [upd (\<lambda>p. p\<lparr>dp_view := None\<rparr>),
     bind_exp (\<lambda>p. determine_date p (dp_min p) None) (\<lambda>lo.
       bind_exp (\<lambda>p. determine_date p (dp_max p) None) (\<lambda>hi. block
         [upd (\<lambda>p. let (y, m) = drawn_month p lo hi in p\<lparr>draw_year := y, draw_month := m\<rparr>),
          bind_exp (\<lambda>p. generate_calendar p lo hi) (\<lambda>(cal, day).
            upd (\<lambda>p. p\<lparr>selected_day := day, dp_key_event := False, dp_view := Some cal\<rparr>))]))]"

end
