(* ===== verification/UI_Datepicker.thy ===== *)
theory UI_Datepicker
  imports UI_Calendar
begin

text \<open>
  The operations of a date picker of jQuery UI (\<open>Datepicker.prototype\<close> in
  \<open>html/jquery-ui-1.13.1.custom/jquery-ui.js\<close>): setting and reading its date, its buttons, lists and
  days, the keys, opening and closing, and its options, on one picker. The events of the browser
  are the datatype \<open>picker_event\<close>.
\<close>

section \<open>Changing the selection\<close>

definition tell :: "picker_note \<Rightarrow> picker \<Rightarrow> picker" where
  "tell n p = p\<lparr>dp_told := dp_told p @ [n]\<rparr>"

definition notify_change :: "picker stmt" where
  "notify_change = upd (\<lambda>p. tell (MonthChanged (selected_year p) (selected_month p + 1)) p)"

definition take_date :: "jsdate \<Rightarrow> picker \<Rightarrow> picker" where
  "take_date t p = p\<lparr>selected_day := get_date t, selected_month := get_month t, draw_month := get_month t,
     selected_year := full_year t, draw_year := full_year t\<rparr>"

datatype period = ByDay | ByMonth | ByYear | NoPeriod

definition adjusted_date :: "int \<Rightarrow> period \<Rightarrow> picker \<Rightarrow> jsdate" where
  "adjusted_date offset period p =
     (let year = selected_year p + (if period = ByYear then offset else 0);
          month = selected_month p + (if period = ByMonth then offset else 0);
          day = min (selected_day p) (days_in_month year month) + (if period = ByDay then offset else 0)
      in daylight_saving_adjust (new_date year month day))"

definition adjust_inst_date :: "int \<Rightarrow> period \<Rightarrow> picker stmt" where
  "adjust_inst_date offset period = bind_exp (\<lambda>p. restrict_min_max p (adjusted_date offset period p)) (\<lambda>t. block
     [upd (take_date t),
      if period = ByMonth \<or> period = ByYear then notify_change else skip])"

definition adjust_date :: "int \<Rightarrow> period \<Rightarrow> picker stmt" where
  "adjust_date offset period = guard (\<lambda>p. \<not> dp_disabled p) (block [adjust_inst_date offset period, update_datepicker])"

definition goto_today :: "picker stmt" where
  "goto_today = block
    [upd (\<lambda>p. if dp_goto_current p \<and> current_day p \<noteq> 0
       then p\<lparr>selected_day := current_day p, selected_month := current_month p, draw_month := current_month p,
         selected_year := current_year p, draw_year := current_year p\<rparr>
       else take_date (dp_now p) p),
     notify_change,
     adjust_date 0 NoPeriod]"

text \<open>The month or year that was chosen in a list\<close>

definition select_month_year :: "int \<Rightarrow> bool \<Rightarrow> picker stmt" where
  "select_month_year v by_month = block
    [upd (\<lambda>p. if by_month then p\<lparr>selected_month := v, draw_month := v\<rparr> else p\<lparr>selected_year := v, draw_year := v\<rparr>),
     notify_change,
     adjust_date 0 NoPeriod]"

section \<open>The input\<close>

text \<open>\<open>_formatDate\<close> of the current date, which is the selected one if no day is given\<close>

definition format_current :: "picker stmt" where
  "format_current = upd (\<lambda>p. p\<lparr>current_day := selected_day p, current_month := selected_month p, current_year := selected_year p\<rparr>)"

definition current_text :: "picker \<Rightarrow> string" where
  "current_text p = format_date (dp_zone p) (dp_format p)
     (Some (daylight_saving_adjust (new_date (current_year p) (current_month p) (current_day p)))) (get_format_config p)"

definition set_input :: "string \<Rightarrow> picker stmt" where
  "set_input s = upd (\<lambda>p. if dp_input p = None then p else p\<lparr>dp_input := Some s\<rparr>)"

text \<open>Without a format of its own the alternate field uses the one of the input.\<close>

definition update_alternate :: "picker stmt" where
  "update_alternate = upd (\<lambda>p. case dp_alt_format p of
       None \<Rightarrow> p
     | Some f \<Rightarrow> p\<lparr>dp_alt := format_date (dp_zone p) (if f = [] then dp_format p else f) (current_date p) (get_format_config p)\<rparr>)"

definition hide_datepicker :: "picker stmt" where
  "hide_datepicker = guard dp_showing (upd (\<lambda>p. p\<lparr>dp_showing := False, dp_last_input := False\<rparr>))"

definition select_date :: "string \<Rightarrow> picker stmt" where
  "select_date s = block
    [set_input s,
     update_alternate,
     upd (\<lambda>p. if dp_on_select p then tell (DateSelected s) p else if dp_input p \<noteq> None then tell InputChanged p else p),
     ite dp_inline update_datepicker (block [hide_datepicker, upd (\<lambda>p. p\<lparr>dp_last_input := False\<rparr>)])]"

definition clear_date :: "picker stmt" where
  "clear_date = select_date []"

text \<open>A click on a day\<close>

definition select_day :: "int \<Rightarrow> int \<Rightarrow> int \<Rightarrow> bool \<Rightarrow> picker stmt" where
  "select_day day month year is_unselectable = guard (\<lambda>p. \<not> is_unselectable \<and> \<not> dp_disabled p) (block
    [upd (\<lambda>p. p\<lparr>selected_day := day, current_day := day, selected_month := month, current_month := month,
       selected_year := year, current_year := year\<rparr>),
     (if day = 0 then format_current else skip),
     bind_val current_text select_date])"

text \<open>\<open>_setDate\<close>; a date that is not given clears the input.\<close>

definition set_picker_date :: "date_option \<Rightarrow> bool \<Rightarrow> picker stmt" where
  "set_picker_date opt no_change = bind_val (\<lambda>p. (selected_month p, selected_year p)) (\<lambda>(m0, y0).
     bind_exp (\<lambda>p. restricted_date p opt) (\<lambda>t. block
       [upd (\<lambda>p. take_date t (p\<lparr>current_day := get_date t, current_month := get_month t, current_year := full_year t\<rparr>)),
        guard (\<lambda>p. (m0 \<noteq> selected_month p \<or> y0 \<noteq> selected_year p) \<and> \<not> no_change) notify_change,
        adjust_inst_date 0 NoPeriod,
        guard (\<lambda>p. dp_input p \<noteq> None)
          (if opt = NotGiven \<or> opt = TextGiven [] \<or> opt = DaysGiven (Fin 0) \<or> opt = DaysGiven NaN then set_input []
           else block [format_current, bind_val current_text set_input])]))"

definition set_date_datepicker :: "date_option \<Rightarrow> picker stmt" where
  "set_date_datepicker opt = block [set_picker_date opt False, update_datepicker, update_alternate]"

definition field_date :: "picker \<Rightarrow> string \<Rightarrow> parsed_date" where
  "field_date p s = parse_date (dp_zone p) (full_year (dp_now p)) (Some (dp_format p)) (Some s) (get_format_config p)"

text \<open>\<open>_setDateFromField\<close>; text that is no date counts as none if there is no default.\<close>

definition set_date_from_field :: "bool \<Rightarrow> picker stmt" where
  "set_date_from_field no_default = bind_val dp_input (\<lambda>input. case input of
       None \<Rightarrow> throw TypeError
     | Some s \<Rightarrow> guard (\<lambda>p. dp_last p \<noteq> Some s) (block
         [upd (\<lambda>p. p\<lparr>dp_last := Some s\<rparr>),
          bind_exp default_date (\<lambda>otherwise.
            bind_exp (\<lambda>p. case field_date p s of
                ADate t \<Rightarrow> Inr (t, s)
              | NoDate \<Rightarrow> Inr (otherwise, s)
              | Fails _ \<Rightarrow> Inr (otherwise, if no_default then [] else s)
              | RunsForever \<Rightarrow> Inl Unresponsive) (\<lambda>(t, dates). block
            [upd (\<lambda>p. take_date t (if dates = [] then p\<lparr>current_day := 0, current_month := 0, current_year := 0\<rparr>
                else p\<lparr>current_day := get_date t, current_month := get_month t, current_year := full_year t\<rparr>)),
             adjust_inst_date 0 NoPeriod]))]))"

text \<open>What \<open>_getDateDatepicker\<close> does before it returns the current date\<close>

definition get_date_datepicker :: "bool \<Rightarrow> picker stmt" where
  "get_date_datepicker no_default = guard (\<lambda>p. \<not> dp_inline p) (set_date_from_field no_default)"

section \<open>Opening\<close>

definition show_datepicker :: "picker stmt" where
  "show_datepicker = guard (\<lambda>p. \<not> dp_disabled p \<and> \<not> dp_last_input p) (block
    [upd (\<lambda>p. p\<lparr>dp_last := None, dp_last_input := True\<rparr>),
     set_date_from_field False,
     update_datepicker,
     guard (\<lambda>p. \<not> dp_inline p) (upd (\<lambda>p. p\<lparr>dp_showing := True\<rparr>))])"

text \<open>A new picker; one that is inline shows its default date at once.\<close>

definition inline_datepicker :: "bool \<Rightarrow> picker stmt" where
  "inline_datepicker disabled = bind_exp default_date (\<lambda>t. block
    [set_picker_date (DateGiven t) True,
     update_datepicker,
     update_alternate,
     if disabled then upd (\<lambda>p. p\<lparr>dp_disabled := True\<rparr>) else skip])"

definition attach_datepicker :: "bool \<Rightarrow> picker stmt" where
  "attach_datepicker disabled = block
    [upd (\<lambda>p. p\<lparr>selected_day := 0, selected_month := 0, selected_year := 0, draw_month := 0, draw_year := 0\<rparr>),
     ite dp_inline (inline_datepicker disabled) (if disabled then upd (\<lambda>p. p\<lparr>dp_disabled := True\<rparr>) else skip)]"

section \<open>Keys\<close>

definition cells_shown :: "picker \<Rightarrow> day_cell list" where
  "cells_shown p = (case dp_view p of
       None \<Rightarrow> []
     | Some cal \<Rightarrow> concat (map (\<lambda>v. concat (map snd (view_weeks v))) (concat (months_shown cal))))"

text \<open>Enter selects the first highlighted day that is not current.\<close>

definition select_highlighted :: "picker stmt" where
  "select_highlighted = block
    [bind_val (\<lambda>p. find (\<lambda>c. cell_over c \<and> \<not> cell_current c) (cells_shown p)) (\<lambda>sel. case sel of
        Some c \<Rightarrow> bind_val (\<lambda>p. (selected_month p, selected_year p)) (\<lambda>(m, y). select_day (get_date (cell_date c)) m y (unselectable c))
      | None \<Rightarrow> skip),
     ite dp_on_select (block [format_current, bind_val current_text (\<lambda>s. upd (tell (DateSelected s)))]) hide_datepicker]"

record key_press =
  key_code :: int
  ctrl_key :: bool
  meta_key :: bool
  alt_key :: bool

definition month_step :: "key_press \<Rightarrow> int \<Rightarrow> picker stmt" where
  "month_step k dir = bind_val (\<lambda>p. dir * (if ctrl_key k then dp_big_step p else dp_step p)) (\<lambda>n. adjust_date n ByMonth)"

definition arrow_key :: "key_press \<Rightarrow> int \<Rightarrow> picker stmt" where
  "arrow_key k dir = block
    [if ctrl_key k \<or> meta_key k then bind_val (\<lambda>p. if dp_rtl p then - dir else dir) (\<lambda>n. adjust_date n ByDay) else skip,
     if alt_key k then month_step k dir else skip]"

definition do_key_down :: "key_press \<Rightarrow> picker stmt" where
  "do_key_down k = (let command = (ctrl_key k \<or> meta_key k) in block
    [upd (\<lambda>p. p\<lparr>dp_key_event := True\<rparr>),
     ite dp_showing
       (if key_code k = 9 \<or> key_code k = 27 then hide_datepicker
        else if key_code k = 13 then select_highlighted
        else if key_code k = 33 then month_step k (- 1)
        else if key_code k = 34 then month_step k 1
        else if key_code k = 35 then (if command then clear_date else skip)
        else if key_code k = 36 then (if command then goto_today else skip)
        else if key_code k = 37 then arrow_key k (- 1)
        else if key_code k = 38 then (if command then adjust_date (- 7) ByDay else skip)
        else if key_code k = 39 then arrow_key k 1
        else if key_code k = 40 then (if command then adjust_date 7 ByDay else skip)
        else skip)
       (if key_code k = 36 \<and> ctrl_key k then show_datepicker else skip)])"

text \<open>Whether a character may be typed\<close>

definition do_key_press :: "picker \<Rightarrow> key_press \<Rightarrow> char \<Rightarrow> bool" where
  "do_key_press p k c \<longleftrightarrow> \<not> dp_constrain p \<or> ctrl_key k \<or> meta_key k \<or> code c < 32 \<or>
     (case possible_chars (dp_format p) of None \<Rightarrow> True | Some cs \<Rightarrow> cs = [] \<or> c \<in> set cs)"

text \<open>After a key, the input is read if it holds a date. An exception ends that.\<close>

definition do_key_up :: "picker stmt" where
  "do_key_up = bind_val dp_input (\<lambda>input. case input of
       None \<Rightarrow> throw TypeError
     | Some s \<Rightarrow> guard (\<lambda>p. dp_last p \<noteq> Some s) (bind_val (\<lambda>p. field_date p s) (\<lambda>d. case d of
         ADate _ \<Rightarrow> (\<lambda>p. case block [set_date_from_field False, update_alternate, update_datepicker] p of
             (Some Unresponsive, p') \<Rightarrow> (Some Unresponsive, p') | (_, p') \<Rightarrow> (None, p'))
       | RunsForever \<Rightarrow> throw Unresponsive
       | _ \<Rightarrow> skip)))"

section \<open>Options\<close>

datatype picker_setting =
    SetFormat string
  | SetMin date_option
  | SetMax date_option
  | SetDefault date_option
  | SetYearRange string
  | SetMonths int int
  | SetStep int
  | SetNames "string list" "string list" "string list" "string list"
  | SetDisabled bool

definition extend_one :: "picker_setting \<Rightarrow> picker \<Rightarrow> picker" where
  "extend_one o' p = (case o' of
       SetFormat f \<Rightarrow> p\<lparr>dp_format := f\<rparr>
     | SetMin d \<Rightarrow> p\<lparr>dp_min := d\<rparr>
     | SetMax d \<Rightarrow> p\<lparr>dp_max := d\<rparr>
     | SetDefault d \<Rightarrow> p\<lparr>dp_default := d\<rparr>
     | SetYearRange r \<Rightarrow> p\<lparr>dp_year_range := r\<rparr>
     | SetMonths r c \<Rightarrow> p\<lparr>dp_months := (r, c)\<rparr>
     | SetStep n \<Rightarrow> p\<lparr>dp_step := n\<rparr>
     | SetNames ds dl ms ml \<Rightarrow> p\<lparr>dp_settings := (dp_settings p)\<lparr>given_days_short := Some ds, given_days := Some dl,
         given_months_short := Some ms, given_months := Some ml\<rparr>\<rparr>
     | SetDisabled b \<Rightarrow> p)"

text \<open>Limits that were there are written in a new format, unless they are new too.\<close>

definition reformat_limits :: "picker_setting list \<Rightarrow> jsdate option \<Rightarrow> jsdate option \<Rightarrow> picker \<Rightarrow> picker" where
  "reformat_limits os lo hi p =
     (let given = list_ex (\<lambda>o'. case o' of SetFormat _ \<Rightarrow> True | _ \<Rightarrow> False) os;
          write = (\<lambda>t. TextGiven (format_date (dp_zone p) (dp_format p) (Some t) (get_format_config p)));
          p' = (case lo of Some t \<Rightarrow> if given \<and> \<not> list_ex (\<lambda>o'. case o' of SetMin _ \<Rightarrow> True | _ \<Rightarrow> False) os
            then p\<lparr>dp_min := write t\<rparr> else p | None \<Rightarrow> p)
      in case hi of Some t \<Rightarrow> if given \<and> \<not> list_ex (\<lambda>o'. case o' of SetMax _ \<Rightarrow> True | _ \<Rightarrow> False) os
            then p'\<lparr>dp_max := write t\<rparr> else p' | None \<Rightarrow> p')"

definition enable_or_disable :: "picker_setting list \<Rightarrow> picker \<Rightarrow> picker" where
  "enable_or_disable os p = fold (\<lambda>o' p. case o' of SetDisabled b \<Rightarrow> p\<lparr>dp_disabled := b\<rparr> | _ \<Rightarrow> p) os p"

definition option_datepicker :: "picker_setting list \<Rightarrow> picker stmt" where
  "option_datepicker os = block
    [hide_datepicker,
     get_date_datepicker True,
     bind_val current_date (\<lambda>t.
       bind_exp (\<lambda>p. determine_date p (dp_min p) None) (\<lambda>lo.
       bind_exp (\<lambda>p. determine_date p (dp_max p) None) (\<lambda>hi. block
         [upd (fold extend_one os),
          upd (reformat_limits os lo hi),
          upd (enable_or_disable os),
          set_picker_date (case t of Some t' \<Rightarrow> DateGiven t' | None \<Rightarrow> NotGiven) False,
          update_alternate,
          update_datepicker])))]"

section \<open>Events\<close>

datatype picker_event =
    PrevClicked | NextClicked | TodayClicked | CloseClicked
  | DayClicked nat                  \<comment> \<open>the day in the order drawn\<close>
  | MonthChosen int
  | YearChosen int
  | KeyDown key_press
  | CharTyped key_press char
  | TextChanged string
  | KeyUp
  | FieldFocused
  | ClickedElsewhere
  | DateSet date_option
  | DateAsked bool
  | OptionsSet "picker_setting list"
  | TimeIs jsdate

definition view_has :: "(calendar \<Rightarrow> bool) \<Rightarrow> picker \<Rightarrow> bool" where
  "view_has f p = (case dp_view p of None \<Rightarrow> False | Some cal \<Rightarrow> f cal)"

text \<open>The first month has the lists.\<close>

definition choice_drawn :: "(month_view \<Rightarrow> int list option) \<Rightarrow> int \<Rightarrow> calendar \<Rightarrow> bool" where
  "choice_drawn f v cal = (case concat (months_shown cal) of
       mv # _ \<Rightarrow> (case f mv of Some vs \<Rightarrow> v \<in> set vs | None \<Rightarrow> False)
     | [] \<Rightarrow> False)"

text \<open>A day of another month has no link if those days are not shown.\<close>

definition day_clicked :: "nat \<Rightarrow> picker stmt" where
  "day_clicked n = bind_val cells_shown (\<lambda>cs. if n < length cs then
       (let c = cs ! n; t = cell_date c in
        guard (\<lambda>p. \<not> unselectable c \<and> (\<not> other_month c \<or> dp_show_other p))
          (select_day (get_date t) (get_month t) (full_year t) (unselectable c)))
     else skip)"

definition picker_handler :: "picker_event \<Rightarrow> picker stmt" where
  "picker_handler e = (case e of
       PrevClicked \<Rightarrow> guard (view_has prev_enabled) (bind_val dp_step (\<lambda>n. adjust_date (- n) ByMonth))
     | NextClicked \<Rightarrow> guard (view_has next_enabled) (bind_val dp_step (\<lambda>n. adjust_date n ByMonth))
     | TodayClicked \<Rightarrow> guard (view_has today_button) goto_today
     | CloseClicked \<Rightarrow> guard (\<lambda>p. \<not> dp_inline p) hide_datepicker
     | DayClicked n \<Rightarrow> day_clicked n
     | MonthChosen m \<Rightarrow> guard (view_has (choice_drawn month_choices m)) (select_month_year m True)
     | YearChosen y \<Rightarrow> guard (view_has (choice_drawn year_choices y)) (select_month_year y False)
     | KeyDown k \<Rightarrow> guard (\<lambda>p. \<not> dp_inline p) (do_key_down k)
     | CharTyped k c \<Rightarrow> guard (\<lambda>p. \<not> dp_inline p \<and> do_key_press p k c)
         (bind_val dp_input (\<lambda>s. case s of Some s \<Rightarrow> set_input (s @ [c]) | None \<Rightarrow> skip))
     | TextChanged s \<Rightarrow> guard (\<lambda>p. \<not> dp_inline p) (set_input s)
     | KeyUp \<Rightarrow> guard (\<lambda>p. \<not> dp_inline p) do_key_up
     | FieldFocused \<Rightarrow> guard (\<lambda>p. \<not> dp_inline p) show_datepicker
     | ClickedElsewhere \<Rightarrow> hide_datepicker
     | DateSet opt \<Rightarrow> set_date_datepicker opt
     | DateAsked no_default \<Rightarrow> get_date_datepicker no_default
     | OptionsSet os \<Rightarrow> option_datepicker os
     | TimeIs t \<Rightarrow> upd (\<lambda>p. p\<lparr>dp_now := t\<rparr>))"

end
