(* ===== verification/UI_Datepicker_Props.thy ===== *)
theory UI_Datepicker_Props
  imports UI_Datepicker Event_Loop
begin

text \<open>
  What holds of a date picker: its selection stays a date within its limits, if it has any; a step of
  months keeps the day as far as the month and the limits have it; a day that is clicked is read back.
\<close>

section \<open>Limits\<close>

text \<open>
  Each limit is a date or none, as it is by default, and both allow the day \<open>mid\<close>. A lower limit is not
  before the year 100: \<open>new Date\<close> takes the years from 0 to 99 as those of the twentieth century.
\<close>

definition limit_of :: "date_option \<Rightarrow> jsdate option" where
  "limit_of d = (case d of DateGiven t \<Rightarrow> Some (midnight t) | _ \<Rightarrow> None)"

definition lower_limit :: "picker \<Rightarrow> jsdate option" where
  "lower_limit p = limit_of (dp_min p)"

definition upper_limit :: "picker \<Rightarrow> jsdate option" where
  "upper_limit p = limit_of (dp_max p)"

definition not_before :: "jsdate option \<Rightarrow> jsdate \<Rightarrow> bool" where
  "not_before lo t \<longleftrightarrow> (case lo of Some l \<Rightarrow> l \<le> t | None \<Rightarrow> True)"

definition not_after :: "jsdate option \<Rightarrow> jsdate \<Rightarrow> bool" where
  "not_after hi t \<longleftrightarrow> (case hi of Some h \<Rightarrow> t \<le> h | None \<Rightarrow> True)"

definition allows :: "picker \<Rightarrow> jsdate \<Rightarrow> bool" where
  "allows p t \<longleftrightarrow> not_before (lower_limit p) t \<and> not_after (upper_limit p) t"

definition plain_limit :: "int \<Rightarrow> date_option \<Rightarrow> bool" where
  "plain_limit tz d = (case d of
       DateGiven t \<Rightarrow> valid_time tz t
     | DaysGiven _ \<Rightarrow> False
     | TextGiven s \<Rightarrow> s = []
     | _ \<Rightarrow> True)"

definition lower_ok :: "int \<Rightarrow> jsdate \<Rightarrow> date_option \<Rightarrow> bool" where
  "lower_ok tz mid d \<longleftrightarrow> plain_limit tz d \<and> not_before (limit_of d) mid \<and>
     (case limit_of d of Some l \<Rightarrow> 100 \<le> full_year l | None \<Rightarrow> True)"

definition upper_ok :: "int \<Rightarrow> jsdate \<Rightarrow> date_option \<Rightarrow> bool" where
  "upper_ok tz mid d \<longleftrightarrow> plain_limit tz d \<and> not_after (limit_of d) mid"

definition limited :: "int \<Rightarrow> jsdate \<Rightarrow> picker \<Rightarrow> bool" where
  "limited tz mid p \<longleftrightarrow> dp_zone p = tz \<and> \<not> dp_disabled p \<and> lower_ok tz mid (dp_min p) \<and> upper_ok tz mid (dp_max p)"

definition shows_date :: "jsdate \<Rightarrow> picker \<Rightarrow> bool" where
  "shows_date t p \<longleftrightarrow> selected_day p = get_date t \<and> selected_month p = get_month t \<and> selected_year p = full_year t"

definition selection_ok :: "picker \<Rightarrow> bool" where
  "selection_ok p \<longleftrightarrow> (\<exists>t. midnight t = t \<and> allows p t \<and> shows_date t p)"

definition cell_ok :: "picker \<Rightarrow> day_cell \<Rightarrow> bool" where
  "cell_ok p c \<longleftrightarrow> midnight (cell_date c) = cell_date c \<and> (\<not> unselectable c \<longrightarrow> allows p (cell_date c))"

definition view_ok :: "picker \<Rightarrow> bool" where
  "view_ok p \<longleftrightarrow> list_all (cell_ok p) (cells_shown p)"

lemma midnight_days [simp]: "midnight (n * 86400000) = n * 86400000"
  by (simp add: midnight_def)

lemma midnight_idem [simp]: "midnight (midnight t) = midnight t"
  unfolding midnight_def [of t] by simp

lemma midnight_new_date [simp]: "midnight (new_date y m d) = new_date y m d"
  by (simp add: new_date_def)

lemma full_year_midnight [simp]: "full_year (midnight t) = full_year t"
  by (simp add: full_year_def midnight_def)

lemma full_year_mono: "t \<le> u \<Longrightarrow> full_year t \<le> full_year u"
proof (rule ccontr)
  assume le: "t \<le> u" and "\<not> full_year t \<le> full_year u"
  then have "day_of (full_year u + 1) 1 1 \<le> day_of (full_year t) 1 1"
    using year_days_mono [of "full_year u" "full_year t - 1"] by (simp add: new_year_day)
  moreover have "day_of (full_year t) 1 1 \<le> date_day t" using year_starts_before [OF civil_fields [of t]] by simp
  moreover have "date_day u < day_of (full_year u + 1) 1 1" using year_starts_before [OF civil_fields [of u]] by simp
  moreover have "date_day t \<le> date_day u" using le by (simp add: date_day_def zdiv_mono1)
  ultimately show False by linarith
qed

lemma determine_given: "valid_time (dp_zone p) t \<Longrightarrow> determine_date p (DateGiven t) x = Inr (Some (midnight t))"
  unfolding determine_date_def midnight_def by simp

lemma determine_limit: "plain_limit (dp_zone p) d \<Longrightarrow> determine_date p d None = Inr (limit_of d)"
  by (auto simp: plain_limit_def limit_of_def determine_given determine_date_def midnight_def split: date_option.splits)

lemma limits_of:
  assumes "limited tz mid p"
  shows "determine_date p (dp_min p) None = Inr (lower_limit p)" "determine_date p (dp_max p) None = Inr (upper_limit p)"
    "allows p mid" "lower_limit p = Some l \<Longrightarrow> 100 \<le> full_year l"
    "lower_limit p = Some l \<Longrightarrow> midnight l = l" "upper_limit p = Some h \<Longrightarrow> midnight h = h"
  using assms by (auto simp: limited_def lower_ok_def upper_ok_def lower_limit_def upper_limit_def determine_limit allows_def
      limit_of_def split: date_option.splits)

text \<open>The date within the limits that is nearest to one.\<close>

definition clip :: "picker \<Rightarrow> jsdate \<Rightarrow> jsdate" where
  "clip p t = (let u = (case lower_limit p of Some l \<Rightarrow> max l t | None \<Rightarrow> t)
     in case upper_limit p of Some h \<Rightarrow> min h u | None \<Rightarrow> u)"

lemmas limit_defs = allows_def not_before_def not_after_def clip_def Let_def

lemma restrict_clip: "limited tz mid p \<Longrightarrow> restrict_min_max p t = Inr (clip p t)"
  by (simp add: restrict_min_max_def limits_of clip_def Let_def max_def min_def split: option.splits)

lemma clip_within: "limited tz mid p \<Longrightarrow> allows p (clip p t)"
  using limits_of(3) [of tz mid p] by (auto simp: limit_defs split: option.splits)

lemma clip_midnight: "limited tz mid p \<Longrightarrow> midnight t = t \<Longrightarrow> midnight (clip p t) = clip p t"
  using limits_of(5,6) [of tz mid p] by (auto simp: clip_def Let_def max_def min_def split: option.splits)

lemma clip_inside: "allows p t \<Longrightarrow> clip p t = t"
  by (auto simp: limit_defs split: option.splits)

lemma take_date_simps [simp]:
  "dp_min (take_date t p) = dp_min p" "dp_max (take_date t p) = dp_max p" "dp_zone (take_date t p) = dp_zone p"
  "dp_disabled (take_date t p) = dp_disabled p" "dp_view (take_date t p) = dp_view p" "dp_months (take_date t p) = dp_months p"
  "dp_input (take_date t p) = dp_input p" "dp_format (take_date t p) = dp_format p" "dp_settings (take_date t p) = dp_settings p"
  "dp_now (take_date t p) = dp_now p" "current_day (take_date t p) = current_day p" "current_month (take_date t p) = current_month p"
  "current_year (take_date t p) = current_year p" "dp_default (take_date t p) = dp_default p" "shows_date t (take_date t p)"
  by (simp_all add: take_date_def shows_date_def)

lemma tell_simps [simp]:
  "dp_min (tell n p) = dp_min p" "dp_max (tell n p) = dp_max p" "dp_zone (tell n p) = dp_zone p"
  "dp_disabled (tell n p) = dp_disabled p" "dp_view (tell n p) = dp_view p" "shows_date t (tell n p) = shows_date t p"
  by (simp_all add: tell_def shows_date_def)

lemma limited_same: "dp_min q = dp_min p \<Longrightarrow> dp_max q = dp_max p \<Longrightarrow> dp_zone q = dp_zone p \<Longrightarrow> dp_disabled q = dp_disabled p \<Longrightarrow>
    limited tz mid q = limited tz mid p"
  by (simp add: limited_def)

lemma limits_same: "dp_min q = dp_min p \<Longrightarrow> dp_max q = dp_max p \<Longrightarrow> lower_limit q = lower_limit p \<and> upper_limit q = upper_limit p"
  by (simp add: lower_limit_def upper_limit_def)

lemma allows_same: "dp_min q = dp_min p \<Longrightarrow> dp_max q = dp_max p \<Longrightarrow> allows q t = allows p t"
  using limits_same [of q p] by (simp add: allows_def)

section \<open>The selection is set right\<close>

lemma adjusted_midnight [simp]: "midnight (adjusted_date n per p) = adjusted_date n per p"
  by (simp add: adjusted_date_def Let_def)

text \<open>\<open>_adjustInstDate\<close> takes the date within the limits that is nearest to the adjusted one.\<close>

lemma adjust_inst_result:
  assumes "limited tz mid p"
  shows "adjust_inst_date n per p = (None, (let q = take_date (clip p (adjusted_date n per p)) p in
      if per = ByMonth \<or> per = ByYear then tell (MonthChanged (selected_year q) (selected_month q + 1)) q else q))"
  by (simp add: adjust_inst_date_def bind_exp_def restrict_clip [OF assms] notify_change_def Let_def seq_def upd_def skip_def)

lemma adjust_inst_ok:
  assumes "limited tz mid p"
  shows "limited tz mid (snd (adjust_inst_date n per p))" "selection_ok (snd (adjust_inst_date n per p))"
proof -
  let ?t = "clip p (adjusted_date n per p)"
  show "limited tz mid (snd (adjust_inst_date n per p))"
    using assms by (simp add: adjust_inst_result [OF assms] Let_def limited_def)
  have "selection_ok q" if "dp_min q = dp_min p" "dp_max q = dp_max p" "shows_date ?t q" for q
    unfolding selection_ok_def using clip_within [OF assms] clip_midnight [OF assms] allows_same [OF that(1,2)] that(3)
    by (intro exI [of _ ?t]) simp
  then show "selection_ok (snd (adjust_inst_date n per p))"
    by (simp add: adjust_inst_result [OF assms] Let_def)
qed

section \<open>Drawing\<close>

lemma midnight_mod: "midnight t = t \<Longrightarrow> t mod 86400000 = 0"
  unfolding midnight_def date_day_def by presburger

lemma next_day_eq: "midnight t = t \<Longrightarrow> next_day t = t + 86400000"
proof -
  assume m: "midnight t = t"
  have "set_date t (get_date t + 1) = (date_day t + 1) * 86400000"
    unfolding set_date_day midnight_mod [OF m] by simp
  then have "next_day t = (date_day t + 1) * 86400000" by (simp only: next_day_def adjust_midnight)
  also have "\<dots> = midnight t + 86400000" by (simp add: midnight_def)
  finally show ?thesis using m by simp
qed

lemma date_day_next [simp]: "date_day (t + 86400000) = date_day t + 1"
  by (simp add: date_day_def)

lemma midnight_next [simp]: "midnight t = t \<Longrightarrow> midnight (t + 86400000) = t + 86400000"
  unfolding midnight_def date_day_next by (simp add: distrib_right)

text \<open>What every cell of a drawing satisfies is satisfied by one cell at midnight.\<close>

definition drawn_ok :: "drawing \<Rightarrow> day_cell \<Rightarrow> bool" where
  "drawn_ok d c \<longleftrightarrow> midnight (cell_date c) = cell_date c \<and>
     (\<not> unselectable c \<longrightarrow> not_before (dr_lo d) (cell_date c) \<and> not_after (dr_hi d) (cell_date c))"

lemma draw_cell_ok: "midnight t = t \<Longrightarrow> drawn_ok d (draw_cell p d m sel dow t)"
  by (auto simp: drawn_ok_def draw_cell_def limit_defs split: option.splits)

lemma draw_days_ok: "midnight t = t \<Longrightarrow> draw_days p d m sel dows t = (cs, t') \<Longrightarrow> list_all (drawn_ok d) cs \<and> midnight t' = t'"
proof (induction dows arbitrary: t cs t')
  case (Cons dow dows)
  obtain cs' u where d: "draw_days p d m sel dows (next_day t) = (cs', u)" by fastforce
  have "midnight (next_day t) = next_day t" using Cons.prems(1) by (simp add: next_day_eq)
  from Cons.IH [OF this d] show ?case using Cons.prems d by (auto simp: draw_cell_ok)
qed simp

lemma draw_weeks_ok: "midnight t = t \<Longrightarrow> list_all (drawn_ok d) (concat (map snd (draw_weeks p d m sel n t)))"
proof (induction n arbitrary: t)
  case (Suc n)
  obtain cs u where d: "draw_days p d m sel [0..6] t = (cs, u)" by fastforce
  note a = draw_days_ok [OF Suc.prems d]
  then show ?case using Suc.IH [of u] unfolding draw_weeks.simps d by (simp add: Let_def)
qed simp

definition view_drawn :: "drawing \<Rightarrow> month_view \<Rightarrow> bool" where
  "view_drawn d v \<longleftrightarrow> list_all (drawn_ok d) (concat (map snd (view_weeks v)))"

lemma draw_one_ok: "draw_one p d sec mx y m day = (v, r, day') \<Longrightarrow> view_drawn d v"
  by (auto simp: draw_one_def Let_def view_drawn_def draw_weeks_ok)

text \<open>The selected day is left as it is or cut to the length of the month.\<close>

definition cut_day :: "picker \<Rightarrow> int \<Rightarrow> bool" where
  "cut_day p day \<longleftrightarrow> day = selected_day p \<or> day = min (selected_day p) (days_in_month (selected_year p) (selected_month p))"

lemma draw_one_day: "draw_one p d sec mx y m day = (v, r, day') \<Longrightarrow> cut_day p day \<Longrightarrow> cut_day p day'"
  by (auto simp: draw_one_def Let_def cut_day_def)

lemma draw_columns_ok: "draw_columns p d n sec mx ym day = (vs, r) \<Longrightarrow> list_all (view_drawn d) vs"
proof (induction n arbitrary: sec mx ym day vs r)
  case (Suc n)
  obtain v e where o': "draw_one p d sec mx (fst ym) (snd ym) day = (v, e)" by (metis surj_pair)
  obtain vs' r' where c: "draw_columns p d n True (fst e) (following_month ym) (snd e) = (vs', r')" by (metis surj_pair)
  have "vs = v # vs'" using Suc.prems o' c by (simp add: Let_def split: prod.splits)
  moreover have "view_drawn d v" using o' by (metis draw_one_ok prod.collapse)
  ultimately show ?case using Suc.IH [OF c] by simp
qed simp

lemma draw_columns_day: "draw_columns p d n sec mx ym day = (vs, ym', day') \<Longrightarrow> cut_day p day \<Longrightarrow> cut_day p day'"
proof (induction n arbitrary: sec mx ym day vs ym' day')
  case (Suc n)
  obtain v r e where o': "draw_one p d sec mx (fst ym) (snd ym) day = (v, r, e)" by (metis prod_cases3)
  have "cut_day p e" by (rule draw_one_day [OF o' Suc.prems(2)])
  then show ?case using Suc o' by (auto simp: Let_def split: prod.splits)
qed simp

lemma draw_rows_ok: "draw_rows p d n sec ym day = (vss, r) \<Longrightarrow> list_all (view_drawn d) (concat vss)"
proof (induction n arbitrary: sec ym day vss r)
  case (Suc n)
  obtain vs e where c: "draw_columns p d (nat (snd (dp_months p))) sec 4 ym day = (vs, e)" by (metis surj_pair)
  obtain vss' r' where r: "draw_rows p d n True (fst e) (snd e) = (vss', r')" by fastforce
  have "vss = vs # vss'" using Suc.prems c r by (simp add: Let_def split: prod.splits)
  then show ?case using draw_columns_ok [OF c] Suc.IH [OF r] by simp
qed simp

lemma draw_rows_day: "draw_rows p d n sec ym day = (vss, day') \<Longrightarrow> cut_day p day \<Longrightarrow> cut_day p day'"
proof (induction n arbitrary: sec ym day vss day')
  case (Suc n)
  obtain vs ym' e where c: "draw_columns p d (nat (snd (dp_months p))) sec 4 ym day = (vs, ym', e)" by (metis prod_cases3)
  have "cut_day p e" by (rule draw_columns_day [OF c Suc.prems(2)])
  then show ?case using Suc c by (auto simp: Let_def split: prod.splits)
qed simp

lemma generate_ok:
  assumes "generate_calendar p lo hi = Inr (cal, day)"
  shows "list_all (drawn_ok \<lparr>dr_lo = lo, dr_hi = hi, dr_today = drawn_today p, dr_current = drawn_current p, dr_default = projr (default_date p)\<rparr>)
      (concat (map (\<lambda>v. concat (map snd (view_weeks v))) (concat (months_shown cal))))"
    "cut_day p day"
proof -
  let ?d = "\<lparr>dr_lo = lo, dr_hi = hi, dr_today = drawn_today p, dr_current = drawn_current p, dr_default = projr (default_date p)\<rparr>"
  have r: "draw_rows p ?d (nat (fst (dp_months p))) False (draw_year p, draw_month p) (selected_day p) = (months_shown cal, day)"
    using assms by (auto simp: generate_calendar_def Let_def split: sum.splits prod.splits if_splits)
  show "list_all (drawn_ok ?d) (concat (map (\<lambda>v. concat (map snd (view_weeks v))) (concat (months_shown cal))))"
    using draw_rows_ok [OF r] by (auto simp: view_drawn_def list_all_iff)
  show "cut_day p day" using draw_rows_day [OF r] by (simp add: cut_day_def)
qed

definition pending :: "picker \<Rightarrow> picker" where
  "pending p = (let (y, m) = drawn_month p (lower_limit p) (upper_limit p) in p\<lparr>dp_view := None, draw_year := y, draw_month := m\<rparr>)"

text \<open>Drawing changes the view and the month it begins with.\<close>

lemma update_result:
  assumes "limited tz mid p"
  shows "snd (update_datepicker p) = (case generate_calendar (pending p) (lower_limit p) (upper_limit p) of
      Inl e \<Rightarrow> pending p
    | Inr (cal, day) \<Rightarrow> (pending p)\<lparr>selected_day := day, dp_key_event := False, dp_view := Some cal\<rparr>)"
proof -
  let ?q = "p\<lparr>dp_view := None\<rparr>"
  have q: "limited tz mid ?q" using assms by (simp add: limited_def)
  have "max_draw ?q = max_draw p" by (simp add: fun_eq_iff max_draw_def)
  then have dm: "drawn_month ?q lo hi = drawn_month p lo hi" for lo hi by (simp add: drawn_month_def Let_def split: option.split)
  have l: "lower_limit ?q = lower_limit p" "upper_limit ?q = upper_limit p" by (simp_all add: lower_limit_def upper_limit_def)
  have "update_datepicker p = (case generate_calendar
        (let (y, m) = drawn_month ?q (lower_limit p) (upper_limit p) in ?q\<lparr>draw_year := y, draw_month := m\<rparr>)
        (lower_limit p) (upper_limit p) of
      Inl e \<Rightarrow> (Some e, let (y, m) = drawn_month ?q (lower_limit p) (upper_limit p) in ?q\<lparr>draw_year := y, draw_month := m\<rparr>)
    | Inr a \<Rightarrow> (\<lambda>(cal, day). upd (\<lambda>p. p\<lparr>selected_day := day, dp_key_event := False, dp_view := Some cal\<rparr>)) a
        (let (y, m) = drawn_month ?q (lower_limit p) (upper_limit p) in ?q\<lparr>draw_year := y, draw_month := m\<rparr>))"
    by (simp only: update_datepicker_def block.simps seq_upd seq_skip bind_exp_def limits_of(1) [OF q] limits_of(2) [OF q] sum.case l)
  moreover have "(let (y, m) = drawn_month ?q (lower_limit p) (upper_limit p) in ?q\<lparr>draw_year := y, draw_month := m\<rparr>) = pending p"
    by (simp add: pending_def dm split: prod.splits)
  ultimately have u: "update_datepicker p = (case generate_calendar (pending p) (lower_limit p) (upper_limit p) of
      Inl e \<Rightarrow> (Some e, pending p)
    | Inr a \<Rightarrow> (\<lambda>(cal, day). upd (\<lambda>p. p\<lparr>selected_day := day, dp_key_event := False, dp_view := Some cal\<rparr>)) a (pending p))"
    by (simp only:)
  show ?thesis unfolding u
    by (cases "generate_calendar (pending p) (lower_limit p) (upper_limit p)") (simp_all add: upd_def split: prod.splits)
qed

lemma pending_simps [simp]:
  "dp_min (pending p) = dp_min p" "dp_max (pending p) = dp_max p" "dp_zone (pending p) = dp_zone p" "dp_disabled (pending p) = dp_disabled p"
  "dp_view (pending p) = None" "selected_day (pending p) = selected_day p" "selected_month (pending p) = selected_month p"
  "selected_year (pending p) = selected_year p" "current_day (pending p) = current_day p" "current_month (pending p) = current_month p"
  "current_year (pending p) = current_year p" "dp_input (pending p) = dp_input p" "dp_format (pending p) = dp_format p"
  "dp_told (pending p) = dp_told p" "dp_now (pending p) = dp_now p" "dp_settings (pending p) = dp_settings p"
  by (simp_all add: pending_def Let_def split: prod.splits)

lemma update_limited: "limited tz mid p \<Longrightarrow> limited tz mid (snd (update_datepicker p))"
  unfolding update_result by (simp add: limited_def split: sum.splits prod.splits)

lemma update_view_ok: "limited tz mid p \<Longrightarrow> view_ok (snd (update_datepicker p))"
proof -
  assume l: "limited tz mid p"
  show ?thesis
  proof (cases "generate_calendar (pending p) (lower_limit p) (upper_limit p)")
    case (Inl e)
    then show ?thesis by (simp add: update_result [OF l] view_ok_def cells_shown_def)
  next
    case (Inr a)
    obtain cal day where a: "a = (cal, day)" by (cases a)
    let ?q = "(pending p)\<lparr>selected_day := day, dp_key_event := False, dp_view := Some cal\<rparr>"
    have lim: "allows ?q u \<longleftrightarrow> not_before (lower_limit p) u \<and> not_after (upper_limit p) u" for u
      by (simp add: allows_def lower_limit_def upper_limit_def)
    have "cell_ok ?q c" if "drawn_ok \<lparr>dr_lo = lower_limit p, dr_hi = upper_limit p, dr_today = x, dr_current = y, dr_default = z\<rparr> c" for c x y z
      using that by (simp add: drawn_ok_def cell_ok_def lim)
    then have "list_all (cell_ok ?q) (concat (map (\<lambda>v. concat (map snd (view_weeks v))) (concat (months_shown cal))))"
      using list.pred_mono_strong [OF generate_ok(1) [OF Inr [unfolded a]]] by blast
    then have "view_ok ?q" by (simp add: view_ok_def cells_shown_def)
    then show ?thesis by (simp add: update_result [OF l] Inr a)
  qed
qed

lemma days_in_month_exact: "100 \<le> full_year t \<Longrightarrow> days_in_month (full_year t) (get_month t) = month_days (full_year t) (get_month t + 1)"
  using days_in_month_length [of "full_year t" "get_month t + 1"] field_bounds(1,2) [of t] by simp

text \<open>An earlier day of the same month.\<close>

lemma earlier_day:
  assumes "midnight t = t" "shows_date t p" "1 \<le> d" "d \<le> get_date t"
  shows "\<exists>u \<le> t. midnight u = u \<and> shows_date u (p\<lparr>selected_day := d\<rparr>)"
proof -
  let ?y = "full_year t" and ?m = "get_month t + 1"
  define u where "u = day_of ?y ?m d * 86400000"
  note b = field_bounds [of t]
  have "civil (day_of ?y ?m d) = (?y, ?m, d)" using civil_day_of [OF b(1,2) assms(3)] assms(4) b(4) by simp
  moreover have "date_day u = day_of ?y ?m d" by (simp add: u_def date_day_def)
  ultimately have u: "full_year u = ?y" "get_month u = get_month t" "get_date u = d"
    using civil_fields [of u] by simp_all
  have "day_of ?y ?m d \<le> date_day t" using b(5) assms(4) day_of_linear [of ?y ?m d] day_of_linear [of ?y ?m "get_date t"] by linarith
  then have "u \<le> midnight t" by (simp add: u_def midnight_def)
  then show ?thesis using u assms(1,2) by (intro exI [of _ u]) (simp add: u_def shows_date_def)
qed

lemma cut_selection:
  assumes "limited tz mid p" "midnight t = t" "allows p t" "shows_date t p" "cut_day p d"
  shows "selection_ok (p\<lparr>selected_day := d\<rparr>)" "100 \<le> full_year t \<Longrightarrow> d = selected_day p"
proof -
  have same: "selected_day p = get_date t" "selected_year p = full_year t" "selected_month p = get_month t"
    using assms(4) by (simp_all add: shows_date_def)
  have al: "allows (p\<lparr>selected_day := d\<rparr>) u = allows p u" for u by (rule allows_same) simp_all
  show year: "d = selected_day p" if "100 \<le> full_year t"
    using assms(5) days_in_month_exact [OF that] field_bounds(4) [of t] by (auto simp: cut_day_def same)
  show "selection_ok (p\<lparr>selected_day := d\<rparr>)"
  proof (cases "d = selected_day p")
    case True
    then show ?thesis using assms(2-4) al by (auto simp: selection_ok_def)
  next
    case False
    then have d: "1 \<le> d" "d \<le> get_date t"
      using assms(5) days_in_month_pos [of "selected_year p" "selected_month p"] field_bounds(3) [of t] by (auto simp: cut_day_def same)
    have "lower_limit p = None"
    proof (cases "lower_limit p")
      case (Some l)
      then have "l \<le> t" using assms(3) by (simp add: allows_def not_before_def)
      then show ?thesis using year False limits_of(4) [OF assms(1) Some] full_year_mono [of l t] by linarith
    qed
    obtain u where u: "u \<le> t" "midnight u = u" "shows_date u (p\<lparr>selected_day := d\<rparr>)" using earlier_day [OF assms(2,4) d] by blast
    moreover have "allows p u"
      using assms(3) u(1) \<open>lower_limit p = None\<close> by (auto simp: allows_def not_before_def not_after_def split: option.splits)
    ultimately show ?thesis unfolding selection_ok_def al by blast
  qed
qed

text \<open>Drawing keeps the selection, but for a day that its month has not got in the year as \<open>new Date\<close> takes it, and what was told.\<close>

lemma update_keeps:
  assumes "limited tz mid p" "q = snd (update_datepicker p)"
  shows "cut_day p (selected_day q)" "selected_month q = selected_month p" "selected_year q = selected_year p"
    "dp_min q = dp_min p" "dp_max q = dp_max p" "dp_told q = dp_told p" "current_day q = current_day p" "current_month q = current_month p"
    "current_year q = current_year p" "dp_input q = dp_input p"
proof -
  let ?g = "generate_calendar (pending p) (lower_limit p) (upper_limit p)"
  have d: "?g = Inr (cal, day) \<Longrightarrow> cut_day p day" for cal day
    using generate_ok(2) [of "pending p"] by (simp add: cut_day_def)
  have q: "q = (case ?g of Inl e \<Rightarrow> pending p | Inr (cal, day) \<Rightarrow> (pending p)\<lparr>selected_day := day, dp_key_event := False, dp_view := Some cal\<rparr>)"
    unfolding assms(2) by (rule update_result [OF assms(1)])
  have keep: "cut_day p (selected_day p)" by (simp add: cut_day_def)
  have "cut_day p (selected_day q) \<and> selected_month q = selected_month p \<and> selected_year q = selected_year p \<and>
      dp_min q = dp_min p \<and> dp_max q = dp_max p \<and> dp_told q = dp_told p \<and> current_day q = current_day p \<and>
      current_month q = current_month p \<and> current_year q = current_year p \<and> dp_input q = dp_input p"
  proof (cases ?g)
    case (Inl e)
    then have "q = pending p" using q by simp
    then show ?thesis using keep by simp
  next
    case (Inr a)
    obtain cal day where a: "a = (cal, day)" by (cases a)
    have "q = (pending p)\<lparr>selected_day := day, dp_key_event := False, dp_view := Some cal\<rparr>" using q by (simp add: Inr a)
    then show ?thesis using d [OF Inr [unfolded a]] by simp
  qed
  then show "cut_day p (selected_day q)" "selected_month q = selected_month p" "selected_year q = selected_year p"
    "dp_min q = dp_min p" "dp_max q = dp_max p" "dp_told q = dp_told p" "current_day q = current_day p" "current_month q = current_month p"
    "current_year q = current_year p" "dp_input q = dp_input p"
    by simp_all
qed

lemma selection_same: "selected_day q = selected_day p \<Longrightarrow> selected_month q = selected_month p \<Longrightarrow> selected_year q = selected_year p \<Longrightarrow>
    dp_min q = dp_min p \<Longrightarrow> dp_max q = dp_max p \<Longrightarrow> selection_ok q = selection_ok p"
  using allows_same [of q p] by (simp add: selection_ok_def shows_date_def)

lemma update_selection_ok:
  assumes "limited tz mid p" "selection_ok p"
  shows "selection_ok (snd (update_datepicker p))"
proof -
  let ?q = "snd (update_datepicker p)"
  obtain t where t: "midnight t = t" "allows p t" "shows_date t p" using assms(2) by (auto simp: selection_ok_def)
  note u = update_keeps [OF assms(1) refl]
  have "selection_ok (p\<lparr>selected_day := selected_day ?q\<rparr>)" by (rule cut_selection(1) [OF assms(1) t u(1)])
  then show ?thesis using selection_same [of ?q "p\<lparr>selected_day := selected_day ?q\<rparr>"] u(2-5) by simp
qed

text \<open>From the year 100 on it keeps the selection.\<close>

lemma update_shows:
  assumes "limited tz mid p" "midnight t = t" "allows p t" "shows_date t p" "100 \<le> full_year t"
  shows "shows_date t (snd (update_datepicker p))"
proof -
  note u = update_keeps [OF assms(1) refl]
  have "selected_day (snd (update_datepicker p)) = selected_day p" by (rule cut_selection(2) [OF assms(1-4) u(1) assms(5)])
  then show ?thesis using u(2,3) assms(4) by (simp add: shows_date_def)
qed

section \<open>Every operation leaves a date within the limits\<close>

definition picker_ok :: "int \<Rightarrow> jsdate \<Rightarrow> picker \<Rightarrow> bool" where
  "picker_ok tz mid p \<longleftrightarrow> limited tz mid p \<and> selection_ok p \<and> view_ok p"

text \<open>The state the invariant looks at, and statements that leave it alone.\<close>

definition core :: "picker \<Rightarrow> date_option \<times> date_option \<times> int \<times> bool \<times> calendar option \<times> int \<times> int \<times> int" where
  "core p = (dp_min p, dp_max p, dp_zone p, dp_disabled p, dp_view p, selected_day p, selected_month p, selected_year p)"

lemma core_limited: "core q = core p \<Longrightarrow> limited tz mid q = limited tz mid p"
  by (simp add: core_def limited_def)

lemma core_selection: "core q = core p \<Longrightarrow> selection_ok q = selection_ok p"
  by (rule selection_same) (simp_all add: core_def)

lemma view_same: "dp_view q = dp_view p \<Longrightarrow> dp_min q = dp_min p \<Longrightarrow> dp_max q = dp_max p \<Longrightarrow> view_ok q = view_ok p"
proof -
  assume v: "dp_view q = dp_view p" "dp_min q = dp_min p" "dp_max q = dp_max p"
  have "cell_ok q = cell_ok p" using allows_same [OF v(2,3)] by (simp add: fun_eq_iff cell_ok_def)
  then show ?thesis using v(1) by (simp add: view_ok_def cells_shown_def)
qed

lemma core_view: "core q = core p \<Longrightarrow> view_ok q = view_ok p"
  by (rule view_same) (simp_all add: core_def)

lemma core_ok: "core q = core p \<Longrightarrow> picker_ok tz mid q = picker_ok tz mid p"
  unfolding picker_ok_def using core_limited [of q p] core_selection [of q p] core_view [of q p] by simp

named_theorems core_intro "statements that leave the selection, the limits and the view alone"

lemma keeps_core_upd: "(\<And>p. core (f p) = core p) \<Longrightarrow> keeps core (upd f)"
  by (rule keeps_upd)

lemma core_set_input [core_intro]: "keeps core (set_input s)"
  and core_format_current [core_intro]: "keeps core format_current"
  and core_hide [core_intro]: "keeps core hide_datepicker"
  and core_alternate [core_intro]: "keeps core update_alternate"
  and core_notify [core_intro]: "keeps core notify_change"
  and core_tell [core_intro]: "keeps core (upd (tell n))"
  unfolding set_input_def format_current_def hide_datepicker_def update_alternate_def notify_change_def
  by (auto intro!: keeps_guard keeps_upd simp: core_def tell_def split: option.splits)

text \<open>What one settled operation guarantees: a selection within the same limits, and the same view.\<close>

definition settled :: "int \<Rightarrow> jsdate \<Rightarrow> picker \<Rightarrow> picker \<Rightarrow> bool" where
  "settled tz mid p q \<longleftrightarrow> limited tz mid q \<and> selection_ok q \<and> dp_view q = dp_view p \<and> dp_min q = dp_min p \<and> dp_max q = dp_max p"

lemma settled_ok: "settled tz mid p q \<Longrightarrow> picker_ok tz mid p \<Longrightarrow> picker_ok tz mid q"
  using view_same [of q p] by (simp add: settled_def picker_ok_def)

lemma settled_core:
  assumes "core q' = core q"
  shows "settled tz mid p q' = settled tz mid p q"
  unfolding settled_def core_limited [OF assms] core_selection [OF assms] using assms by (simp add: core_def)

lemma adjust_inst_settled:
  assumes "limited tz mid p"
  shows "settled tz mid p (snd (adjust_inst_date n per p))" "fst (adjust_inst_date n per p) = None"
  using adjust_inst_ok [OF assms, of n per] by (simp_all add: settled_def adjust_inst_result [OF assms] Let_def)

lemma wp_adjust_inst:
  assumes "limited tz mid p"
  shows "wp (adjust_inst_date n per) Q E p = Q (snd (adjust_inst_date n per p))"
  by (simp add: wp_def adjust_inst_result [OF assms])

lemma adjust_date_ok:
  assumes "limited tz mid p"
  shows "picker_ok tz mid (snd (adjust_date n per p))"
proof -
  let ?q = "snd (adjust_inst_date n per p)"
  have q: "settled tz mid p ?q" "adjust_inst_date n per p = (None, ?q)"
    using adjust_inst_settled [OF assms, of n per] by (simp_all add: prod_eq_iff)
  have "adjust_date n per p = update_datepicker ?q"
    using assms seq_None [of "adjust_inst_date n per" p ?q update_datepicker, OF q(2)] by (simp add: adjust_date_def guard_def ite_def limited_def)
  then show ?thesis
    using q(1) update_limited [of tz mid ?q] update_view_ok [of tz mid ?q] update_selection_ok [of tz mid ?q]
    by (simp add: picker_ok_def settled_def)
qed

lemma update_ok: "limited tz mid p \<Longrightarrow> selection_ok p \<Longrightarrow> picker_ok tz mid (snd (update_datepicker p))"
  by (simp add: picker_ok_def update_limited update_view_ok update_selection_ok)

lemma goto_today_ok: "limited tz mid p \<Longrightarrow> picker_ok tz mid (snd (goto_today p))"
  unfolding goto_today_def notify_change_def block.simps seq_upd seq_skip
  by (rule adjust_date_ok) (simp add: limited_def)

lemma select_month_year_ok: "limited tz mid p \<Longrightarrow> picker_ok tz mid (snd (select_month_year v b p))"
  unfolding select_month_year_def notify_change_def block.simps seq_upd seq_skip
  by (rule adjust_date_ok) (simp add: limited_def)

lemma preserves_keeps_core:
  assumes "keeps core m"
  shows "preserves (picker_ok tz mid) m"
  unfolding preserves_def core_ok [OF keepsD [OF assms]] by blast

lemma preserves_update: "preserves (picker_ok tz mid) update_datepicker"
  by (rule preservesI, rule update_ok) (simp_all add: picker_ok_def)

lemma select_date_keeps: "preserves (picker_ok tz mid) (select_date s)"
  unfolding select_date_def
  by (intro preserves_block preserves_list_all_Cons preserves_list_all_Nil preserves_ite preserves_update preserves_keeps_core
      core_intro keeps_block keeps_list_all_Cons keeps_list_all_Nil keeps_upd) (simp_all add: core_def tell_def)

lemma preserves_adjust: "preserves (picker_ok tz mid) (adjust_date n per)"
  by (rule preservesI, rule adjust_date_ok) (simp add: picker_ok_def)

lemma select_day_ok:
  assumes "picker_ok tz mid p" "midnight t = t" "allows p t"
  shows "picker_ok tz mid (snd (select_day (get_date t) (get_month t) (full_year t) b p))"
proof -
  let ?q = "p\<lparr>selected_day := get_date t, current_day := get_date t, selected_month := get_month t, current_month := get_month t,
       selected_year := full_year t, current_year := full_year t\<rparr>"
  have "view_ok ?q = view_ok p" by (rule view_same) simp_all
  moreover have "limited tz mid ?q" using assms(1) by (simp add: picker_ok_def limited_def)
  moreover have "allows ?q t" using assms(3) allows_same [of ?q p t] by simp
  ultimately have q: "picker_ok tz mid ?q"
    using assms by (auto simp: picker_ok_def selection_ok_def shows_date_def)
  have k: "preserves (picker_ok tz mid) (block [if get_date t = 0 then format_current else skip, bind_val current_text select_date])"
    by (intro preserves_block preserves_list_all_Cons preserves_list_all_Nil preserves_if preserves_skip preserves_bind_val
        select_date_keeps preserves_keeps_core core_intro)
  show ?thesis
  proof (cases "\<not> b \<and> \<not> dp_disabled p")
    case True
    have "select_day (get_date t) (get_month t) (full_year t) b p =
        block [if get_date t = 0 then format_current else skip, bind_val current_text select_date] ?q"
      using True by (simp add: select_day_def guard_def ite_def seq_upd)
    then show ?thesis using preservesD [OF k q] by simp
  next
    case False
    then have "select_day (get_date t) (get_month t) (full_year t) b p = (None, p)"
      by (auto simp: select_day_def guard_def ite_def skip_def)
    then show ?thesis using assms(1) by simp
  qed
qed

lemma restricted_date_total:
  assumes "limited tz mid p"
  shows "(\<exists>e. restricted_date p opt = Inl e) \<or> (\<exists>t. restricted_date p opt = Inr t)"
  by (cases "restricted_date p opt") auto

lemma wp_guard_notify: "wp (guard c notify_change) Q E p = Q (if c p then tell (MonthChanged (selected_year p) (selected_month p + 1)) p else p)"
  by (simp add: notify_change_def wp_simps)

text \<open>A date that is set: nothing happens, or it is settled.\<close>

lemma set_picker_date_settled:
  assumes "limited tz mid p"
  shows "restricted_date p opt = Inl e \<Longrightarrow> set_picker_date opt nc p = (Some e, p)"
    and "restricted_date p opt = Inr t \<Longrightarrow> settled tz mid p (snd (set_picker_date opt nc p)) \<and> fst (set_picker_date opt nc p) = None"
proof -
  show "restricted_date p opt = Inl e \<Longrightarrow> set_picker_date opt nc p = (Some e, p)"
    by (simp add: set_picker_date_def bind_val_def bind_exp_def)
next
  assume r: "restricted_date p opt = Inr t"
  let ?m = "guard (\<lambda>p. dp_input p \<noteq> None)
          (if opt = NotGiven \<or> opt = TextGiven [] \<or> opt = DaysGiven (Fin 0) \<or> opt = DaysGiven NaN then set_input []
           else seq format_current (bind_val current_text set_input))"
  let ?s = "\<lambda>r. limited tz mid r \<and> dp_view r = dp_view p \<and> dp_min r = dp_min p \<and> dp_max r = dp_max p"
  have tail: "keeps core ?m"
    by (auto intro!: keeps_guard keeps_seq keeps_bind_val core_intro)
  have total: "total ?m"
    by (auto intro!: total_intro simp: set_input_def format_current_def)
  have end': "wp ?m (settled tz mid p) (\<lambda>_. False) u" if "settled tz mid p u" for u
    unfolding wp_total [OF total] settled_core [OF keepsD [OF tail]] by (rule that)
  have adj: "wp (adjust_inst_date 0 NoPeriod) (wp ?m (settled tz mid p) (\<lambda>_. False)) (\<lambda>_. False) r" if "?s r" for r
  proof -
    have "settled tz mid r (snd (adjust_inst_date 0 NoPeriod r))" using that by (intro adjust_inst_settled) simp
    then have "settled tz mid p (snd (adjust_inst_date 0 NoPeriod r))" using that by (simp add: settled_def)
    then show ?thesis using that end' wp_adjust_inst [of tz mid r] by simp
  qed
  have "wp (set_picker_date opt nc) (settled tz mid p) (\<lambda>_. False) p"
    unfolding set_picker_date_def wp_bind_val prod.case wp_bind_exp r sum.case block.simps seq_skip wp_seq wp_upd wp_guard_notify
    by (rule adj) (use assms in \<open>simp add: limited_def\<close>)
  from wp_normal [OF this] show "settled tz mid p (snd (set_picker_date opt nc p)) \<and> fst (set_picker_date opt nc p) = None" by auto
qed

lemma set_picker_date_ok: "preserves (picker_ok tz mid) (set_picker_date opt nc)"
proof (rule preservesI)
  fix p
  assume p: "picker_ok tz mid p"
  then have l: "limited tz mid p" by (simp add: picker_ok_def)
  show "picker_ok tz mid (snd (set_picker_date opt nc p))"
  proof (cases "restricted_date p opt")
    case (Inl e)
    then show ?thesis using set_picker_date_settled(1) [OF l] p by simp
  next
    case (Inr t)
    then show ?thesis using set_picker_date_settled(2) [OF l Inr] settled_ok [OF _ p] by blast
  qed
qed

lemma set_date_datepicker_ok: "preserves (picker_ok tz mid) (set_date_datepicker opt)"
  unfolding set_date_datepicker_def
  by (intro preserves_block preserves_list_all_Cons preserves_list_all_Nil set_picker_date_ok preserves_update preserves_keeps_core core_intro)

lemma set_date_from_field_ok: "preserves (picker_ok tz mid) (set_date_from_field no_default)"
proof -
  have adj: "preserves (picker_ok tz mid) (block
            [upd (\<lambda>p. take_date t (if dates = [] then p\<lparr>current_day := 0, current_month := 0, current_year := 0\<rparr>
                else p\<lparr>current_day := get_date t, current_month := get_month t, current_year := full_year t\<rparr>)),
             adjust_inst_date 0 NoPeriod])" for t and dates :: string
  proof (rule preservesI)
    fix p
    assume p: "picker_ok tz mid p"
    let ?q = "take_date t (if dates = [] then p\<lparr>current_day := 0, current_month := 0, current_year := 0\<rparr>
                else p\<lparr>current_day := get_date t, current_month := get_month t, current_year := full_year t\<rparr>)"
    have q: "limited tz mid ?q" "dp_view ?q = dp_view p" "dp_min ?q = dp_min p" "dp_max ?q = dp_max p"
      using p by (simp_all add: picker_ok_def limited_def)
    have "settled tz mid p (snd (adjust_inst_date 0 NoPeriod ?q))"
      using adjust_inst_settled(1) [OF q(1)] q(2-4) by (simp add: settled_def)
    from settled_ok [OF this p] show "picker_ok tz mid (snd (block
            [upd (\<lambda>p. take_date t (if dates = [] then p\<lparr>current_day := 0, current_month := 0, current_year := 0\<rparr>
                else p\<lparr>current_day := get_date t, current_month := get_month t, current_year := full_year t\<rparr>)),
             adjust_inst_date 0 NoPeriod] p))" by (simp only: block.simps seq_upd seq_skip)
  qed
  show ?thesis
    unfolding set_date_from_field_def
    by (intro preserves_bind_val preserves_case_option preserves_throw preserves_guard)
      (intro preserves_block preserves_list_all_Cons preserves_list_all_Nil preserves_bind_exp preserves_case_prod adj
        preserves_keeps_core keeps_upd; simp add: core_def)
qed

lemma get_date_ok: "preserves (picker_ok tz mid) (get_date_datepicker no_default)"
  unfolding get_date_datepicker_def by (intro preserves_guard set_date_from_field_ok)

lemma show_ok: "preserves (picker_ok tz mid) show_datepicker"
  unfolding show_datepicker_def
  by (intro preserves_guard preserves_block preserves_list_all_Cons preserves_list_all_Nil set_date_from_field_ok preserves_update
      preserves_keeps_core keeps_upd; simp add: core_def)

lemma arrow_key_ok: "preserves (picker_ok tz mid) (arrow_key k dir)"
  and month_step_ok: "preserves (picker_ok tz mid) (month_step k dir)"
  unfolding arrow_key_def month_step_def
  by (intro preserves_block preserves_list_all_Cons preserves_list_all_Nil preserves_if preserves_bind_val preserves_adjust preserves_skip)+

lemma preserves_hide: "preserves (picker_ok tz mid) hide_datepicker"
  by (rule preserves_keeps_core [OF core_hide])

lemma goto_today_keeps: "preserves (picker_ok tz mid) goto_today"
  by (rule preservesI, rule goto_today_ok) (simp add: picker_ok_def)

lemma key_down_ok: "key_code k \<noteq> 13 \<Longrightarrow> preserves (picker_ok tz mid) (do_key_down k)"
  unfolding do_key_down_def Let_def clear_date_def
  by (intro preserves_block preserves_list_all_Cons preserves_list_all_Nil preserves_ite)
    (auto intro!: preserves_if preserves_skip preserves_hide arrow_key_ok month_step_ok preserves_adjust goto_today_keeps
      select_date_keeps show_ok preserves_keeps_core keeps_upd simp: core_def)

lemma caught_state: "snd (case x of (Some Unresponsive, p') \<Rightarrow> (Some Unresponsive, p') | (_, p') \<Rightarrow> (None, p')) = snd x"
  by (auto split: prod.splits option.splits exn.splits)

lemma key_up_ok: "preserves (picker_ok tz mid) do_key_up"
proof -
  let ?m = "block [set_date_from_field False, update_alternate, update_datepicker]"
  have m: "preserves (picker_ok tz mid) ?m"
    by (intro preserves_block preserves_list_all_Cons preserves_list_all_Nil set_date_from_field_ok preserves_update preserves_keeps_core core_intro)
  have "preserves (picker_ok tz mid) (\<lambda>p. case ?m p of (Some Unresponsive, p') \<Rightarrow> (Some Unresponsive, p') | (_, p') \<Rightarrow> (None, p'))"
  proof (rule preservesI)
    fix p
    assume "picker_ok tz mid p"
    from preservesD [OF m this]
    show "picker_ok tz mid (snd (case ?m p of (Some Unresponsive, p') \<Rightarrow> (Some Unresponsive, p') | (_, p') \<Rightarrow> (None, p')))"
      by (simp only: caught_state)
  qed
  then show ?thesis
    unfolding do_key_up_def
    by (intro preserves_bind_val preserves_case_option preserves_throw preserves_guard)
      (auto intro!: preserves_throw preserves_skip split: parsed_date.splits)
qed

lemma day_clicked_ok: "preserves (picker_ok tz mid) (day_clicked n)"
proof (rule preservesI)
  fix p
  assume p: "picker_ok tz mid p"
  show "picker_ok tz mid (snd (day_clicked n p))"
  proof (cases "n < length (cells_shown p)")
    case True
    let ?c = "cells_shown p ! n"
    have "cell_ok p ?c" using p True by (simp add: picker_ok_def view_ok_def list_all_length)
    then have "\<not> unselectable ?c \<Longrightarrow> picker_ok tz mid (snd (select_day (get_date (cell_date ?c)) (get_month (cell_date ?c)) (full_year (cell_date ?c)) (unselectable ?c) p))"
      using select_day_ok [OF p] by (simp add: cell_ok_def)
    then show ?thesis using True p by (simp add: day_clicked_def bind_val_def Let_def guard_def ite_def skip_def)
  qed (simp add: day_clicked_def bind_val_def skip_def p)
qed

text \<open>Options keep the format, and the new limits allow the day \<open>mid\<close> too.\<close>

definition setting_ok :: "int \<Rightarrow> jsdate \<Rightarrow> picker_setting \<Rightarrow> bool" where
  "setting_ok tz mid o' = (case o' of
       SetFormat _ \<Rightarrow> False
     | SetMin d \<Rightarrow> lower_ok tz mid d
     | SetMax d \<Rightarrow> upper_ok tz mid d
     | SetDisabled b \<Rightarrow> \<not> b
     | _ \<Rightarrow> True)"

lemma extend_limited: "list_all (setting_ok tz mid) os \<Longrightarrow> limited tz mid p \<Longrightarrow> limited tz mid (fold extend_one os p)"
proof (induction os arbitrary: p)
  case (Cons x os)
  then have "limited tz mid (extend_one x p)" by (cases x) (simp_all add: extend_one_def limited_def setting_ok_def)
  then show ?case using Cons by simp
qed simp

lemma reformat_same: "list_all (setting_ok tz mid) os \<Longrightarrow> reformat_limits os lo hi p = p"
proof -
  assume os: "list_all (setting_ok tz mid) os"
  have "\<not> list_ex (\<lambda>o'. case o' of SetFormat _ \<Rightarrow> True | _ \<Rightarrow> False) os"
    using os by (induction os) (auto simp: setting_ok_def split: picker_setting.splits)
  then show ?thesis by (simp add: reformat_limits_def Let_def split: option.splits)
qed

lemma enable_limited: "list_all (setting_ok tz mid) os \<Longrightarrow> limited tz mid p \<Longrightarrow> limited tz mid (enable_or_disable os p)"
  unfolding enable_or_disable_def
proof (induction os arbitrary: p)
  case (Cons x os)
  then have "limited tz mid (case x of SetDisabled b \<Rightarrow> p\<lparr>dp_disabled := b\<rparr> | _ \<Rightarrow> p)"
    by (cases x) (simp_all add: limited_def setting_ok_def)
  then show ?case using Cons by simp
qed simp

text \<open>A date or none is settled within any limits.\<close>

lemma restricted_some: "limited tz mid p \<Longrightarrow> \<exists>u. restricted_date p (case t of Some t' \<Rightarrow> DateGiven t' | None \<Rightarrow> NotGiven) = Inr u"
  by (auto simp: restricted_date_def determine_date_def restrict_clip Let_def split: option.splits)

lemma options_ok:
  assumes "list_all (setting_ok tz mid) os"
  shows "preserves (picker_ok tz mid) (option_datepicker os)"
proof -
  have step: "preserves (picker_ok tz mid) (block [upd (fold extend_one os), upd (reformat_limits os lo hi), upd (enable_or_disable os),
          set_picker_date (case t of Some t' \<Rightarrow> DateGiven t' | None \<Rightarrow> NotGiven) False, update_alternate, update_datepicker])" for t lo hi
  proof (rule preservesI)
    fix p
    assume "picker_ok tz mid p"
    then have "limited tz mid p" by (simp add: picker_ok_def)
    define q where "q = enable_or_disable os (fold extend_one os p)"
    have q: "limited tz mid q" unfolding q_def by (intro enable_limited extend_limited assms) fact
    let ?opt = "case t of Some t' \<Rightarrow> DateGiven t' | None \<Rightarrow> NotGiven"
    obtain u where "restricted_date q ?opt = Inr u" using restricted_some [OF q] by blast
    from set_picker_date_settled(2) [OF q this]
    obtain r where r: "set_picker_date ?opt False q = (None, r)" "settled tz mid q r" by (metis prod.collapse)
    have alt: "update_alternate r = (None, snd (update_alternate r))" by (simp add: update_alternate_def upd_def)
    have "settled tz mid q (snd (update_alternate r))"
      using r(2) settled_core [OF keepsD [OF core_alternate]] by blast
    then have "picker_ok tz mid (snd (update_datepicker (snd (update_alternate r))))"
      by (intro update_ok) (simp_all add: settled_def)
    moreover have "block [upd (fold extend_one os), upd (reformat_limits os lo hi), upd (enable_or_disable os),
          set_picker_date ?opt False, update_alternate, update_datepicker] p = update_datepicker (snd (update_alternate r))"
      by (simp only: block.simps seq_skip seq_upd reformat_same [OF assms] q_def [symmetric]
          seq_None [of "set_picker_date ?opt False" q r, OF r(1)] seq_None [of update_alternate r "snd (update_alternate r)", OF alt])
    ultimately show "picker_ok tz mid (snd (block [upd (fold extend_one os), upd (reformat_limits os lo hi), upd (enable_or_disable os),
          set_picker_date ?opt False, update_alternate, update_datepicker] p))" by simp
  qed
  show ?thesis
    unfolding option_datepicker_def
    by (intro preserves_block preserves_list_all_Cons preserves_list_all_Nil preserves_hide get_date_ok preserves_bind_val preserves_bind_exp step)
qed

text \<open>
  The events: any but Enter, which selects the highlighted day of the drawn calendar in the selected month
  whatever month it is of, a new format, which turns the limits into text, and disabling.
\<close>

definition picker_admissible :: "int \<Rightarrow> jsdate \<Rightarrow> picker_event \<Rightarrow> bool" where
  "picker_admissible tz mid e = (case e of
       KeyDown k \<Rightarrow> key_code k \<noteq> 13
     | OptionsSet os \<Rightarrow> list_all (setting_ok tz mid) os
     | _ \<Rightarrow> True)"

lemma select_month_year_keeps: "preserves (picker_ok tz mid) (select_month_year v b)"
  by (rule preservesI, rule select_month_year_ok) (simp add: picker_ok_def)

lemma time_ok: "preserves (picker_ok tz mid) (upd (\<lambda>p. p\<lparr>dp_now := t\<rparr>))"
  by (intro preserves_keeps_core keeps_upd) (simp add: core_def)

lemma picker_handler_ok: "picker_admissible tz mid e \<Longrightarrow> preserves (picker_ok tz mid) (picker_handler e)"
  unfolding picker_handler_def
  by (cases e; simp only: picker_event.case picker_admissible_def)
    (intro preserves_guard preserves_bind_val preserves_case_option preserves_skip preserves_adjust goto_today_keeps preserves_hide day_clicked_ok
      select_month_year_keeps key_down_ok key_up_ok show_ok set_date_datepicker_ok get_date_ok options_ok time_ok
      preserves_keeps_core core_intro; assumption)+

interpretation picking: event_loop picker_handler "picker_admissible tz mid" "picker_ok tz mid" for tz mid
  by unfold_locales (rule preservesD [OF picker_handler_ok])

text \<open>
  A new picker of an input has no selection (its fields are 0) and offers nothing to click. Once it has
  been opened, which reads the field whatever was typed there, it shows a date within the limits.
\<close>

lemma wp_some: "Q (snd (m s)) \<Longrightarrow> wp m Q (\<lambda>_. True) s"
  by (auto simp: wp_def split: prod.split option.split)

lemma opening_ok:
  assumes "limited tz mid p" "dp_input p = Some s" "\<not> dp_last_input p" "show_datepicker p = (None, q)"
  shows "picker_ok tz mid q"
proof -
  let ?p1 = "p\<lparr>dp_last := None, dp_last_input := True\<rparr>"
  let ?ok = "\<lambda>r. limited tz mid r \<and> selection_ok r"
  have adj: "wp (adjust_inst_date 0 NoPeriod) ?ok (\<lambda>_. True) r" if "dp_min r = dp_min p" "dp_max r = dp_max p" "dp_zone r = dp_zone p" "dp_disabled r = dp_disabled p" for r
  proof -
    have "limited tz mid r" using assms(1) that by (simp add: limited_def)
    from adjust_inst_ok [OF this, of 0 NoPeriod] show ?thesis by (intro wp_some) simp
  qed
  have field: "wp (set_date_from_field False) ?ok (\<lambda>_. True) ?p1"
    using assms(2) by (auto simp: set_date_from_field_def wp_simps adj split: sum.split parsed_date.split)
  define shown :: "picker stmt" where "shown = guard (\<lambda>p. \<not> dp_inline p) (upd (\<lambda>p. p\<lparr>dp_showing := True\<rparr>))"
  define m where "m = seq (set_date_from_field False) (seq update_datepicker shown)"
  have shown: "preserves (picker_ok tz mid) shown"
    unfolding shown_def by (intro preserves_keeps_core keeps_guard keeps_upd) (simp add: core_def)
  have "wp (seq update_datepicker shown) (picker_ok tz mid) (\<lambda>_. True) r" if "?ok r" for r
    unfolding wp_seq by (intro wp_some preservesD [OF shown] update_ok) (use that in simp_all)
  then have "wp m (picker_ok tz mid) (\<lambda>_. True) ?p1"
    unfolding m_def wp_seq [of "set_date_from_field False"] by (rule wp_mono [OF field])
  moreover have "show_datepicker p = m ?p1"
    using assms(1,3) by (simp only: show_datepicker_def guard_def [of "\<lambda>p. \<not> dp_disabled p \<and> \<not> dp_last_input p"] ite_def
        block.simps seq_upd seq_skip limited_def if_True simp_thms m_def shown_def)
  then have "m ?p1 = (None, q)" using assms(4) by simp
  ultimately show ?thesis by (simp add: wp_def)
qed

definition demo_picker :: picker where
  "demo_picker = \<lparr>dp_format = ''mm/dd/yy'', dp_settings = no_settings, dp_default = NotGiven,
     dp_min = DateGiven (day_of 2022 1 10 * 86400000), dp_max = DateGiven (day_of 2022 12 20 * 86400000),
     dp_year_range = ''c-10:c+10'', dp_months = (1, 1), dp_current_pos = 0, dp_step = 1, dp_big_step = 12, dp_first_day = 1,
     dp_goto_current = False, dp_rtl = False, dp_select_other = False, dp_show_other = False, dp_change_month = False,
     dp_change_year = False, dp_button_panel = False, dp_show_week = True, dp_week = iso8601_week, dp_selectable = (\<lambda>_. True),
     dp_constrain = True, dp_on_select = False, dp_alt_format = None, dp_disabled = False, dp_inline = False,
     dp_input = Some [], dp_alt = [], dp_last = None, dp_last_input = False, dp_showing = False, dp_key_event = False,
     selected_day = 31, selected_month = 0, selected_year = 2022, draw_month = 0, draw_year = 2022,
     current_day = 0, current_month = 0, current_year = 0, dp_view = None, dp_told = [],
     dp_now = day_of 2022 2 3 * 86400000 + 36000000, dp_zone = 0\<rparr>"

lemma demo_limited: "limited 0 (day_of 2022 2 1 * 86400000) demo_picker"
  by code_simp

definition demo_date :: jsdate where
  "demo_date = day_of 2022 1 31 * 86400000"

lemma demo_selection: "shows_date demo_date demo_picker" "midnight demo_date = demo_date" "allows demo_picker demo_date"
  by code_simp+

text \<open>
  C28. A picker whose limits are dates or not given, and that shows a date within them (as any does once it
  has been opened), goes on to show one and offers only days within the limits, after any sequence of
  clicks, keys, texts, dates set or read and options, whatever is thrown. Not among these are the key Enter, disabling the picker and a new format (each of which
  breaks it or makes the limits texts), nor limits relative to today; and all limits that are set
  in the run allow one common day, so that they never exclude each other.
\<close>

theorem selection_within_limits:
  assumes "list_all (picker_admissible tz mid) es" "limited tz mid p" "dp_view p = None"
    and "shows_date t p" "midnight t = t" "allows p t"
    and "q = run_events picker_handler es p"
  shows "(\<exists>u. midnight u = u \<and> allows q u \<and> shows_date u q) \<and>
    list_all (\<lambda>c. unselectable c \<or> allows q (cell_date c)) (cells_shown q)"
proof -
  have "selection_ok p" using assms(4-6) by (auto simp: selection_ok_def)
  then have "picker_ok tz mid p" using assms(2,3) by (simp add: picker_ok_def view_ok_def cells_shown_def)
  then have "picker_ok tz mid q" unfolding assms(7) by (rule picking.run_inv [OF assms(1)])
  then show ?thesis by (auto simp: picker_ok_def selection_ok_def view_ok_def cell_ok_def list_all_iff)
qed

definition demo_events :: "picker_event list" where
  "demo_events = [FieldFocused, NextClicked, KeyDown \<lparr>key_code = 34, ctrl_key = True, meta_key = False, alt_key = False\<rparr>,
     OptionsSet [SetMax (DateGiven (day_of 2022 6 30 * 86400000))], DayClicked 40, OptionsSet [SetMin NotGiven],
     DateSet (TextGiven ''+1m +7d'')]"

lemma selection_within_limits_witness:
  "\<exists>u. midnight u = u \<and> shows_date u (run_events picker_handler demo_events demo_picker) \<and>
    allows (run_events picker_handler demo_events demo_picker) u"
proof -
  have "list_all (picker_admissible 0 (day_of 2022 2 1 * 86400000)) demo_events" by code_simp
  moreover have "dp_view demo_picker = None" by (simp add: demo_picker_def)
  ultimately show ?thesis using selection_within_limits [OF _ demo_limited _ demo_selection refl] by blast
qed

section \<open>Steps of months and years\<close>

lemma make_day_carry: "make_day y m d = make_day (y + m div 12) (m mod 12) d"
  by (simp add: make_day_def)

lemma new_date_carry: "100 \<le> y \<Longrightarrow> 100 \<le> y + m div 12 \<Longrightarrow> new_date y m d = new_date (y + m div 12) (m mod 12) d"
  unfolding new_date_def using make_day_carry [of y m d] by simp

lemma days_in_month_carry: "100 \<le> y \<Longrightarrow> 100 \<le> y + m div 12 \<Longrightarrow> days_in_month y m = days_in_month (y + m div 12) (m mod 12)"
  unfolding days_in_month_def by (simp only: new_date_carry [of y m])

text \<open>A month that may be out of range, with the day cut to its length, is that of the months counted on.\<close>

lemma clipped_day:
  assumes "100 \<le> y" "100 \<le> y + m div 12" "1 \<le> d"
  shows "new_date y m (min d (days_in_month y m)) =
    day_of (y + m div 12) (m mod 12 + 1) (min d (month_days (y + m div 12) (m mod 12 + 1))) * 86400000"
proof -
  let ?y = "y + m div 12" and ?m = "m mod 12 + 1"
  have m: "1 \<le> ?m" "?m \<le> 12" using pos_mod_sign [of 12 m] pos_mod_bound [of 12 m] by linarith+
  have len: "days_in_month y m = month_days ?y ?m"
    unfolding days_in_month_carry [OF assms(1,2)] using days_in_month_length [OF assms(2) m] by simp
  have "new_date y m (min d (month_days ?y ?m)) = new_date ?y (?m - 1) (min d (month_days ?y ?m))"
    using new_date_carry [OF assms(1,2)] by simp
  also have "\<dots> = day_of ?y ?m (min d (month_days ?y ?m)) * 86400000"
    using month_days_bounds [OF m, of ?y] assms(3) by (intro new_date_fields(1) assms(2) m) simp_all
  finally show ?thesis unfolding len .
qed

definition stepped :: "jsdate \<Rightarrow> int \<Rightarrow> jsdate" where
  "stepped t k = (let n = 12 * full_year t + get_month t + k
     in day_of (n div 12) (n mod 12 + 1) (min (get_date t) (month_days (n div 12) (n mod 12 + 1))) * 86400000)"

lemma adjusted_stepped:
  assumes "shows_date t p" "100 \<le> full_year t" "100 \<le> (12 * full_year t + get_month t + (if per = ByYear then 12 * n else n)) div 12"
    and "per = ByMonth \<or> per = ByYear"
  shows "adjusted_date n per p = stepped t (if per = ByYear then 12 * n else n)"
proof -
  have d: "1 \<le> get_date t" by (rule field_bounds)
  have bm: "0 \<le> get_month t" "get_month t < 12" using field_bounds(1,2) [of t] by simp_all
  show ?thesis
  proof (cases "per = ByYear")
    case True
    define y where "y = full_year t + n"
    have n: "12 * full_year t + get_month t + 12 * n = 12 * y + get_month t" by (simp add: y_def)
    have "(12 * y + get_month t) div 12 = y" "(12 * y + get_month t) mod 12 = get_month t" using bm by simp_all
    then have "100 \<le> y" "stepped t (12 * n) = day_of y (get_month t + 1) (min (get_date t) (month_days y (get_month t + 1))) * 86400000"
      using assms(3) True by (simp_all add: stepped_def n)
    then show ?thesis using clipped_day [of y "get_month t" "get_date t"] bm d assms(1) True
      by (simp add: adjusted_date_def shows_date_def y_def Let_def)
  next
    case False
    define m where "m = get_month t + n"
    have n: "12 * full_year t + get_month t + n = m + 12 * full_year t" by (simp add: m_def)
    have "(m + 12 * full_year t) div 12 = full_year t + m div 12" "(m + 12 * full_year t) mod 12 = m mod 12" by simp_all
    then have "100 \<le> full_year t + m div 12"
      "stepped t n = day_of (full_year t + m div 12) (m mod 12 + 1) (min (get_date t) (month_days (full_year t + m div 12) (m mod 12 + 1))) * 86400000"
      using assms(3) False by (simp_all add: stepped_def n)
    then show ?thesis using clipped_day [of "full_year t" m "get_date t"] assms(1,2,4) d False
      by (simp add: adjusted_date_def shows_date_def m_def Let_def)
  qed
qed

lemma year_of_month: "1 \<le> m \<Longrightarrow> m \<le> 12 \<Longrightarrow> 1 \<le> d \<Longrightarrow> d \<le> month_days y m \<Longrightarrow> full_year (day_of y m d * 86400000) = y"
  by (simp add: full_year_def date_day_def civil_day_of)

lemma stepped_year: "full_year (stepped t k) = (12 * full_year t + get_month t + k) div 12"
proof -
  define n where "n = 12 * full_year t + get_month t + k"
  have m: "1 \<le> n mod 12 + 1" "n mod 12 + 1 \<le> 12" using pos_mod_sign [of 12 n] pos_mod_bound [of 12 n] by linarith+
  show ?thesis unfolding stepped_def n_def [symmetric] Let_def
    by (rule year_of_month [OF m]) (use field_bounds(3) [of t] month_days_bounds [OF m, of "n div 12"] in simp_all)
qed

lemma stepped_midnight: "midnight (stepped t k) = stepped t k"
  by (simp add: stepped_def Let_def)

lemma clip_year:
  assumes "limited tz mid p" "allows p t" "100 \<le> full_year t" "100 \<le> full_year s"
  shows "100 \<le> full_year (clip p s)"
proof -
  consider "clip p s = s" | l where "lower_limit p = Some l" "clip p s = l" | h where "upper_limit p = Some h" "clip p s = h"
  proof (cases "lower_limit p"; cases "upper_limit p")
    fix l h assume "lower_limit p = Some l" "upper_limit p = Some h"
    then show thesis using that by (cases "l \<le> s"; cases "max l s \<le> h") (auto simp: clip_def Let_def max_def min_def)
  next
    fix h assume "lower_limit p = None" "upper_limit p = Some h"
    then show thesis using that by (cases "s \<le> h") (auto simp: clip_def Let_def min_def)
  next
    fix l assume "lower_limit p = Some l" "upper_limit p = None"
    then show thesis using that by (cases "l \<le> s") (auto simp: clip_def Let_def max_def)
  qed (use that in \<open>simp add: clip_def\<close>)
  then show ?thesis
  proof cases
    case 3
    then have "t \<le> h" using assms(2) by (simp add: allows_def not_after_def)
    then show ?thesis using full_year_mono [of t h] assms(3) 3 by simp
  qed (use assms limits_of(4) [OF assms(1)] in simp_all)
qed

text \<open>
  C31. A step of \<open>n\<close> months or years, from the year 100 on, goes to the same day of the month it leads to,
  or the last one of a shorter month, if the limits of the picker allow that, and to the limit in between
  otherwise; the listener is told the new month.
\<close>

theorem month_step_clips:
  assumes "limited tz mid p" "shows_date t p" "midnight t = t" "allows p t" "100 \<le> full_year t"
    and "per = ByMonth \<or> per = ByYear" "k = (if per = ByYear then 12 * n else n)"
    and "100 \<le> (12 * full_year t + get_month t + k) div 12" "u = clip p (stepped t k)"
    and "q = snd (adjust_date n per p)"
  shows "shows_date u q \<and> dp_told q = dp_told p @ [MonthChanged (full_year u) (get_month u + 1)] \<and>
    (allows p (stepped t k) \<longrightarrow> u = stepped t k)"
proof -
  have a: "adjusted_date n per p = stepped t k"
    using adjusted_stepped [OF assms(2,5), of per n] assms(6,7,8) by simp
  let ?r = "take_date u p"
  let ?s = "tell (MonthChanged (selected_year ?r) (selected_month ?r + 1)) ?r"
  have s: "adjust_inst_date n per p = (None, ?s)"
    using assms(6) by (simp add: adjust_inst_result [OF assms(1)] a assms(9) Let_def)
  have l: "limited tz mid ?s" using adjust_inst_ok(1) [OF assms(1), of n per] by (simp only: s snd_conv)
  have u: "midnight u = u" "allows p u" "100 \<le> full_year u"
    using clip_midnight [OF assms(1) stepped_midnight] clip_within [OF assms(1)] clip_year [OF assms(1,4,5)] assms(8)
    by (simp_all add: assms(9) stepped_year)
  have "q = snd (update_datepicker ?s)"
    using assms(1,10) by (simp add: adjust_date_def guard_def ite_def limited_def seq_None [of "adjust_inst_date n per" p ?s, OF s])
  moreover have "shows_date u (snd (update_datepicker ?s))"
    by (rule update_shows [OF l u(1) _ _ u(3)]) (use u(2) allows_same [of ?s p] in simp_all)
  moreover have "selected_year ?r = full_year u" "selected_month ?r = get_month u"
    by (simp_all add: take_date_def)
  moreover have "dp_told ?r = dp_told p" by (simp add: take_date_def)
  ultimately show ?thesis using update_keeps(6) [OF l refl] clip_inside [of p "stepped t k"] assms(9) by (simp add: tell_def)
qed

text \<open>From 31 January one month further is 28 February.\<close>

lemma month_step_clips_witness: "shows_date (day_of 2022 2 28 * 86400000) (snd (adjust_date 1 ByMonth demo_picker))"
proof -
  have s: "stepped demo_date 1 = day_of 2022 2 28 * 86400000" "allows demo_picker (day_of 2022 2 28 * 86400000)" "100 \<le> full_year demo_date"
    "100 \<le> (12 * full_year demo_date + get_month demo_date + 1) div 12" by code_simp+
  have c: "day_of 2022 2 28 * 86400000 = clip demo_picker (stepped demo_date 1)" unfolding s(1) by (rule clip_inside [OF s(2), symmetric])
  show ?thesis
    by (rule month_step_clips [THEN conjunct1, OF demo_limited demo_selection s(3) _ _ s(4) c refl]) simp_all
qed

section \<open>The day that is clicked is the day that is read\<close>

definition setup_of :: "picker \<Rightarrow> string \<times> date_settings \<times> date_option \<times> bool \<times> jsdate \<times> int" where
  "setup_of p = (dp_format p, dp_settings p, dp_default p, dp_inline p, dp_now p, dp_zone p)"

lemma adjust_at_midnight: "midnight t = t \<Longrightarrow> daylight_saving_adjust t = t"
  by (metis adjust_midnight midnight_def)

lemma new_date_of_day:
  assumes "100 \<le> full_year t" "midnight t = t"
  shows "new_date (full_year t) (get_month t) (get_date t) = t"
proof -
  note b = field_bounds [of t]
  show ?thesis using new_date_fields(1) [OF assms(1) b(1-4)] b(5) assms(2) by (simp add: midnight_def)
qed

lemma current_date_of:
  assumes "100 \<le> full_year t" "midnight t = t" "current_day p = get_date t" "current_month p = get_month t" "current_year p = full_year t" "dp_input p \<noteq> Some []"
  shows "current_date p = Some t"
  using assms(1) new_date_of_day [OF assms(1,2)] assms(3-6) adjust_new_date [of "full_year t" "get_month t" "get_date t"]
  by (simp add: current_date_def)

lemma hidden_after: "dp_last_input (snd (block [hide_datepicker, upd (\<lambda>p. p\<lparr>dp_last_input := False\<rparr>)] p)) = False"
  by (simp add: hide_datepicker_def guard_def ite_def seq_def upd_def skip_def)

lemma select_date_popup:
  assumes "\<not> dp_inline p" "dp_input p = Some s0" "q = snd (select_date s p)"
  shows "dp_input q = Some s" "dp_last_input q = False" "core q = core p" "setup_of q = setup_of p"
    "current_day q = current_day p" "current_month q = current_month p" "current_year q = current_year p"
  using assms
  by (simp_all add: select_date_def set_input_def update_alternate_def hide_datepicker_def guard_def ite_def seq_def upd_def skip_def
      tell_def core_def setup_of_def split: option.splits)

lemma names_of_config [simp]: "names_of (get_format_config p) = names_of (dp_settings p)"
  by (simp add: get_format_config_def names_of_def)

lemma config_same:
  assumes "setup_of q = setup_of p"
  shows "get_format_config q = get_format_config p"
proof -
  have "dp_settings q = dp_settings p" "dp_now q = dp_now p" using assms by (simp_all add: setup_of_def)
  then show ?thesis by (simp only: get_format_config_def)
qed

text \<open>A click on a day in a picker of an input: the current date is the day, and the input has its text.\<close>

lemma day_clicked_result:
  assumes "picker_ok tz mid p" "\<not> dp_inline p" "dp_input p = Some s0"
    and "n < length (cells_shown p)" "c = cells_shown p ! n" "\<not> unselectable c" "\<not> other_month c \<or> dp_show_other p"
    and "t = cell_date c" "100 \<le> full_year t" "q = snd (day_clicked n p)"
  shows "dp_input q = Some (format_date (dp_zone p) (dp_format p) (Some t) (get_format_config p))" "dp_last_input q = False"
    "limited tz mid q" "setup_of q = setup_of p" "current_day q = get_date t" "current_month q = get_month t" "current_year q = full_year t"
    "allows q t" "midnight t = t"
proof -
  have l: "limited tz mid p" using assms(1) by (simp add: picker_ok_def)
  have "cell_ok p c" using assms(1,4,5) by (simp add: picker_ok_def view_ok_def list_all_length)
  then have t: "midnight t = t" "allows p t" using assms(6,8) by (simp_all add: cell_ok_def)
  note y = assms(9)
  have "get_date t \<noteq> 0" using field_bounds(3) [of t] by linarith
  let ?s = "p\<lparr>selected_day := get_date t, current_day := get_date t, selected_month := get_month t, current_month := get_month t,
       selected_year := full_year t, current_year := full_year t\<rparr>"
  have c: "get_format_config ?s = get_format_config p" by (rule config_same) (simp add: setup_of_def)
  have s: "current_text ?s = format_date (dp_zone p) (dp_format p) (Some t) (get_format_config p)"
    using new_date_of_day [OF y t(1)] adjust_new_date [of "full_year t" "get_month t" "get_date t"]
    by (simp add: current_text_def c)
  have "day_clicked n p = select_date (current_text ?s) ?s"
    using assms(4-8) \<open>get_date t \<noteq> 0\<close> l
    by (simp add: day_clicked_def bind_val_def Let_def guard_def ite_def select_day_def seq_upd limited_def)
  then have q: "q = snd (select_date (current_text ?s) ?s)" using assms(10) by simp
  have "\<not> dp_inline ?s" "dp_input ?s = Some s0" using assms(2,3) by simp_all
  note f = select_date_popup [OF this q]
  show "dp_input q = Some (format_date (dp_zone p) (dp_format p) (Some t) (get_format_config p))" using f(1) s by simp
  show "dp_last_input q = False" by (rule f(2))
  have "limited tz mid ?s" using l by (simp add: limited_def)
  then show "limited tz mid q" using core_limited [OF f(3)] by blast
  show "setup_of q = setup_of p" using f(4) by (simp add: setup_of_def)
  show "current_day q = get_date t" "current_month q = get_month t" "current_year q = full_year t" using f(5-7) by simp_all
  have "dp_min q = dp_min p" "dp_max q = dp_max p" using f(3) by (simp_all add: core_def)
  then show "allows q t" using allows_same [of q p] t(2) by simp
  show "midnight t = t" by (rule t(1))
qed

text \<open>The field is read: its date is taken, and stays if it is within the limits.\<close>

lemma read_field_result:
  assumes "limited tz mid p" "dp_input p = Some v" "dp_last p \<noteq> Some v" "dp_default p = NotGiven" "v \<noteq> []"
    and "field_date p v = ADate t" "midnight t = t" "allows p t" "100 \<le> full_year t"
  shows "set_date_from_field b p = (None, take_date t (p\<lparr>dp_last := Some v, current_day := get_date t, current_month := get_month t, current_year := full_year t\<rparr>))"
proof -
  let ?p1 = "p\<lparr>dp_last := Some v\<rparr>"
  let ?p2 = "take_date t (?p1\<lparr>current_day := get_date t, current_month := get_month t, current_year := full_year t\<rparr>)"
  have l: "limited tz mid ?p1" "limited tz mid ?p2" using assms(1) by (simp_all add: limited_def)
  have al: "allows ?p2 t" using assms(8) allows_same [of ?p2 p t] by simp
  have "restricted_date ?p1 NotGiven = Inr (clip ?p1 (midnight (dp_now p)))"
    using restrict_clip [OF l(1)] by (simp add: restricted_date_def determine_date_def midnight_def)
  then have d: "default_date ?p1 = Inr (clip ?p1 (midnight (dp_now p)))" using assms(4) by (simp add: default_date_def)
  note y = assms(9)
  have "get_format_config ?p1 = get_format_config p" by (rule config_same) (simp add: setup_of_def)
  then have f: "field_date ?p1 v = ADate t" using assms(6) by (simp add: field_date_def)
  have "shows_date t ?p2" by simp
  then have "selected_day ?p2 = get_date t" "selected_month ?p2 = get_month t" "selected_year ?p2 = full_year t" by (simp_all only: shows_date_def)
  moreover have "get_date t \<le> days_in_month (full_year t) (get_month t)"
    using days_in_month_length [of "full_year t" "get_month t + 1"] y field_bounds(1,2,4) [of t] by simp
  ultimately have "adjusted_date 0 NoPeriod ?p2 = daylight_saving_adjust (new_date (full_year t) (get_month t) (get_date t))"
    by (simp add: adjusted_date_def Let_def)
  then have "adjusted_date 0 NoPeriod ?p2 = t" by (simp only: new_date_of_day [OF y assms(7)] adjust_at_midnight [OF assms(7)])
  moreover have "clip ?p2 t = t" by (rule clip_inside [OF al])
  ultimately have a: "adjust_inst_date 0 NoPeriod ?p2 = (None, take_date t ?p2)"
    by (simp add: adjust_inst_result [OF l(2)] Let_def)
  have "take_date t ?p2 = ?p2" by (simp add: take_date_def)
  then have "block [upd (\<lambda>p. take_date t (if v = [] then p\<lparr>current_day := 0, current_month := 0, current_year := 0\<rparr>
        else p\<lparr>current_day := get_date t, current_month := get_month t, current_year := full_year t\<rparr>)), adjust_inst_date 0 NoPeriod] ?p1 = (None, ?p2)"
    using a assms(5) by (simp only: block.simps seq_upd seq_skip if_False)
  then have e: "(bind_exp default_date (\<lambda>otherwise. bind_exp (\<lambda>p. case field_date p v of
                ADate t \<Rightarrow> Inr (t, v)
              | NoDate \<Rightarrow> Inr (otherwise, v)
              | Fails _ \<Rightarrow> Inr (otherwise, if b then [] else v)
              | RunsForever \<Rightarrow> Inl Unresponsive) (\<lambda>(t, dates). block
            [upd (\<lambda>p. take_date t (if dates = [] then p\<lparr>current_day := 0, current_month := 0, current_year := 0\<rparr>
                else p\<lparr>current_day := get_date t, current_month := get_month t, current_year := full_year t\<rparr>)),
             adjust_inst_date 0 NoPeriod]))) ?p1 = (None, ?p2)"
    by (simp only: bind_exp_def d f sum.case parsed_date.case prod.case)
  have "set_date_from_field b p = (bind_exp default_date (\<lambda>otherwise. bind_exp (\<lambda>p. case field_date p v of
                ADate t \<Rightarrow> Inr (t, v)
              | NoDate \<Rightarrow> Inr (otherwise, v)
              | Fails _ \<Rightarrow> Inr (otherwise, if b then [] else v)
              | RunsForever \<Rightarrow> Inl Unresponsive) (\<lambda>(t, dates). block
            [upd (\<lambda>p. take_date t (if dates = [] then p\<lparr>current_day := 0, current_month := 0, current_year := 0\<rparr>
                else p\<lparr>current_day := get_date t, current_month := get_month t, current_year := full_year t\<rparr>)),
             adjust_inst_date 0 NoPeriod]))) ?p1"
    using assms(3) by (simp only: set_date_from_field_def bind_val_def assms(2) option.case guard_def ite_def block.simps seq_upd seq_skip if_True simp_thms)
  then show ?thesis unfolding e by simp
qed

text \<open>Opening the picker reads the field first.\<close>

lemma show_reads_field:
  assumes "limited tz mid p" "dp_input p = Some v" "dp_last_input p = False" "dp_default p = NotGiven" "v \<noteq> []"
    and "field_date p v = ADate t" "midnight t = t" "allows p t" "100 \<le> full_year t" "q = snd (show_datepicker p)"
  shows "shows_date t q" "current_day q = get_date t" "current_month q = get_month t" "current_year q = full_year t" "dp_input q = Some v"
proof -
  let ?p1 = "p\<lparr>dp_last := None, dp_last_input := True\<rparr>"
  let ?p2 = "take_date t (?p1\<lparr>dp_last := Some v, current_day := get_date t, current_month := get_month t, current_year := full_year t\<rparr>)"
  have l: "limited tz mid ?p1" "limited tz mid ?p2" using assms(1) by (simp_all add: limited_def)
  have lim: "allows ?p1 t" "allows ?p2 t" using assms(8) allows_same [of ?p1 p t] allows_same [of ?p2 p t] by simp_all
  have "get_format_config ?p1 = get_format_config p" by (rule config_same) (simp add: setup_of_def)
  then have f: "field_date ?p1 v = ADate t" using assms(6) by (simp add: field_date_def)
  have r: "set_date_from_field False ?p1 = (None, ?p2)"
    by (rule read_field_result [OF l(1)]) (use assms f lim in simp_all)
  let ?u = "update_datepicker ?p2"
  note k = update_keeps [OF l(2) refl]
  have "shows_date t (snd ?u)" by (rule update_shows [OF l(2) assms(7) lim(2) _ assms(9)]) simp
  then have s2: "selected_day (snd ?u) = get_date t" "selected_month (snd ?u) = get_month t" "selected_year (snd ?u) = full_year t"
    by (simp_all add: shows_date_def)
  define w :: "picker stmt" where "w = guard (\<lambda>p. \<not> dp_inline p) (upd (\<lambda>p. p\<lparr>dp_showing := True\<rparr>))"
  define keep where "keep r = (selected_day r, selected_month r, selected_year r, current_day r, current_month r, current_year r, dp_input r)" for r :: picker
  have w: "keeps keep w" unfolding w_def by (intro keeps_guard keeps_upd) (simp add: keep_def)
  have "show_datepicker p = seq update_datepicker w ?p2"
    using assms(1,3) by (simp only: show_datepicker_def guard_def ite_def block.simps seq_upd seq_skip limited_def if_True simp_thms w_def
        seq_None [of "set_date_from_field False" ?p1 ?p2, OF r])
  then have "keep q = keep (snd ?u)" using assms(10) keepsD [OF w] by (simp add: seq_if)
  moreover have "keep (snd ?u) = (get_date t, get_month t, full_year t, get_date t, get_month t, full_year t, Some v)"
    using k(7-10) s2 assms(2) by (simp add: keep_def)
  ultimately show "shows_date t q" "current_day q = get_date t" "current_month q = get_month t" "current_year q = full_year t" "dp_input q = Some v"
    by (simp_all add: keep_def shows_date_def)
qed

text \<open>
  C29. A day of the years 1000 to 9999 that is clicked in the popup of an input is the current date, and the
  picker, opened again, reads the same day from the text that the click left in the input. The format is
  one that names a day (not, say, only month and year), whose text can be read in one way only, and
  that has the year in four digits; the names of days and months are distinguishable, no default date
  is given, and the limits are dates or not given.
\<close>

theorem clicked_day_is_read:
  assumes "picker_ok tz mid p" "\<not> dp_inline p" "dp_input p = Some s0" "dp_default p = NotGiven"
    and "n < length (cells_shown p)" "c = cells_shown p ! n" "\<not> unselectable c" "\<not> other_month c \<or> dp_show_other p"
    and "t = cell_date c" "1000 \<le> full_year t" "full_year t \<le> 9999"
    and "clear_tokens (tokens False (dp_format p))" "names_a_day (tokens False (dp_format p))" "all_good (names_of (dp_settings p))"
    and "q = snd (picker_handler (DayClicked n) p)" "r = snd (picker_handler FieldFocused q)"
  shows "current_date q = Some t \<and> shows_date t r \<and> current_date r = Some t"
proof -
  let ?v = "format_date (dp_zone p) (dp_format p) (Some t) (get_format_config p)"
  have "q = snd (day_clicked n p)" using assms(15) by (simp add: picker_handler_def)
  have y: "100 \<le> full_year t" using assms(10) by simp
  note d = day_clicked_result [OF assms(1-3,5-9) y \<open>q = snd (day_clicked n p)\<close>]
  have back_again: "parse_date (dp_zone p) (full_year (dp_now p)) (Some (dp_format p)) (Some ?v) (get_format_config p) = ADate t"
    by (rule date_round_trip) (use assms(10-14) d(9) in simp_all)
  have v: "?v \<noteq> []" using back_again by (auto simp: parse_date_def)
  have st: "dp_format q = dp_format p" "dp_default q = NotGiven" "dp_inline q = dp_inline p" "dp_zone q = dp_zone p" "dp_now q = dp_now p"
    using d(4) assms(4) by (simp_all add: setup_of_def)
  have f: "field_date q ?v = ADate t"
    unfolding field_date_def st config_same [OF d(4)] by (rule back_again)
  have "r = snd (show_datepicker q)" using assms(2,16) st(3) by (simp add: picker_handler_def guard_def ite_def)
  note s = show_reads_field [OF d(3,1,2) st(2) v f d(9,8) y this]
  show ?thesis
    using current_date_of [OF y d(9,5-7)] current_date_of [OF y d(9) s(2-4)] d(1) s(1,5) v by simp
qed

text \<open>A picker without limits whose calendar shows one day\<close>

definition one_day :: day_cell where
  "one_day = \<lparr>cell_date = day_of 2022 3 9 * 86400000, other_month = False, weekend = False, cell_over = False, unselectable = False,
     cell_current = False, cell_today = False\<rparr>"

definition one_day_picker :: picker where
  "one_day_picker = demo_picker\<lparr>dp_min := NotGiven, dp_max := NotGiven, dp_view := Some \<lparr>prev_enabled = True, next_enabled = True, today_button = False,
     months_shown = [[\<lparr>view_year = 2022, view_month = 2, month_choices = None, year_choices = None, view_weeks = [(None, [one_day])]\<rparr>]]\<rparr>\<rparr>"

lemma clicked_day_is_read_witness:
  "current_date (snd (picker_handler (DayClicked 0) one_day_picker)) = Some (day_of 2022 3 9 * 86400000) \<and>
    shows_date (day_of 2022 3 9 * 86400000) (snd (picker_handler FieldFocused (snd (picker_handler (DayClicked 0) one_day_picker))))"
proof -
  let ?p = one_day_picker
  have cells: "cells_shown ?p = [one_day]" by (simp add: cells_shown_def one_day_picker_def)
  have "limited 0 (day_of 2022 2 1 * 86400000) ?p" "cell_ok ?p one_day" by code_simp+
  moreover have "selection_ok ?p"
  proof -
    have "midnight demo_date = demo_date" "allows ?p demo_date" "shows_date demo_date ?p" by code_simp+
    then show ?thesis by (auto simp: selection_ok_def)
  qed
  ultimately have "picker_ok 0 (day_of 2022 2 1 * 86400000) ?p" by (simp add: picker_ok_def view_ok_def cells)
  moreover have "\<not> dp_inline ?p" "dp_input ?p = Some []" "dp_default ?p = NotGiven" "names_of (dp_settings ?p) = default_names" "dp_format ?p = ''mm/dd/yy''"
    by (simp_all add: one_day_picker_def demo_picker_def)
  moreover have "cell_date one_day = day_of 2022 3 9 * 86400000" "\<not> unselectable one_day" "\<not> other_month one_day" by (simp_all add: one_day_def)
  moreover have "full_year (day_of 2022 3 9 * 86400000) = 2022" by code_simp
  moreover have "clear_tokens (tokens False ''mm/dd/yy'')" "names_a_day (tokens False ''mm/dd/yy'')" by code_simp+
  ultimately show ?thesis
    using clicked_day_is_read [of 0 "day_of 2022 2 1 * 86400000" ?p "[]" 0 one_day "day_of 2022 3 9 * 86400000", OF _ _ _ _ _ _ _ _ _ _ _ _ _ _ refl refl]
      default_names_good cells by simp
qed

end
