(* ===== verification/UI_Calendar_Props.thy ===== *)
theory UI_Calendar_Props
  imports UI_Datepicker_Props
begin

text \<open>
  The weeks that a date picker draws are those of its month: consecutive days from the first column
  on, all days of the month once, and the others marked as such.
\<close>

section \<open>Consecutive days\<close>

definition cell_days :: "day_cell list \<Rightarrow> int list" where
  "cell_days cs = map (\<lambda>c. date_day (cell_date c)) cs"

lemma draw_days_dates:
  assumes "draw_days p d m sel dows t = (cs, t')" "midnight t = t"
  shows "cell_days cs = [date_day t..date_day t + int (length dows) - 1] \<and> date_day t' = date_day t + int (length dows) \<and> midnight t' = t' \<and>
    list_all (\<lambda>c. other_month c \<longleftrightarrow> get_month (cell_date c) \<noteq> m) cs"
  using assms
proof (induction dows arbitrary: t cs t')
  case (Cons dow dows)
  obtain cs' u where d: "draw_days p d m sel dows (next_day t) = (cs', u)" by fastforce
  have n: "next_day t = t + 86400000" by (rule next_day_eq [OF Cons.prems(2)])
  have "midnight (next_day t) = next_day t" unfolding n by (rule midnight_next [OF Cons.prems(2)])
  note ih = Cons.IH [OF d this, unfolded n date_day_next]
  have cs: "cs = draw_cell p d m sel dow t # cs'" "t' = u" using Cons.prems(1) d by (simp_all add: Let_def)
  have "[date_day t..date_day t + int (length dows)] = date_day t # [date_day t + 1..date_day t + int (length dows)]"
    by (rule upto_rec1) simp
  then show ?case using ih unfolding cs by (simp add: cell_days_def draw_cell_def Let_def algebra_simps)
qed (simp add: cell_days_def)

lemma draw_weeks_dates:
  assumes "midnight t = t"
  shows "cell_days (concat (map snd (draw_weeks p d m sel n t))) = [date_day t..date_day t + 7 * int n - 1]"
    "list_all (\<lambda>c. other_month c \<longleftrightarrow> get_month (cell_date c) \<noteq> m) (concat (map snd (draw_weeks p d m sel n t)))"
    "list_all (\<lambda>w. length (snd w) = 7) (draw_weeks p d m sel n t)" "length (draw_weeks p d m sel n t) = n"
proof -
  have "cell_days (concat (map snd (draw_weeks p d m sel n t))) = [date_day t..date_day t + 7 * int n - 1] \<and>
    list_all (\<lambda>c. other_month c \<longleftrightarrow> get_month (cell_date c) \<noteq> m) (concat (map snd (draw_weeks p d m sel n t))) \<and>
    list_all (\<lambda>w. length (snd w) = 7) (draw_weeks p d m sel n t) \<and> length (draw_weeks p d m sel n t) = n"
    using assms
  proof (induction n arbitrary: t)
    case (Suc n)
    obtain cs u where d: "draw_days p d m sel [0..6] t = (cs, u)" by fastforce
    have seven: "length [0..6::int] = 7" by simp
    note a = draw_days_dates [OF d Suc.prems, unfolded seven]
    then have "length (cell_days cs) = 7" by simp
    then have "length cs = 7" by (simp add: cell_days_def)
    have split: "[date_day t..date_day t + 7 * int (Suc n) - 1] = [date_day t..date_day t + 6] @ [date_day t + 7..date_day t + 7 + 7 * int n - 1]"
      using upto_split2 [of "date_day t" "date_day t + 6" "date_day t + 7 * int (Suc n) - 1"] by (simp add: algebra_simps)
    have w: "draw_weeks p d m sel (Suc n) t = (if dp_show_week p then Some (dp_week p t) else None, cs) # draw_weeks p d m sel n u"
      by (simp only: draw_weeks.simps d prod.case Let_def)
    show ?case using a Suc.IH [of u] \<open>length cs = 7\<close> unfolding w split by (simp add: cell_days_def add.commute)
  qed (simp add: cell_days_def)
  then show "cell_days (concat (map snd (draw_weeks p d m sel n t))) = [date_day t..date_day t + 7 * int n - 1]"
    "list_all (\<lambda>c. other_month c \<longleftrightarrow> get_month (cell_date c) \<noteq> m) (concat (map snd (draw_weeks p d m sel n t)))"
    "list_all (\<lambda>w. length (snd w) = 7) (draw_weeks p d m sel n t)" "length (draw_weeks p d m sel n t) = n" by blast+
qed

section \<open>The days around a month\<close>

lemma month_of_days:
  assumes "1 \<le> m" "m \<le> 12" "D = day_of y m 1" "D - 27 \<le> k" "k < D + month_days y m + 28"
  shows "fst (snd (civil k)) = m \<longleftrightarrow> D \<le> k \<and> k < D + month_days y m"
proof -
  have inside: "civil k = (z, i, k - day_of z i 1 + 1)" if "1 \<le> i" "i \<le> 12" "day_of z i 1 \<le> k" "k < day_of z i 1 + month_days z i" for z i
  proof -
    have "day_of z i (k - day_of z i 1 + 1) = k" using day_of_linear [of z i "k - day_of z i 1 + 1"] by simp
    then show ?thesis using civil_day_of [of i "k - day_of z i 1 + 1" z] that by simp
  qed
  consider "k < D" | "D \<le> k" "k < D + month_days y m" | "D + month_days y m \<le> k" by linarith
  then show ?thesis
  proof cases
    case 1
    define i where "i = (if m = 1 then 12 else m - 1)"
    define z where "z = (if m = 1 then y - 1 else y)"
    have i: "1 \<le> i" "i \<le> 12" "i \<noteq> m" using assms(1,2) by (auto simp: i_def)
    have "z + i div 12 = y \<and> i mod 12 + 1 = m" using assms(1,2) by (auto simp: i_def z_def)
    then have D: "D = day_of z i 1 + month_days z i" using next_month [OF i(1,2), of z] assms(3) by simp
    have "civil k = (z, i, k - day_of z i 1 + 1)" using 1 D assms(4) month_days_bounds [OF i(1,2), of z] by (intro inside i) simp_all
    then show ?thesis using 1 i(3) by simp
  next
    case 2
    have "civil k = (y, m, k - day_of y m 1 + 1)" using 2 assms(1-3) by (intro inside) simp_all
    then show ?thesis using 2 by simp
  next
    case 3
    define i where "i = m mod 12 + 1"
    define z where "z = y + m div 12"
    have i: "1 \<le> i" "i \<le> 12" using pos_mod_sign [of 12 m] pos_mod_bound [of 12 m] unfolding i_def by linarith+
    have ne: "i \<noteq> m" using assms(1,2) by (cases "m = 12") (simp_all add: i_def)
    have D: "day_of z i 1 = D + month_days y m" using next_month [OF assms(1,2), of y] assms(3) by (simp add: i_def z_def)
    have "civil k = (z, i, k - day_of z i 1 + 1)" using 3 D assms(5) month_days_bounds [OF i, of z] by (intro inside i) simp_all
    then show ?thesis using 3 ne by simp
  qed
qed

lemma filter_range: "a \<le> l \<Longrightarrow> h \<le> b \<Longrightarrow> l \<le> h + 1 \<Longrightarrow> filter (\<lambda>k. l \<le> k \<and> k \<le> h) [a..b] = [l..(h::int)]"
proof -
  assume r: "a \<le> l" "h \<le> b" "l \<le> h + 1"
  have "[a..b] = [a..l - 1] @ [l..b]"
  proof (cases "l \<le> b")
    case False
    then have "l - 1 = b" using r by linarith
    then show ?thesis by simp
  qed (use upto_split1 [of a l b] r in simp)
  moreover have "[l..b] = [l..h] @ [h + 1..b]"
  proof (cases "l \<le> h")
    case False
    then have "l = h + 1" using r by linarith
    then show ?thesis by simp
  qed (use upto_split2 [of l h b] r in simp)
  moreover have "filter (\<lambda>k. l \<le> k \<and> k \<le> h) [a..l - 1] = []" "filter (\<lambda>k. l \<le> k \<and> k \<le> h) [h + 1..b] = []"
    "filter (\<lambda>k. l \<le> k \<and> k \<le> h) [l..h] = [l..h]" by (simp_all add: filter_empty_conv)
  ultimately show ?thesis by simp
qed

section \<open>The month that is drawn\<close>

lemma lead_days_eq:
  assumes "0 \<le> dp_first_day p" "dp_first_day p \<le> 6"
  shows "lead_days p y m = (first_day_of_month y m - dp_first_day p) mod 7"
proof -
  have "0 \<le> first_day_of_month y m" by (simp add: first_day_of_month_def get_day_def)
  then have "0 \<le> first_day_of_month y m - dp_first_day p + 7" using assms by linarith
  then show ?thesis by (simp add: lead_days_def js_rem_def)
qed

text \<open>
  C30. The weeks of a drawn month have seven days, run on from the column of the first day of the week, and show
  the days of the month once each, in order; only those are not marked as of another month.
\<close>

theorem calendar_shows_month:
  assumes "draw_one p d sec mx y m day = (v, rows, day')" "100 \<le> y" "0 \<le> m" "m \<le> 11"
    and "0 \<le> dp_first_day p" "dp_first_day p \<le> 6" "mx \<le> 6"
    and "first = day_of y (m + 1) 1" "cells = concat (map snd (view_weeks v))"
  shows "cell_days (filter (\<lambda>c. \<not> other_month c) cells) = [first..first + month_days y (m + 1) - 1] \<and>
    (\<exists>start. cell_days cells = [start..start + 7 * rows - 1] \<and> (start + 4) mod 7 = dp_first_day p) \<and>
    list_all (\<lambda>w. length (snd w) = 7) (view_weeks v) \<and> 4 \<le> rows \<and> rows \<le> 6"
proof -
  let ?len = "month_days y (m + 1)"
  define lead where "lead = lead_days p y m"
  define start where "start = first - lead"
  have m: "1 \<le> m + 1" "m + 1 \<le> 12" using assms(3,4) by simp_all
  note len = month_days_bounds [OF m, of y]
  have days: "days_in_month y m = ?len" using days_in_month_length [OF assms(2) m] by simp
  have lead: "lead = ((first + 4) mod 7 - dp_first_day p) mod 7"
    unfolding lead_def lead_days_eq [OF assms(5,6)] first_day_of_month_def get_day_def
    using make_day_month [OF m, of y 1] assms(2,8) by (simp add: new_date_def)
  then have lead_bounds: "0 \<le> lead" "lead \<le> 6" using pos_mod_bound [of 7 "(first + 4) mod 7 - dp_first_day p"] by simp_all
  have "(start + 4) mod 7 = ((first + 4) mod 7 - lead) mod 7" by (simp add: start_def mod_diff_left_eq algebra_simps)
  also have "\<dots> = dp_first_day p"
    unfolding lead using assms(5,6) by (simp add: mod_diff_right_eq)
  finally have column: "(start + 4) mod 7 = dp_first_day p" .
  have new: "daylight_saving_adjust (new_date y m (1 - lead)) = start * 86400000"
  proof -
    have "new_date y m (1 - lead) = start * 86400000"
      using make_day_month [OF m, of y "1 - lead"] day_of_linear [of y "m + 1" "1 - lead"] assms(2,8)
      by (simp add: new_date_def start_def)
    then show ?thesis by simp
  qed
  have rows: "rows = (if multi_month p then max mx (week_rows p y m) else week_rows p y m)"
    and weeks: "view_weeks v = draw_weeks p d m (daylight_saving_adjust (new_date y m day)) (nat rows) (start * 86400000)"
    using assms(1) unfolding draw_one_def Let_def lead_def [symmetric] new by auto
  have "week_rows p y m = (lead + ?len + 6) div 7" by (simp add: week_rows_def lead_def days)
  then have wr: "lead + ?len \<le> 7 * week_rows p y m" "4 \<le> week_rows p y m" "week_rows p y m \<le> 6" using lead_bounds len by linarith+
  then have r: "lead + ?len \<le> 7 * rows" "4 \<le> rows" "rows \<le> 6" using rows assms(7) by (auto split: if_splits)
  have "midnight (start * 86400000) = start * 86400000" by simp
  note W = draw_weeks_dates [OF this, where p = p and d = d and m = m and sel = "daylight_saving_adjust (new_date y m day)" and n = "nat rows", folded weeks, folded assms(9)]
  have all: "cell_days cells = [start..start + 7 * rows - 1]" using W(1) r by simp
  have "cell_days (filter (\<lambda>c. \<not> other_month c) cells) = cell_days (filter (\<lambda>c. fst (snd (civil (date_day (cell_date c)))) = m + 1) cells)"
  proof (rule arg_cong [of _ _ cell_days], rule filter_cong [OF refl])
    fix c
    assume "c \<in> set cells"
    then have "other_month c \<longleftrightarrow> get_month (cell_date c) \<noteq> m" using W(2) unfolding list_all_iff by blast
    then show "(\<not> other_month c) = (fst (snd (civil (date_day (cell_date c)))) = m + 1)" unfolding get_month_def by linarith
  qed
  also have "\<dots> = filter (\<lambda>k. fst (snd (civil k)) = m + 1) (cell_days cells)"
    by (simp add: cell_days_def filter_map comp_def)
  also have "\<dots> = filter (\<lambda>k. first \<le> k \<and> k \<le> first + ?len - 1) [start..start + 7 * rows - 1]"
    unfolding all
  proof (rule filter_cong [OF refl])
    fix k
    assume "k \<in> set [start..start + 7 * rows - 1]"
    then have "first - 27 \<le> k" "k < first + ?len + 28" using lead_bounds r len by (auto simp: start_def)
    from month_of_days [OF m assms(8) this]
    show "(fst (snd (civil k)) = m + 1) = (first \<le> k \<and> k \<le> first + ?len - 1)" by auto
  qed
  also have "\<dots> = [first..first + ?len - 1]"
    using lead_bounds r len by (intro filter_range) (simp_all add: start_def)
  finally show ?thesis using all column W(3) r by blast
qed

text \<open>March 2022, with weeks that begin on Monday\<close>

lemma calendar_shows_month_witness:
  "cell_days (filter (\<lambda>c. \<not> other_month c) (concat (map snd (view_weeks (fst (draw_one demo_picker
      \<lparr>dr_lo = None, dr_hi = None, dr_today = 0, dr_current = 0, dr_default = 0\<rparr> False 4 2022 2 1)))))) = [19052..19082]"
proof -
  let ?d = "\<lparr>dr_lo = None, dr_hi = None, dr_today = 0, dr_current = 0, dr_default = 0\<rparr>"
  obtain v rows day' where o': "draw_one demo_picker ?d False 4 2022 2 1 = (v, rows, day')" by (metis prod_cases3)
  have "day_of 2022 (2 + 1) 1 = 19052" "month_days 2022 (2 + 1) = 31" "dp_first_day demo_picker = 1" by code_simp+
  then show ?thesis using calendar_shows_month [OF o' _ _ _ _ _ _ refl refl] o' by simp
qed

section \<open>Enter\<close>

text \<open>
  Enter takes the number of the highlighted day, but the selected month: in a picker that shows several
  months the day that is highlighted as the default date may be of another one.
\<close>

lemma select_date_ends: "\<not> dp_inline p \<Longrightarrow> fst (select_date s p) = None"
  by (cases "dp_alt_format p"; cases "dp_input p")
    (simp_all add: select_date_def set_input_def update_alternate_def hide_datepicker_def guard_def ite_def seq_def upd_def skip_def tell_def)

lemma enter_takes_selected_month:
  assumes "find (\<lambda>c. cell_over c \<and> \<not> cell_current c) (cells_shown p) = Some c" "\<not> unselectable c" "\<not> dp_disabled p" "\<not> dp_inline p"
    and "dp_input p = Some s0" "q = snd (select_highlighted p)"
  shows "current_day q = get_date (cell_date c) \<and> current_month q = selected_month p \<and> current_year q = selected_year p"
proof -
  let ?s = "p\<lparr>selected_day := get_date (cell_date c), current_day := get_date (cell_date c), selected_month := selected_month p,
      current_month := selected_month p, selected_year := selected_year p, current_year := selected_year p\<rparr>"
  let ?v = "current_text ?s"
  have "get_date (cell_date c) \<noteq> 0" using field_bounds(3) [of "cell_date c"] by linarith
  then have d: "select_day (get_date (cell_date c)) (selected_month p) (selected_year p) (unselectable c) p = select_date ?v ?s"
    using assms(2,3) by (simp add: select_day_def guard_def ite_def seq_upd bind_val_def)
  have inp: "\<not> dp_inline ?s" "dp_input ?s = Some s0" using assms(4,5) by simp_all
  obtain r where r: "select_date ?v ?s = (None, r)" using select_date_ends [OF inp(1)] by (metis prod.collapse)
  note f = select_date_popup [OF inp, of r ?v]
  have c: "current_day r = get_date (cell_date c)" "current_month r = selected_month p" "current_year r = selected_year p" "core r = core ?s"
    using f r by simp_all
  have e: "select_highlighted p = ite dp_on_select (block [format_current, bind_val current_text (\<lambda>s. upd (tell (DateSelected s)))]) hide_datepicker r"
    unfolding select_highlighted_def block.simps seq_skip
    by (rule seq_None) (simp only: bind_val_def assms(1) option.case prod.case d r)
  show ?thesis unfolding assms(6) e
    using c by (simp add: ite_def format_current_def hide_datepicker_def guard_def seq_def upd_def skip_def bind_val_def tell_def core_def)
qed

end
