(* ===== verification/UI_Spinner.thy ===== *)
theory UI_Spinner
  imports UI_Slider
begin

text \<open>
  The spinner widget of jQuery UI (\<open>$.widget("ui.spinner")\<close>): a text field with a value that keys,
  the mouse wheel and two buttons step up and down. The field, the options, the pending timeouts
  and what the widget has drawn are the state; what listens to its four events is the parameter
  \<open>listen\<close>, which may change the rest of the page, refuse what is about to happen, or throw.
\<close>

section \<open>State\<close>

text \<open>What may be given as a value or as the option \<open>min\<close>, \<open>max\<close> or \<open>step\<close>.\<close>

datatype spin_value = AsText string | AsNumber jsnum | AsNull

datatype spin_note = SpinStart | SpinMove jsnum | SpinStop | SpinChange

text \<open>The option \<open>incremental\<close>: false, true or a function.\<close>

datatype incremental = Steady | Growing | Custom "nat \<Rightarrow> jsnum"

text \<open>The callbacks that wait for the current handler to end (timeouts of 0).\<close>

datatype spin_task = SetPrevious "string option" | CheckFocus "string option"

text \<open>The library Globalize, when the page has loaded it: \<open>parseFloat\<close> and \<open>format\<close>.\<close>

record globalize =
  g_parse :: "string \<Rightarrow> string option \<Rightarrow> jsnum"
  g_format :: "jsnum option \<Rightarrow> string \<Rightarrow> string option \<Rightarrow> string"

record 'e spinner =
  sp_text :: string                            \<comment> \<open>\<open>this.element.val()\<close>\<close>
  sp_max :: "jsnum option"
  sp_min :: "jsnum option"
  sp_step :: "jsnum option"
  sp_page :: jsnum
  sp_incremental :: incremental
  sp_culture :: "string option"
  sp_number_format :: "string option"
  sp_icons :: "string \<times> string"                \<comment> \<open>the option: up and down\<close>
  sp_disabled :: bool
  sp_counter :: nat                            \<comment> \<open>undefined is \<open>0\<close>\<close>
  sp_spinning :: bool
  sp_previous :: "string option"
  sp_cancel_blur :: bool
  sp_timer :: "(nat \<times> jsnum) option"           \<comment> \<open>the timeout that repeats, and its steps\<close>
  sp_wheel_timer :: bool
  sp_tasks :: "spin_task list"
  sp_focused :: bool                           \<comment> \<open>the field is the active element\<close>
  sp_bound :: bool                             \<comment> \<open>the handlers are bound\<close>
  sp_aria :: "jsnum option \<times> jsnum option \<times> jsnum option"
  sp_wrapped :: bool                           \<comment> \<open>the wrapper with the two buttons is there\<close>
  sp_autocomplete_off :: bool
  sp_role :: bool
  sp_icon_classes :: "string list \<times> string list"
  sp_wrapper_disabled :: bool
  sp_field_disabled :: bool
  sp_buttons_disabled :: bool
  sp_globalize :: "globalize option"
  sp_answer :: bool                            \<comment> \<open>what the method called last returned\<close>
  sp_prevented :: bool
  sp_history :: "(spin_note \<times> (exn + bool)) list"
  sp_outside :: 'e

type_synonym 'e spin_listener = "spin_note \<Rightarrow> 'e \<Rightarrow> (exn + bool) \<times> 'e"

text \<open>The options by default, with a field that nothing has been done to.\<close>

definition new_spinner :: "string \<Rightarrow> 'e \<Rightarrow> 'e spinner" where
  "new_spinner t out = \<lparr>sp_text = t, sp_max = None, sp_min = None, sp_step = Some (Fin 1), sp_page = Fin 10,
     sp_incremental = Growing, sp_culture = None, sp_number_format = None,
     sp_icons = (''ui-icon-triangle-1-n'', ''ui-icon-triangle-1-s''), sp_disabled = False,
     sp_counter = 0, sp_spinning = False, sp_previous = None, sp_cancel_blur = False, sp_timer = None,
     sp_wheel_timer = False, sp_tasks = [], sp_focused = False, sp_bound = False,
     sp_aria = (None, None, None), sp_wrapped = False, sp_autocomplete_off = False, sp_role = False,
     sp_icon_classes = ([], []), sp_wrapper_disabled = False, sp_field_disabled = False, sp_buttons_disabled = False,
     sp_globalize = None, sp_answer = True, sp_prevented = False, sp_history = [], sp_outside = out\<rparr>"

text \<open>An event of the widget: the answer is false when a listener refused or prevented it.\<close>

definition spin_trigger :: "'e spin_listener \<Rightarrow> spin_note \<Rightarrow> 'e spinner stmt" where
  "spin_trigger listen n s = (case listen n (sp_outside s) of
       (Inl x, out) \<Rightarrow> (Some x, s\<lparr>sp_history := sp_history s @ [(n, Inl x)], sp_outside := out\<rparr>)
     | (Inr b, out) \<Rightarrow> (None, s\<lparr>sp_history := sp_history s @ [(n, Inr b)], sp_outside := out, sp_answer := b\<rparr>))"

definition answers :: "bool \<Rightarrow> 'e spinner stmt" where
  "answers b = upd (sp_answer_update (\<lambda>_. b))"

definition ask :: "'e spinner stmt \<Rightarrow> (bool \<Rightarrow> 'e spinner stmt) \<Rightarrow> 'e spinner stmt" where
  "ask m k = seq m (bind_val sp_answer k)"

definition spin_prevent :: "'e spinner stmt" where
  "spin_prevent = upd (sp_prevented_update (\<lambda>_. True))"

section \<open>Values and text\<close>

text \<open>Globalize is used when it is loaded and the option \<open>numberFormat\<close> is set.\<close>

definition number_format :: "'e spinner \<Rightarrow> (globalize \<times> string) option" where
  "number_format s = (case (sp_globalize s, sp_number_format s) of
     (Some g, Some f) \<Rightarrow> if f = [] then None else Some (g, f) | _ \<Rightarrow> None)"

definition not_nan :: "jsnum \<Rightarrow> jsnum option" where
  "not_nan x = (if x = NaN then None else Some x)"

definition spin_parse :: "'e spinner \<Rightarrow> spin_value \<Rightarrow> jsnum option" where
  "spin_parse s v = (case v of
       AsNull \<Rightarrow> None
     | AsNumber x \<Rightarrow> not_nan x
     | AsText t \<Rightarrow> if t = [] then None
         else not_nan (case number_format s of
             Some (g, _) \<Rightarrow> g_parse g t (sp_culture s)
           | None \<Rightarrow> str_to_num t))"

definition spin_format :: "'e spinner \<Rightarrow> jsnum option \<Rightarrow> spin_value" where
  "spin_format s v = (case number_format s of
       Some (g, f) \<Rightarrow> AsText (g_format g v f (sp_culture s))
     | None \<Rightarrow> (case v of None \<Rightarrow> AsNull | Some x \<Rightarrow> AsNumber x))"

text \<open>What the field shows when it is given a value.\<close>

fun field_text :: "spin_value \<Rightarrow> string" where
  "field_text (AsText t) = t"
| "field_text (AsNumber x) = num_to_string x"
| "field_text AsNull = []"

definition set_field :: "spin_value \<Rightarrow> 'e spinner stmt" where
  "set_field v = upd (sp_text_update (\<lambda>_. field_text v))"

text \<open>\<open>value()\<close>\<close>

definition spin_read :: "'e spinner \<Rightarrow> jsnum option" where
  "spin_read s = spin_parse s (AsText (sp_text s))"

definition spin_refresh :: "'e spinner stmt" where
  "spin_refresh = upd (\<lambda>s. s\<lparr>sp_aria := (sp_min s, sp_max s, spin_read s)\<rparr>)"

section \<open>Stepping\<close>

text \<open>In arithmetic \<open>null\<close> counts as \<open>0\<close>.\<close>

definition or_zero :: "jsnum option \<Rightarrow> jsnum" where
  "or_zero v = (case v of None \<Rightarrow> Fin 0 | Some x \<Rightarrow> x)"

text \<open>\<open>null\<close> has no method \<open>toString\<close>.\<close>

definition step_precision :: "jsnum option \<Rightarrow> exn + nat" where
  "step_precision v = (case v of None \<Rightarrow> Inl TypeError | Some x \<Rightarrow> Inr (precision_of x))"

definition spin_precision :: "'e spinner \<Rightarrow> exn + nat" where
  "spin_precision s = (case step_precision (sp_step s) of
       Inl e \<Rightarrow> Inl e
     | Inr p \<Rightarrow> (case sp_min s of None \<Rightarrow> Inr p | Some m \<Rightarrow> Inr (max p (precision_of m))))"

definition spin_clamp :: "'e spinner \<Rightarrow> jsnum \<Rightarrow> jsnum" where
  "spin_clamp s v =
     (if (case sp_max s of Some m \<Rightarrow> m < v | None \<Rightarrow> False) then or_zero (sp_max s)
      else if (case sp_min s of Some m \<Rightarrow> v < m | None \<Rightarrow> False) then or_zero (sp_min s)
      else v)"

text \<open>The nearest valid step counted from the minimum, with the digits of the options, clamped.\<close>

definition adjust_value :: "'e spinner \<Rightarrow> jsnum \<Rightarrow> exn + jsnum" where
  "adjust_value s value0 =
     (let base = or_zero (sp_min s);
          above_min = value0 - base;
          above_min = math_round (above_min div or_zero (sp_step s)) * or_zero (sp_step s);
          value1 = base + above_min
      in case spin_precision s of
           Inl e \<Rightarrow> Inl e
         | Inr p \<Rightarrow> Inr (spin_clamp s (parse_float (to_fixed p value1))))"

fun math_floor :: "jsnum \<Rightarrow> jsnum" where
  "math_floor (Fin q) = mk (of_int \<lfloor>q\<rfloor>)"
| "math_floor x = x"

definition increment :: "nat \<Rightarrow> 'e spinner \<Rightarrow> jsnum" where
  "increment n s = (let i = num_of_nat n in case sp_incremental s of
       Custom f \<Rightarrow> f n
     | Growing \<Rightarrow> math_floor (i * i * i div Fin 50000 - i * i div Fin 500 + Fin 17 * i div Fin 200 + Fin 1)
     | Steady \<Rightarrow> Fin 1)"

text \<open>\<open>_value\<close>: show a value, constrained unless \<open>allow_any\<close>, without an event.\<close>

definition put_value :: "bool \<Rightarrow> spin_value \<Rightarrow> 'e spinner stmt" where
  "put_value allow_any v = block
    [if v = AsText [] then set_field v
     else bind_val (\<lambda>s. spin_parse s v) (\<lambda>parsed. case parsed of
         None \<Rightarrow> set_field v
       | Some x \<Rightarrow> bind_exp (\<lambda>s. if allow_any then Inr x else adjust_value s x)
           (\<lambda>y. bind_val (\<lambda>s. spin_format s (Some y)) set_field)),
     spin_refresh]"

text \<open>\<open>_spin\<close>, with the change to the value that one step makes.\<close>

definition accept_value :: "jsnum \<Rightarrow> 'e spinner stmt" where
  "accept_value v = block [put_value False (AsNumber v), upd (sp_counter_update Suc)]"

definition spin_by :: "'e spin_listener \<Rightarrow> jsnum \<Rightarrow> 'e spinner stmt" where
  "spin_by listen step = block
    [guard (\<lambda>s. sp_counter s = 0) (upd (sp_counter_update (\<lambda>_. 1))),
     bind_exp (\<lambda>s. adjust_value s (or_zero (spin_read s) + step * increment (sp_counter s) s)) (\<lambda>v.
       ite (\<lambda>s. \<not> sp_spinning s) (accept_value v)
         (ask (spin_trigger listen (SpinMove v)) (\<lambda>allowed. if allowed then accept_value v else skip)))]"

text \<open>\<open>_start\<close> and \<open>_stop\<close>\<close>

definition spin_on :: "'e spinner stmt" where
  "spin_on = upd (\<lambda>s. s\<lparr>sp_counter := (if sp_counter s = 0 then 1 else sp_counter s),
     sp_spinning := True, sp_answer := True\<rparr>)"

definition spin_start :: "'e spin_listener \<Rightarrow> 'e spinner stmt" where
  "spin_start listen = ite sp_spinning spin_on
     (ask (spin_trigger listen SpinStart) (\<lambda>allowed. if allowed then spin_on else answers False))"

definition spin_stop :: "'e spin_listener \<Rightarrow> 'e spinner stmt" where
  "spin_stop listen = guard sp_spinning (block
    [upd (\<lambda>s. s\<lparr>sp_timer := None, sp_wheel_timer := False, sp_counter := 0, sp_spinning := False\<rparr>),
     spin_trigger listen SpinStop])"

text \<open>\<open>_repeat\<close>: the next repetition is due in half a second, or after the given time.\<close>

definition spin_repeat :: "'e spin_listener \<Rightarrow> nat option \<Rightarrow> jsnum \<Rightarrow> 'e spinner stmt" where
  "spin_repeat listen i steps = block
    [upd (sp_timer_update (\<lambda>_. Some (case i of None \<Rightarrow> 500 | Some d \<Rightarrow> if d = 0 then 500 else d, steps))),
     bind_val (\<lambda>s. steps * or_zero (sp_step s)) (spin_by listen)]"

section \<open>Keys, wheel and focus\<close>

definition key_steps :: "int \<Rightarrow> 'e spinner \<Rightarrow> jsnum option" where
  "key_steps key s =
     (if key = 38 then Some (Fin 1) else if key = 40 then Some (Fin (- 1))
      else if key = 33 then Some (sp_page s) else if key = 34 then Some (- sp_page s) else None)"

definition spin_keydown :: "'e spin_listener \<Rightarrow> int \<Rightarrow> 'e spinner stmt" where
  "spin_keydown listen key = bind_val (key_steps key) (\<lambda>steps. case steps of
       None \<Rightarrow> answers False
     | Some k \<Rightarrow> block [spin_repeat listen None k, answers True])"

definition on_keydown :: "'e spin_listener \<Rightarrow> int \<Rightarrow> 'e spinner stmt" where
  "on_keydown listen key = ask (spin_start listen) (\<lambda>started.
     if started then ask (spin_keydown listen key) (\<lambda>used. if used then spin_prevent else skip) else skip)"

definition on_focus :: "'e spinner stmt" where
  "on_focus = upd (\<lambda>s. s\<lparr>sp_previous := Some (sp_text s)\<rparr>)"

definition on_blur :: "'e spin_listener \<Rightarrow> 'e spinner stmt" where
  "on_blur listen = ite sp_cancel_blur (upd (sp_cancel_blur_update (\<lambda>_. False))) (block
    [spin_stop listen, spin_refresh,
     guard (\<lambda>s. sp_previous s \<noteq> Some (sp_text s)) (spin_trigger listen SpinChange)])"

definition on_mousewheel :: "'e spin_listener \<Rightarrow> jsnum \<Rightarrow> 'e spinner stmt" where
  "on_mousewheel listen delta =
     ite (\<lambda>s. \<not> sp_focused s \<or> num_eq delta (Fin 0) \<or> delta = NaN) skip
       (ask (ite sp_spinning (answers True) (spin_start listen)) (\<lambda>started.
          if \<not> started then spin_prevent
          else block
            [bind_val (\<lambda>s. (if Fin 0 < delta then Fin 1 else Fin (- 1)) * or_zero (sp_step s)) (spin_by listen),
             upd (sp_wheel_timer_update (\<lambda>_. True)),
             spin_prevent]))"

text \<open>The handlers that the widget has bound run only while it is enabled.\<close>

definition when_enabled :: "'e spinner stmt \<Rightarrow> 'e spinner stmt" where
  "when_enabled m = guard (\<lambda>s. sp_bound s \<and> \<not> sp_disabled s) m"

definition focus_field :: "'e spinner stmt" where
  "focus_field = block
    [guard (\<lambda>s. \<not> sp_field_disabled s) (upd (sp_focused_update (\<lambda>_. True))), when_enabled on_focus]"

definition check_focus :: "string option \<Rightarrow> 'e spinner stmt" where
  "check_focus previous = guard (\<lambda>s. \<not> sp_focused s) (block
    [focus_field,
     upd (\<lambda>s. s\<lparr>sp_previous := previous, sp_tasks := sp_tasks s @ [SetPrevious previous]\<rparr>)])"

definition run_task :: "spin_task \<Rightarrow> 'e spinner stmt" where
  "run_task t = (case t of
       SetPrevious p \<Rightarrow> upd (sp_previous_update (\<lambda>_. p))
     | CheckFocus p \<Rightarrow> block [upd (sp_cancel_blur_update (\<lambda>_. False)), check_focus p])"

section \<open>The buttons\<close>

definition button_steps :: "bool \<Rightarrow> jsnum" where
  "button_steps up = (if up then Fin 1 else Fin (- 1))"

definition on_button_down :: "'e spin_listener \<Rightarrow> bool \<Rightarrow> 'e spinner stmt" where
  "on_button_down listen up =
     bind_val (\<lambda>s. if sp_focused s then sp_previous s else Some (sp_text s)) (\<lambda>previous. block
       [spin_prevent,
        check_focus previous,
        upd (\<lambda>s. s\<lparr>sp_cancel_blur := True, sp_tasks := sp_tasks s @ [CheckFocus previous]\<rparr>),
        ask (spin_start listen) (\<lambda>started.
          if started then spin_repeat listen None (button_steps up) else skip)])"

text \<open>The button has the class \<open>ui-state-active\<close> when the mouse left it with the button held.\<close>

definition on_button_enter :: "'e spin_listener \<Rightarrow> bool \<Rightarrow> bool \<Rightarrow> 'e spinner stmt" where
  "on_button_enter listen up held =
     (if \<not> held then skip
      else ask (spin_start listen) (\<lambda>started.
        if started then spin_repeat listen None (button_steps up) else spin_prevent))"

section \<open>Methods\<close>

text \<open>\<open>spinnerModifier\<close>: an event for a change that a method has made.\<close>

definition spinner_modifier :: "'e spin_listener \<Rightarrow> 'e spinner stmt \<Rightarrow> 'e spinner stmt" where
  "spinner_modifier listen m = bind_val sp_text (\<lambda>previous. block
    [m, spin_refresh, guard (\<lambda>s. previous \<noteq> sp_text s) (spin_trigger listen SpinChange)])"

text \<open>\<open>x || 1\<close>\<close>

definition or_one :: "jsnum option \<Rightarrow> jsnum" where
  "or_one v = (case v of None \<Rightarrow> Fin 1 | Some x \<Rightarrow> if x = NaN \<or> x = Fin 0 then Fin 1 else x)"

definition do_step_up :: "'e spin_listener \<Rightarrow> jsnum option \<Rightarrow> 'e spinner stmt" where
  "do_step_up listen steps = ask (spin_start listen) (\<lambda>started. if started then block
    [bind_val (\<lambda>s. or_one steps * or_zero (sp_step s)) (spin_by listen), spin_stop listen] else skip)"

definition do_step_down :: "'e spin_listener \<Rightarrow> jsnum option \<Rightarrow> 'e spinner stmt" where
  "do_step_down listen steps = ask (spin_start listen) (\<lambda>started. if started then block
    [bind_val (\<lambda>s. or_one steps * - or_zero (sp_step s)) (spin_by listen), spin_stop listen] else skip)"

definition step_up :: "'e spin_listener \<Rightarrow> jsnum option \<Rightarrow> 'e spinner stmt" where
  "step_up listen steps = spinner_modifier listen (do_step_up listen steps)"

definition step_down :: "'e spin_listener \<Rightarrow> jsnum option \<Rightarrow> 'e spinner stmt" where
  "step_down listen steps = spinner_modifier listen (do_step_down listen steps)"

definition page_up :: "'e spin_listener \<Rightarrow> jsnum option \<Rightarrow> 'e spinner stmt" where
  "page_up listen pages = spinner_modifier listen
     (bind_val (\<lambda>s. or_one pages * sp_page s) (\<lambda>k. do_step_up listen (Some k)))"

definition page_down :: "'e spin_listener \<Rightarrow> jsnum option \<Rightarrow> 'e spinner stmt" where
  "page_down listen pages = spinner_modifier listen
     (bind_val (\<lambda>s. or_one pages * sp_page s) (\<lambda>k. do_step_down listen (Some k)))"

definition spin_set :: "'e spin_listener \<Rightarrow> spin_value \<Rightarrow> 'e spinner stmt" where
  "spin_set listen v = spinner_modifier listen (put_value False v)"

definition is_valid :: "'e spinner \<Rightarrow> exn + bool" where
  "is_valid s = (case spin_read s of
       None \<Rightarrow> Inr False
     | Some x \<Rightarrow> (case adjust_value s x of Inl e \<Rightarrow> Inl e | Inr y \<Rightarrow> Inr (num_eq x y)))"

section \<open>Options\<close>

datatype spin_option =
    OptMax spin_value | OptMin spin_value | OptStep spin_value | OptPage jsnum
  | OptIncremental incremental | OptCulture "string option" | OptNumberFormat "string option"
  | OptIcons string string | OptDisabled bool

definition limit_option :: "'e spinner \<Rightarrow> spin_value \<Rightarrow> jsnum option" where
  "limit_option s v = (case v of AsText t \<Rightarrow> spin_parse s v | AsNumber x \<Rightarrow> Some x | AsNull \<Rightarrow> None)"

text \<open>The field is shown again in the new format; what it does not understand becomes \<open>null\<close>.\<close>

definition reformat :: "('e spinner \<Rightarrow> 'e spinner) \<Rightarrow> 'e spinner stmt" where
  "reformat f = bind_val spin_read (\<lambda>v. block [upd f, bind_val (\<lambda>s. spin_format s v) set_field])"

definition swap_class :: "string \<Rightarrow> string \<Rightarrow> string list \<Rightarrow> string list" where
  "swap_class old new cs = List.insert new (removeAll old cs)"

definition set_disabled_option :: "bool \<Rightarrow> 'e spinner stmt" where
  "set_disabled_option b = upd (\<lambda>s. s\<lparr>sp_disabled := b, sp_wrapper_disabled := b,
     sp_field_disabled := b, sp_buttons_disabled := b\<rparr>)"

fun spin_set_option :: "spin_option \<Rightarrow> 'e spinner stmt" where
  "spin_set_option (OptCulture c) = reformat (sp_culture_update (\<lambda>_. c))"
| "spin_set_option (OptNumberFormat f) = reformat (sp_number_format_update (\<lambda>_. f))"
| "spin_set_option (OptMax v) = upd (\<lambda>s. s\<lparr>sp_max := limit_option s v\<rparr>)"
| "spin_set_option (OptMin v) = upd (\<lambda>s. s\<lparr>sp_min := limit_option s v\<rparr>)"
| "spin_set_option (OptStep v) = upd (\<lambda>s. s\<lparr>sp_step := limit_option s v\<rparr>)"
| "spin_set_option (OptPage x) = upd (sp_page_update (\<lambda>_. x))"
| "spin_set_option (OptIncremental i) = upd (sp_incremental_update (\<lambda>_. i))"
| "spin_set_option (OptIcons u d) = upd (\<lambda>s. s\<lparr>
     sp_icon_classes := (swap_class (fst (sp_icons s)) u (fst (sp_icon_classes s)),
                         swap_class (snd (sp_icons s)) d (snd (sp_icon_classes s))),
     sp_icons := (u, d)\<rparr>)"
| "spin_set_option (OptDisabled b) = set_disabled_option b"

definition spin_set_options :: "'e spin_listener \<Rightarrow> spin_option list \<Rightarrow> 'e spinner stmt" where
  "spin_set_options listen opts = spinner_modifier listen (for_each opts spin_set_option)"

section \<open>Creating and destroying\<close>

text \<open>
  An option of the caller wins over the attribute of the field, which wins over the default when
  it is not empty.
\<close>

definition create_option :: "spin_value option \<Rightarrow> string option \<Rightarrow> spin_value \<Rightarrow> spin_value" where
  "create_option given attribute def = (case given of
       Some v \<Rightarrow> v
     | None \<Rightarrow> (case attribute of Some t \<Rightarrow> if t = [] then def else AsText t | None \<Rightarrow> def))"

text \<open>The wrapper and the buttons come with the classes and attributes that they always have.\<close>

definition spin_enhance :: "'e spinner stmt" where
  "spin_enhance = upd (\<lambda>s. s\<lparr>sp_autocomplete_off := True, sp_wrapped := True\<rparr>)"

definition spin_draw :: "'e spinner stmt" where
  "spin_draw = block
    [spin_enhance,
     upd (\<lambda>s. s\<lparr>sp_role := True, sp_icon_classes := ([fst (sp_icons s)], [snd (sp_icons s)])\<rparr>)]"

text \<open>
  The test \<open>this.value() !== ""\<close> does not stop anything: a value is a number or \<open>null\<close>.
\<close>

definition spin_create :: "spin_value \<Rightarrow> spin_value \<Rightarrow> spin_value \<Rightarrow> 'e spinner stmt" where
  "spin_create mx mn st = block
    [spin_set_option (OptMax mx), spin_set_option (OptMin mn), spin_set_option (OptStep st),
     bind_val sp_text (\<lambda>t. put_value True (AsText t)),
     spin_draw,
     upd (sp_bound_update (\<lambda>_. True)),
     spin_refresh]"

definition before_unload :: "'e spinner stmt" where
  "before_unload = upd (sp_autocomplete_off_update (\<lambda>_. False))"

text \<open>\<open>_destroy\<close>, after which the base class unbinds the handlers; no timeout is cleared.\<close>

definition spin_destroy :: "'e spinner stmt" where
  "spin_destroy = upd (\<lambda>s. s\<lparr>sp_field_disabled := False, sp_autocomplete_off := False, sp_role := False,
     sp_aria := (None, None, None), sp_wrapped := False, sp_bound := False\<rparr>)"

section \<open>What the page sends\<close>

datatype spin_input =
    FieldKeyDown int
  | FieldKeyUp
  | FieldTyped string
  | FieldFocus
  | FieldBlur
  | FieldWheel jsnum
  | SpinButtonDown bool          \<comment> \<open>is it the upper button?\<close>
  | SpinButtonUp
  | SpinButtonEnter bool bool
  | SpinButtonLeave
  | RepeatDue
  | WheelDue
  | TaskDue
  | CallStepUp "jsnum option"
  | CallStepDown "jsnum option"
  | CallPageUp "jsnum option"
  | CallPageDown "jsnum option"
  | CallValue spin_value
  | CallOptions "spin_option list"
  | CallDestroy
  | PageUnload

fun spin_react :: "'e spin_listener \<Rightarrow> spin_input \<Rightarrow> 'e spinner stmt" where
  "spin_react listen (FieldKeyDown k) = when_enabled (on_keydown listen k)"
| "spin_react listen FieldKeyUp = when_enabled (spin_stop listen)"
| "spin_react listen (FieldTyped t) = guard (\<lambda>s. \<not> sp_field_disabled s) (upd (sp_text_update (\<lambda>_. t)))"
| "spin_react listen FieldFocus = focus_field"
| "spin_react listen FieldBlur = block [upd (sp_focused_update (\<lambda>_. False)), when_enabled (on_blur listen)]"
| "spin_react listen (FieldWheel d) = when_enabled (on_mousewheel listen d)"
| "spin_react listen (SpinButtonDown up) = when_enabled (on_button_down listen up)"
| "spin_react listen SpinButtonUp = when_enabled (spin_stop listen)"
| "spin_react listen (SpinButtonEnter up held) = when_enabled (on_button_enter listen up held)"
| "spin_react listen SpinButtonLeave = when_enabled (spin_stop listen)"
| "spin_react listen RepeatDue = bind_val sp_timer (\<lambda>t. case t of
       None \<Rightarrow> skip
     | Some (_, steps) \<Rightarrow> block [upd (sp_timer_update (\<lambda>_. None)), spin_repeat listen (Some 40) steps])"
| "spin_react listen WheelDue = guard sp_wheel_timer
     (block [upd (sp_wheel_timer_update (\<lambda>_. False)), guard sp_spinning (spin_stop listen)])"
| "spin_react listen TaskDue = bind_val sp_tasks (\<lambda>ts. case ts of
       [] \<Rightarrow> skip
     | t # rest \<Rightarrow> block [upd (sp_tasks_update (\<lambda>_. rest)), run_task t])"
| "spin_react listen (CallStepUp n) = step_up listen n"
| "spin_react listen (CallStepDown n) = step_down listen n"
| "spin_react listen (CallPageUp n) = page_up listen n"
| "spin_react listen (CallPageDown n) = page_down listen n"
| "spin_react listen (CallValue v) = spin_set listen v"
| "spin_react listen (CallOptions opts) = spin_set_options listen opts"
| "spin_react listen CallDestroy = spin_destroy"
| "spin_react listen PageUnload = when_enabled before_unload"

definition spin_handler :: "'e spin_listener \<Rightarrow> spin_input \<Rightarrow> 'e spinner stmt" where
  "spin_handler listen e = block [upd (sp_prevented_update (\<lambda>_. False)), spin_react listen e]"

end
