(* ===== verification/UI_Spinner_Props.thy ===== *)
theory UI_Spinner_Props
  imports UI_Spinner JS_Rounding Event_Loop
begin

text \<open>
  What holds of a spinner: its events come as starts, moves and stops whatever is done to it; a
  key that is held steps through the grid of its options up to the limit; a spinner that is
  disabled or destroyed while a key is held goes on stepping.
\<close>

section \<open>The order of the events\<close>

text \<open>What may follow when spinning is on or off; a start that is refused or fails starts nothing.\<close>

fun spin_protocol :: "bool \<Rightarrow> (spin_note \<times> (exn + bool)) list \<Rightarrow> bool option" where
  "spin_protocol on [] = Some on"
| "spin_protocol on ((SpinChange, _) # es) = spin_protocol on es"
| "spin_protocol False ((SpinStart, r) # es) = spin_protocol (r = Inr True) es"
| "spin_protocol True ((SpinMove _, _) # es) = spin_protocol True es"
| "spin_protocol True ((SpinStop, _) # es) = spin_protocol False es"
| "spin_protocol _ (_ # _) = None"

lemma spin_protocol_append: "spin_protocol b (xs @ ys) = Option.bind (spin_protocol b xs) (\<lambda>c. spin_protocol c ys)"
  by (induction b xs rule: spin_protocol.induct) simp_all

definition spin_sane :: "'e spinner \<Rightarrow> bool" where
  "spin_sane s \<longleftrightarrow> spin_protocol False (sp_history s) = Some (sp_spinning s) \<and>
     (if sp_spinning s then 0 < sp_counter s
      else sp_timer s = None \<and> \<not> sp_wheel_timer s \<and> sp_counter s = 0)"

definition sane_on :: "'e spinner \<Rightarrow> bool" where
  "sane_on s \<longleftrightarrow> spin_protocol False (sp_history s) = Some True \<and> sp_spinning s \<and> 0 < sp_counter s"

lemma sane_on_sane: "sane_on s \<longleftrightarrow> spin_sane s \<and> sp_spinning s"
  by (auto simp: sane_on_def spin_sane_def)

definition spin_view :: "'e spinner \<Rightarrow> _" where
  "spin_view s = (sp_history s, sp_spinning s, sp_timer s, sp_wheel_timer s, sp_counter s)"

lemma sane_view: "spin_view t = spin_view s \<Longrightarrow> spin_sane t = spin_sane s \<and> sane_on t = sane_on s"
  by (simp add: spin_view_def spin_sane_def sane_on_def)

lemma wp_view:
  assumes "keeps spin_view m"
  shows "spin_sane s \<Longrightarrow> wp m spin_sane spin_sane s" "sane_on s \<Longrightarrow> wp m sane_on sane_on s"
  using sane_view [OF keepsD [OF assms]] by (simp_all add: wp_same)

named_theorems spin_frames "methods of the spinner that leave the events and the timers alone"

lemma view_upd: "(\<And>s. spin_view (f s) = spin_view s) \<Longrightarrow> keeps spin_view (upd f)"
  by (rule keeps_upd)

lemma view_simple [spin_frames, frame_intro]:
  "keeps spin_view (answers b)" "keeps spin_view spin_prevent" "keeps spin_view (set_field v)"
  "keeps spin_view spin_refresh" "keeps spin_view on_focus" "keeps spin_view before_unload"
  "keeps spin_view spin_destroy" "keeps spin_view (set_disabled_option d)" "keeps spin_view spin_draw"
  unfolding answers_def spin_prevent_def set_field_def spin_refresh_def on_focus_def before_unload_def
    spin_destroy_def set_disabled_option_def spin_draw_def spin_enhance_def
  by (intro frame_intro keeps_upd; simp add: spin_view_def)+

lemma view_put [spin_frames, frame_intro]: "keeps spin_view (put_value a v)"
  unfolding put_value_def by (intro frame_intro)

lemma view_option [spin_frames, frame_intro]: "keeps spin_view (spin_set_option opt)"
  by (cases opt) (simp_all add: reformat_def, (intro frame_intro keeps_upd; simp add: spin_view_def)+)

lemma view_focus [spin_frames, frame_intro]:
  "keeps spin_view focus_field" "keeps spin_view (check_focus p)" "keeps spin_view (run_task t)"
  unfolding check_focus_def focus_field_def when_enabled_def run_task_def
  by (cases t; simp; intro frame_intro keeps_upd; simp add: spin_view_def)+

lemma wp_ask: "wp (ask m k) Q E s = wp m (\<lambda>t. wp (k (sp_answer t)) Q E t) E s"
  by (simp add: ask_def wp_seq wp_bind_val [abs_def])

lemma wp_trigger:
  assumes "\<And>b out. Q (s\<lparr>sp_history := sp_history s @ [(n, Inr b)], sp_outside := out, sp_answer := b\<rparr>)"
    and "\<And>x out. E (s\<lparr>sp_history := sp_history s @ [(n, Inl x)], sp_outside := out\<rparr>)"
  shows "wp (spin_trigger listen n) Q E s"
  using assms by (auto simp: wp_def spin_trigger_def split: prod.splits sum.splits)

text \<open>Each method keeps the order; one that steps is called while spinning is on.\<close>

lemma change_sane:
  "spin_sane s \<Longrightarrow> wp (spin_trigger listen SpinChange) spin_sane spin_sane s"
  by (rule wp_trigger) (simp_all add: spin_sane_def spin_protocol_append)

lemma accept_sane: "sane_on s \<Longrightarrow> wp (accept_value v) sane_on sane_on s"
  unfolding accept_value_def wp_simps
  by (rule wp_mono [OF wp_view(2) [OF view_put]]) (simp_all add: sane_on_def spin_sane_def)

lemma move_sane: "sane_on s \<Longrightarrow> wp (spin_trigger listen (SpinMove v)) sane_on sane_on s"
  by (rule wp_trigger) (simp_all add: sane_on_def spin_sane_def spin_protocol_append)

lemma spin_by_sane: "sane_on s \<Longrightarrow> wp (spin_by listen step) sane_on sane_on s"
  unfolding spin_by_def wp_simps wp_ask
  by (auto split: sum.splits intro!: accept_sane wp_mono [OF move_sane] simp: sane_on_def spin_sane_def wp_simps)

lemma start_sane:
  "spin_sane s \<Longrightarrow> wp (spin_start listen) (\<lambda>t. spin_sane t \<and> (sp_answer t \<longrightarrow> sp_spinning t)) spin_sane s"
  unfolding spin_start_def spin_on_def answers_def wp_simps wp_ask
  by (auto intro!: wp_trigger simp: spin_sane_def spin_protocol_append wp_simps)

lemma stop_sane: "spin_sane s \<Longrightarrow> wp (spin_stop listen) spin_sane spin_sane s"
  unfolding spin_stop_def wp_simps
  by (auto intro!: wp_trigger simp: spin_sane_def spin_protocol_append)

lemma repeat_sane: "sane_on s \<Longrightarrow> wp (spin_repeat listen i steps) sane_on sane_on s"
  unfolding spin_repeat_def wp_simps by (auto intro!: spin_by_sane simp: sane_on_def spin_sane_def)

lemma after_start:
  fixes s :: "'e spinner"
  assumes "spin_sane s" "\<And>t. sane_on t \<Longrightarrow> wp (k True) spin_sane spin_sane t"
    and "\<And>t. spin_sane t \<Longrightarrow> wp (k False) spin_sane spin_sane t"
  shows "wp (ask (spin_start listen) k) spin_sane spin_sane s"
  unfolding wp_ask
proof (rule wp_mono [OF start_sane [OF assms(1)]])
  fix t :: "'e spinner" assume "spin_sane t \<and> (sp_answer t \<longrightarrow> sp_spinning t)"
  then show "wp (k (sp_answer t)) spin_sane spin_sane t"
    using assms(2,3) by (cases "sp_answer t") (simp_all add: sane_on_sane)
qed

lemma weaken_sane: "wp m sane_on sane_on s \<Longrightarrow> wp m spin_sane spin_sane s"
  by (erule wp_mono) (simp_all add: sane_on_sane)


text \<open>Rules that carry a property of the state through a statement.\<close>

named_theorems carry "a property that holds before a statement holds after it"

lemma carry_rules [carry]:
  "P s \<Longrightarrow> wp skip P P s"
  "wp m P P s \<Longrightarrow> (\<And>t. P t \<Longrightarrow> wp n P P t) \<Longrightarrow> wp (seq m n) P P s"
  "P s \<Longrightarrow> wp (block []) P P s"
  "wp m P P s \<Longrightarrow> (\<And>t. P t \<Longrightarrow> wp (block ms) P P t) \<Longrightarrow> wp (block (m # ms)) P P s"
  "P s \<Longrightarrow> wp m P P s \<Longrightarrow> wp (guard c m) P P s"
  "wp m P P s \<Longrightarrow> wp n P P s \<Longrightarrow> wp (ite c m n) P P s"
  "(\<And>x. wp (k x) P P s) \<Longrightarrow> wp (bind_val f k) P P s"
  "wp m P P s \<Longrightarrow> (\<And>b t. P t \<Longrightarrow> wp (l b) P P t) \<Longrightarrow> wp (ask m l) P P s"
  "wp m P P s \<Longrightarrow> wp n P P s \<Longrightarrow> wp (if b then m else n) P P s"
  "P s \<Longrightarrow> wp m P P s \<Longrightarrow> wp (when_enabled m) P P s"
  by (simp_all add: wp_simps wp_done wp_chain wp_ask when_enabled_def) (erule wp_mono; simp)+

lemmas sane_frames [carry] = spin_frames [THEN wp_view(1)] spin_frames [THEN wp_view(2)]

lemma carry_upd: "(\<And>s. P s \<Longrightarrow> P (f s)) \<Longrightarrow> P s \<Longrightarrow> wp (upd f) P P s"
  by (simp add: wp_upd)

lemma carry_each: "P (s :: 'e spinner) \<Longrightarrow> (\<And>x t. P t \<Longrightarrow> wp (f x) P P t) \<Longrightarrow> wp (for_each xs f) P P s"
proof (induction xs arbitrary: s)
  case (Cons x xs)
  show ?case unfolding for_each.simps by (rule carry_rules(2)) (use Cons in auto)
qed (simp add: wp_skip)

lemma keydown_sane: "spin_sane s \<Longrightarrow> wp (on_keydown listen key) spin_sane spin_sane s"
proof -
  assume s: "spin_sane s"
  have "wp (spin_keydown listen key) spin_sane spin_sane t" if "sane_on t" for t
    unfolding spin_keydown_def
  proof (intro carry weaken_sane)
    show "wp (case k of None \<Rightarrow> answers False | Some k \<Rightarrow> block [spin_repeat listen None k, answers True]) sane_on sane_on t" for k
      using that by (cases k) (auto intro!: carry repeat_sane)
  qed
  then show ?thesis unfolding on_keydown_def
    by (intro after_start [OF s]) (auto intro!: carry)
qed

lemma wheel_sane: "spin_sane s \<Longrightarrow> wp (on_mousewheel listen d) spin_sane spin_sane s"
proof -
  assume s: "spin_sane s"
  have on: "wp (block [bind_val f (spin_by listen), upd (sp_wheel_timer_update (\<lambda>_. True)), spin_prevent]) spin_sane spin_sane t"
    if "sane_on t" for f t
    by (intro weaken_sane carry spin_by_sane carry_upd that) (simp_all add: sane_on_def)
  have "wp (ite sp_spinning (answers True) (spin_start listen)) (\<lambda>t. spin_sane t \<and> (sp_answer t \<longrightarrow> sp_spinning t)) spin_sane s"
    using s start_sane [OF s] by (simp add: wp_ite answers_def wp_upd spin_sane_def)
  then have "wp (ask (ite sp_spinning (answers True) (spin_start listen)) (\<lambda>started.
          if \<not> started then spin_prevent
          else block
            [bind_val (\<lambda>s. (if Fin 0 < d then Fin 1 else Fin (- 1)) * or_zero (sp_step s)) (spin_by listen),
             upd (sp_wheel_timer_update (\<lambda>_. True)),
             spin_prevent])) spin_sane spin_sane s"
    unfolding wp_ask by (rule wp_mono) (auto intro!: on sane_frames simp: sane_on_sane simp del: block.simps)
  then show ?thesis using s by (simp add: on_mousewheel_def wp_ite wp_skip)
qed

lemma started_repeat:
  "spin_sane s \<Longrightarrow> (\<And>t. spin_sane t \<Longrightarrow> wp m spin_sane spin_sane t) \<Longrightarrow>
    wp (ask (spin_start listen) (\<lambda>started. if started then spin_repeat listen i k else m)) spin_sane spin_sane s"
  by (rule after_start) (simp_all add: weaken_sane repeat_sane)

lemma press_sane:
  "spin_sane s \<Longrightarrow> wp (on_button_down listen up) spin_sane spin_sane s"
  "spin_sane s \<Longrightarrow> wp (on_button_enter listen up held) spin_sane spin_sane s"
  unfolding on_button_down_def on_button_enter_def
  by (intro carry carry_upd started_repeat; simp add: spin_sane_def)+

lemma blur_sane: "spin_sane s \<Longrightarrow> wp (on_blur listen) spin_sane spin_sane s"
  unfolding on_blur_def
  by (intro carry stop_sane change_sane carry_upd) (simp_all add: spin_sane_def)

lemma modifier_sane:
  "spin_sane s \<Longrightarrow> (\<And>t. spin_sane t \<Longrightarrow> wp m spin_sane spin_sane t) \<Longrightarrow> wp (spinner_modifier listen m) spin_sane spin_sane s"
  unfolding spinner_modifier_def by (intro carry change_sane) simp_all

lemma step_sane:
  "spin_sane s \<Longrightarrow> wp (do_step_up listen n) spin_sane spin_sane s"
  "spin_sane s \<Longrightarrow> wp (do_step_down listen n) spin_sane spin_sane s"
  unfolding do_step_up_def do_step_down_def
  by (rule after_start; auto intro!: carry weaken_sane [OF spin_by_sane] stop_sane)+

lemma repeat_due_sane: "spin_sane s \<Longrightarrow> wp (spin_react listen RepeatDue) spin_sane spin_sane s"
proof -
  assume s: "spin_sane s"
  then have "wp (spin_repeat listen i k) spin_sane spin_sane (s\<lparr>sp_timer := None\<rparr>)" if "sp_timer s \<noteq> None" for i k
    using that by (intro weaken_sane repeat_sane) (auto simp: sane_on_def spin_sane_def split: if_splits)
  then show ?thesis
    using s by (cases "sp_timer s") (auto simp: wp_simps wp_done wp_chain split: prod.split)
qed

lemma wheel_due_sane: "spin_sane s \<Longrightarrow> wp (spin_react listen WheelDue) spin_sane spin_sane s"
  unfolding spin_react.simps by (intro carry carry_upd stop_sane) (simp_all add: spin_sane_def)

lemma task_due_sane: "spin_sane s \<Longrightarrow> wp (spin_react listen TaskDue) spin_sane spin_sane s"
  unfolding spin_react.simps
proof (rule carry)
  assume s: "spin_sane s"
  show "wp (case ts of [] \<Rightarrow> skip | t # rest \<Rightarrow> block [upd (sp_tasks_update (\<lambda>_. rest)), run_task t]) spin_sane spin_sane s" for ts
    using s by (cases ts) (auto intro!: carry carry_upd simp: spin_sane_def simp del: block.simps)
qed

lemma react_sane: "spin_sane s \<Longrightarrow> wp (spin_react listen e) spin_sane spin_sane s"
proof (cases e)
  case (CallOptions opts)
  assume s: "spin_sane s"
  then show ?thesis unfolding CallOptions spin_react.simps spin_set_options_def
    by (intro modifier_sane carry_each carry) simp_all
qed (simp_all add: repeat_due_sane wheel_due_sane task_due_sane step_up_def step_down_def page_up_def page_down_def spin_set_def
    del: spin_react.simps(11,12,13) block.simps,
  (intro carry carry_upd keydown_sane stop_sane blur_sane wheel_sane press_sane modifier_sane step_sane; simp add: spin_sane_def)+)

lemma handler_sane: "spin_sane s \<Longrightarrow> spin_sane (snd (spin_handler listen e s))"
  using react_sane [of "s\<lparr>sp_prevented := False\<rparr>" listen e]
  by (simp add: spin_handler_def stmt_simps wp_same spin_sane_def)

interpretation spinning: event_loop "spin_handler listen" "\<lambda>_. True" spin_sane for listen :: "'e spin_listener"
  by unfold_locales (rule handler_sane)

text \<open>A spinner that has not been used.\<close>

definition fresh_spinner :: "'e spinner \<Rightarrow> bool" where
  "fresh_spinner s \<longleftrightarrow> sp_history s = [] \<and> \<not> sp_spinning s \<and> sp_timer s = None \<and> \<not> sp_wheel_timer s \<and> sp_counter s = 0"

text \<open>C33. The spinner reports a gesture as a start, then moves, then a stop, and never a move or a
  stop outside of one, in whatever order keys, mouse, timeouts and calls come and whatever its
  listeners answer or throw; a repetition is pending only while the spinner spins.\<close>

theorem spinner_gestures:
  assumes "fresh_spinner s" "t = run_events (spin_handler listen) es s"
  shows "spin_protocol False (sp_history t) = Some (sp_spinning t) \<and> (sp_timer t \<noteq> None \<longrightarrow> sp_spinning t)"
proof -
  have "spin_sane s" using assms(1) by (simp add: fresh_spinner_def spin_sane_def)
  then have "spin_sane t" unfolding assms(2) by (intro spinning.run_inv) (simp_all add: list_all_iff)
  then show ?thesis by (auto simp: spin_sane_def split: if_splits)
qed

theorem spinner_gestures_witness:
  "fresh_spinner (new_spinner ''5'' ()) \<and>
     spin_protocol False (sp_history (run_events (spin_handler (\<lambda>n out. (Inr True, out)))
       [FieldKeyDown 38, RepeatDue, FieldKeyUp] (new_spinner ''5'' ()))) =
     Some (sp_spinning (run_events (spin_handler (\<lambda>n out. (Inr True, out)))
       [FieldKeyDown 38, RepeatDue, FieldKeyUp] (new_spinner ''5'' ())))"
proof -
  have "fresh_spinner (new_spinner ''5'' ())" by (simp add: fresh_spinner_def new_spinner_def)
  then show ?thesis using spinner_gestures [of "new_spinner ''5'' ()", OF _ refl] by blast
qed

section \<open>A spinner that cannot be stopped\<close>

text \<open>What the user and the timeouts can send.\<close>

fun user_input :: "spin_input \<Rightarrow> bool" where
  "user_input (CallStepUp _) = False"
| "user_input (CallStepDown _) = False"
| "user_input (CallPageUp _) = False"
| "user_input (CallPageDown _) = False"
| "user_input (CallValue _) = False"
| "user_input (CallOptions _) = False"
| "user_input CallDestroy = False"
| "user_input _ = True"

text \<open>The moves that were announced.\<close>

definition moves :: "'e spinner \<Rightarrow> nat" where
  "moves s = length (filter (\<lambda>(n, r). case n of SpinMove _ \<Rightarrow> True | _ \<Rightarrow> False) (sp_history s))"

definition stuck :: "nat \<Rightarrow> 'e spinner \<Rightarrow> bool" where
  "stuck k s \<longleftrightarrow> (sp_disabled s \<or> \<not> sp_bound s) \<and> sp_spinning s \<and> sp_step s \<noteq> None \<and> \<not> sp_wheel_timer s \<and> moves s = k"

definition stuck_view :: "'e spinner \<Rightarrow> _" where
  "stuck_view s = (sp_disabled s, sp_bound s, sp_spinning s, sp_step s, sp_wheel_timer s, sp_history s, sp_timer s)"

lemma stuck_put: "keeps stuck_view (put_value a v)"
  unfolding put_value_def set_field_def spin_refresh_def
  by (intro frame_intro keeps_upd) (simp_all add: stuck_view_def)

lemma stuck_accept: "keeps stuck_view (accept_value v)"
  unfolding accept_value_def by (intro frame_intro stuck_put keeps_upd) (simp add: stuck_view_def)

lemma stuck_cong: "stuck_view t = stuck_view s \<Longrightarrow> stuck k t = stuck k s \<and> sp_timer t = sp_timer s"
  by (auto simp: stuck_view_def stuck_def moves_def)

text \<open>A step that is not \<open>null\<close> can always be made.\<close>

lemma adjust_total: "sp_step s \<noteq> None \<Longrightarrow> \<exists>v. adjust_value s x = Inr v"
  by (auto simp: adjust_value_def spin_precision_def step_precision_def Let_def split: option.split)

definition ticking :: "nat \<Rightarrow> 'e spinner \<Rightarrow> bool" where
  "ticking k s \<longleftrightarrow> stuck k s \<and> sp_timer s \<noteq> None"

lemma ticking_move:
  "ticking k s \<Longrightarrow> ticking (Suc k) (s\<lparr>sp_history := sp_history s @ [(SpinMove v, r)], sp_outside := out, sp_answer := b\<rparr>)"
  "ticking k s \<Longrightarrow> ticking (Suc k) (s\<lparr>sp_history := sp_history s @ [(SpinMove v, r)], sp_outside := out\<rparr>)"
  by (simp_all add: ticking_def stuck_def moves_def)

lemma ticking_accept: "ticking k s \<Longrightarrow> wp (accept_value v) (ticking k) (ticking k) s"
  using stuck_cong [OF keepsD [OF stuck_accept, of v s], of k] by (simp add: wp_same ticking_def)

lemma stuck_spin:
  assumes "ticking k s"
  shows "wp (spin_by listen x) (ticking (Suc k)) (ticking (Suc k)) s"
proof -
  have "wp (ask (spin_trigger listen (SpinMove v)) (\<lambda>allowed. if allowed then accept_value v else skip))
      (ticking (Suc k)) (ticking (Suc k)) t" if "ticking k t" for v and t :: "'a spinner"
    unfolding wp_ask by (rule wp_trigger) (use ticking_move [OF that] in \<open>auto intro!: ticking_accept simp: wp_skip\<close>)
  moreover have "sp_spinning t" "sp_step t \<noteq> None" if "ticking k t" for t :: "'a spinner"
    using that by (simp_all add: ticking_def stuck_def)
  ultimately have "wp (bind_exp (\<lambda>s. adjust_value s (or_zero (spin_read s) + x * increment (sp_counter s) s)) (\<lambda>v.
       ite (\<lambda>s. \<not> sp_spinning s) (accept_value v)
         (ask (spin_trigger listen (SpinMove v)) (\<lambda>allowed. if allowed then accept_value v else skip))))
      (ticking (Suc k)) (ticking (Suc k)) t" if "ticking k t" for t :: "'a spinner"
    using that adjust_total [of t "or_zero (spin_read t) + x * increment (sp_counter t) t"]
    by (auto simp: wp_bind_exp wp_ite)
  moreover have "ticking k (s\<lparr>sp_counter := 1\<rparr>)" using assms by (simp add: ticking_def stuck_def moves_def)
  ultimately show ?thesis
    using assms unfolding spin_by_def wp_chain wp_done wp_guard wp_upd by simp
qed

lemma stuck_tick: "ticking k s \<Longrightarrow> ticking (Suc k) (snd (spin_handler listen RepeatDue s))"
proof -
  assume t: "ticking k s"
  then obtain d n where n: "sp_timer s = Some (d, n)" by (auto simp: ticking_def)
  let ?s = "s\<lparr>sp_prevented := False, sp_timer := Some (40, n)\<rparr>"
  have "ticking k ?s" using t by (simp add: ticking_def stuck_def moves_def)
  from stuck_spin [OF this, of listen] have "ticking (Suc k) (snd (spin_by listen (n * or_zero (sp_step ?s)) ?s))"
    unfolding wp_same by simp
  then show ?thesis using n by (simp add: spin_handler_def spin_repeat_def stmt_simps)
qed

lemma stuck_task: "keeps (\<lambda>s. (sp_disabled s, sp_bound s, sp_spinning s, sp_step s, sp_wheel_timer s, sp_history s, sp_timer s)) (run_task x)"
  unfolding run_task_def check_focus_def focus_field_def when_enabled_def on_focus_def
  by (cases x; simp; intro frame_intro keeps_upd; simp)

lemma stuck_other:
  assumes "ticking k s" "user_input e" "e \<noteq> RepeatDue"
  shows "ticking k (snd (spin_handler listen e s))"
proof -
  let ?s = "s\<lparr>sp_prevented := False\<rparr>"
  have off: "when_enabled m u = (None, u)" if "sp_disabled u \<or> \<not> sp_bound u" for m and u :: "'a spinner"
    using that by (auto simp: when_enabled_def stmt_simps)
  have "stuck_view (snd (spin_react listen e ?s)) = stuck_view ?s"
  proof (cases e)
    case TaskDue
    show ?thesis
    proof (cases "sp_tasks s")
      case (Cons x rest)
      show ?thesis
        using keepsD [OF stuck_task, of x "?s\<lparr>sp_tasks := rest\<rparr>"] by (simp add: TaskDue Cons stmt_simps stuck_view_def)
    qed (simp add: TaskDue stmt_simps)
  qed (use assms in \<open>simp_all add: ticking_def stuck_def off focus_field_def before_unload_def stmt_simps seq_upd stuck_view_def seq_def\<close>)
  then have "stuck_view (snd (spin_handler listen e s)) = stuck_view s"
    by (simp add: spin_handler_def stmt_simps stuck_view_def)
  from stuck_cong [OF this] show ?thesis using assms(1) by (simp add: ticking_def)
qed

lemma ticking_run:
  "ticking k s \<Longrightarrow> list_all user_input es \<Longrightarrow>
    ticking (k + length (filter ((=) RepeatDue) es)) (run_events (spin_handler listen) es s)"
proof (induction es arbitrary: s k)
  case (Cons e es)
  let ?u = "snd (spin_handler listen e s)"
  show ?case
  proof (cases "e = RepeatDue")
    case True
    then show ?thesis using Cons.IH [OF stuck_tick [OF Cons.prems(1)]] Cons.prems(2) by simp
  next
    case False
    have "ticking k ?u" using stuck_other [OF Cons.prems(1) _ False] Cons.prems(2) by simp
    then show ?thesis using Cons.IH [of k ?u] Cons.prems(2) False by auto
  qed
qed simp

text \<open>C34. A spinner that is disabled or destroyed while it spins does not stop: the handlers that
  would stop it no longer run, the timeout goes on setting the next one, and each time one is due
  another move is announced to the listeners, whatever the user does and they say.\<close>

theorem disabled_spinner_runs_on:
  assumes "sp_disabled s \<or> \<not> sp_bound s" "sp_spinning s" "sp_timer s \<noteq> None" "sp_step s \<noteq> None" "\<not> sp_wheel_timer s"
    and "list_all user_input es" "t = run_events (spin_handler listen) es s"
  shows "sp_spinning t \<and> sp_timer t \<noteq> None \<and> moves t = moves s + length (filter ((=) RepeatDue) es)"
proof -
  have "ticking (moves s) s" using assms by (simp add: ticking_def stuck_def)
  from ticking_run [OF this assms(6)] show ?thesis by (simp add: ticking_def stuck_def assms(7))
qed

theorem disabled_spinner_runs_on_witness:
  "\<exists>s :: unit spinner. sp_disabled s \<and> moves s = 0 \<and>
     moves (run_events (spin_handler (\<lambda>n out. (Inr False, out))) [FieldKeyUp, RepeatDue, FieldBlur, RepeatDue] s) = 2"
proof -
  let ?s = "(new_spinner ''5'' ())\<lparr>sp_disabled := True, sp_spinning := True, sp_timer := Some (40, Fin 1)\<rparr>"
  have m: "moves ?s = 0" by (simp add: moves_def new_spinner_def)
  have "moves (run_events (spin_handler (\<lambda>n out. (Inr False, out))) [FieldKeyUp, RepeatDue, FieldBlur, RepeatDue] ?s) = 2"
    using disabled_spinner_runs_on [of ?s "[FieldKeyUp, RepeatDue, FieldBlur, RepeatDue]", OF _ _ _ _ _ _ refl, of "\<lambda>n out. (Inr False, out)"] m
    by (simp add: new_spinner_def)
  then show ?thesis using m by (intro exI [of _ ?s]) simp
qed

end
