(* ===== verification/UI_Spinner_Values.thy ===== *)
theory UI_Spinner_Values
  imports UI_Spinner JS_Rounding
begin

text \<open>
  What a spinner with whole numbers for its options shows: the grid of its steps, the increments
  that grow while a key is held, and the value a held key arrives at.
\<close>

section \<open>Whole numbers in floating point\<close>

lemma fl_half:
  assumes n: "\<bar>n\<bar> < 2 ^ 52"
  shows "fl (of_int n / 2) = of_int n / 2"
proof (cases "n = 0")
  case False
  let ?q = "\<bar>of_int n / 2 :: rat\<bar>"
  define e where "e = max (ilog2 ?q - 52) (- 1074)"
  have "2 powi ilog2 ?q \<le> ?q" using False by (intro ilog2_lower) simp
  also have "?q < 2 ^ 51"
  proof -
    have "(of_int \<bar>n\<bar> :: rat) < of_int (2 ^ 52)" using n by (simp only: of_int_less_iff)
    then show ?thesis by simp
  qed
  also have "(2::rat) ^ 51 = 2 powi 51" by simp
  finally have "ilog2 ?q < 51" by (meson linorder_not_less one_le_numeral power_int_increasing)
  then have e: "e \<le> - 1" by (simp add: e_def)
  define k where "k = nat (- e) - 1"
  have "nat (- e) = Suc k" using e by (simp add: k_def)
  then have eq: "(2::rat) powi e = 1 / 2 ^ Suc k" using e by (simp add: power_int_def power_one_over)
  have "of_int n / 2 / (2::rat) powi e = of_int (n * 2 ^ k)" by (simp add: eq)
  then have "rne (of_int n / 2 / 2 powi e) = n * 2 ^ k" by (simp only: rne_of_int)
  then have "of_int (rne (of_int n / 2 / 2 powi e)) * 2 powi e = (of_int n / 2 :: rat)"
    by (simp add: eq)
  then show ?thesis using False by (simp add: fl_def e_def Let_def)
qed simp

text \<open>Rounding a quotient of whole numbers is not disturbed by the rounding of the division.\<close>

definition round_quotient :: "int \<Rightarrow> int \<Rightarrow> int" where
  "round_quotient d st = (2 * d + st) div (2 * st)"

lemma of_int_le_rat: "\<bar>n\<bar> \<le> 2 ^ k \<Longrightarrow> \<bar>of_int n :: rat\<bar> \<le> 2 ^ k"
  by (metis of_int_abs of_int_le_iff of_int_numeral of_int_power)

lemma round_quotient_exact:
  assumes "0 < st" "st \<le> 2 ^ 13" "\<bar>d\<bar> \<le> 2 ^ 30"
  shows "math_round (num_of_int d div num_of_int st) = num_of_int (round_quotient d st)"
proof -
  define q where "q = (of_int d / of_int st :: rat)"
  define m f where "m = round_quotient d st" and "f = (2 * d + st) mod (2 * st)"
  have st: "(0::rat) < of_int st" "(of_int st :: rat) \<le> 2 ^ 13"
    using assms(1,2) of_int_le_rat [of st 13] by simp_all
  have d: "\<bar>of_int d :: rat\<bar> \<le> 2 ^ 30" by (rule of_int_le_rat [OF assms(3)])
  have "\<bar>q\<bar> \<le> \<bar>of_int d\<bar> / 1"
    unfolding q_def abs_divide using st assms(1) by (intro divide_left_mono) auto
  then have q30: "\<bar>q\<bar> \<le> 2 ^ 30" using d by simp
  then obtain r where r: "mk q = Fin r" "\<bar>r - q\<bar> \<le> 1 / 5000000" using mk_close by blast
  have mf: "2 * d + st = 2 * st * m + f" unfolding m_def f_def round_quotient_def by simp
  have f: "0 \<le> f" "f < 2 * st" using assms(1) by (simp_all add: f_def)
  have "q + 1 / 2 = of_int (2 * d + st) / of_int (2 * st)" using st by (simp add: q_def field_simps)
  also have "\<dots> = of_int m + of_int f / of_int (2 * st)" unfolding mf using st by (simp add: field_simps)
  finally have qm: "q + 1 / 2 = of_int m + of_int f / of_int (2 * st)" .
  have "\<lfloor>r + 1 / 2\<rfloor> = m"
  proof (cases "f = 0")
    case True
    then have "q = of_int (2 * m - 1) / 2" using qm by simp
    moreover have "\<bar>2 * m - 1\<bar> < 2 ^ 52"
    proof -
      have "\<bar>of_int (2 * m - 1) :: rat\<bar> \<le> 2 ^ 31" using q30 calculation by simp
      then have "\<bar>2 * m - 1\<bar> \<le> 2 ^ 31" by (metis of_int_abs of_int_le_iff of_int_numeral of_int_power)
      then show ?thesis by simp
    qed
    ultimately have "fl q = q" using fl_half [of "2 * m - 1"] by (simp only:)
    moreover have "r = fl q" using r(1) by (simp add: mk_def Let_def split: if_splits)
    ultimately show ?thesis using qm True by simp
  next
    case False
    define g where "g = (of_int f / of_int (2 * st) :: rat)"
    have s2: "(0::rat) < of_int (2 * st)" "(of_int (2 * st) :: rat) \<le> 2 ^ 14" using st by simp_all
    have lo: "1 / 2 ^ 14 \<le> g"
    proof -
      have "(1::rat) / 2 ^ 14 \<le> 1 / of_int (2 * st)" using s2 by (intro divide_left_mono) auto
      also have "\<dots> \<le> g" unfolding g_def using False f(1) s2(1) by (intro divide_right_mono) auto
      finally show ?thesis .
    qed
    have hi: "g \<le> 1 - 1 / 2 ^ 14"
    proof -
      have "(of_int f :: rat) \<le> of_int (2 * st - 1)" using f(2) by (simp only: of_int_le_iff)
      then have "g \<le> of_int (2 * st - 1) / of_int (2 * st)" unfolding g_def using s2(1) by (intro divide_right_mono) auto
      also have "\<dots> = 1 - 1 / of_int (2 * st)" using s2(1) by (simp add: field_simps)
      also have "\<dots> \<le> 1 - 1 / 2 ^ 14" using s2 by (simp add: divide_left_mono)
      finally show ?thesis .
    qed
    have qg: "q + 1 / 2 = of_int m + g" "1 / 16384 \<le> g" "g \<le> 1 - 1 / 16384" using qm lo hi by (simp_all add: g_def)
    have "of_int m \<le> r + 1 / 2" "r + 1 / 2 < of_int m + 1" using r(2) qg by linarith+
    then show ?thesis by (rule floor_unique)
  qed
  moreover have "\<bar>m\<bar> < 2 ^ 53"
  proof -
    have "\<bar>r\<bar> \<le> 2 ^ 30 + 1" using r(2) q30 by linarith
    moreover have "of_int m \<le> r + 1 / 2" "r + 1 / 2 < of_int m + 1" unfolding \<open>\<lfloor>r + 1 / 2\<rfloor> = m\<close> [symmetric] by linarith+
    ultimately have "\<bar>of_int m :: rat\<bar> \<le> 2 ^ 31" unfolding abs_le_iff by simp
    then have "\<bar>m\<bar> \<le> 2 ^ 31" by (metis of_int_abs of_int_le_iff of_int_numeral of_int_power)
    then show ?thesis by simp
  qed
  ultimately show ?thesis
    using r(1) st(1) by (simp add: num_defs q_def [symmetric] m_def [symmetric] mk_of_int)
qed

text \<open>Whole numbers as text.\<close>

lemma digits_not_Inf: "0 \<le> n \<Longrightarrow> \<not> prefix ''Infinity'' (digits n)"
  using digits_hd [of n] by (cases "digits n") (auto simp: is_digit_def code_def)

lemma read_int:
  assumes "\<bar>n\<bar> < 2 ^ 53"
  shows "read_decimal (string_of_int n) = Some (num_of_int n, [])"
proof -
  have r: "read_decimal (s @ digits k) = Some (signed (s = ''-'') (num_of_int k), [])"
    if "s = [] \<or> s = ''-''" "0 \<le> k" "k < 2 ^ 53" for s k
  proof -
    have dw: "dropWhile is_digit (digits k) = []"
      using digits_are_digits [OF that(2)] by (simp add: dropWhile_eq_Nil_conv)
    have sg: "split_sign (s @ digits k) = (s = ''-'', digits k)"
      using that(1,2) by (elim disjE) (simp, simp add: split_sign_def)
    show ?thesis
      using that digits_hd [OF that(2)]
      by (simp add: read_decimal_def sg dw digits_not_Inf read_exponent_def signed_def mk_of_int)
  qed
  show ?thesis
    using r [of "[]" n] r [of "''-''" "- n"] assms by (simp add: string_of_int_def signed_def)
qed

lemma string_of_int_first: "\<exists>c t. string_of_int n = c # t \<and> (is_digit c \<or> c = CHR ''-'')"
  using digits_hd [of "\<bar>n\<bar>"] by (cases "digits \<bar>n\<bar>") (auto simp: string_of_int_def)

lemma string_of_int_last: "\<exists>c t. rev (string_of_int n) = c # t \<and> is_digit c"
proof -
  have "digits \<bar>n\<bar> \<noteq> []" using digits_hd [of "\<bar>n\<bar>"] by auto
  then obtain c t where "rev (digits \<bar>n\<bar>) = c # t" by (cases "rev (digits \<bar>n\<bar>)") auto
  moreover have "is_digit c" using digits_are_digits [of "\<bar>n\<bar>"] calculation by (metis abs_ge_zero in_set_conv_decomp rev.simps(2) rev_rev_ident set_rev list.set_intros(1))
  ultimately show ?thesis by (auto simp: string_of_int_def)
qed

lemma trim_int: "trim (string_of_int n) = string_of_int n" and skip_int: "dropWhile is_space (string_of_int n) = string_of_int n"
proof -
  have m: "\<not> is_space (CHR ''-'')" by (simp add: is_space_def code_minus)
  obtain c t d u where "string_of_int n = c # t" "is_digit c \<or> c = CHR ''-''" "rev (string_of_int n) = d # u" "is_digit d"
    using string_of_int_first [of n] string_of_int_last [of n] by blast
  then show "dropWhile is_space (string_of_int n) = string_of_int n" "trim (string_of_int n) = string_of_int n"
    using is_digit_not_space m by (auto simp: trim_def)
qed

lemma str_to_num_int:
  assumes "\<bar>n\<bar> < 2 ^ 53"
  shows "str_to_num (string_of_int n) = num_of_int n"
proof -
  have "\<not> prefix ''0x'' (string_of_int n)" "\<not> prefix ''0X'' (string_of_int n)"
    using digits_not_x [of "CHR ''x''" "\<bar>n\<bar>"] digits_not_x [of "CHR ''X''" "\<bar>n\<bar>"]
    by (auto simp: string_of_int_def is_digit_def code_x code_X)
  then show ?thesis
    using string_of_int_first [of n] by (auto simp: str_to_num_def trim_int read_int [OF assms] Let_def)
qed

lemma parse_float_int: "\<bar>n\<bar> < 2 ^ 53 \<Longrightarrow> parse_float (to_fixed 0 (num_of_int n)) = num_of_int n"
proof -
  assume n: "\<bar>n\<bar> < 2 ^ 53"
  then have "\<bar>of_int n :: rat\<bar> < 2 ^ 53" by (metis of_int_abs of_int_less_iff of_int_numeral of_int_power)
  then have "\<not> 10 ^ 21 \<le> \<bar>of_int n :: rat\<bar>" by simp
  moreover have "\<lfloor>\<bar>of_int n :: rat\<bar> + 1 / 2\<rfloor> = \<bar>n\<bar>" by (rule floor_unique) simp_all
  ultimately have "to_fixed 0 (num_of_int n) = string_of_int n" by (simp add: string_of_int_def)
  then show ?thesis by (simp add: parse_float_def skip_int read_int [OF n])
qed

section \<open>The grid\<close>

text \<open>The options are whole numbers, and Globalize is not used.\<close>

definition int_spinner :: "int \<Rightarrow> int \<Rightarrow> int \<Rightarrow> 'e spinner \<Rightarrow> bool" where
  "int_spinner lo hi st s \<longleftrightarrow> sp_min s = Some (num_of_int lo) \<and> sp_max s = Some (num_of_int hi) \<and>
     sp_step s = Some (num_of_int st) \<and> number_format s = None \<and> 0 < st \<and> st \<le> 2 ^ 13 \<and>
     lo \<le> hi \<and> \<bar>lo\<bar> \<le> 2 ^ 28 \<and> \<bar>hi\<bar> \<le> 2 ^ 28"

definition snap :: "int \<Rightarrow> int \<Rightarrow> int \<Rightarrow> int" where
  "snap lo st v = lo + st * round_quotient (v - lo) st"

definition limit :: "int \<Rightarrow> int \<Rightarrow> int \<Rightarrow> int" where
  "limit lo hi v = (if hi < v then hi else if v < lo then lo else v)"

lemma num_int_simps:
  "\<bar>a + b\<bar> < 2 ^ 53 \<Longrightarrow> num_of_int a + num_of_int b = num_of_int (a + b)"
  "\<bar>a - b\<bar> < 2 ^ 53 \<Longrightarrow> num_of_int a - num_of_int b = num_of_int (a - b)"
  "\<bar>a * b\<bar> < 2 ^ 53 \<Longrightarrow> num_of_int a * num_of_int b = num_of_int (a * b)"
  using mk_of_int [of "a + b"] mk_of_int [of "a - b"] mk_of_int [of "a * b"] by (simp_all add: num_defs)

lemma precision_whole: "\<bar>n\<bar> < 2 ^ 53 \<Longrightarrow> precision_of (num_of_int n) = 0"
  using no_point [of n] by (simp add: precision_of_def dropWhile_eq_Nil_conv)

lemma round_quotient_near:
  assumes "0 < st"
  shows "2 * (st * round_quotient d st) \<le> 2 * d + st" "2 * d < 2 * (st * round_quotient d st) + st"
proof -
  have "2 * d + st = 2 * st * round_quotient d st + (2 * d + st) mod (2 * st)"
    unfolding round_quotient_def by simp
  moreover have "0 \<le> (2 * d + st) mod (2 * st)" "(2 * d + st) mod (2 * st) < 2 * st" using assms by simp_all
  ultimately show "2 * (st * round_quotient d st) \<le> 2 * d + st" "2 * d < 2 * (st * round_quotient d st) + st"
    by (simp_all add: algebra_simps)
qed

lemma snap_near: "0 < st \<Longrightarrow> 2 * snap lo st v \<le> 2 * v + st \<and> 2 * v < 2 * snap lo st v + st"
  using round_quotient_near [of st "v - lo"] by (simp add: snap_def algebra_simps)

lemma snap_grid: "0 < st \<Longrightarrow> snap lo st (lo + st * n) = lo + st * n"
proof -
  assume st: "0 < st"
  have "round_quotient (st * n) st = n"
    using st div_mult_self2 [of "2 * st" st n] by (simp add: round_quotient_def algebra_simps)
  then show ?thesis by (simp add: snap_def)
qed

text \<open>\<open>_adjustValue\<close> takes the nearest value of the grid, then the limits.\<close>

lemma adjust_int:
  assumes s: "int_spinner lo hi st s" and v: "\<bar>v\<bar> \<le> 2 ^ 29"
  shows "adjust_value s (num_of_int v) = Inr (num_of_int (limit lo hi (snap lo st v)))"
proof -
  have b: "0 < st" "st \<le> 2 ^ 13" "\<bar>lo\<bar> \<le> 2 ^ 28" "\<bar>hi\<bar> \<le> 2 ^ 28" using s by (simp_all add: int_spinner_def)
  define r where "r = round_quotient (v - lo) st"
  have d: "\<bar>v - lo\<bar> \<le> 2 ^ 30" using v b by simp
  have "\<bar>v\<bar> \<le> 536870912" "\<bar>lo\<bar> \<le> 268435456" "st \<le> 8192" using v b by simp_all
  moreover have "2 * x \<le> 2 * (v - lo) + st" "2 * (v - lo) < 2 * x + st" if "x = st * r" for x
    unfolding that r_def by (rule round_quotient_near [OF b(1)])+
  ultimately have "\<bar>x\<bar> \<le> 2147483648" "\<bar>lo + x\<bar> \<le> 2147483648" if "x = st * r" for x
    using b(1) that by (smt (verit))+
  then have r: "\<bar>st * r\<bar> \<le> 2 ^ 31" "\<bar>lo + st * r\<bar> \<le> 2 ^ 31" by simp_all
  have q: "math_round (num_of_int (v - lo) div num_of_int st) = num_of_int r"
    unfolding r_def by (rule round_quotient_exact [OF b(1,2) d])
  have m: "num_of_int v - num_of_int lo = num_of_int (v - lo)" "num_of_int r * num_of_int st = num_of_int (st * r)"
    "num_of_int lo + num_of_int (st * r) = num_of_int (lo + st * r)"
    using d r num_int_simps(2) [of v lo] num_int_simps(3) [of r st] num_int_simps(1) [of lo "st * r"] by (simp_all add: mult.commute)
  have p: "spin_precision s = Inr 0"
    using s b precision_whole [of st] precision_whole [of lo]
    by (simp add: spin_precision_def step_precision_def int_spinner_def)
  have f: "parse_float (to_fixed 0 (num_of_int (lo + st * r))) = num_of_int (lo + st * r)"
    using r(2) by (intro parse_float_int) simp
  have "spin_clamp s (num_of_int w) = num_of_int (limit lo hi w)" for w
    using s by (simp add: spin_clamp_def int_spinner_def or_zero_def limit_def less_jsnum_def)
  then show ?thesis
    using s by (simp add: adjust_value_def p or_zero_def int_spinner_def m q f snap_def r_def [symmetric] Let_def
        del: num_to_string.simps to_fixed.simps math_round.simps of_int_add of_int_mult of_int_diff)
qed

section \<open>Increments\<close>

text \<open>The increments of a held key: 1, or a cubic polynomial of the number of the step, rounded down.\<close>

definition cubic :: "int \<Rightarrow> int" where
  "cubic c = c ^ 3 - 100 * c ^ 2 + 4250 * c + 50000"

definition held_increment :: "incremental \<Rightarrow> nat \<Rightarrow> int" where
  "held_increment m c = (case m of Growing \<Rightarrow> cubic (int c) div 50000 | _ \<Rightarrow> 1)"

text \<open>The polynomial is a whole number only where each of its terms is one.\<close>

lemma cubic_five: "(d ^ 3 + 5 * k) mod 5 = 0 \<Longrightarrow> (d :: int) mod 5 = 0"
proof -
  assume "(d ^ 3 + 5 * k) mod 5 = 0"
  then have "d ^ 3 mod 5 = 0" by (metis mod_mult_self2)
  then have "(d mod 5) ^ 3 mod 5 = 0" by (simp add: power_mod)
  moreover have "d mod 5 = 0 \<or> d mod 5 = 1 \<or> d mod 5 = 2 \<or> d mod 5 = 3 \<or> d mod 5 = 4"
    using pos_mod_bound [of 5 d] pos_mod_sign [of 5 d] by linarith
  ultimately show ?thesis by (elim disjE) simp_all
qed

lemma cubic_eight:
  assumes "(5 * e ^ 3 - 20 * e ^ 2 + 34 * e) mod 16 = 0"
  shows "(e :: int) mod 8 = 0"
proof -
  define r where "r = e mod 16"
  obtain k where e: "e = r + 16 * k" unfolding r_def by (metis mod_mult_div_eq)
  have "5 * e ^ 3 - 20 * e ^ 2 + 34 * e = 5 * r ^ 3 - 20 * r ^ 2 + 34 * r
      + 16 * (k * (5 * (e * e + e * r + r * r) - 20 * (e + r) + 34))"
    unfolding e by (simp add: power3_eq_cube power2_eq_square algebra_simps)
  then have "(5 * r ^ 3 - 20 * r ^ 2 + 34 * r) mod 16 = 0" using assms by (metis mod_mult_self2)
  moreover have "r \<in> set [0..15]" by (simp add: r_def pos_mod_bound [of 16, simplified] order.strict_implies_order [of _ 16])
  moreover have "list_all (\<lambda>r :: int. (5 * r ^ 3 - 20 * r ^ 2 + 34 * r) mod 16 = 0 \<longrightarrow> r mod 8 = 0) [0..15]"
    by (simp add: upto_rec1)
  ultimately have "r mod 8 = 0" by (simp only: list_all_iff)
  then show ?thesis unfolding e by presburger
qed

lemma cubic_whole:
  assumes "cubic z mod 50000 = 0"
  shows "z mod 200 = 0"
proof -
  have "cubic z mod 5 = 0" using mod_mod_cancel [of 5 50000 "cubic z"] assms by simp
  then have "(z ^ 3 + 5 * (10000 + 850 * z - 20 * z ^ 2)) mod 5 = 0" by (simp add: cubic_def algebra_simps)
  then have "z mod 5 = 0" by (rule cubic_five)
  then obtain d where d: "z = 5 * d" by fastforce
  then have "cubic z = 125 * (d ^ 3 + 5 * (80 + 34 * d - 4 * d ^ 2))"
    by (simp add: cubic_def power3_eq_cube power2_eq_square algebra_simps)
  then have m: "(d ^ 3 + 5 * (80 + 34 * d - 4 * d ^ 2)) mod 400 = 0"
    using mod_mult_mult1 [of 125 "d ^ 3 + 5 * (80 + 34 * d - 4 * d ^ 2)" 400] assms by simp
  then have "(d ^ 3 + 5 * (80 + 34 * d - 4 * d ^ 2)) mod 5 = 0"
    using mod_mod_cancel [of 5 400 "d ^ 3 + 5 * (80 + 34 * d - 4 * d ^ 2)"] by simp
  then have "d mod 5 = 0" by (rule cubic_five)
  then obtain e where e: "d = 5 * e" by fastforce
  then have "d ^ 3 + 5 * (80 + 34 * d - 4 * d ^ 2) = 25 * (5 * e ^ 3 - 20 * e ^ 2 + 34 * e) + 400"
    by (simp add: power3_eq_cube power2_eq_square algebra_simps)
  then have "(25 * (5 * e ^ 3 - 20 * e ^ 2 + 34 * e)) mod 400 = 0" using m by (metis mod_add_self2)
  then have "(5 * e ^ 3 - 20 * e ^ 2 + 34 * e) mod 16 = 0"
    using mod_mult_mult1 [of 25 "5 * e ^ 3 - 20 * e ^ 2 + 34 * e" 16] by simp
  then have "e mod 8 = 0" by (rule cubic_eight)
  then show ?thesis using d e by presburger
qed

lemma cubic_bounds:
  assumes "0 \<le> z" "z \<le> 1000"
  shows "50000 \<le> cubic z" "cubic z \<le> 1500000000"
proof -
  have "z * z * z \<le> 1000000000" "0 \<le> z * z"
    using assms mult_mono [of z 1000 z 1000] mult_mono [of "z * z" 1000000 z 1000] by simp_all
  then show "cubic z \<le> 1500000000" using assms unfolding cubic_def power3_eq_cube power2_eq_square by linarith
  have "0 \<le> z * ((z - 50) ^ 2 + 1750)" using assms(1) by simp
  then show "50000 \<le> cubic z" by (simp add: cubic_def power3_eq_cube power2_eq_square algebra_simps)
qed

lemma div_whole: "k \<noteq> 0 \<Longrightarrow> \<bar>n\<bar> < 2 ^ 53 \<Longrightarrow> num_of_int (k * n) div num_of_int k = num_of_int n"
  by (simp add: num_defs mk_of_int)

text \<open>The option \<open>incremental\<close> computed in doubles.\<close>

definition cubic_num :: "jsnum \<Rightarrow> jsnum" where
  "cubic_num i = i * i * i div Fin 50000 - i * i div Fin 500 + Fin 17 * i div Fin 200 + Fin 1"

lemma products_exact:
  assumes "0 \<le> z" "z \<le> 1000"
  shows "num_of_int z * num_of_int z = num_of_int (z * z)" "num_of_int (z * z) * num_of_int z = num_of_int (z * z * z)"
    "Fin 17 * num_of_int z = num_of_int (17 * z)"
proof -
  have z: "\<bar>z * z\<bar> \<le> 1000000" "\<bar>z * z * z\<bar> \<le> 1000000000"
    using assms mult_mono [of z 1000 z 1000] mult_mono [of "z * z" 1000000 z 1000] by simp_all
  show "num_of_int z * num_of_int z = num_of_int (z * z)" "num_of_int (z * z) * num_of_int z = num_of_int (z * z * z)"
    by (rule num_int_simps; use z in simp)+
  show "Fin 17 * num_of_int z = num_of_int (17 * z)" using num_int_simps(3) [of 17 z] assms by simp
qed

lemma sum_exact:
  "\<bar>a - b\<bar> < 2 ^ 53 \<Longrightarrow> \<bar>a - b + c\<bar> < 2 ^ 53 \<Longrightarrow> num_of_int a - num_of_int b + num_of_int c = num_of_int (a - b + c)"
  by (simp only: num_int_simps)

lemma growing_whole:
  assumes "z = 200 * g" "0 \<le> g" "g \<le> 5"
  shows "cubic_num (num_of_int z) = num_of_int (cubic z div 50000)"
proof -
  have g: "0 \<le> g * g" "g * g \<le> 25" "0 \<le> g * g * g" "g * g * g \<le> 125"
    using assms(2,3) mult_mono [of g 5 g 5] mult_mono [of "g * g" 25 g 5] by simp_all
  have e: "z * z * z = 50000 * (160 * (g * g * g))" "z * z = 500 * (80 * (g * g))" "17 * z = 200 * (17 * g)"
    by (simp_all add: assms(1))
  have d: "num_of_int (z * z * z) div Fin 50000 = num_of_int (160 * (g * g * g))"
    "num_of_int (z * z) div Fin 500 = num_of_int (80 * (g * g))" "num_of_int (17 * z) div Fin 200 = num_of_int (17 * g)"
    by (simp only: e(1), use div_whole [of 50000 "160 * (g * g * g)"] g in simp,
      simp only: e(2), use div_whole [of 500 "80 * (g * g)"] g in simp,
      simp only: e(3), use div_whole [of 200 "17 * g"] assms(2,3) in simp)
  have z: "0 \<le> z" "z \<le> 1000" using assms by simp_all
  have b: "\<bar>160 * (g * g * g) - 80 * (g * g)\<bar> < 9007199254740992" "\<bar>160 * (g * g * g) - 80 * (g * g) + 17 * g\<bar> < 9007199254740992"
    "\<bar>160 * (g * g * g) - 80 * (g * g) + 17 * g + 1\<bar> < 9007199254740992"
    using g assms(2,3) unfolding abs_less_iff by linarith+
  have "cubic_num (num_of_int z) = num_of_int (160 * (g * g * g) - 80 * (g * g) + 17 * g) + num_of_int 1"
    unfolding cubic_num_def products_exact [OF z] d
    by (subst sum_exact) (use b in simp_all)
  also have "\<dots> = num_of_int (160 * (g * g * g) - 80 * (g * g) + 17 * g + 1)"
    by (rule num_int_simps) (use b in simp)
  also have "160 * (g * g * g) - 80 * (g * g) + 17 * g + 1 = cubic z div 50000"
    by (simp add: cubic_def assms(1) power3_eq_cube power2_eq_square)
  finally show ?thesis .
qed

lemma cubic_near:
  assumes "0 \<le> z" "z \<le> 1000"
  shows "\<exists>w. cubic_num (num_of_int z) = Fin w \<and> \<bar>w - of_int (cubic z) / 50000\<bar> \<le> 6 / 5000000"
proof -
  define x where "x = (of_int z :: rat)"
  have x: "0 \<le> x" "x \<le> 1000" using assms by (simp_all add: x_def)
  have xx: "0 \<le> x * x" "x * x \<le> 1000000" "0 \<le> x * x * x" "x * x * x \<le> 1000000000"
    using x mult_mono [of x 1000 x 1000] mult_mono [of "x * x" 1000000 x 1000] by simp_all
  obtain a where a: "mk (x * x * x / 50000) = Fin a" "\<bar>a - x * x * x / 50000\<bar> \<le> 1 / 5000000"
    using mk_close [of "x * x * x / 50000"] xx by auto
  obtain b where b: "mk (x * x / 500) = Fin b" "\<bar>b - x * x / 500\<bar> \<le> 1 / 5000000"
    using mk_close [of "x * x / 500"] xx by auto
  obtain d where d: "mk (17 * x / 200) = Fin d" "\<bar>d - 17 * x / 200\<bar> \<le> 1 / 5000000"
    using mk_close [of "17 * x / 200"] x by auto
  have abs: "0 - 1 \<le> a" "a \<le> 20001" "0 - 1 \<le> b" "b \<le> 2001" "0 - 1 \<le> d" "d \<le> 86"
    using a(2) b(2) d(2) xx x unfolding abs_le_iff by linarith+
  then have "\<bar>a - b\<bar> \<le> 2 ^ 30" unfolding abs_le_iff by simp
  then obtain y where y: "mk (a - b) = Fin y" "\<bar>y - (a - b)\<bar> \<le> 1 / 5000000" using mk_close by blast
  have yb: "- 2003 \<le> y" "y \<le> 20003" using y(2) abs unfolding abs_le_iff by linarith+
  then have "\<bar>y + d\<bar> \<le> 2 ^ 30" using abs unfolding abs_le_iff by simp
  then obtain v where v: "mk (y + d) = Fin v" "\<bar>v - (y + d)\<bar> \<le> 1 / 5000000" using mk_close by blast
  have "- 2005 \<le> v" "v \<le> 20090" using v(2) abs yb unfolding abs_le_iff by linarith+
  then have "\<bar>v + 1\<bar> \<le> 2 ^ 30" unfolding abs_le_iff by simp
  then obtain w where w: "mk (v + 1) = Fin w" "\<bar>w - (v + 1)\<bar> \<le> 1 / 5000000" using mk_close by blast
  have "cubic_num (num_of_int z) = Fin w"
    unfolding cubic_num_def products_exact [OF assms] using a(1) b(1) d(1) y(1) v(1) w(1)
    by (simp add: num_defs x_def [symmetric])
  moreover have "of_int (cubic z) / 50000 = x * x * x / 50000 - x * x / 500 + 17 * x / 200 + 1"
    by (simp add: cubic_def x_def power3_eq_cube power2_eq_square field_simps)
  ultimately show ?thesis using a(2) b(2) d(2) y(2) v(2) w(2) unfolding abs_le_iff by (intro exI [of _ w]) linarith
qed

lemma growing_exact:
  assumes "0 \<le> z" "z \<le> 1000"
  shows "math_floor (cubic_num (num_of_int z)) = num_of_int (cubic z div 50000)"
proof -
  obtain w where w: "cubic_num (num_of_int z) = Fin w" "\<bar>w - of_int (cubic z) / 50000\<bar> \<le> 6 / 5000000"
    using cubic_near [OF assms] by blast
  have m: "\<bar>cubic z div 50000\<bar> < 2 ^ 53" using cubic_bounds [OF assms] by simp
  show ?thesis
  proof (cases "cubic z mod 50000 = 0")
    case True
    then have "z mod 200 = 0" by (rule cubic_whole)
    then obtain g where "z = 200 * g" by fastforce
    then show ?thesis using growing_whole [of z g] assms m by (simp add: mk_of_int)
  next
    case False
    define q r where "q = cubic z div 50000" and "r = cubic z mod 50000"
    have "0 \<le> r" "r < 50000" by (simp_all add: r_def)
    with False have r: "1 \<le> (of_int r :: rat)" "(of_int r :: rat) \<le> 49999" unfolding r_def [symmetric] by simp_all
    have "cubic z = 50000 * q + r" by (simp add: q_def r_def)
    then have c: "(of_int (cubic z) :: rat) / 50000 = of_int q + of_int r / 50000" by (simp add: field_simps)
    have "\<lfloor>w\<rfloor> = q"
      using w(2) r unfolding c by (intro floor_unique) linarith+
    then show ?thesis using w(1) m by (simp add: q_def mk_of_int)
  qed
qed

lemma increment_exact:
  assumes "sp_incremental s = Steady \<or> sp_incremental s = Growing" "c \<le> 1000"
  shows "increment c s = num_of_int (held_increment (sp_incremental s) c)"
  using assms growing_exact [of "int c"]
  by (auto simp: increment_def held_increment_def cubic_num_def Let_def)

lemma held_increment_bounds: "c \<le> 1000 \<Longrightarrow> 1 \<le> held_increment m c \<and> held_increment m c \<le> 2 ^ 15"
  using cubic_bounds [of "int c"] zdiv_mono1 [of 50000 "cubic (int c)" 50000] zdiv_mono1 [of "cubic (int c)" 1500000000 50000]
  by (cases m) (simp_all add: held_increment_def)

section \<open>Steps\<close>

text \<open>What a field with the text of a value shows after it was adjusted.\<close>

definition settled :: "int \<Rightarrow> int \<Rightarrow> int \<Rightarrow> int \<Rightarrow> int" where
  "settled lo hi st v = limit lo hi (snap lo st v)"

lemma limit_range: "lo \<le> hi \<Longrightarrow> lo \<le> limit lo hi v \<and> limit lo hi v \<le> hi"
  by (simp add: limit_def)

lemma settled_small: "int_spinner lo hi st s \<Longrightarrow> \<bar>settled lo hi st v\<bar> \<le> 2 ^ 28"
  by (auto simp: settled_def limit_def int_spinner_def)

lemma read_shown: "int_spinner lo hi st s \<Longrightarrow> sp_text s = string_of_int k \<Longrightarrow> \<bar>k\<bar> < 2 ^ 53 \<Longrightarrow> spin_read s = Some (num_of_int k)"
  using string_of_int_first [of k]
  by (auto simp: spin_read_def spin_parse_def int_spinner_def str_to_num_int not_nan_def)

text \<open>\<open>_value\<close> adjusts the value that it is given once more.\<close>

lemma put_int:
  assumes "int_spinner lo hi st s" "\<bar>v\<bar> \<le> 2 ^ 29"
  shows "put_value False (AsNumber (num_of_int v)) s = (None, let t = s\<lparr>sp_text := string_of_int (settled lo hi st v)\<rparr>
     in t\<lparr>sp_aria := (sp_min s, sp_max s, spin_read t)\<rparr>)"
proof -
  have r: "\<bar>settled lo hi st v\<bar> < 2 ^ 53"
    using settled_small [OF assms(1), of v] by simp
  have f: "spin_format s (Some x) = AsNumber x" for x using assms(1) by (simp add: spin_format_def int_spinner_def)
  show ?thesis
    using adjust_int [OF assms] num_to_string_int [OF r] f
    by (simp add: put_value_def spin_parse_def not_nan_def set_field_def spin_refresh_def stmt_simps settled_def Let_def
        seq_def del: num_to_string.simps)
qed

definition calm :: "'e spin_listener \<Rightarrow> bool" where
  "calm listen \<longleftrightarrow> (\<forall>n out. fst (listen n out) = Inr True)"

lemma trigger_calm: "calm listen \<Longrightarrow> spin_trigger listen n s = (None, s\<lparr>sp_history := sp_history s @ [(n, Inr True)],
    sp_outside := snd (listen n (sp_outside s)), sp_answer := True\<rparr>)"
  by (auto simp: calm_def spin_trigger_def split: prod.splits sum.splits dest: spec [of _ n]) (metis fst_conv sum.distinct(1) sum.inject(2))+

text \<open>A spinner that a gesture has on: its mode, the number of the next step and its value.\<close>

definition on_step :: "int \<Rightarrow> int \<Rightarrow> int \<Rightarrow> incremental \<Rightarrow> nat \<Rightarrow> int \<Rightarrow> 'e spinner \<Rightarrow> bool" where
  "on_step lo hi st m c k s \<longleftrightarrow> int_spinner lo hi st s \<and> (m = Steady \<or> m = Growing) \<and> sp_incremental s = m \<and>
     sp_spinning s \<and> sp_counter s = c \<and> 0 < c \<and> c \<le> 1000 \<and> sp_text s = string_of_int k \<and> lo \<le> k \<and> k \<le> hi"

lemma int_spinner_cong:
  "sp_min t = sp_min s \<Longrightarrow> sp_max t = sp_max s \<Longrightarrow> sp_step t = sp_step s \<Longrightarrow> number_format t = number_format s \<Longrightarrow>
    int_spinner lo hi st t = int_spinner lo hi st s"
  by (simp add: int_spinner_def)

lemma spin_by_int:
  assumes s: "on_step lo hi st m c k s" and d: "x = st \<or> x = - st" and l: "calm listen"
    and v: "v = settled lo hi st (k + x * held_increment m c)"
  shows "\<exists>t. spin_by listen (num_of_int x) s = (None, t) \<and> sp_text t = string_of_int (settled lo hi st v) \<and>
    sp_history t = sp_history s @ [(SpinMove (num_of_int v), Inr True)] \<and> sp_counter t = Suc c \<and>
    sp_min t = sp_min s \<and> sp_max t = sp_max s \<and> sp_step t = sp_step s \<and> number_format t = number_format s \<and>
    sp_incremental t = sp_incremental s \<and> sp_spinning t \<and> sp_timer t = sp_timer s"
proof -
  let ?i = "held_increment m c"
  have i: "int_spinner lo hi st s" and st: "0 < st" "st \<le> 2 ^ 13" "lo \<le> hi" "\<bar>lo\<bar> \<le> 2 ^ 28" "\<bar>hi\<bar> \<le> 2 ^ 28"
    and k: "\<bar>k\<bar> \<le> 2 ^ 28" using s by (auto simp: on_step_def int_spinner_def)
  have inc: "increment c s = num_of_int ?i" "1 \<le> ?i" "?i \<le> 2 ^ 15"
    using s increment_exact [of s c] held_increment_bounds [of c m] by (auto simp: on_step_def)
  have "st * ?i \<le> 2 ^ 13 * 2 ^ 15" using st inc by (intro mult_mono) simp_all
  moreover have "0 \<le> st * ?i" using st inc by simp
  ultimately have xi: "\<bar>x * ?i\<bar> \<le> 2 ^ 28" using d by auto
  then have kx: "\<bar>k + x * ?i\<bar> \<le> 2 ^ 29" using k by simp
  have e: "num_of_int x * increment c s = num_of_int (x * ?i)" "num_of_int k + num_of_int (x * ?i) = num_of_int (k + x * ?i)"
    unfolding inc(1) using xi kx by (intro num_int_simps; simp)+
  have rd: "spin_read s = Some (num_of_int k)" using read_shown [OF i] s k by (simp add: on_step_def)
  have a: "adjust_value s (or_zero (spin_read s) + num_of_int x * increment c s) = Inr (num_of_int v)"
    using adjust_int [OF i kx] by (simp only: rd or_zero_def option.case e v settled_def)
  have v28: "\<bar>v\<bar> \<le> 2 ^ 29" using settled_small [OF i, of "k + x * ?i"] unfolding v by simp
  let ?t = "s\<lparr>sp_history := sp_history s @ [(SpinMove (num_of_int v), Inr True)],
    sp_outside := snd (listen (SpinMove (num_of_int v)) (sp_outside s)), sp_answer := True\<rparr>"
  have "int_spinner lo hi st ?t" using i by (simp add: int_spinner_def number_format_def)
  from put_int [OF this v28] have p: "accept_value (num_of_int v) ?t = (None,
      (?t\<lparr>sp_text := string_of_int (settled lo hi st v)\<rparr>)\<lparr>sp_aria := (sp_min ?t, sp_max ?t,
        spin_read (?t\<lparr>sp_text := string_of_int (settled lo hi st v)\<rparr>)), sp_counter := Suc c\<rparr>)"
    using s by (simp add: accept_value_def stmt_simps seq_def on_step_def Let_def)
  have c: "sp_counter s = c" "c \<noteq> 0" "sp_spinning s" using s by (simp_all add: on_step_def)
  have "spin_by listen (num_of_int x) s = accept_value (num_of_int v) ?t"
    using c by (simp add: spin_by_def stmt_simps a seq_def ask_def trigger_calm [OF l])
  then show ?thesis unfolding p by (simp add: number_format_def c cong: option.case_cong)
qed

section \<open>A key that is held\<close>

text \<open>The steps that \<open>n\<close> repetitions make, and the value they arrive at.\<close>

primrec held_steps :: "incremental \<Rightarrow> nat \<Rightarrow> int" where
  "held_steps m 0 = 0"
| "held_steps m (Suc n) = held_steps m n + held_increment m (Suc n)"

definition held_value :: "bool \<Rightarrow> int \<Rightarrow> int \<Rightarrow> int \<Rightarrow> incremental \<Rightarrow> int \<Rightarrow> nat \<Rightarrow> int" where
  "held_value up lo hi st m k n = (if up then min (settled lo hi st hi) (k + st * held_steps m n)
     else max lo (k - st * held_steps m n))"

lemma settled_grid:
  assumes "0 < st" "lo \<le> hi"
  shows "settled lo hi st (lo + st * n) = limit lo hi (lo + st * n)"
  using snap_grid [OF assms(1)] by (simp add: settled_def)

text \<open>The value shown at the maximum: the maximum, or the last value of the grid when it is nearer.\<close>

lemma top_cases:
  assumes "0 < st" "lo \<le> hi"
  obtains "settled lo hi st hi = hi"
  | b where "settled lo hi st hi = lo + st * b" "lo + st * b \<le> hi" "2 * hi < 2 * (lo + st * b) + st"
proof -
  have "snap lo st hi = lo + st * round_quotient (hi - lo) st" by (simp add: snap_def)
  moreover have "lo \<le> snap lo st hi"
  proof -
    have "0 \<le> round_quotient (hi - lo) st" unfolding round_quotient_def using assms by (intro pos_imp_zdiv_nonneg_iff [THEN iffD2]) simp_all
    then show ?thesis using assms(1) by (simp add: snap_def)
  qed
  ultimately show thesis
    using that snap_near [OF assms(1), of lo hi] assms(2) by (cases "snap lo st hi \<le> hi") (auto simp: settled_def limit_def)
qed

lemma top_last:
  assumes "0 < st" "lo \<le> hi"
  shows "lo + st * n \<le> settled lo hi st hi \<longleftrightarrow> lo + st * n \<le> hi"
  using assms
proof (cases rule: top_cases)
  case (2 b)
  have "n \<le> b" if "lo + st * n \<le> hi"
  proof (rule ccontr)
    assume "\<not> n \<le> b"
    then have "st * (b + 1) \<le> st * n" using assms(1) by (intro mult_left_mono) simp_all
    then show False using that 2(3) assms(1) by (simp add: algebra_simps)
  qed
  then show ?thesis using 2(1,2) assms(1) by (auto intro: order.trans [OF _ 2(2)] mult_left_mono)
qed simp

lemma step_up_value:
  assumes st: "0 < st" "lo \<le> hi" and i: "1 \<le> i" and n: "0 \<le> n"
  shows "settled lo hi st (settled lo hi st (min (settled lo hi st hi) (lo + st * n) + st * i))
    = min (settled lo hi st hi) (lo + st * n + st * i)"
proof -
  let ?T = "settled lo hi st hi" and ?X = "lo + st * n"
  have sti: "st \<le> st * i" using i st(1) by simp
  have pos: "0 \<le> st * (n + i)" using st n i by simp
  have over: "settled lo hi st (settled lo hi st w) = ?T" if "hi < snap lo st w" for w
    using that by (simp add: settled_def limit_def)
  have grid: "settled lo hi st (settled lo hi st (lo + st * j)) = (if lo + st * j \<le> hi then lo + st * j else ?T)" if "0 \<le> st * j" for j
    using that settled_grid [OF st, of j] over [of "lo + st * j"] snap_grid [OF st(1), of lo j] by (auto simp: limit_def)
  show ?thesis
  proof (cases "?X \<le> ?T")
    case True
    have e: "?X + st * i = lo + st * (n + i)" by (simp add: algebra_simps)
    have m: "min ?T ?X = ?X" using True by simp
    show ?thesis unfolding m e using grid [OF pos] top_last [OF st, of "n + i"] by (simp add: min_def) linarith
  next
    case False
    have "settled lo hi st (settled lo hi st (?T + st * i)) = ?T"
      using st
    proof (cases rule: top_cases)
      case 1
      have "2 * (hi + st * i) < 2 * snap lo st (hi + st * i) + st" using snap_near [OF st(1)] by blast
      moreover have "hi < x" if "2 * (hi + y) < 2 * x + st" "st \<le> y" for x y using that st(1) by presburger
      ultimately have "hi < snap lo st (hi + st * i)" using sti by blast
      then show ?thesis unfolding 1 by (rule over [unfolded 1])
    next
      case (2 b)
      have e: "lo + st * b + st * i = lo + st * (b + i)" by (simp add: algebra_simps)
      have "hi < x + y" if "2 * hi < 2 * x + st" "st \<le> y" for x y using that st(1) by presburger
      from this [OF 2(3) sti] have "hi < snap lo st (?T + st * i)" unfolding 2(1) e snap_grid [OF st(1)] .
      then show ?thesis by (rule over)
    qed
    moreover have "min ?T ?X = ?T" "?T \<le> ?X + st * i" using False sti st(1) by linarith+
    ultimately show ?thesis by (simp only: min_absorb1)
  qed
qed

lemma step_down_value:
  assumes st: "0 < st" "lo \<le> hi" and i: "1 \<le> i" and X: "lo + st * n \<le> hi"
  shows "settled lo hi st (settled lo hi st (max lo (lo + st * n) - st * i)) = max lo (lo + st * n - st * i)"
proof -
  have under: "settled lo hi st (settled lo hi st (lo + st * j)) = max lo (lo + st * j)" if "lo + st * j \<le> hi" for j
    using that settled_grid [OF st, of j] settled_grid [OF st, of 0] st(2) by (auto simp: limit_def)
  have sti: "0 \<le> st * i" using i st(1) by simp
  show ?thesis
  proof (cases "0 \<le> st * n")
    case True
    have e: "lo + st * n - st * i = lo + st * (n - i)" by (simp add: algebra_simps)
    have m: "max lo (lo + st * n) = lo + st * n" using True by simp
    show ?thesis unfolding m e by (rule under) (use X sti e in linarith)
  next
    case False
    have m: "max lo (lo + st * n) = lo" and e: "lo - st * i = lo + st * (- i)" using False by simp_all
    have r: "settled lo hi st (settled lo hi st (lo + st * (- i))) = max lo (lo + st * (- i))"
      by (rule under) (use sti st(2) in simp)
    show ?thesis unfolding m e r using False sti by simp
  qed
qed

text \<open>A gesture that has made \<open>n\<close> steps from \<open>k\<close>, and repeats.\<close>

definition held_spinner :: "bool \<Rightarrow> int \<Rightarrow> int \<Rightarrow> int \<Rightarrow> incremental \<Rightarrow> int \<Rightarrow> nat \<Rightarrow> 'e spinner \<Rightarrow> bool" where
  "held_spinner up lo hi st m k n s \<longleftrightarrow> int_spinner lo hi st s \<and> (m = Steady \<or> m = Growing) \<and> sp_incremental s = m \<and>
     sp_spinning s \<and> sp_counter s = Suc n \<and> sp_text s = string_of_int (held_value up lo hi st m k n)"

definition on_grid :: "int \<Rightarrow> int \<Rightarrow> int \<Rightarrow> int \<Rightarrow> bool" where
  "on_grid lo hi st k \<longleftrightarrow> lo \<le> k \<and> k \<le> hi \<and> (k - lo) mod st = 0"

lemma held_steps_pos: "n \<le> 1000 \<Longrightarrow> 0 \<le> held_steps m n"
proof (induction n)
  case (Suc n)
  then show ?case using held_increment_bounds [of "Suc n" m] by simp
qed simp

lemma held_value_next:
  assumes "0 < st" "on_grid lo hi st k" "Suc n \<le> 1000"
  shows "settled lo hi st (settled lo hi st (held_value up lo hi st m k n + (if up then st else - st) * held_increment m (Suc n)))
    = held_value up lo hi st m k (Suc n)"
proof -
  have "st dvd k - lo" using assms(2) by (simp add: on_grid_def dvd_eq_mod_eq_0)
  then obtain a where "k - lo = st * a" by (elim dvdE)
  then have a: "k = lo + st * a" by simp
  have lh: "lo \<le> hi" and a0: "0 \<le> st * a" "lo + st * a \<le> hi" using assms(2) a by (auto simp: on_grid_def)
  have i: "1 \<le> held_increment m (Suc n)" using held_increment_bounds [OF assms(3)] by blast
  have h: "0 \<le> held_steps m n" using held_steps_pos assms(3) by simp
  have a1: "0 \<le> a" using a0(1) assms(1) by (simp add: zero_le_mult_iff)
  have up: "k + st * held_steps m n = lo + st * (a + held_steps m n)"
    and down: "k - st * held_steps m n = lo + st * (a - held_steps m n)" by (simp_all add: a algebra_simps)
  have le: "lo + st * (a - held_steps m n) \<le> hi" using a0(2) mult_nonneg_nonneg [of st "held_steps m n"] h assms(1) unfolding right_diff_distrib by linarith
  show ?thesis
    using step_up_value [OF assms(1) lh i, of "a + held_steps m n"] step_down_value [OF assms(1) lh i le] a1 h
    unfolding held_value_def up down by (simp add: a algebra_simps)
qed

definition key_of :: "bool \<Rightarrow> int" where
  "key_of up = (if up then 38 else 40)"

lemma held_range:
  assumes "int_spinner lo hi st s" "on_grid lo hi st k" "n \<le> 1000"
  shows "lo \<le> held_value up lo hi st m k n \<and> held_value up lo hi st m k n \<le> hi"
proof -
  have st: "0 < st" "lo \<le> hi" "lo \<le> k" "k \<le> hi" using assms(1,2) by (simp_all add: int_spinner_def on_grid_def)
  have "0 \<le> st * held_steps m n" using st(1) held_steps_pos [OF assms(3)] by simp
  then show ?thesis using st limit_range [OF st(2), of "snap lo st hi"] by (auto simp: held_value_def settled_def)
qed

lemma held_repeat:
  assumes s: "held_spinner up lo hi st m k n s" and g: "on_grid lo hi st k" and n: "Suc n \<le> 1000" and l: "calm listen"
  shows "\<exists>t d. spin_repeat listen i (button_steps up) s = (None, t) \<and> held_spinner up lo hi st m k (Suc n) t \<and>
    sp_timer t = Some (d, button_steps up) \<and> sp_history t = sp_history s @ [(SpinMove (num_of_int (settled lo hi st
      (held_value up lo hi st m k n + (if up then st else - st) * held_increment m (Suc n)))), Inr True)]"
proof -
  define x where "x = (if up then st else - st)"
  define d where "d = (case i of None \<Rightarrow> 500 | Some d \<Rightarrow> if d = 0 then 500 else d)"
  let ?s = "s\<lparr>sp_timer := Some (d, button_steps up)\<rparr>" and ?k = "held_value up lo hi st m k n"
  have i: "int_spinner lo hi st s" using s by (simp add: held_spinner_def)
  have st: "0 < st" "st \<le> 2 ^ 13" using i by (simp_all add: int_spinner_def)
  have "on_step lo hi st m (Suc n) ?k ?s"
    using s n held_range [OF i g, of n up m] by (simp add: on_step_def held_spinner_def int_spinner_def number_format_def)
  note step = this
  have x: "x = st \<or> x = - st" and nf: "number_format ?s = number_format s" by (simp_all add: x_def number_format_def)
  obtain t where t: "spin_by listen (num_of_int x) ?s = (None, t)"
      "sp_text t = string_of_int (settled lo hi st (settled lo hi st (?k + x * held_increment m (Suc n))))"
      "sp_counter t = Suc (Suc n)" "sp_min t = sp_min s" "sp_max t = sp_max s" "sp_step t = sp_step s"
      "number_format t = number_format s" "sp_incremental t = sp_incremental s" "sp_spinning t" "sp_timer t = Some (d, button_steps up)"
      "sp_history t = sp_history s @ [(SpinMove (num_of_int (settled lo hi st (?k + x * held_increment m (Suc n)))), Inr True)]"
    using spin_by_int [OF step x l refl] nf by auto
  have "button_steps up * or_zero (sp_step s) = num_of_int x"
    using i st num_int_simps(3) [of 1 st] num_int_simps(3) [of "- 1" st]
    by (simp add: button_steps_def or_zero_def int_spinner_def x_def)
  then have "spin_repeat listen i (button_steps up) s = (None, t)"
    using t(1) by (simp add: spin_repeat_def stmt_simps d_def)
  moreover have "held_spinner up lo hi st m k (Suc n) t"
    using s t held_value_next [OF st(1) g n, of up m] int_spinner_cong [OF t(4-7), of lo hi st]
    by (simp add: held_spinner_def x_def)
  ultimately show ?thesis using t(10,11) unfolding x_def by blast
qed

lemma held_tick:
  assumes "held_spinner up lo hi st m k n s" "sp_timer s = Some (d, button_steps up)" "on_grid lo hi st k" "Suc n \<le> 1000" "calm listen"
  shows "\<exists>d. held_spinner up lo hi st m k (Suc n) (snd (spin_handler listen RepeatDue s)) \<and>
    sp_timer (snd (spin_handler listen RepeatDue s)) = Some (d, button_steps up)"
proof -
  let ?s = "s\<lparr>sp_prevented := False, sp_timer := None\<rparr>"
  have "held_spinner up lo hi st m k n ?s" using assms(1) by (simp add: held_spinner_def int_spinner_def number_format_def)
  from held_repeat [OF this assms(3-5), of "Some 40"]
  obtain t d where "spin_repeat listen (Some 40) (button_steps up) ?s = (None, t)" "held_spinner up lo hi st m k (Suc n) t"
    "sp_timer t = Some (d, button_steps up)" by blast
  then show ?thesis using assms(2) by (simp add: spin_handler_def stmt_simps)
qed

lemma held_ticks:
  assumes "held_spinner up lo hi st m k n s" "sp_timer s = Some (d, button_steps up)" "on_grid lo hi st k" "n + j \<le> 1000" "calm listen"
  shows "held_spinner up lo hi st m k (n + j) (run_events (spin_handler listen) (replicate j RepeatDue) s)"
  using assms
proof (induction j arbitrary: n s d)
  case (Suc j)
  obtain d' where t: "held_spinner up lo hi st m k (Suc n) (snd (spin_handler listen RepeatDue s))"
    "sp_timer (snd (spin_handler listen RepeatDue s)) = Some (d', button_steps up)"
    using held_tick [OF Suc.prems(1-3) _ Suc.prems(5)] Suc.prems(4) by auto
  from Suc.IH [OF t Suc.prems(3) _ Suc.prems(5)] Suc.prems(4) show ?case by simp
qed simp

text \<open>A key is pressed.\<close>

definition idle_spinner :: "'e spinner \<Rightarrow> bool" where
  "idle_spinner s \<longleftrightarrow> sp_bound s \<and> \<not> sp_disabled s \<and> \<not> sp_spinning s \<and> sp_counter s = 0"

lemma held_press:
  assumes i: "int_spinner lo hi st s" "idle_spinner s" "sp_incremental s = Steady \<or> sp_incremental s = Growing"
    and g: "on_grid lo hi st k" "sp_text s = string_of_int k" and l: "calm listen"
  shows "\<exists>d. held_spinner up lo hi st (sp_incremental s) k 1 (snd (spin_handler listen (FieldKeyDown (key_of up)) s)) \<and>
    sp_timer (snd (spin_handler listen (FieldKeyDown (key_of up)) s)) = Some (d, button_steps up) \<and>
    sp_history (snd (spin_handler listen (FieldKeyDown (key_of up)) s)) = sp_history s @ [(SpinStart, Inr True),
      (SpinMove (num_of_int (settled lo hi st (if up then k + st else k - st))), Inr True)]"
proof -
  let ?s = "s\<lparr>sp_prevented := False, sp_history := sp_history s @ [(SpinStart, Inr True)],
    sp_outside := snd (listen SpinStart (sp_outside s)), sp_counter := 1, sp_spinning := True, sp_answer := True\<rparr>"
  have k: "held_value up lo hi st m k 0 = k" for m
    using g(1) i(1) top_last [of st lo hi "(k - lo) div st"] by (auto simp: held_value_def on_grid_def int_spinner_def)
  have "held_spinner up lo hi st (sp_incremental s) k 0 ?s"
    using i g(2) by (simp add: held_spinner_def k int_spinner_def number_format_def cong: option.case_cong)
  from held_repeat [OF this g(1) _ l, of None]
  obtain t d where t: "spin_repeat listen None (button_steps up) ?s = (None, t)" "held_spinner up lo hi st (sp_incremental s) k 1 t"
    "sp_timer t = Some (d, button_steps up)" "sp_history t = sp_history s @ [(SpinStart, Inr True),
      (SpinMove (num_of_int (settled lo hi st (if up then k + st else k - st))), Inr True)]"
    using i(3) by (auto simp: k held_increment_def cubic_def)
  have st: "spin_start listen (s\<lparr>sp_prevented := False\<rparr>) = (None, ?s)"
    using i(2) by (simp add: spin_start_def idle_spinner_def stmt_simps ask_def seq_def trigger_calm [OF l] spin_on_def)
  have ks: "key_steps (key_of up) ?s = Some (button_steps up)" by (simp add: key_steps_def key_of_def button_steps_def)
  have "spin_handler listen (FieldKeyDown (key_of up)) s = (None, t\<lparr>sp_answer := True, sp_prevented := True\<rparr>)"
    using i(2) st t(1) ks
    by (simp add: spin_handler_def when_enabled_def on_keydown_def ask_def seq_def stmt_simps spin_keydown_def idle_spinner_def
        answers_def spin_prevent_def)
  then show ?thesis using t(2,3,4) by (simp add: held_spinner_def int_spinner_def number_format_def cong: option.case_cong)
qed

text \<open>A value that was adjusted twice is adjusted to itself.\<close>

lemma settled_idem:
  assumes st: "0 < st" "lo \<le> hi"
  shows "settled lo hi st (settled lo hi st (settled lo hi st v)) = settled lo hi st (settled lo hi st v)"
proof -
  let ?A = "settled lo hi st"
  have grid: "?A (lo + st * n) = lo + st * n" if "lo \<le> lo + st * n" "lo + st * n \<le> hi" for n
    using that settled_grid [OF st, of n] by (simp add: limit_def)
  have top: "?A (?A hi) = ?A hi"
    using st by (cases rule: top_cases) (metis, metis grid limit_range [OF st(2)] settled_def)
  have low: "?A lo = lo" using grid [of 0] st(2) by simp
  have n: "snap lo st v = lo + st * round_quotient (v - lo) st" by (simp add: snap_def)
  consider "?A v = hi" | "?A v = lo" | "?A v = snap lo st v" "lo \<le> snap lo st v" "snap lo st v \<le> hi"
    by (cases "hi < snap lo st v"; cases "snap lo st v < lo") (auto simp: settled_def limit_def)
  then show ?thesis
  proof cases
    case 1
    then show ?thesis using top by simp
  next
    case 2
    then show ?thesis using low by simp
  next
    case 3
    then show ?thesis using grid [of "round_quotient (v - lo) st"] n by simp
  qed
qed

lemma held_valid:
  assumes "held_spinner up lo hi st m k (Suc n) s" "on_grid lo hi st k" "Suc n \<le> 1000"
  shows "is_valid s = Inr True"
proof -
  let ?w = "held_value up lo hi st m k (Suc n)"
  have i: "int_spinner lo hi st s" using assms(1) by (simp add: held_spinner_def)
  then have st: "0 < st" "lo \<le> hi" by (simp_all add: int_spinner_def)
  have "?w = settled lo hi st (settled lo hi st (held_value up lo hi st m k n + (if up then st else - st) * held_increment m (Suc n)))"
    using held_value_next [OF st(1) assms(2,3)] by simp
  then have w: "settled lo hi st ?w = ?w" using settled_idem [OF st] by metis
  have small: "\<bar>?w\<bar> \<le> 2 ^ 28" using settled_small [OF i, of ?w] unfolding w .
  have "spin_read s = Some (num_of_int ?w)" using read_shown [OF i] small assms(1) by (simp add: held_spinner_def del: held_steps.simps)
  moreover have "adjust_value s (num_of_int ?w) = Inr (num_of_int ?w)"
    using adjust_int [OF i, of ?w] small w by (simp add: settled_def)
  ultimately show ?thesis by (simp add: is_valid_def num_eq_def)
qed

text \<open>C32. Holding the up or the down key makes one step for the press and one for each repetition,
  of the sizes that the option \<open>incremental\<close> says, up to the largest or the smallest value; the
  value shown is a valid one. (A thousand repetitions are forty seconds.)\<close>

theorem held_key_steps:
  assumes "int_spinner lo hi st s" "idle_spinner s" "sp_incremental s = Steady \<or> sp_incremental s = Growing"
    and "on_grid lo hi st k" "sp_text s = string_of_int k" "calm listen" "n < 1000"
    and "t = run_events (spin_handler listen) (FieldKeyDown (key_of up) # replicate n RepeatDue) s"
  shows "sp_text t = string_of_int (held_value up lo hi st (sp_incremental s) k (Suc n)) \<and> is_valid t = Inr True \<and> sp_spinning t"
proof -
  obtain d where p: "held_spinner up lo hi st (sp_incremental s) k 1 (snd (spin_handler listen (FieldKeyDown (key_of up)) s))"
      "sp_timer (snd (spin_handler listen (FieldKeyDown (key_of up)) s)) = Some (d, button_steps up)"
    using held_press [OF assms(1-6)] by blast
  have h: "held_spinner up lo hi st (sp_incremental s) k (Suc n) t"
    using held_ticks [OF p assms(4) _ assms(6), of n] assms(7,8) by simp
  moreover have "is_valid t = Inr True" by (rule held_valid [OF h assms(4)]) (use assms(7) in simp)
  ultimately show ?thesis by (simp only: held_spinner_def)
qed

text \<open>A spinner from 0 to 10 in steps of 3.\<close>

definition three_steps :: "int \<Rightarrow> unit spinner" where
  "three_steps k = (new_spinner (string_of_int k) ())\<lparr>sp_max := Some (num_of_int 10), sp_min := Some (num_of_int 0),
     sp_step := Some (num_of_int 3), sp_bound := True\<rparr>"

lemma three_steps_ok: "int_spinner 0 10 3 (three_steps k)" "idle_spinner (three_steps k)"
  "sp_incremental (three_steps k) = Growing" "sp_text (three_steps k) = string_of_int k"
  by (simp_all add: three_steps_def new_spinner_def int_spinner_def idle_spinner_def number_format_def)

theorem held_key_steps_witness:
  "sp_text (run_events (spin_handler (\<lambda>n out. (Inr True, out))) (FieldKeyDown (key_of True) # replicate 1 RepeatDue) (three_steps 0))
    = string_of_int 6"
proof -
  have c: "calm (\<lambda>n out. (Inr True, out))" by (simp add: calm_def)
  have "on_grid 0 10 3 0" by (simp add: on_grid_def)
  from held_key_steps [OF three_steps_ok(1,2) disjI2 [OF three_steps_ok(3)] this three_steps_ok(4) c _ refl, of 1 True]
  show ?thesis
    by (simp add: three_steps_ok held_value_def held_increment_def cubic_def settled_def limit_def snap_def round_quotient_def
        del: run_events.simps)
qed

section \<open>What the last step announces\<close>

lemma top_iff:
  assumes st: "0 < st" "lo \<le> hi"
  shows "settled lo hi st hi = hi \<longleftrightarrow> (hi - lo) mod st = 0 \<or> st \<le> 2 * ((hi - lo) mod st)"
proof -
  define q r where "q = (hi - lo) div st" and "r = (hi - lo) mod st"
  have r: "0 \<le> r" "r < st" using st(1) by (simp_all add: r_def)
  have d: "hi - lo = st * q + r" by (simp add: q_def r_def)
  have "2 * (hi - lo) + st = (2 * r + st) + (2 * st) * q" by (simp add: d algebra_simps)
  then have "round_quotient (hi - lo) st = ((2 * r + st) + (2 * st) * q) div (2 * st)" by (simp only: round_quotient_def)
  also have "\<dots> = q + (2 * r + st) div (2 * st)" by (rule div_mult_self2) (use st(1) in simp)
  finally have "round_quotient (hi - lo) st = q + (2 * r + st) div (2 * st)" .
  moreover have "(2 * r + st) div (2 * st) = (if st \<le> 2 * r then 1 else 0)"
    using r by (auto intro: div_pos_pos_trivial int_div_pos_eq [of _ _ _ "2 * r - st"])
  ultimately have s: "snap lo st hi = (if st \<le> 2 * r then hi - r + st else hi - r)"
    using d by (simp add: snap_def algebra_simps)
  have "0 \<le> st * q"
    using d r st by (simp add: q_def pos_imp_zdiv_nonneg_iff)
  then have "lo \<le> hi - r" using d by linarith
  then show ?thesis using r s by (auto simp: settled_def limit_def r_def [symmetric])
qed

text \<open>The step that passes the maximum announces the maximum to the listeners; but the value that
  the field then shows is rounded to the grid again, so that it is the announced one only when the
  maximum is on the grid or the next value of the grid is not farther from it than the last one.\<close>

theorem last_step_announces_maximum:
  assumes "int_spinner lo hi st s" "idle_spinner s" "sp_incremental s = Steady \<or> sp_incremental s = Growing"
    and "on_grid lo hi st k" "sp_text s = string_of_int k" "calm listen" "hi < k + st"
    and "t = snd (spin_handler listen (FieldKeyDown 38) s)"
  shows "sp_history t = sp_history s @ [(SpinStart, Inr True), (SpinMove (num_of_int hi), Inr True)]"
    "sp_text t = string_of_int hi \<longleftrightarrow> (hi - lo) mod st = 0 \<or> st \<le> 2 * ((hi - lo) mod st)"
proof -
  have st: "0 < st" "lo \<le> hi" using assms(1) by (simp_all add: int_spinner_def)
  obtain d where h: "held_spinner True lo hi st (sp_incremental s) k 1 t"
    "sp_history t = sp_history s @ [(SpinStart, Inr True), (SpinMove (num_of_int (settled lo hi st (k + st))), Inr True)]"
    using held_press [OF assms(1-6), of True] assms(8) by (auto simp: key_of_def)
  have "st dvd k - lo" using assms(4) by (simp add: on_grid_def dvd_eq_mod_eq_0)
  then obtain a where "k - lo = st * a" by (elim dvdE)
  then have a: "k + st = lo + st * (a + 1)" by (simp add: algebra_simps)
  have "settled lo hi st (k + st) = hi"
    using assms(7) settled_grid [OF st, of "a + 1"] unfolding a by (simp add: limit_def)
  then show "sp_history t = sp_history s @ [(SpinStart, Inr True), (SpinMove (num_of_int hi), Inr True)]"
    using h(2) by simp
  have top: "settled lo hi st hi \<le> hi" using limit_range [OF st(2)] by (simp add: settled_def)
  have "held_value True lo hi st (sp_incremental s) k 1 = settled lo hi st hi"
    using top assms(3,7) by (auto simp: held_value_def held_increment_def cubic_def)
  then have t: "sp_text t = string_of_int (settled lo hi st hi)" using h(1) by (simp add: held_spinner_def)
  have inj: "string_of_int x = string_of_int y \<longleftrightarrow> x = y" if "\<bar>x\<bar> < 2 ^ 53" "\<bar>y\<bar> < 2 ^ 53" for x y
    by (metis str_to_num_int [OF that(1)] str_to_num_int [OF that(2)] jsnum.inject of_int_eq_iff)
  have "\<bar>settled lo hi st hi\<bar> < 2 ^ 53" "\<bar>hi\<bar> < 2 ^ 53"
    using settled_small [OF assms(1), of hi] assms(1) by (simp_all add: int_spinner_def)
  from inj [OF this] show "sp_text t = string_of_int hi \<longleftrightarrow> (hi - lo) mod st = 0 \<or> st \<le> 2 * ((hi - lo) mod st)"
    unfolding t top_iff [OF st, symmetric] .
qed

theorem last_step_announces_maximum_witness:
  "sp_history (snd (spin_handler (\<lambda>n out. (Inr True, out)) (FieldKeyDown 38) (three_steps 9))) =
     [(SpinStart, Inr True), (SpinMove (Fin 10), Inr True)] \<and>
   sp_text (snd (spin_handler (\<lambda>n out. (Inr True, out)) (FieldKeyDown 38) (three_steps 9))) \<noteq> string_of_int 10"
proof -
  have c: "calm (\<lambda>n out. (Inr True, out))" by (simp add: calm_def)
  have g: "on_grid 0 10 3 9" by (simp add: on_grid_def)
  have h: "sp_history (three_steps 9) = []" by (simp add: three_steps_def new_spinner_def)
  note at_nine = last_step_announces_maximum [OF three_steps_ok(1,2) disjI2 [OF three_steps_ok(3)] g three_steps_ok(4) c _ refl]
  from at_nine(1) at_nine(2) show ?thesis by (simp add: h)
qed

end
