(* ===== verification/Spec2Isabelle.thy ===== *)
theory Spec2Isabelle
  imports Reader_Timing Page_Props UI_Reader UI_Terminal UI_Widget_Props UI_Factory UI_Position_Props UI_Calendar_Props
    UI_Spinner_Props UI_Spinner_Values
begin

text \<open>
  sshproxyplus records SSH sessions and shows them in the browser, live or again later. This
  library models the part that runs in the browser: the two pages \<open>html/index.html\<close> and
  \<open>html/standalone.html\<close> with their scripts \<open>html/js/*.js\<close>, and the parts of jQuery UI that they
  build on (\<open>html/jquery-ui-1.13.1.custom/jquery-ui.js\<close>).

  \<^bold>\<open>The program.\<close> A page keeps two lists of links, one to the running sessions and one to the recorded
  ones (\<open>lib.js\<close>), which polling sockets and requests fill. The address bar says which session
  plays: \<open>read_hashes\<close> closes what is open, and opens a socket to a live session or requests the
  recorded one. What arrives goes to one \<open>TerminalReader\<close> (\<open>terminal_reader.js\<close>), which holds the
  events of the session and a position in them, waits between the events as long as they were
  apart when they were recorded, writes the output to a terminal and the typed keys to a pane, and
  has controls to play, stop, step, seek and change the speed. Its position is shown by a jQuery UI
  slider, and its terminal sits in a jQuery UI resizable; both talk to the reader by callbacks.

  \<^bold>\<open>How code becomes a definition.\<close> A method is a \<open>stmt\<close> (theory Prelude): a function of the state
  it touches that returns the exception thrown, if any, and the state left behind; nothing is
  rolled back. \<open>block\<close>, \<open>guard\<close>, \<open>bind_val\<close>, \<open>for_each\<close> are the program's sequences, conditions and
  loops. Objects are records, closures are named by what they captured, numbers are doubles
  (\<open>jsnum\<close>), strings are lists of code units. The browser's loop is the locale \<open>event_loop\<close>: events come
  in any order, each handler runs to its end, and an invariant that each handler keeps holds in
  every reachable state.

  \<^bold>\<open>The language.\<close>
  \<^item> JS_Number, JS_Rounding: doubles with rounding, \<open>NaN\<close> and infinities, \<open>toFixed\<close>, \<open>parseFloat\<close>; how
    far a rounded value is from the exact one.
  \<^item> JS_Text, JS_Value, JS_Date: string methods, number and string conversion, the values of
    \<open>JSON.parse\<close>, \<open>toISOString\<close>. Base64: \<open>atob\<close> and the encoding of the server's JSON, which it undoes.

  \<^bold>\<open>The reader\<close> (\<open>terminal_reader.js\<close>).
  \<^item> Keystrokes: \<open>process_keystrokes\<close>; which control characters are labelled, and which reach the pane as
    they are. Newlines: the line ends of \<open>action_event\<close>.
  \<^item> Terminal_Reader: \<open>TerminalEvent\<close> and \<open>TerminalReader\<close>, all methods, on the record \<open>tr\<close>, which also
    has the calls made on the terminal, the panes, the pending timeouts and the clock.
  \<^item> Reader_Frames, Reader_Run: what each method leaves alone; the reader as an event loop and the
    invariant \<open>synced\<close> (the screen shows the events before the position).
  \<^item> Reader_Props, Reader_Timing: what the controls do, a refinement to a position among the
    events, seeking, waiting times, that a replay comes to its end, acknowledgements.

  \<^bold>\<open>The page\<close> (\<open>lib.js\<close>, \<open>live.js\<close>, \<open>standalone.js\<close>).
  \<^item> Session_List, Session_Props: the lists of links (locale \<open>link_store\<close>), what the answers of the
    server do to them, and sessions that do not appear.
  \<^item> Page, Page_Props: sockets, intervals, requests, routing by the address, the start-up code; the
    page as an event loop whose invariants give the two properties at the end of this theory.

  \<^bold>\<open>The widgets\<close> (\<open>jquery-ui.js\<close>).
  \<^item> UI_Options, UI_Widget, UI_Widget_Props: \<open>$.widget.extend\<close> and \<open>option\<close> on trees of plain
    objects; \<open>$.Widget.prototype\<close> with classes, handlers, disabling, triggering and the end of an
    instance; that it leaves no class and no handler behind, and when it does (an option \<open>classes\<close>
    that drops keys, a handler taken off by name).
  \<^item> UI_Factory: \<open>$.widget\<close> and \<open>$.widget.bridge\<close>; wrapped methods and \<open>_super\<close>, which is lexical;
    definitions that replace others; calls through the plugin.
  \<^item> UI_Mouse: \<open>ui.mouse\<close> with the locale \<open>mouse_client\<close>, the contract between it and the widget
    that overrides its four methods.
  \<^item> UI_Slider, UI_Slider_Props: \<open>ui.slider\<close>, all options; the locale \<open>slider_client\<close> states what is asked
    of a listener, and gives bounds and well-formed gestures.
  \<^item> UI_Resizable, UI_Resizable_Props: \<open>ui.resizable\<close> with its extensions, and the locale
    \<open>resizable_client\<close>.
  \<^item> UI_Reader interprets \<open>slider_client\<close> by the reader's listener, UI_Terminal interprets
    \<open>resizable_client\<close>: the properties there are about widget and reader together.

  \<^item> UI_Position, UI_Position_Props: \<open>$.fn.position\<close>, which places menus and dialogs, with its
    collisions \<open>fit\<close>, \<open>flip\<close> and \<open>flipfit\<close>: what fits stays inside, and exactly when a flip is done; on pixels
    with small fractions its arithmetic is exact.
  \<^item> JS_Calendar, UI_Dates, UI_Dates_Props: the calendar of the language with its inverse; \<open>formatDate\<close>,
    \<open>parseDate\<close> and \<open>iso8601Week\<close> of the date picker. A format is a list of tokens, each of which is read as
    it was printed, and so is the whole.
  \<^item> UI_Picker, UI_Calendar, UI_Datepicker: one date picker on the record \<open>picker\<close>: its limits, which may be
    offsets from today (\<open>_determineDate\<close>, \<open>_restrictMinMax\<close>), the calendar it draws as data
    (\<open>_generateHTML\<close>), and its operations, keys, clicks and options, which \<open>picker_handler\<close> runs as events.
    UI_Datepicker_Props, UI_Calendar_Props: the picker as an event loop that keeps its selection within its
    limits, given as dates or not at all, for all events but Enter, disabling and a new format; steps of months
    that stop at a limit; the weeks it draws; that it reads from its input the day that was clicked.
  \<^item> UI_Spinner: \<open>ui.spinner\<close> on the record \<open>spinner\<close>: the field, the options, the pending timeouts and the
    handlers, which \<open>spin_handler\<close> runs as events; Globalize is a parameter. UI_Spinner_Props: the order of its
    events in every run, and a spinner that cannot be stopped. UI_Spinner_Values: with whole numbers for its
    options, what a held key shows; the growing increments, computed in doubles, are a cubic polynomial rounded
    down for a thousand steps.

  \<^bold>\<open>Lemma groups.\<close> \<open>pres_intro\<close>, \<open>frame_intro\<close>, \<open>total_intro\<close> and \<open>wp_simps\<close> (Prelude) prove invariants,
  frames, absence of exceptions and weakest preconditions along the structure of a statement; each
  component adds a collection of its own methods (\<open>synced_intro\<close>, \<open>one_intro\<close>, \<open>room_intro\<close>,
  \<open>fits_intro\<close>, ...), and \<open>step_order\<close> does the same for relations between the state before and
  after. Each property is a few steps over these, and has a witness, a run of the model on
  concrete input in which its hypotheses hold.

  \<^bold>\<open>Bounds.\<close> Loops of the source are recursions with a termination proof. Two functions take a number:
  \<open>exec\<close> the depth of the call stack and \<open>define_widget\<close> the depth of nested redefinitions. At zero
  both throw the \<open>RangeError\<close> of an exhausted stack; \<open>super_is_lexical\<close> holds for every depth, and
  \<open>redefinition_moves_children_once\<close> shows that two levels are enough for a widget whose children
  have none. The loop of \<open>parseDate\<close> over the days of a year ends as a month has days (\<open>doy_loop\<close>), unless it
  compares with \<open>NaN\<close>, which is the result \<open>RunsForever\<close>; the one of \<open>_generateHTML\<close> that goes back to the last
  month allowed ends as the months of a negative year are those of the calendar (\<open>clamp_draw\<close>).

  \<^bold>\<open>Parameters.\<close> What is not under \<open>src\<close> is an argument: the terminal emulator is the list of the calls
  made on it, its fit addon a proposed size (\<open>fit\<close>); the layout of the browser gives the sizes of
  boxes; jQuery's reading of a selector that contains quotes is the argument \<open>sel\<close>, and callbacks
  and listeners of the page are functions. The time zone is a constant number of milliseconds: a date object
  is its local time, and there are no switches of daylight saving.

  \<^bold>\<open>Not modelled.\<close> The proxy and its web server (Go). Code units above 255. jQuery itself beyond the
  methods that are called. Of jQuery UI the widgets and effects that the pages do not use, of
  \<open>$.Widget\<close> method bodies that catch exceptions, the effects of \<open>_show\<close> and \<open>_hide\<close>, attributes that are only removed, and the copy of
  the original event; in \<open>ui.resizable\<close> handles that the element brings along. Of the date picker the HTML text,
  positions and animation, dialogs, trigger buttons, \<open>autoSize\<close>, \<open>beforeShow\<close> and \<open>destroy\<close>, and days
  without a link that are chosen all the same (\<open>selectOtherMonths\<close> without \<open>showOtherMonths\<close>). Of the spinner the height that
  old browsers need and what a field makes of line breaks; its listeners do not call it back. Styles that an
  animation would reach count as set at its start. Functions of \<open>lib.js\<close> inside comments.
\<close>

section \<open>The page, its sockets and its reader together\<close>

text \<open>
  C1. Whatever the user, the sockets, the timers and the answers of the server do, in any order,
  and however often a handler throws: if no event carries undecodable data, the terminal of the
  page shows the output of the events of the reader up to its position, and no more, and no
  output is left unwritten.
\<close>

theorem page_screen_in_step:
  assumes "list_all event_decodable es"
    and "r = reader (run_events page_handler es (start_page alone org base h enc sel fit ww wh now))"
  shows "screen r = concat (map ev_text (take (event_index r) (events r))) \<and>
    event_index r \<le> length (events r) \<and> terminal_buffer r = [] \<and> keystroke_buffer r = []"
proof -
  have "synced r"
    using paging.run_inv [OF assms(1) start_page_ok] assms(2) by (simp add: page_ok_def reader_synced_def)
  then show ?thesis by (simp add: synced_def texts_def take_map)
qed

text \<open>
  Three events of a run on the live page whose address asks for one session: the list socket
  opens, the server lists the session, and the socket of that session opens.
\<close>

definition demo_run :: "page_event list" where
  "demo_run = [SocketOpens 0, SocketReceives 0 ''[{\"key\":\"k1\",\"active\":true}]'', SocketOpens 2,
     SocketReceives 2 ''{\"type\":\"new-message\",\"direction\":\"incoming\",\"data\":\"JCA=\"}'']"

lemma demo_run_decodable: "list_all event_decodable demo_run"
  by code_simp

lemma page_screen_in_step_witness:
  "let r = reader (run_events page_handler demo_run
        (start_page False ''https://host'' ''https://host/'' ''#live&k1'' (\<lambda>h. h) (\<lambda>_. Inl SelectorError)
           demo_fit (Fin 1000) (Fin 800) 5000))
   in screen r = concat (map ev_text (take (event_index r) (events r))) \<and> terminal_buffer r = []"
  using page_screen_in_step [OF demo_run_decodable refl] by (simp add: Let_def)

text \<open>
  C2. In every such run at most one of the page's session sockets is open or opening: the reader
  is never fed by two sessions at a time.
\<close>

theorem one_live_session:
  assumes "list_all event_decodable es"
    and "p = run_events page_handler es (start_page alone org base h enc sel fit ww wh now)"
  shows "length (filter feeding (sockets p)) \<le> 1"
proof -
  have one: "one_session p"
    using paging.run_inv [OF assms(1) start_page_ok] assms(2) by (simp add: page_ok_def)
  let ?F = "{s. s < length (sockets p) \<and> feeding (sockets p ! s)}"
  have "?F \<subseteq> set (map snd (active_session_sockets p))"
    using one by (auto simp: one_session_def image_iff)
  then have "card ?F \<le> length (map snd (active_session_sockets p))"
    by (meson List.finite_set card_length card_mono le_trans)
  then show ?thesis using one by (simp add: length_filter_conv_card one_session_def)
qed

lemma one_live_session_witness:
  "length (filter feeding (sockets (run_events page_handler demo_run
      (start_page False ''https://host'' ''https://host/'' ''#live&k1'' (\<lambda>h. h) (\<lambda>_. Inl SelectorError)
         demo_fit (Fin 1000) (Fin 800) 5000)))) \<le> 1"
  by (rule one_live_session [OF demo_run_decodable refl])

end
